(* ===== verification/Prelude.thy ===== *)
theory Prelude
  imports Main
begin

text \<open>
  Shared vocabulary of the development: the collections of hints the component
  theories use, and generic facts about keyed tables held as lists of rows.  A table
  of the database is a list of rows; a unique index is a function from a row to an
  optional key (\<open>None\<close> when a partial index leaves the row out).
\<close>

named_theorems go_simps "evaluation rules of the Go string and path functions"
named_theorems sql_defs "definitions of the SQL statements"
named_theorems keeps_intros "compositional rules for invariants of monadic code"

section \<open>Keyed tables\<close>

text \<open>\<open>INSERT ... ON CONFLICT (key) DO UPDATE\<close>: replace the row in place, or append it.\<close>

definition upsert_by :: "('r \<Rightarrow> 'k) \<Rightarrow> 'r \<Rightarrow> 'r list \<Rightarrow> 'r list" where
  "upsert_by k x xs =
     (if k x \<in> k ` set xs then map (\<lambda>y. if k y = k x then x else y) xs else xs @ [x])"

lemma keys_upsert_by_present:
  "k x \<in> k ` set xs \<Longrightarrow> map k (upsert_by k x xs) = map k xs"
  by (auto simp: upsert_by_def)

lemma keys_upsert_by: "k ` set (upsert_by k x xs) = insert (k x) (k ` set xs)"
  by (auto simp: upsert_by_def split: if_splits)

lemma distinct_upsert_by:
  assumes "distinct (map k xs)"
  shows "distinct (map k (upsert_by k x xs))"
proof (cases "k x \<in> k ` set xs")
  case True
  then show ?thesis using assms by (simp add: keys_upsert_by_present)
next
  case False
  then show ?thesis using assms by (auto simp: upsert_by_def)
qed

lemma set_upsert_by:
  "set (upsert_by k x xs) = insert x {y \<in> set xs. k y \<noteq> k x}"
  by (auto simp: upsert_by_def image_iff)

lemma list_all_upsert_by:
  "P x \<Longrightarrow> (\<And>y. y \<in> set xs \<Longrightarrow> P y) \<Longrightarrow> y \<in> set (upsert_by k x xs) \<Longrightarrow> P y"
  by (auto simp: set_upsert_by)

text \<open>The row a unique key names, and what an upsert does to it.\<close>

lemma find_upsert_by:
  "List.find (\<lambda>r. k r = a) (upsert_by k x xs) =
     (if a = k x then Some x else List.find (\<lambda>r. k r = a) xs)"
proof -
  have other: "a \<noteq> k x \<Longrightarrow>
      List.find (\<lambda>r. k r = a) (map (\<lambda>y. if k y = k x then x else y) ys) =
      List.find (\<lambda>r. k r = a) ys" for ys
    by (induction ys) auto
  have same: "k x \<in> k ` set ys \<Longrightarrow>
      List.find (\<lambda>r. k r = k x) (map (\<lambda>y. if k y = k x then x else y) ys) = Some x" for ys
    by (induction ys) auto
  have absent: "k x \<notin> k ` set ys \<Longrightarrow>
      List.find (\<lambda>r. k r = b) (ys @ [x]) =
      (if b = k x then Some x else List.find (\<lambda>r. k r = b) ys)" for b ys
    by (induction ys) auto
  show ?thesis
    by (cases "a = k x") (simp_all add: upsert_by_def other same absent)
qed

lemma find_filter_conj:
  "List.find P (filter Q xs) = List.find (\<lambda>x. Q x \<and> P x) xs"
  by (induction xs) auto

lemma find_cong_set:
  "(\<And>x. x \<in> set xs \<Longrightarrow> P x = Q x) \<Longrightarrow> List.find P xs = List.find Q xs"
  by (induction xs) auto

lemma find_None_set: "List.find P xs = None \<longleftrightarrow> (\<forall>x \<in> set xs. \<not> P x)"
  by (induction xs) auto

lemma find_SomeD: "List.find P xs = Some x \<Longrightarrow> x \<in> set xs \<and> P x"
  by (induction xs) (auto split: if_splits)

lemma find_unique_key:
  "distinct (map k xs) \<Longrightarrow> r \<in> set xs \<Longrightarrow> List.find (\<lambda>x. k x = k r) xs = Some r"
  by (induction xs) (auto simp: rev_image_eqI)

lemma distinct_map_inj:
  "distinct (map k xs) \<Longrightarrow> x \<in> set xs \<Longrightarrow> y \<in> set xs \<Longrightarrow> k x = k y \<Longrightarrow> x = y"
  by (auto simp: distinct_map inj_on_def)

section \<open>Updating the rows that match\<close>

text \<open>\<open>UPDATE ... WHERE\<close> without a touched key: the matching rows are rewritten in place.\<close>

definition update_where :: "('r \<Rightarrow> bool) \<Rightarrow> ('r \<Rightarrow> 'r) \<Rightarrow> 'r list \<Rightarrow> 'r list" where
  "update_where P f xs = map (\<lambda>r. if P r then f r else r) xs"

lemma set_update_where:
  "set (update_where P f xs) = f ` {r \<in> set xs. P r} \<union> {r \<in> set xs. \<not> P r}"
  by (auto simp: update_where_def)

lemma map_update_where_same:
  "(\<And>r. P r \<Longrightarrow> k (f r) = k r) \<Longrightarrow> map k (update_where P f xs) = map k xs"
  by (auto simp: update_where_def)

lemma update_where_none: "(\<And>r. r \<in> set xs \<Longrightarrow> \<not> P r) \<Longrightarrow> update_where P f xs = xs"
  by (induction xs) (auto simp: update_where_def)

text \<open>
  \<open>UPDATE ... WHERE\<close> that rewrites a uniquely indexed column.  PostgreSQL checks a unique
  index row by row, so a row may collide with one the statement has not reached yet;
  \<open>None\<close> is that unique violation, and the whole statement fails.
\<close>

fun rekey_rows :: "('r \<Rightarrow> 'k option) \<Rightarrow> ('r \<Rightarrow> bool) \<Rightarrow> ('r \<Rightarrow> 'r) \<Rightarrow> 'r list \<Rightarrow> 'r list \<Rightarrow> 'r list option" where
  "rekey_rows k P f seen [] = Some seen"
| "rekey_rows k P f seen (r # rs) =
     (if P r then
        (if k (f r) \<noteq> None \<and> k (f r) \<in> k ` set (seen @ rs) then None
         else rekey_rows k P f (seen @ [f r]) rs)
      else rekey_rows k P f (seen @ [r]) rs)"

lemma rekey_rows_result:
  "rekey_rows k P f seen rs = Some out \<Longrightarrow> out = seen @ update_where P f rs"
  by (induction k P f seen rs arbitrary: out rule: rekey_rows.induct)
    (auto simp: update_where_def split: if_splits)

definition index_ok :: "('r \<Rightarrow> 'k option) \<Rightarrow> 'r list \<Rightarrow> bool" where
  "index_ok k rs = distinct (filter (\<lambda>x. x \<noteq> None) (map k rs))"

lemma index_ok_Nil [simp]: "index_ok k []"
  by (simp add: index_ok_def)

lemma index_ok_Cons [simp]:
  "index_ok k (r # rs) \<longleftrightarrow> index_ok k rs \<and> (k r = None \<or> k r \<notin> k ` set rs)"
  by (auto simp: index_ok_def)

lemma index_ok_append:
  "index_ok k (rs @ ss) \<longleftrightarrow> index_ok k rs \<and> index_ok k ss \<and>
     (\<forall>r \<in> set rs. k r \<noteq> None \<longrightarrow> k r \<notin> k ` set ss)"
  by (induction rs) auto

lemma index_ok_remove: "index_ok k (rs @ r # ss) \<Longrightarrow> index_ok k (rs @ ss)"
  by (auto simp: index_ok_append)

lemma index_ok_insert:
  assumes "index_ok k (rs @ ss)" "k r = None \<or> k r \<notin> k ` set (rs @ ss)"
  shows "index_ok k (rs @ r # ss)"
  using assms by (force simp: index_ok_append)

lemma index_ok_filter: "index_ok k rs \<Longrightarrow> index_ok k (filter P rs)"
  by (induction rs) auto

lemma index_ok_inj:
  "index_ok k rs \<Longrightarrow> x \<in> set rs \<Longrightarrow> y \<in> set rs \<Longrightarrow> k x = Some a \<Longrightarrow> k y = Some a \<Longrightarrow> x = y"
  by (induction rs) (auto simp: image_iff)

text \<open>Rewriting rows so that each keeps its key or leaves the index keeps the index.\<close>

lemma index_ok_map_shrink:
  assumes "index_ok k rs" "\<And>r. r \<in> set rs \<Longrightarrow> k (f r) = k r \<or> k (f r) = None"
  shows "index_ok k (map f rs)"
  using assms
proof (induction rs)
  case Nil
  then show ?case by simp
next
  case (Cons r rs)
  have "k (f r) = None \<or> k (f r) \<notin> k ` set (map f rs)"
  proof (cases "k (f r) = None")
    case False
    with Cons.prems(2) have eq: "k (f r) = k r" by force
    have "k (f r) \<noteq> k (f s)" if "s \<in> set rs" for s
    proof (cases "k (f s) = None")
      case True
      with False show ?thesis by simp
    next
      case F: False
      with Cons.prems(2) that have "k (f s) = k s" by force
      with Cons.prems(1) False eq that show ?thesis by (auto simp: image_iff)
    qed
    then show ?thesis by auto
  qed simp
  moreover have "index_ok k (map f rs)" using Cons by auto
  ultimately show ?case by simp
qed

lemma index_ok_update_where:
  "index_ok k rs \<Longrightarrow> (\<And>r. r \<in> set rs \<Longrightarrow> P r \<Longrightarrow> k (f r) = k r \<or> k (f r) = None) \<Longrightarrow>
     index_ok k (update_where P f rs)"
  unfolding update_where_def by (rule index_ok_map_shrink) auto

lemma rekey_rows_index:
  "index_ok k (seen @ rs) \<Longrightarrow> rekey_rows k P f seen rs = Some out \<Longrightarrow> index_ok k out"
proof (induction k P f seen rs arbitrary: out rule: rekey_rows.induct)
  case (1 k P f seen)
  then show ?case by simp
next
  case (2 k P f seen r rs)
  show ?case
  proof (cases "P r")
    case True
    with "2.prems"(2) have free: "k (f r) = None \<or> k (f r) \<notin> k ` set (seen @ rs)"
      and next_step: "rekey_rows k P f (seen @ [f r]) rs = Some out"
      by (auto split: if_splits)
    from "2.prems"(1) have "index_ok k (seen @ rs)" by (rule index_ok_remove)
    then have "index_ok k (seen @ f r # rs)" using free by (rule index_ok_insert)
    with True free next_step "2.IH"(1) show ?thesis by auto
  next
    case False
    with "2.prems" "2.IH"(2) show ?thesis by simp
  qed
qed

text \<open>
  No collision can happen when every new key is outside the table and no two rows get the
  same one: the statement succeeds in whatever order the rows are visited.
\<close>

lemma rekey_rows_succeeds:
  assumes "\<And>r. r \<in> set rs \<Longrightarrow> P r \<Longrightarrow> k (f r) = None \<or> k (f r) \<notin> k ` (set seen \<union> set rs)"
    and "index_ok k (map f (filter P rs))"
  shows "rekey_rows k P f seen rs \<noteq> None"
  using assms
proof (induction rs arbitrary: seen)
  case Nil
  then show ?case by simp
next
  case (Cons r rs)
  show ?case
  proof (cases "P r")
    case True
    have hit: "k (f s) = None \<or> k (f s) \<notin> k ` (set (seen @ [f r]) \<union> set rs)"
      if "s \<in> set rs" "P s" for s
    proof -
      have "k (f s) = None \<or> k (f s) \<notin> k ` (set seen \<union> set rs)"
        using Cons.prems(1) [of s] that by auto
      moreover have "k (f s) = None \<or> k (f s) \<noteq> k (f r)"
        using Cons.prems(2) True that by (force simp: image_iff)
      ultimately show ?thesis by auto
    qed
    have "index_ok k (map f (filter P rs))" using Cons.prems(2) True by simp
    with hit have "rekey_rows k P f (seen @ [f r]) rs \<noteq> None"
      by (intro Cons.IH) auto
    moreover have "k (f r) = None \<or> k (f r) \<notin> k ` set (seen @ rs)"
      using Cons.prems(1) [of r] True by auto
    ultimately show ?thesis using True by auto
  next
    case False
    have "rekey_rows k P f (seen @ [r]) rs \<noteq> None"
    proof (rule Cons.IH)
      fix s assume "s \<in> set rs" "P s"
      then show "k (f s) = None \<or> k (f s) \<notin> k ` (set (seen @ [r]) \<union> set rs)"
        using Cons.prems(1) [of s] by auto
    next
      show "index_ok k (map f (filter P rs))" using Cons.prems(2) False by simp
    qed
    with False show ?thesis by simp
  qed
qed

section \<open>First row in an order\<close>

text \<open>\<open>ORDER BY key LIMIT 1\<close>.\<close>

definition first_by :: "('r \<Rightarrow> 'k::linorder) \<Rightarrow> ('r \<Rightarrow> bool) \<Rightarrow> 'r list \<Rightarrow> 'r option" where
  "first_by k P rs = (case sort_key k (filter P rs) of [] \<Rightarrow> None | r # _ \<Rightarrow> Some r)"

lemma first_by_Some:
  assumes "first_by k P rs = Some r"
  shows "r \<in> set rs" "P r" "\<And>s. s \<in> set rs \<Longrightarrow> P s \<Longrightarrow> k r \<le> k s"
proof -
  from assms obtain ss where ss: "sort_key k (filter P rs) = r # ss"
    by (auto simp: first_by_def split: list.splits)
  then have set_eq: "set (r # ss) = {x \<in> set rs. P x}"
    by (metis set_filter set_sort)
  then show "r \<in> set rs" "P r" by auto
  have "sorted (map k (r # ss))" by (metis ss sorted_sort_key)
  then show "k r \<le> k s" if "s \<in> set rs" "P s" for s
    using set_eq that by auto
qed

lemma first_by_None: "first_by k P rs = None \<longleftrightarrow> (\<forall>r \<in> set rs. \<not> P r)"
proof -
  have "first_by k P rs = None \<longleftrightarrow> sort_key k (filter P rs) = []"
    by (simp add: first_by_def split: list.splits)
  also have "\<dots> \<longleftrightarrow> filter P rs = []"
    by (metis set_empty set_sort)
  finally show ?thesis by (simp add: filter_empty_conv)
qed

end
