(* ===== verification/GoText.thy ===== *)
theory GoText
  imports Prelude "HOL-Library.Sublist" "HOL-Library.List_Lexorder" "HOL-Library.Char_ord"
begin

text \<open>
  The functions of Go's \<open>strings\<close> and \<open>path/filepath\<close> packages the program calls, on byte
  strings (a Go string is a sequence of bytes, and so is HOL's \<open>string\<close>).  Where Go
  consults Unicode tables (\<open>ToLower\<close> on a string with a non-ASCII byte) the table is a
  parameter; \<open>TrimSpace\<close> lists the UTF-8 encodings of the Unicode white space itself.
\<close>

section \<open>Package strings\<close>

definition has_prefix :: "string \<Rightarrow> string \<Rightarrow> bool" where
  "has_prefix s p = (take (length p) s = p)"

definition has_suffix :: "string \<Rightarrow> string \<Rightarrow> bool" where
  "has_suffix s p = (length p \<le> length s \<and> drop (length s - length p) s = p)"

definition trim_prefix :: "string \<Rightarrow> string \<Rightarrow> string" where
  "trim_prefix s p = (if has_prefix s p then drop (length p) s else s)"

definition trim_suffix :: "string \<Rightarrow> string \<Rightarrow> string" where
  "trim_suffix s p = (if has_suffix s p then take (length s - length p) s else s)"

text \<open>\<open>strings.Index\<close>: the first position of a substring, \<open>None\<close> for Go's -1.\<close>

fun str_index :: "string \<Rightarrow> string \<Rightarrow> nat option" where
  "str_index s sub =
     (if has_prefix s sub then Some 0
      else case s of [] \<Rightarrow> None | _ # cs \<Rightarrow> map_option Suc (str_index cs sub))"

declare str_index.simps [simp del]

text \<open>\<open>strings.Cut\<close>: the text before and after the first separator.\<close>

definition str_cut :: "string \<Rightarrow> string \<Rightarrow> string \<times> string \<times> bool" where
  "str_cut s sep = (case str_index s sep of
      None \<Rightarrow> (s, [], False)
    | Some i \<Rightarrow> (take i s, drop (i + length sep) s, True))"

lemma has_prefix_iff: "has_prefix s p \<longleftrightarrow> (\<exists>t. s = p @ t)"
  by (metis append_take_drop_id append_eq_conv_conj has_prefix_def)

lemma has_prefix_append [simp]: "has_prefix (p @ t) p"
  by (simp add: has_prefix_def)

lemma has_prefix_Nil [simp]: "has_prefix s []"
  by (simp add: has_prefix_def)

lemma has_prefix_refl [simp]: "has_prefix s s"
  by (simp add: has_prefix_def)

lemma has_prefix_append_cancel [simp]: "has_prefix (a @ s) (a @ p) = has_prefix s p"
  by (simp add: has_prefix_def)

lemma has_prefix_length: "has_prefix s p \<Longrightarrow> length p \<le> length s"
  by (auto simp: has_prefix_iff)

lemma has_prefix_trans: "has_prefix s p \<Longrightarrow> has_prefix p q \<Longrightarrow> has_prefix s q"
  by (auto simp: has_prefix_iff)

lemma has_prefix_same_length:
  "has_prefix s p \<Longrightarrow> has_prefix s q \<Longrightarrow> length p = length q \<Longrightarrow> p = q"
  by (auto simp: has_prefix_def)

lemma has_prefix_comparable:
  "has_prefix s p \<Longrightarrow> has_prefix s q \<Longrightarrow> length p \<le> length q \<Longrightarrow> has_prefix q p"
  by (metis has_prefix_def min.absorb1 take_take)

lemma has_suffix_iff: "has_suffix s p \<longleftrightarrow> (\<exists>t. s = t @ p)"
proof
  assume "has_suffix s p"
  then show "\<exists>t. s = t @ p"
    by (metis append_take_drop_id has_suffix_def)
qed (auto simp: has_suffix_def)

lemma trim_suffix_append [simp]: "trim_suffix (t @ p) p = t"
  by (auto simp: trim_suffix_def has_suffix_iff)

lemma str_index_Some:
  "str_index s sub = Some i \<Longrightarrow> s = take i s @ sub @ drop (i + length sub) s \<and> i + length sub \<le> length s"
proof (induction s arbitrary: i)
  case Nil
  then show ?case
    by (subst (asm) str_index.simps) (auto simp: has_prefix_def split: if_splits)
next
  case (Cons c cs)
  show ?case
  proof (cases "has_prefix (c # cs) sub")
    case True
    with Cons.prems have "i = 0"
      by (subst (asm) str_index.simps) simp
    then show ?thesis
      using True has_prefix_length [OF True] by (auto simp: has_prefix_iff)
  next
    case False
    with Cons.prems obtain j where j: "str_index cs sub = Some j" "i = Suc j"
      by (subst (asm) str_index.simps) auto
    from Cons.IH [OF j(1)] j(2) show ?thesis by simp
  qed
qed

lemma str_index_None: "str_index s sub = None \<Longrightarrow> \<not> has_prefix (drop i s) sub \<or> length s < i"
proof (induction s arbitrary: i)
  case Nil
  then show ?case
    by (subst (asm) str_index.simps) (auto split: if_splits)
next
  case (Cons c cs)
  then have "\<not> has_prefix (c # cs) sub" "str_index cs sub = None"
    by (subst (asm) (2) str_index.simps; simp split: if_splits)+
  then show ?case
    using Cons.IH by (cases i) auto
qed

subsection \<open>Case and white space\<close>

definition is_ascii :: "char \<Rightarrow> bool" where
  "is_ascii c = (of_char c < (128::nat))"

definition ascii_lower :: "char \<Rightarrow> char" where
  "ascii_lower c = (let n = (of_char c :: nat) in
     if 65 \<le> n \<and> n \<le> 90 then char_of (n + 32) else c)"

text \<open>
  \<open>strings.ToLower\<close>: a byte map on ASCII strings, the Unicode case tables (the parameter)
  on any other.
\<close>

definition to_lower :: "(string \<Rightarrow> string) \<Rightarrow> string \<Rightarrow> string" where
  "to_lower uni s = (if list_all is_ascii s then map ascii_lower s else uni s)"

text \<open>The UTF-8 encodings of the code points \<open>unicode.IsSpace\<close> accepts.\<close>

definition space_encodings :: "string list" where
  "space_encodings =
     [[CHR 0x09], [CHR 0x0A], [CHR 0x0B], [CHR 0x0C], [CHR 0x0D], [CHR 0x20],
      [CHR 0xC2, CHR 0x85], [CHR 0xC2, CHR 0xA0], [CHR 0xE1, CHR 0x9A, CHR 0x80],
      [CHR 0xE2, CHR 0x80, CHR 0x80], [CHR 0xE2, CHR 0x80, CHR 0x81],
      [CHR 0xE2, CHR 0x80, CHR 0x82], [CHR 0xE2, CHR 0x80, CHR 0x83],
      [CHR 0xE2, CHR 0x80, CHR 0x84], [CHR 0xE2, CHR 0x80, CHR 0x85],
      [CHR 0xE2, CHR 0x80, CHR 0x86], [CHR 0xE2, CHR 0x80, CHR 0x87],
      [CHR 0xE2, CHR 0x80, CHR 0x88], [CHR 0xE2, CHR 0x80, CHR 0x89],
      [CHR 0xE2, CHR 0x80, CHR 0x8A], [CHR 0xE2, CHR 0x80, CHR 0xA8],
      [CHR 0xE2, CHR 0x80, CHR 0xA9], [CHR 0xE2, CHR 0x80, CHR 0xAF],
      [CHR 0xE2, CHR 0x81, CHR 0x9F], [CHR 0xE3, CHR 0x80, CHR 0x80]]"

lemma space_encodings_nonempty: "e \<in> set space_encodings \<Longrightarrow> e \<noteq> []"
  by (auto simp: space_encodings_def)

function trim_left_space :: "string \<Rightarrow> string" where
  "trim_left_space s = (case List.find (has_prefix s) space_encodings of
      None \<Rightarrow> s
    | Some e \<Rightarrow> trim_left_space (drop (length e) s))"
  by pat_completeness auto
termination
proof (relation "measure length")
  fix s e
  assume "List.find (has_prefix s) space_encodings = Some e"
  then have "e \<in> set space_encodings" "has_prefix s e"
    by (auto dest: find_SomeD)
  then have "e \<noteq> []" "has_prefix s e"
    using space_encodings_nonempty by auto
  then show "(drop (length e) s, s) \<in> measure length"
    by (cases s) (auto simp: has_prefix_def)
qed simp

declare trim_left_space.simps [simp del]

function trim_right_space :: "string \<Rightarrow> string" where
  "trim_right_space s = (case List.find (has_suffix s) space_encodings of
      None \<Rightarrow> s
    | Some e \<Rightarrow> trim_right_space (take (length s - length e) s))"
  by pat_completeness auto
termination
proof (relation "measure length")
  fix s e
  assume "List.find (has_suffix s) space_encodings = Some e"
  then have "e \<in> set space_encodings" "has_suffix s e"
    by (auto dest: find_SomeD)
  then have "e \<noteq> []" "has_suffix s e"
    using space_encodings_nonempty by auto
  then show "(take (length s - length e) s, s) \<in> measure length"
    by (cases s) (auto simp: has_suffix_def)
qed simp

declare trim_right_space.simps [simp del]

definition trim_space :: "string \<Rightarrow> string" where
  "trim_space s = trim_right_space (trim_left_space s)"

section \<open>Package path/filepath\<close>

abbreviation slash :: char where "slash \<equiv> CHR ''/''"
abbreviation dot :: char where "dot \<equiv> CHR ''.''"

definition strip_trailing_slashes :: "string \<Rightarrow> string" where
  "strip_trailing_slashes p = rev (dropWhile (\<lambda>c. c = slash) (rev p))"

text \<open>\<open>filepath.Base\<close> (and \<open>path.Base\<close>): the last element, \<open>.\<close> and \<open>/\<close> in the corners.\<close>

definition path_base :: "string \<Rightarrow> string" where
  "path_base p =
     (if p = [] then ''.''
      else let q = strip_trailing_slashes p;
               b = rev (takeWhile (\<lambda>c. c \<noteq> slash) (rev q))
           in if b = [] then ''/'' else b)"

text \<open>\<open>filepath.Ext\<close>: from the last dot of the last element, empty without one.\<close>

definition path_ext :: "string \<Rightarrow> string" where
  "path_ext p =
     (let tail = takeWhile (\<lambda>c. c \<noteq> dot \<and> c \<noteq> slash) (rev p)
      in case drop (length tail) (rev p) of
           [] \<Rightarrow> []
         | c # _ \<Rightarrow> if c = dot then dot # rev tail else [])"

text \<open>\<open>filepath.Clean\<close>: lexical processing of the elements between slashes.\<close>

fun split_slash :: "string \<Rightarrow> string \<Rightarrow> string list" where
  "split_slash acc [] = [rev acc]"
| "split_slash acc (c # cs) =
     (if c = slash then rev acc # split_slash [] cs else split_slash (c # acc) cs)"

fun join_slash :: "string list \<Rightarrow> string" where
  "join_slash [] = []"
| "join_slash [x] = x"
| "join_slash (x # y # zs) = x @ slash # join_slash (y # zs)"

fun clean_step :: "bool \<Rightarrow> string list \<Rightarrow> string \<Rightarrow> string list" where
  "clean_step rooted stack c =
     (if c = [] \<or> c = ''.'' then stack
      else if c = ''..'' then
        (case stack of
           [] \<Rightarrow> if rooted then [] else [''..'']
         | t # ts \<Rightarrow> if t = ''..'' then ''..'' # stack else ts)
      else c # stack)"

definition path_clean :: "string \<Rightarrow> string" where
  "path_clean p =
     (let rooted = has_prefix p ''/'';
          elems = rev (foldl (clean_step rooted) [] (split_slash [] p))
      in if rooted then slash # join_slash elems
         else if elems = [] then ''.'' else join_slash elems)"

text \<open>The string every path strictly beneath a directory starts with.\<close>

definition subtree_prefix :: "string \<Rightarrow> string" where
  "subtree_prefix dir = trim_suffix dir ''/'' @ ''/''"

lemma subtree_prefix_nonempty [simp]: "subtree_prefix d \<noteq> []"
  by (simp add: subtree_prefix_def)

lemma subtree_prefix_ends: "has_suffix (subtree_prefix d) ''/''"
  by (auto simp: subtree_prefix_def has_suffix_iff)

text \<open>A directory is never beneath itself, unless it is written with a trailing slash.\<close>

lemma subtree_prefix_not_self:
  assumes "\<not> has_suffix d ''/''"
  shows "\<not> has_prefix d (subtree_prefix d)"
proof
  assume "has_prefix d (subtree_prefix d)"
  then have "length (subtree_prefix d) \<le> length d" by (rule has_prefix_length)
  then show False using assms by (simp add: subtree_prefix_def trim_suffix_def)
qed

end
