(* ===== verification/GoNumbers.thy ===== *)
theory GoNumbers
  imports Complex_Main GoText "HOL-Library.Word"
begin

text \<open>
  The functions of Go's \<open>strconv\<close> (and the \<open>%d\<close> of \<open>fmt\<close>) the program calls, on decimal
  numbers, with the ranges \<open>ParseInt\<close> and \<open>ParseUint\<close> enforce; and decoded JSON values.
\<close>

section \<open>Formatting\<close>

definition digit :: "int \<Rightarrow> char" where "digit n = char_of (48 + n)"

function show_nat :: "int \<Rightarrow> string" where
  "show_nat n = (if n < 10 then [digit n] else show_nat (n div 10) @ [digit (n mod 10)])"
  by pat_completeness auto

termination by (relation "measure nat") auto

declare show_nat.simps [simp del]

text \<open>\<open>strconv.FormatInt(i, 10)\<close>.\<close>

definition FormatInt :: "int \<Rightarrow> string" where
  "FormatInt i = (if i < 0 then CHR ''-'' # show_nat (- i) else show_nat i)"

section \<open>Parsing\<close>

definition is_digit :: "char \<Rightarrow> bool" where
  "is_digit c \<longleftrightarrow> (48::int) \<le> of_char c \<and> of_char c \<le> (57::int)"

definition dec_value :: "string \<Rightarrow> int" where
  "dec_value s = foldl (\<lambda>a c. 10 * a + (of_char c - 48)) 0 s"

text \<open>The digits alone: at least one, and nothing else.\<close>

definition parse_digits :: "string \<Rightarrow> int option" where
  "parse_digits s = (if s \<noteq> [] \<and> list_all is_digit s then Some (dec_value s) else None)"

text \<open>
  \<open>strconv.ParseInt(s, 10, 64)\<close>: \<open>None\<close> for a syntax or a range error.  The bound is \<open>2 ^ 63\<close>.
\<close>

definition int64_bound :: int where "int64_bound = 9223372036854775808"

definition ParseInt :: "string \<Rightarrow> int option" where
  "ParseInt s =
     (let neg = has_prefix s ''-'';
          body = (if neg \<or> has_prefix s ''+'' then tl s else s)
      in case parse_digits body of
           None \<Rightarrow> None
         | Some n \<Rightarrow>
             if \<not> neg \<and> int64_bound \<le> n then None
             else if neg \<and> int64_bound < n then None
             else Some (if neg then - n else n))"

text \<open>\<open>strconv.ParseUint(s, 10, 32)\<close>.\<close>

definition ParseUint32 :: "string \<Rightarrow> int option" where
  "ParseUint32 s = (case parse_digits s of None \<Rightarrow> None | Some n \<Rightarrow> if n < 4294967296 then Some n else None)"

section \<open>What is printed parses back\<close>

lemma of_char_digit:
  assumes "0 \<le> n" "n < 10"
  shows "of_char (digit n) = (48 + n :: int)"
  using assms by (simp add: digit_def)

lemma is_digit_digit [simp]: "0 \<le> n \<Longrightarrow> n < 10 \<Longrightarrow> is_digit (digit n)"
  by (simp add: is_digit_def of_char_digit)

lemma dec_value_append: "dec_value (s @ [c]) = 10 * dec_value s + (of_char c - 48)"
  by (simp add: dec_value_def)

lemma show_nat_digits: "0 \<le> n \<Longrightarrow> list_all is_digit (show_nat n) \<and> show_nat n \<noteq> []"
proof (induction n rule: show_nat.induct)
  case (1 n)
  then show ?case by (subst (1 2) show_nat.simps) auto
qed

lemma dec_value_show_nat [simp]: "0 \<le> n \<Longrightarrow> dec_value (show_nat n) = n"
proof (induction n rule: show_nat.induct)
  case (1 n)
  show ?case
  proof (cases "n < 10")
    case True
    with 1(2) show ?thesis by (simp add: show_nat.simps [of n] dec_value_def of_char_digit)
  next
    case False
    with 1 show ?thesis
      by (simp add: show_nat.simps [of n] dec_value_append of_char_digit)
  qed
qed

lemma parse_show_nat [simp]: "0 \<le> n \<Longrightarrow> parse_digits (show_nat n) = Some n"
  using show_nat_digits [of n] by (simp add: parse_digits_def)

lemma show_nat_inj: "0 \<le> m \<Longrightarrow> 0 \<le> n \<Longrightarrow> show_nat m = show_nat n \<Longrightarrow> m = n"
  by (metis dec_value_show_nat)

lemma show_nat_char: "0 \<le> n \<Longrightarrow> c \<in> set (show_nat n) \<Longrightarrow> is_digit c"
  using show_nat_digits [of n] by (auto simp: list_all_iff)

lemma show_nat_head:
  assumes "0 \<le> n"
  shows "\<not> has_prefix (show_nat n) ''-'' \<and> \<not> has_prefix (show_nat n) ''+''"
proof -
  obtain c cs where c: "show_nat n = c # cs" using show_nat_digits [OF assms] by (cases "show_nat n") auto
  then have "is_digit c" using show_nat_char [of n c] assms by simp
  then have "c \<noteq> CHR ''-'' \<and> c \<noteq> CHR ''+''" by (auto simp: is_digit_def)
  with c show ?thesis by (simp add: has_prefix_def)
qed

lemma ParseInt_FormatInt:
  assumes "- (2 ^ 63) \<le> i" "i < 2 ^ 63"
  shows "ParseInt (FormatInt i) = Some i"
proof (cases "i < 0")
  case True
  with assms(1) show ?thesis by (simp add: ParseInt_def FormatInt_def has_prefix_def Let_def int64_bound_def)
next
  case False
  with show_nat_head [of i] assms(2) show ?thesis
    by (simp add: ParseInt_def FormatInt_def Let_def int64_bound_def)
qed

lemma dec_value_nonneg: "list_all is_digit t \<Longrightarrow> 0 \<le> dec_value t"
proof (induction t rule: rev_induct)
  case Nil
  show ?case by (simp add: dec_value_def)
next
  case (snoc c t)
  then show ?case by (simp add: dec_value_append is_digit_def)
qed

lemma ParseInt_range:
  assumes "ParseInt s = Some i"
  shows "- (2 ^ 63) \<le> i \<and> i < 2 ^ 63"
  using assms dec_value_nonneg [of "tl s"] dec_value_nonneg [of s]
  by (simp add: ParseInt_def parse_digits_def Let_def int64_bound_def split: if_splits)

text \<open>Splitting at a separator that neither side's digits contain.\<close>

lemma digits_then_inj:
  assumes "show_nat m @ c # s = show_nat n @ c # t" "\<not> is_digit c" "0 \<le> m" "0 \<le> n"
  shows "m = n \<and> s = t"
proof -
  have "takeWhile is_digit (show_nat k @ c # u) = show_nat k" if "0 \<le> k" for k u
    using show_nat_char [OF that] assms(2) by (simp add: takeWhile_append2)
  with assms have "show_nat m = show_nat n" by metis
  with assms show_nat_inj show ?thesis by auto
qed

section \<open>Decoded JSON\<close>

text \<open>
  A decoded value as the code's type switches and its \<open>json.Unmarshal\<close> calls see it; a number
  is the \<open>float64\<close> it was decoded to.  \<open>json_fields\<close> is \<open>json.Unmarshal\<close> into a
  \<open>map[string]json.RawMessage\<close>, which fails or yields the object's fields.
\<close>

datatype json = JNumber rat | JString string | JArray "json list" | JNull | JOther

type_synonym json_fields = "string \<Rightarrow> (string \<times> json) list option"

end
