(* ===== verification/Database.thy ===== *)
theory Database
  imports Prelude
begin

text \<open>
  The PostgreSQL state the program keeps: one record per table row
  (\<open>internal/store/sqlcgen/models.go\<close>, \<open>internal/store/migrations\<close>), the database as
  the record of its tables, and the constraints the migrations declare.  Identifiers and
  sizes are Go \<open>int64\<close> values that are only stored and compared, held as \<open>int\<close>; a
  \<open>timestamptz\<close> is a count of microseconds.  Sequences live outside the database
  record because PostgreSQL does not roll them back.
\<close>

section \<open>Rows\<close>

record mountpoint_row =
  m_id :: int
  m_root_path :: string
  m_enabled :: bool
  m_created_at :: int
  m_updated_at :: int

record obs_row =
  o_mountpoint_id :: int
  o_path :: string
  o_size :: int
  o_mode :: int
  o_mtime :: "int option"
  o_ino :: int
  o_dev :: int
  o_is_dir :: bool
  o_seen_epoch :: int
  o_observed_at :: int

record cv_row =
  cv_id :: int
  cv_content_hash :: string
  cv_size_bytes :: int
  cv_created_at :: int

record doc_row =
  d_id :: int
  d_mountpoint_id :: int
  d_path :: string
  d_dev :: int
  d_ino :: int
  d_current_cv :: "int option"
  d_deleted_at :: "int option"
  d_first_seen_at :: int
  d_updated_at :: int

record ex_row =
  ex_cv_id :: int
  ex_status :: string
  ex_text :: string
  ex_metadata :: string
  ex_content_type :: "string option"
  ex_error :: "string option"
  ex_extracted_at :: "int option"
  ex_updated_at :: int

record th_row =
  th_id :: int
  th_cv_id :: int
  th_page :: int
  th_width :: int
  th_height :: int
  th_format :: string
  th_object_key :: string
  th_size_bytes :: int
  th_created_at :: int
  th_last_access_at :: int
  th_pending_delete_at :: "int option"

section \<open>Jobs\<close>

text \<open>
  The arguments of the River jobs (\<open>internal/jobs/jobs.go\<close>).  The queue itself is a
  third-party package: what the model keeps is the sequence of \<open>InsertTx\<close> requests the
  transaction carries, which commit or roll back with it.
\<close>

datatype job_args =
    IngestPathArgs (ja_mountpoint: int) (ja_path: string) (ja_trigger: string)
  | ExtractArgs (ja_content_version: int)
  | InvalidateThumbnailsArgs (ja_document: int) (ja_superseded: int)
  | EvictionMaintenanceArgs
  | CacheSweepArgs

record job_insert =
  ji_args :: job_args
  ji_scheduled_at :: "int option"

section \<open>The database\<close>

record database =
  db_now :: int
  db_mountpoints :: "mountpoint_row list"
  db_obs :: "obs_row list"
  db_watermark :: "int option"
  db_cvs :: "cv_row list"
  db_docs :: "doc_row list"
  db_extracted :: "ex_row list"
  db_thumbs :: "th_row list"
  db_outbox :: "job_insert list"

text \<open>The last value each identity column or sequence handed out.\<close>

record seqs =
  sq_mountpoint :: int
  sq_epoch :: int
  sq_cv :: int
  sq_doc :: int
  sq_thumb :: int

definition seqs_le :: "seqs \<Rightarrow> seqs \<Rightarrow> bool" where
  "seqs_le a b \<longleftrightarrow>
     sq_mountpoint a \<le> sq_mountpoint b \<and> sq_epoch a \<le> sq_epoch b \<and> sq_cv a \<le> sq_cv b \<and>
     sq_doc a \<le> sq_doc b \<and> sq_thumb a \<le> sq_thumb b"

lemma seqs_le_refl [simp]: "seqs_le q q"
  by (simp add: seqs_le_def)

lemma seqs_le_trans: "seqs_le a b \<Longrightarrow> seqs_le b c \<Longrightarrow> seqs_le a c"
  by (auto simp: seqs_le_def)

text \<open>
  What a Go error value is to the code that tests it: the message text that wraps it is
  left out, because \<open>errors.Is\<close> looks through it.
\<close>

datatype err =
    ErrNoRows            \<comment> \<open>\<open>pgx.ErrNoRows\<close>\<close>
  | ErrUnique            \<comment> \<open>a unique constraint refused the statement\<close>
  | ErrForeignKey        \<comment> \<open>a foreign key refused the statement\<close>
  | ErrCheck             \<comment> \<open>a CHECK constraint refused the statement\<close>
  | ErrConn              \<comment> \<open>the connection, the statement or the commit failed\<close>
  | ErrNotBound          \<comment> \<open>\<open>jobs.ErrNotBound\<close>\<close>
  | ErrVersionRaced      \<comment> \<open>\<open>ingest.errVersionRaced\<close>\<close>
  | ErrPromoteAttempts   \<comment> \<open>the compare-and-swap was lost in every attempt\<close>
  | ErrNotExist          \<comment> \<open>\<open>fs.ErrNotExist\<close>\<close>
  | ErrOpen
  | ErrRead
  | ErrCanceled          \<comment> \<open>\<open>context.Canceled\<close>\<close>
  | ErrRecv              \<comment> \<open>a stream ended with an error\<close>
  | ErrStatus            \<comment> \<open>the watcher's Status call failed\<close>
  | ErrScan              \<comment> \<open>the watcher's Scan call failed\<close>
  | ErrSubscribe         \<comment> \<open>the watcher's Subscribe call failed\<close>
  | ErrNoMountpoints
  | ErrNotConfigured     \<comment> \<open>\<open>objstore.ErrNotConfigured\<close>, \<open>tika.ErrNotConfigured\<close>\<close>
  | ErrBucketRequired
  | ErrNoSuchKey         \<comment> \<open>\<open>objstore.ErrNoSuchKey\<close>\<close>
  | ErrObject            \<comment> \<open>the object store refused\<close>
  | ErrTooLarge          \<comment> \<open>\<open>tika.ErrTooLarge\<close>\<close>
  | ErrTikaStatus int    \<comment> \<open>\<open>tika.StatusError\<close>\<close>
  | ErrTika              \<comment> \<open>the request to Tika failed\<close>
  | ErrInvalidJSON
  | ErrPermanent         \<comment> \<open>\<open>jobs.errPermanent\<close>\<close>

section \<open>Keys and constraints\<close>

definition obs_key :: "obs_row \<Rightarrow> int \<times> string" where
  "obs_key r = (o_mountpoint_id r, o_path r)"

definition live :: "doc_row \<Rightarrow> bool" where
  "live r = (d_deleted_at r = None)"

text \<open>\<open>documents_live_path\<close>: unique among the rows that are not tombstones.\<close>

definition live_key :: "doc_row \<Rightarrow> (int \<times> string) option" where
  "live_key r = (if live r then Some (d_mountpoint_id r, d_path r) else None)"

definition thumb_key :: "th_row \<Rightarrow> int \<times> int \<times> int \<times> int \<times> string" where
  "thumb_key r = (th_cv_id r, th_page r, th_width r, th_height r, th_format r)"

definition ids_ok :: "int \<Rightarrow> int list \<Rightarrow> bool" where
  "ids_ok mx xs \<longleftrightarrow> distinct xs \<and> (\<forall>x \<in> set xs. 0 < x \<and> x \<le> mx)"

lemma ids_ok_mono: "ids_ok a xs \<Longrightarrow> a \<le> b \<Longrightarrow> ids_ok b xs"
  by (auto simp: ids_ok_def)

lemma ids_ok_append_next: "ids_ok a xs \<Longrightarrow> 0 \<le> a \<Longrightarrow> ids_ok (a + 1) (xs @ [a + 1])"
  by (auto simp: ids_ok_def)

text \<open>The constraints of migrations 0001 and 0003.\<close>

definition obs_ok :: "database \<Rightarrow> seqs \<Rightarrow> bool" where
  "obs_ok d q \<longleftrightarrow> distinct (map obs_key (db_obs d)) \<and>
     (\<forall>r \<in> set (db_obs d). o_mountpoint_id r \<in> m_id ` set (db_mountpoints d) \<and>
        o_seen_epoch r \<le> sq_epoch q)"

definition docs_ok :: "database \<Rightarrow> seqs \<Rightarrow> bool" where
  "docs_ok d q \<longleftrightarrow> ids_ok (sq_doc q) (map d_id (db_docs d)) \<and>
     index_ok live_key (db_docs d) \<and>
     (\<forall>r \<in> set (db_docs d). d_mountpoint_id r \<in> m_id ` set (db_mountpoints d)) \<and>
     (\<forall>r \<in> set (db_docs d). \<forall>v. d_current_cv r = Some v \<longrightarrow> v \<in> cv_id ` set (db_cvs d))"

definition cvs_ok :: "database \<Rightarrow> seqs \<Rightarrow> bool" where
  "cvs_ok d q \<longleftrightarrow> ids_ok (sq_cv q) (map cv_id (db_cvs d)) \<and>
     distinct (map cv_content_hash (db_cvs d))"

definition status_pending :: string where "status_pending = ''pending''"
definition status_succeeded :: string where "status_succeeded = ''succeeded''"
definition status_failed :: string where "status_failed = ''failed''"

definition statuses :: "string set" where
  "statuses = {status_pending, status_succeeded, status_failed}"

definition extracted_ok :: "database \<Rightarrow> bool" where
  "extracted_ok d \<longleftrightarrow> distinct (map ex_cv_id (db_extracted d)) \<and>
     (\<forall>r \<in> set (db_extracted d). ex_cv_id r \<in> cv_id ` set (db_cvs d) \<and>
        ex_status r \<in> statuses)"

definition thumbs_ok :: "database \<Rightarrow> seqs \<Rightarrow> bool" where
  "thumbs_ok d q \<longleftrightarrow> ids_ok (sq_thumb q) (map th_id (db_thumbs d)) \<and>
     distinct (map thumb_key (db_thumbs d)) \<and>
     distinct (map th_object_key (db_thumbs d)) \<and>
     (\<forall>r \<in> set (db_thumbs d). th_cv_id r \<in> cv_id ` set (db_cvs d))"

definition seqs_ok :: "seqs \<Rightarrow> bool" where
  "seqs_ok q \<longleftrightarrow> 0 \<le> sq_mountpoint q \<and> 0 \<le> sq_epoch q \<and> 0 \<le> sq_cv q \<and>
     0 \<le> sq_doc q \<and> 0 \<le> sq_thumb q"

definition mountpoints_ok :: "database \<Rightarrow> seqs \<Rightarrow> bool" where
  "mountpoints_ok d q \<longleftrightarrow> ids_ok (sq_mountpoint q) (map m_id (db_mountpoints d)) \<and>
     distinct (map m_root_path (db_mountpoints d))"

definition db_ok :: "database \<Rightarrow> seqs \<Rightarrow> bool" where
  "db_ok d q \<longleftrightarrow> seqs_ok q \<and> mountpoints_ok d q \<and> obs_ok d q \<and> docs_ok d q \<and> cvs_ok d q \<and>
     extracted_ok d \<and> thumbs_ok d q"

lemmas db_ok_defs = db_ok_def seqs_ok_def mountpoints_ok_def obs_ok_def docs_ok_def cvs_ok_def
  extracted_ok_def thumbs_ok_def

lemma db_ok_stable: "db_ok d q \<Longrightarrow> seqs_le q q' \<Longrightarrow> db_ok d q'"
  unfolding db_ok_defs seqs_le_def
  by (auto intro: ids_ok_mono order_trans)

lemma live_key_Some: "live_key r = Some (m, p) \<longleftrightarrow> live r \<and> d_mountpoint_id r = m \<and> d_path r = p"
  by (auto simp: live_key_def)

text \<open>The database a fresh deployment starts from: the migrations ran, nothing was observed.\<close>

definition empty_db :: "mountpoint_row list \<Rightarrow> int \<Rightarrow> database" where
  "empty_db mps now =
     \<lparr>db_now = now, db_mountpoints = mps, db_obs = [], db_watermark = Some 0, db_cvs = [],
      db_docs = [], db_extracted = [], db_thumbs = [], db_outbox = []\<rparr>"

definition zero_seqs :: seqs where
  "zero_seqs = \<lparr>sq_mountpoint = 0, sq_epoch = 0, sq_cv = 0, sq_doc = 0, sq_thumb = 0\<rparr>"

end
