(* ===== verification/World.thy ===== *)
theory World
  imports Database
begin

text \<open>
  Running statements against PostgreSQL.  A statement sees the current database and may
  fail; what the environment does around each statement is a script held in the world:
  \<^item> \<open>Run\<close>: nothing in particular;
  \<^item> \<open>Fault\<close>: the statement fails without effect (a lost connection, a cancelled context);
  \<^item> \<open>Interfere f\<close>: another transaction commits the change \<open>f\<close> just before it, which READ
    COMMITTED lets the rest of the running transaction see.
  Theorems quantify over every script.  \<open>w_base\<close> is the committed state without the running
  transaction's own writes: what a rollback leaves (\<open>internal/ingest/pgstore.go\<close>,
  \<open>PGStore.InTx\<close>).
\<close>

datatype step = Run | Fault | Interfere "database \<Rightarrow> database"

record world =
  w_db :: database
  w_base :: database
  w_seqs :: seqs
  w_script :: "step list"
  w_clock :: int

type_synonym 'a m = "world \<Rightarrow> (err + 'a) \<times> world"
type_synonym 'a sql = "database \<Rightarrow> seqs \<Rightarrow> (err + 'a) \<times> database \<times> seqs"

section \<open>The monad\<close>

definition ret :: "'a \<Rightarrow> 'a m" where "ret x w = (Inr x, w)"

definition fail :: "err \<Rightarrow> 'a m" where "fail e w = (Inl e, w)"

definition bind :: "'a m \<Rightarrow> ('a \<Rightarrow> 'b m) \<Rightarrow> 'b m" where
  "bind m f w = (case m w of (Inl e, w') \<Rightarrow> (Inl e, w') | (Inr x, w') \<Rightarrow> f x w')"

definition andThen :: "'a m \<Rightarrow> 'b m \<Rightarrow> 'b m" where
  "andThen m n = bind m (\<lambda>_. n)"

text \<open>\<open>v, err := m(); if errors.Is(err, e) { ... }\<close>: an error the caller looks at.\<close>

definition try_m :: "'a m \<Rightarrow> (err + 'a) m" where
  "try_m m w = (case m w of (r, w') \<Rightarrow> (Inr r, w'))"

fun for_each :: "'a list \<Rightarrow> ('a \<Rightarrow> unit m) \<Rightarrow> unit m" where
  "for_each [] f = ret ()"
| "for_each (x # xs) f = andThen (f x) (for_each xs f)"

definition now :: "int m" where "now w = (Inr (w_clock w), w)"

section \<open>Statements and transactions\<close>

definition exec_sql :: "'a sql \<Rightarrow> 'a m" where
  "exec_sql f w = (case f (w_db w) (w_seqs w) of (r, d, q) \<Rightarrow> (r, w\<lparr>w_db := d, w_seqs := q\<rparr>))"

fun stmt :: "'a sql \<Rightarrow> 'a m" where
  "stmt f w = (case w_script w of
      [] \<Rightarrow> exec_sql f w
    | Run # s \<Rightarrow> exec_sql f (w\<lparr>w_script := s\<rparr>)
    | Fault # s \<Rightarrow> (Inl ErrConn, w\<lparr>w_script := s\<rparr>)
    | Interfere g # s \<Rightarrow>
        exec_sql f (w\<lparr>w_db := g (w_db w), w_base := g (w_base w), w_script := s\<rparr>))"

declare stmt.simps [simp del]

text \<open>A statement with no effect of its own: \<open>BEGIN\<close>, \<open>COMMIT\<close>.\<close>

definition q_nop :: "unit sql" where "q_nop d q = (Inr (), d, q)"

definition select :: "(database \<Rightarrow> err + 'a) \<Rightarrow> 'a sql" where
  "select f d q = (f d, d, q)"

definition InTx :: "'a m \<Rightarrow> 'a m" where
  "InTx fn w =
     (case stmt q_nop w of
        (Inl e, w1) \<Rightarrow> (Inl e, w1)
      | (Inr _, w1) \<Rightarrow>
          (case fn (w1\<lparr>w_base := w_db w1\<rparr>) of
             (Inl e, w2) \<Rightarrow> (Inl e, w2\<lparr>w_db := w_base w2\<rparr>)
           | (Inr x, w2) \<Rightarrow>
               (case stmt q_nop w2 of
                  (Inl e, w3) \<Rightarrow> (Inl e, w3\<lparr>w_db := w_base w3\<rparr>)
                | (Inr _, w3) \<Rightarrow> (Inr x, w3\<lparr>w_base := w_db w3\<rparr>))))"

section \<open>Evaluation and inversion\<close>

lemma bind_Inr:
  "bind m f w = (Inr y, w'') \<longleftrightarrow> (\<exists>x w'. m w = (Inr x, w') \<and> f x w' = (Inr y, w''))"
  by (auto simp: bind_def split: prod.splits sum.splits)

lemma andThen_Inr:
  "andThen m n w = (Inr y, w'') \<longleftrightarrow> (\<exists>x w'. m w = (Inr x, w') \<and> n w' = (Inr y, w''))"
  by (auto simp: andThen_def bind_Inr)

lemma ret_eq: "ret x w = (r, w') \<longleftrightarrow> r = Inr x \<and> w' = w"
  by (auto simp: ret_def)

lemma fail_eq: "fail e w = (r, w') \<longleftrightarrow> r = Inl e \<and> w' = w"
  by (auto simp: fail_def)

lemma try_m_eq: "try_m m w = (r, w') \<longleftrightarrow> (\<exists>r'. m w = (r', w') \<and> r = Inr r')"
  by (auto simp: try_m_def split: prod.splits)

lemma now_eq: "now w = (r, w') \<longleftrightarrow> r = Inr (w_clock w) \<and> w' = w"
  by (auto simp: now_def)

lemmas m_inv = bind_Inr andThen_Inr ret_eq fail_eq try_m_eq now_eq

text \<open>A world whose script lets every remaining statement run undisturbed.\<close>

definition calm :: "world \<Rightarrow> bool" where
  "calm w \<longleftrightarrow> set (w_script w) \<subseteq> {Run, Fault}"

definition smooth :: "world \<Rightarrow> bool" where
  "smooth w \<longleftrightarrow> set (w_script w) \<subseteq> {Run}"

lemma smooth_calm: "smooth w \<Longrightarrow> calm w"
  by (auto simp: smooth_def calm_def)

text \<open>In a calm world a statement that succeeds did exactly what its SQL says.\<close>

lemma stmt_calm:
  assumes "stmt f w = (Inr x, w')" "calm w"
  shows "f (w_db w) (w_seqs w) = (Inr x, w_db w', w_seqs w')"
    and "calm w'" "w_base w' = w_base w" "w_clock w' = w_clock w"
  using assms
  by (auto simp: stmt.simps exec_sql_def calm_def split: list.splits step.splits prod.splits)

lemma stmt_smooth:
  assumes "smooth w"
  shows "\<exists>w'. stmt f w = (fst (f (w_db w) (w_seqs w)), w') \<and> smooth w' \<and>
     w_db w' = fst (snd (f (w_db w) (w_seqs w))) \<and> w_seqs w' = snd (snd (f (w_db w) (w_seqs w))) \<and>
     w_base w' = w_base w \<and> w_clock w' = w_clock w"
  using assms
  by (auto simp: stmt.simps exec_sql_def smooth_def split: list.splits step.splits prod.splits)

text \<open>A world with nothing left in its script: statements are then plain functions.\<close>

definition quiet :: "world \<Rightarrow> bool" where "quiet w \<longleftrightarrow> w_script w = []"

lemma quiet_update [simp]:
  "quiet (w\<lparr>w_db := d\<rparr>) = quiet w" "quiet (w\<lparr>w_seqs := q\<rparr>) = quiet w"
  "quiet (w\<lparr>w_base := d\<rparr>) = quiet w" "quiet (w\<lparr>w_clock := t\<rparr>) = quiet w"
  "quiet (w\<lparr>w_script := []\<rparr>)"
  by (simp_all add: quiet_def)

lemma quiet_calm: "quiet w \<Longrightarrow> calm w"
  by (simp add: quiet_def calm_def)

lemma stmt_quiet: "quiet w \<Longrightarrow> stmt f w = exec_sql f w"
  by (simp add: quiet_def stmt.simps)

lemma bind_ret [simp]: "bind (ret x) f = f x"
  by (rule ext) (simp add: bind_def ret_def)

lemma bind_run: "m w = (Inr x, w') \<Longrightarrow> bind m f w = f x w'"
  by (simp add: bind_def)

lemma andThen_run: "m w = (Inr x, w') \<Longrightarrow> andThen m n w = n w'"
  by (simp add: andThen_def bind_def)

lemma bind_fails: "m w = (Inl e, w') \<Longrightarrow> bind m f w = (Inl e, w')"
  by (simp add: bind_def)

lemma andThen_fails: "m w = (Inl e, w') \<Longrightarrow> andThen m n w = (Inl e, w')"
  by (simp add: andThen_def bind_def)

lemma InTx_quiet_commit:
  assumes "quiet w" "fn (w\<lparr>w_base := w_db w\<rparr>) = (Inr x, w')" "quiet w'"
  shows "InTx fn w = (Inr x, w'\<lparr>w_base := w_db w'\<rparr>)"
  using assms by (simp add: InTx_def stmt_quiet exec_sql_def q_nop_def)

lemma InTx_quiet_rollback:
  assumes "quiet w" "fn (w\<lparr>w_base := w_db w\<rparr>) = (Inl e, w')"
  shows "InTx fn w = (Inl e, w'\<lparr>w_db := w_base w'\<rparr>)"
  using assms by (simp add: InTx_def stmt_quiet exec_sql_def q_nop_def)

end
