(* ===== verification/Contract.thy ===== *)
theory Contract
  imports World
begin

text \<open>
  The contract between the code and its store, as a rely/guarantee statement.  A predicate
  \<open>I\<close> on the database is kept by a piece of code when it holds after every run of it that
  starts with it, whatever statement fails and whatever other transactions commit in
  between, as long as those keep \<open>I\<close> too.  The locale \<open>db_invariant\<close> proves the rules for
  the monad once; the components add the laws of their statements.
\<close>

definition rely :: "(database \<Rightarrow> seqs \<Rightarrow> bool) \<Rightarrow> world \<Rightarrow> bool" where
  "rely I w \<longleftrightarrow> (\<forall>f. Interfere f \<in> set (w_script w) \<longrightarrow> (\<forall>d q. I d q \<longrightarrow> I (f d) q))"

definition holds :: "(database \<Rightarrow> seqs \<Rightarrow> bool) \<Rightarrow> world \<Rightarrow> bool" where
  "holds I w \<longleftrightarrow> I (w_db w) (w_seqs w) \<and> I (w_base w) (w_seqs w) \<and> rely I w"

text \<open>
  The number \<open>e\<close> is a scan epoch the code has already drawn: it stays below the sequence,
  and rows tagged with it are the program's own.
\<close>

definition good :: "(database \<Rightarrow> seqs \<Rightarrow> bool) \<Rightarrow> int \<Rightarrow> 'a sql \<Rightarrow> bool" where
  "good I e f \<longleftrightarrow> (\<forall>d q. I d q \<longrightarrow> e \<le> sq_epoch q \<longrightarrow>
     I (fst (snd (f d q))) (snd (snd (f d q))) \<and> seqs_le q (snd (snd (f d q))))"

definition holds_from :: "(database \<Rightarrow> seqs \<Rightarrow> bool) \<Rightarrow> int \<Rightarrow> world \<Rightarrow> bool" where
  "holds_from I e w \<longleftrightarrow> holds I w \<and> e \<le> sq_epoch (w_seqs w)"

definition keeps :: "(database \<Rightarrow> seqs \<Rightarrow> bool) \<Rightarrow> int \<Rightarrow> 'a m \<Rightarrow> bool" where
  "keeps I e m \<longleftrightarrow> (\<forall>w. holds_from I e w \<longrightarrow> holds_from I e (snd (m w)))"

lemma calm_rely: "calm w \<Longrightarrow> rely I w"
  by (auto simp: calm_def rely_def)

lemma keepsD: "keeps I e m \<Longrightarrow> m w = (r, w') \<Longrightarrow> holds_from I e w \<Longrightarrow> holds_from I e w'"
  by (metis keeps_def snd_conv)

lemma holds_db: "holds I w \<Longrightarrow> I (w_db w) (w_seqs w)"
  by (simp add: holds_def)

lemma keeps_ret [keeps_intros]: "keeps I e (ret x)"
  by (simp add: keeps_def ret_def)

lemma keeps_fail [keeps_intros]: "keeps I e (fail x)"
  by (simp add: keeps_def fail_def)

lemma keeps_now [keeps_intros]: "keeps I e now"
  by (simp add: keeps_def now_def)

lemma keeps_bind [keeps_intros]:
  assumes "keeps I e m" "\<And>x. keeps I e (f x)"
  shows "keeps I e (bind m f)"
  unfolding keeps_def
proof (intro allI impI)
  fix w assume w: "holds_from I e w"
  obtain r w1 where m: "m w = (r, w1)" by (cases "m w")
  from keepsD [OF assms(1) m w] have w1: "holds_from I e w1" .
  show "holds_from I e (snd (bind m f w))"
  proof (cases r)
    case (Inl x)
    with m w1 show ?thesis by (simp add: bind_def)
  next
    case (Inr x)
    with m w1 assms(2) [of x] show ?thesis by (simp add: bind_def keeps_def)
  qed
qed

lemma keeps_andThen [keeps_intros]: "keeps I e m \<Longrightarrow> keeps I e n \<Longrightarrow> keeps I e (andThen m n)"
  by (simp add: andThen_def keeps_bind)

lemma keeps_try [keeps_intros]: "keeps I e m \<Longrightarrow> keeps I e (try_m m)"
  by (auto simp: keeps_def try_m_def split: prod.splits)

lemma keeps_for_each [keeps_intros]: "(\<And>x. keeps I e (f x)) \<Longrightarrow> keeps I e (for_each xs f)"
  by (induction xs) (auto intro: keeps_intros)

lemma keeps_if [keeps_intros]: "keeps I e m \<Longrightarrow> keeps I e n \<Longrightarrow> keeps I e (if b then m else n)"
  by simp

lemma keeps_option [keeps_intros]:
  "keeps I e m \<Longrightarrow> (\<And>x. keeps I e (f x)) \<Longrightarrow> keeps I e (case x of None \<Rightarrow> m | Some y \<Rightarrow> f y)"
  by (cases x) auto

lemma keeps_sum [keeps_intros]:
  "(\<And>x. keeps I e (f x)) \<Longrightarrow> (\<And>x. keeps I e (g x)) \<Longrightarrow> keeps I e (case x of Inl y \<Rightarrow> f y | Inr y \<Rightarrow> g y)"
  by (cases x) auto

lemma keeps_prod [keeps_intros]:
  "(\<And>x y. keeps I e (f x y)) \<Longrightarrow> keeps I e (case p of (x, y) \<Rightarrow> f x y)"
  by (cases p) auto

lemma keeps_Let [keeps_intros]: "(\<And>x. keeps I e (f x)) \<Longrightarrow> keeps I e (Let v f)"
  by (simp add: Let_def)

lemma good_select [keeps_intros]: "good I e (select f)"
  by (simp add: good_def select_def)

lemma good_nop [keeps_intros]: "good I e q_nop"
  by (simp add: good_def q_nop_def)

locale db_invariant =
  fixes I :: "database \<Rightarrow> seqs \<Rightarrow> bool"
  assumes stable: "I d q \<Longrightarrow> seqs_le q q' \<Longrightarrow> I d q'"
begin

lemma keeps_stmt [keeps_intros]:
  assumes "good I e f"
  shows "keeps I e (stmt f)"
  unfolding keeps_def
proof (intro allI impI)
  fix w assume w: "holds_from I e w"
  have run: "holds_from I e (snd (exec_sql f v))" if "holds_from I e v" for v
  proof -
    obtain r d q where f: "f (w_db v) (w_seqs v) = (r, d, q)"
      by (cases "f (w_db v) (w_seqs v)")
    have "I (w_db v) (w_seqs v)" "e \<le> sq_epoch (w_seqs v)"
      using that by (auto simp: holds_from_def holds_def)
    with assms f have "I d q" "seqs_le (w_seqs v) q"
      unfolding good_def by fastforce+
    with f that stable show ?thesis
      by (auto simp: exec_sql_def holds_from_def holds_def rely_def seqs_le_def)
  qed
  have shorter: "holds_from I e (w\<lparr>w_script := s\<rparr>)" if "w_script w = x # s" for x s
    using w that by (auto simp: holds_from_def holds_def rely_def)
  have interfered: "holds_from I e (w\<lparr>w_db := g (w_db w), w_base := g (w_base w), w_script := s\<rparr>)"
    if "w_script w = Interfere g # s" for g s
    using w that by (auto simp: holds_from_def holds_def rely_def)
  show "holds_from I e (snd (stmt f w))"
    using w run shorter interfered
    by (auto simp: stmt.simps split: list.splits step.splits)
qed

lemma keeps_InTx [keeps_intros]:
  assumes fn: "keeps I e fn"
  shows "keeps I e (InTx fn)"
  unfolding keeps_def
proof (intro allI impI)
  fix w assume w: "holds_from I e w"
  have nop: "holds_from I e v' " if "stmt q_nop v = (r, v')" "holds_from I e v" for v v' r
    using keepsD [OF keeps_stmt [OF good_nop]] that by blast
  have swap: "holds_from I e (v\<lparr>w_db := w_base v\<rparr>)" "holds_from I e (v\<lparr>w_base := w_db v\<rparr>)"
    if "holds_from I e v" for v
    using that by (auto simp: holds_from_def holds_def rely_def)
  show "holds_from I e (snd (InTx fn w))"
    using w nop swap keepsD [OF fn]
    by (auto simp: InTx_def split: prod.splits sum.splits)
qed

end

text \<open>A failed transaction leaves nothing of itself behind.\<close>

text \<open>What the other transactions of the script did to a database, in order.\<close>

fun interference :: "step list \<Rightarrow> database \<Rightarrow> database" where
  "interference [] d = d"
| "interference (Interfere f # s) d = interference s (f d)"
| "interference (_ # s) d = interference s d"

lemma interference_append: "interference (s @ t) d = interference t (interference s d)"
  by (induction s d rule: interference.induct) auto

text \<open>
  A piece of code only ever consumes its script, and writes the committed state through
  others' commits alone: its own writes stay in \<open>w_db\<close>.
\<close>

definition confined :: "'a m \<Rightarrow> bool" where
  "confined m \<longleftrightarrow> (\<forall>w. \<exists>s. w_script w = s @ w_script (snd (m w)) \<and>
     w_base (snd (m w)) = interference s (w_base w))"

lemma confinedE:
  assumes "confined m" "m w = (r, w')"
  obtains s where "w_script w = s @ w_script w'" "w_base w' = interference s (w_base w)"
  using assms by (metis confined_def snd_conv)

lemma confined_ret [keeps_intros]: "confined (ret x)"
  by (simp add: confined_def ret_def)

lemma confined_fail [keeps_intros]: "confined (fail e)"
  by (simp add: confined_def fail_def)

lemma confined_now [keeps_intros]: "confined now"
  by (simp add: confined_def now_def)

lemma confined_bind [keeps_intros]:
  assumes "confined m" "\<And>x. confined (f x)"
  shows "confined (bind m f)"
  unfolding confined_def
proof
  fix w
  obtain r w1 where m: "m w = (r, w1)" by (cases "m w")
  with assms(1) obtain s where s: "w_script w = s @ w_script w1" "w_base w1 = interference s (w_base w)"
    by (rule confinedE)
  show "\<exists>s. w_script w = s @ w_script (snd (bind m f w)) \<and>
      w_base (snd (bind m f w)) = interference s (w_base w)"
  proof (cases r)
    case (Inl e)
    with m s show ?thesis by (auto simp: bind_def)
  next
    case (Inr x)
    obtain r' w2 where f: "f x w1 = (r', w2)" by (cases "f x w1")
    with assms(2) [of x] obtain t where "w_script w1 = t @ w_script w2" "w_base w2 = interference t (w_base w1)"
      by (rule confinedE)
    with m s Inr f show ?thesis
      by (intro exI [of _ "s @ t"]) (auto simp: bind_def interference_append)
  qed
qed

lemma confined_andThen [keeps_intros]: "confined m \<Longrightarrow> confined n \<Longrightarrow> confined (andThen m n)"
  by (simp add: andThen_def confined_bind)

lemma confined_try [keeps_intros]: "confined m \<Longrightarrow> confined (try_m m)"
  by (auto simp: confined_def try_m_def split: prod.splits) (metis snd_conv)

lemma confined_for_each [keeps_intros]: "(\<And>x. confined (f x)) \<Longrightarrow> confined (for_each xs f)"
  by (induction xs) (auto intro: keeps_intros)

lemma confined_if [keeps_intros]: "confined m \<Longrightarrow> confined n \<Longrightarrow> confined (if b then m else n)"
  by simp

lemma confined_option [keeps_intros]:
  "confined m \<Longrightarrow> (\<And>x. confined (f x)) \<Longrightarrow> confined (case x of None \<Rightarrow> m | Some y \<Rightarrow> f y)"
  by (cases x) auto

lemma confined_sum [keeps_intros]:
  "(\<And>x. confined (f x)) \<Longrightarrow> (\<And>x. confined (g x)) \<Longrightarrow> confined (case x of Inl y \<Rightarrow> f y | Inr y \<Rightarrow> g y)"
  by (cases x) auto

lemma confined_prod [keeps_intros]:
  "(\<And>x y. confined (f x y)) \<Longrightarrow> confined (case p of (x, y) \<Rightarrow> f x y)"
  by (cases p) auto

lemma confined_Let [keeps_intros]: "(\<And>x. confined (f x)) \<Longrightarrow> confined (Let v f)"
  by (simp add: Let_def)

lemma confined_stmt [keeps_intros]: "confined (stmt f)"
  unfolding confined_def
proof
  fix w
  have exec: "w_script (snd (exec_sql f v)) = w_script v \<and> w_base (snd (exec_sql f v)) = w_base v" for v
    by (auto simp: exec_sql_def split: prod.splits)
  show "\<exists>s. w_script w = s @ w_script (snd (stmt f w)) \<and>
      w_base (snd (stmt f w)) = interference s (w_base w)"
  proof (cases "w_script w")
    case Nil
    with exec [of w] show ?thesis by (auto simp: stmt.simps)
  next
    case (Cons x s)
    with exec show ?thesis
      by (intro exI [of _ "[x]"]) (auto simp: stmt.simps split: step.splits)
  qed
qed

text \<open>
  The atomicity of \<open>InTx\<close>: when it reports an error, the database is the one it started
  from with the commits of others applied, and nothing else.
\<close>

lemma stmt_nop_script:
  "stmt q_nop w = (r, w1) \<Longrightarrow>
     \<exists>s. w_script w = s @ w_script w1 \<and> w_db w1 = interference s (w_db w) \<and>
         w_base w1 = interference s (w_base w)"
  by (cases "w_script w")
    (auto simp: stmt.simps exec_sql_def q_nop_def split: step.splits)

lemma InTx_rollback:
  assumes fn: "confined fn" and run: "InTx fn w = (Inl e, w')"
  shows "\<exists>s. w_script w = s @ w_script w' \<and> w_db w' = interference s (w_db w)"
proof -
  obtain r w1 where b: "stmt q_nop w = (r, w1)" by (cases "stmt q_nop w")
  then obtain s1 where s1: "w_script w = s1 @ w_script w1" "w_db w1 = interference s1 (w_db w)"
    using stmt_nop_script by blast
  show ?thesis
  proof (cases r)
    case (Inl e1)
    with b run s1 show ?thesis by (auto simp: InTx_def)
  next
    case (Inr u)
    obtain r2 w2 where f: "fn (w1\<lparr>w_base := w_db w1\<rparr>) = (r2, w2)"
      by (cases "fn (w1\<lparr>w_base := w_db w1\<rparr>)")
    then obtain s2 where s2: "w_script w1 = s2 @ w_script w2" "w_base w2 = interference s2 (w_db w1)"
      using confinedE [OF fn f] by auto
    show ?thesis
    proof (cases r2)
      case (Inl e2)
      with b Inr f run s1 s2 show ?thesis
        by (intro exI [of _ "s1 @ s2"]) (auto simp: InTx_def interference_append)
    next
      case r2: (Inr x)
      obtain r3 w3 where c: "stmt q_nop w2 = (r3, w3)" by (cases "stmt q_nop w2")
      then obtain s3 where s3: "w_script w2 = s3 @ w_script w3" "w_base w3 = interference s3 (w_base w2)"
        using stmt_nop_script by blast
      from b Inr f r2 c run s1 s2 s3 show ?thesis
        by (intro exI [of _ "s1 @ s2 @ s3"])
          (auto simp: InTx_def interference_append split: sum.splits)
    qed
  qed
qed

lemma interference_calm: "set s \<subseteq> {Run, Fault} \<Longrightarrow> interference s d = d"
  by (induction s d rule: interference.induct) auto

lemma InTx_rollback_calm:
  assumes "confined fn" "InTx fn w = (Inl e, w')" "calm w"
  shows "w_db w' = w_db w"
  using InTx_rollback [OF assms(1,2)] assms(3) interference_calm
  by (metis calm_def le_sup_iff set_append)

text \<open>A transaction that commits ran its body on the database it found.\<close>

lemma InTx_commit_calm:
  assumes run: "InTx fn w = (Inr x, w')" and calm: "calm w"
  obtains v v' where "fn v = (Inr x, v')" "w_db v = w_db w" "w_seqs v = w_seqs w" "calm v"
    "w_clock v = w_clock w" "w_base v = w_db v" "calm v' \<Longrightarrow> w_db w' = w_db v' \<and> w_seqs w' = w_seqs v' \<and>
       calm w' \<and> w_clock w' = w_clock v'"
proof -
  from run obtain u w1 w2 u' w3 where
    b: "stmt q_nop w = (Inr u, w1)" and
    f: "fn (w1\<lparr>w_base := w_db w1\<rparr>) = (Inr x, w2)" and
    c: "stmt q_nop w2 = (Inr u', w3)" and w': "w' = w3\<lparr>w_base := w_db w3\<rparr>"
    by (auto simp: InTx_def split: prod.splits sum.splits)
  let ?v = "w1\<lparr>w_base := w_db w1\<rparr>"
  note b' = stmt_calm [OF b calm]
  show thesis
  proof (rule that [OF f])
    show "w_db ?v = w_db w" "w_seqs ?v = w_seqs w" "calm ?v" "w_clock ?v = w_clock w" "w_base ?v = w_db ?v"
      using b' by (auto simp: q_nop_def calm_def)
    show "w_db w' = w_db w2 \<and> w_seqs w' = w_seqs w2 \<and> calm w' \<and> w_clock w' = w_clock w2"
      if "calm w2"
      using stmt_calm [OF c that] w' by (auto simp: q_nop_def calm_def)
  qed
qed

section \<open>Runs that no fault reaches\<close>

text \<open>
  Code that only ever tells apart the errors it names behaves, when no connection fault
  ends it, exactly as in the quiet world: every statement of the run succeeded or failed
  on its own account.
\<close>

definition faithful :: "'a m \<Rightarrow> bool" where
  "faithful m \<longleftrightarrow> (\<forall>w r w'. calm w \<longrightarrow> m w = (r, w') \<longrightarrow> r \<noteq> Inl ErrConn \<longrightarrow>
     calm w' \<and> m (w\<lparr>w_script := []\<rparr>) = (r, w'\<lparr>w_script := []\<rparr>))"

lemma faithfulD:
  "faithful m \<Longrightarrow> calm w \<Longrightarrow> m w = (r, w') \<Longrightarrow> r \<noteq> Inl ErrConn \<Longrightarrow>
     calm w' \<and> m (w\<lparr>w_script := []\<rparr>) = (r, w'\<lparr>w_script := []\<rparr>)"
  unfolding faithful_def by blast

lemma faithfulI:
  assumes "\<And>w r w'. calm w \<Longrightarrow> m w = (r, w') \<Longrightarrow> r \<noteq> Inl ErrConn \<Longrightarrow>
     calm w' \<and> m (w\<lparr>w_script := []\<rparr>) = (r, w'\<lparr>w_script := []\<rparr>)"
  shows "faithful m"
  using assms unfolding faithful_def by blast

lemma faithful_ret [keeps_intros]: "faithful (ret x)"
  by (rule faithfulI) (auto simp: ret_def)

lemma faithful_fail [keeps_intros]: "faithful (fail e)"
  by (rule faithfulI) (auto simp: fail_def)

lemma faithful_now [keeps_intros]: "faithful now"
  by (rule faithfulI) (auto simp: now_def)

lemma faithful_bind [keeps_intros]:
  assumes m: "faithful m" and f: "\<And>x. faithful (f x)"
  shows "faithful (bind m f)"
proof (rule faithfulI)
  fix w r w' assume w: "calm w" and run: "bind m f w = (r, w')" and r: "r \<noteq> Inl ErrConn"
  obtain r1 w1 where m1: "m w = (r1, w1)" by (cases "m w")
  show "calm w' \<and> bind m f (w\<lparr>w_script := []\<rparr>) = (r, w'\<lparr>w_script := []\<rparr>)"
  proof (cases r1)
    case (Inl e)
    with run m1 r have "r1 \<noteq> Inl ErrConn" "w' = w1" "r = Inl e" by (auto simp: bind_def)
    with faithfulD [OF m w m1] Inl show ?thesis by (simp add: bind_def)
  next
    case (Inr x)
    with run m1 have f1: "f x w1 = (r, w')" by (simp add: bind_def)
    from faithfulD [OF m w m1] Inr
    have w1: "calm w1" "m (w\<lparr>w_script := []\<rparr>) = (Inr x, w1\<lparr>w_script := []\<rparr>)" by auto
    from faithfulD [OF f w1(1) f1 r] w1(2) show ?thesis by (simp add: bind_def)
  qed
qed

lemma faithful_andThen [keeps_intros]: "faithful m \<Longrightarrow> faithful n \<Longrightarrow> faithful (andThen m n)"
  by (simp add: andThen_def faithful_bind)

lemma faithful_for_each [keeps_intros]: "(\<And>x. faithful (f x)) \<Longrightarrow> faithful (for_each xs f)"
  by (induction xs) (auto intro: keeps_intros)

lemma faithful_if [keeps_intros]: "faithful m \<Longrightarrow> faithful n \<Longrightarrow> faithful (if b then m else n)"
  by simp

lemma faithful_option [keeps_intros]:
  "faithful m \<Longrightarrow> (\<And>x. faithful (f x)) \<Longrightarrow> faithful (case x of None \<Rightarrow> m | Some y \<Rightarrow> f y)"
  by (cases x) auto

lemma faithful_prod [keeps_intros]:
  "(\<And>x y. faithful (f x y)) \<Longrightarrow> faithful (case p of (x, y) \<Rightarrow> f x y)"
  by (cases p) auto

lemma faithful_Let [keeps_intros]: "(\<And>x. faithful (f x)) \<Longrightarrow> faithful (Let v f)"
  by (simp add: Let_def)

lemma faithful_stmt [keeps_intros]: "faithful (stmt f)"
proof (rule faithfulI)
  fix w r w' assume w: "calm w" and run: "stmt f w = (r, w')" and r: "r \<noteq> Inl ErrConn"
  have exec: "exec_sql f (v\<lparr>w_script := []\<rparr>) = (r, v'\<lparr>w_script := []\<rparr>) \<and> w_script v' = w_script v"
    if "exec_sql f v = (r, v')" for v v'
    using that by (auto simp: exec_sql_def split: prod.splits)
  show "calm w' \<and> stmt f (w\<lparr>w_script := []\<rparr>) = (r, w'\<lparr>w_script := []\<rparr>)"
  proof (cases "w_script w")
    case Nil
    with run exec [of w w'] w show ?thesis by (auto simp: stmt.simps calm_def)
  next
    case (Cons x s)
    with w r run have "exec_sql f (w\<lparr>w_script := s\<rparr>) = (r, w')"
      by (auto simp: stmt.simps calm_def)
    from exec [OF this] w Cons show ?thesis by (auto simp: stmt.simps calm_def)
  qed
qed

lemma faithful_InTx [keeps_intros]:
  assumes fn: "faithful fn"
  shows "faithful (InTx fn)"
proof (rule faithfulI)
  fix w r w' assume w: "calm w" and run: "InTx fn w = (r, w')" and r: "r \<noteq> Inl ErrConn"
  note nop = faithfulD [OF faithful_stmt [of q_nop]]
  have swap: "v\<lparr>w_script := [], w_base := b\<rparr> = v\<lparr>w_base := b, w_script := []\<rparr>"
    "v\<lparr>w_script := [], w_db := b\<rparr> = v\<lparr>w_db := b, w_script := []\<rparr>" for v :: world and b
    by (cases v, simp)+
  have never: "stmt q_nop v = (Inl e, v') \<Longrightarrow> e = ErrConn" for v v' e
    by (auto simp: stmt.simps exec_sql_def q_nop_def split: list.splits step.splits)
  obtain r1 w1 where b: "stmt q_nop w = (r1, w1)" by (cases "stmt q_nop w")
  have "r1 \<noteq> Inl e" for e using b run r never [of w e w1] by (auto simp: InTx_def)
  then obtain u where u: "r1 = Inr u" by (cases r1) auto
  from nop [OF w b] u have w1: "calm w1" "stmt q_nop (w\<lparr>w_script := []\<rparr>) = (Inr u, w1\<lparr>w_script := []\<rparr>)"
    by auto
  have v1: "calm (w1\<lparr>w_base := w_db w1\<rparr>)" using w1(1) by (simp add: calm_def)
  obtain r2 w2 where f: "fn (w1\<lparr>w_base := w_db w1\<rparr>) = (r2, w2)"
    by (cases "fn (w1\<lparr>w_base := w_db w1\<rparr>)")
  show "calm w' \<and> InTx fn (w\<lparr>w_script := []\<rparr>) = (r, w'\<lparr>w_script := []\<rparr>)"
  proof (cases r2)
    case (Inl e)
    with b u f run r have e: "r2 \<noteq> Inl ErrConn" "r = Inl e" "w' = w2\<lparr>w_db := w_base w2\<rparr>"
      by (auto simp: InTx_def)
    from faithfulD [OF fn v1 f e(1)] w1 e Inl show ?thesis
      by (simp add: InTx_def calm_def swap)
  next
    case (Inr x)
    from faithfulD [OF fn v1 f] Inr
    have w2: "calm w2" "fn (w1\<lparr>w_base := w_db w1, w_script := []\<rparr>) = (Inr x, w2\<lparr>w_script := []\<rparr>)"
      by auto
    obtain r3 w3 where c: "stmt q_nop w2 = (r3, w3)" by (cases "stmt q_nop w2")
    have "r3 \<noteq> Inl e" for e using b u f Inr c run r never [of w2 e w3] by (auto simp: InTx_def)
    then obtain u3 where u3: "r3 = Inr u3" by (cases r3) auto
    from nop [OF w2(1) c] u3
    have "calm w3" "stmt q_nop (w2\<lparr>w_script := []\<rparr>) = (Inr u3, w3\<lparr>w_script := []\<rparr>)" by auto
    with b u f Inr c u3 run w1 w2 show ?thesis by (auto simp: InTx_def calm_def swap)
  qed
qed

end
