(* ===== verification/Filesystem_Queries.thy ===== *)
theory Filesystem_Queries
  imports Contract GoText
begin

text \<open>
  The statements of \<open>internal/store/sqlcgen/filesystem.sql.go\<close>: mountpoints, observations,
  scan epochs and the watermark.  A statement is a function from the database and the
  sequences to its result and the new ones; an error leaves the tables as they were.
  \<open>starts_with\<close> and \<open>substr\<close> count characters and the model counts bytes: the prefix removed
  is the same.
\<close>

section \<open>Mountpoints\<close>

definition q_UpsertMountpoint :: "string \<Rightarrow> bool \<Rightarrow> mountpoint_row sql" where
  "q_UpsertMountpoint root enabled d q =
     (let q' = q\<lparr>sq_mountpoint := sq_mountpoint q + 1\<rparr> in
      case List.find (\<lambda>m. m_root_path m = root) (db_mountpoints d) of
        Some m \<Rightarrow>
          (let m' = m\<lparr>m_enabled := enabled, m_updated_at := db_now d\<rparr> in
           (Inr m', d\<lparr>db_mountpoints := upsert_by m_root_path m' (db_mountpoints d)\<rparr>, q'))
      | None \<Rightarrow>
          (let m = \<lparr>m_id = sq_mountpoint q', m_root_path = root, m_enabled = enabled,
                    m_created_at = db_now d, m_updated_at = db_now d\<rparr> in
           (Inr m, d\<lparr>db_mountpoints := db_mountpoints d @ [m]\<rparr>, q')))"

section \<open>Watermark and scan epochs\<close>

definition q_LockWatermark :: "int sql" where
  "q_LockWatermark = select (\<lambda>d. case db_watermark d of None \<Rightarrow> Inl ErrNoRows | Some w \<Rightarrow> Inr w)"

definition q_SetWatermark :: "int \<Rightarrow> unit sql" where
  "q_SetWatermark seq d q =
     (Inr (), d\<lparr>db_watermark := map_option (\<lambda>w. max w seq) (db_watermark d)\<rparr>, q)"

definition q_NextScanEpoch :: "int sql" where
  "q_NextScanEpoch d q = (Inr (sq_epoch q + 1), d, q\<lparr>sq_epoch := sq_epoch q + 1\<rparr>)"

section \<open>Observations\<close>

definition q_GetObservation :: "int \<Rightarrow> string \<Rightarrow> obs_row sql" where
  "q_GetObservation mp path = select (\<lambda>d.
     case List.find (\<lambda>r. obs_key r = (mp, path)) (db_obs d) of
       None \<Rightarrow> Inl ErrNoRows | Some r \<Rightarrow> Inr r)"

definition q_UpsertObservation :: "obs_row \<Rightarrow> unit sql" where
  "q_UpsertObservation row d q =
     (if o_mountpoint_id row \<notin> m_id ` set (db_mountpoints d) then (Inl ErrForeignKey, d, q)
      else (Inr (), d\<lparr>db_obs := upsert_by obs_key (row\<lparr>o_observed_at := db_now d\<rparr>) (db_obs d)\<rparr>, q))"

definition q_DeleteObservation :: "int \<Rightarrow> string \<Rightarrow> unit sql" where
  "q_DeleteObservation mp path d q =
     (Inr (), d\<lparr>db_obs := filter (\<lambda>r. obs_key r \<noteq> (mp, path)) (db_obs d)\<rparr>, q)"

definition obs_under :: "int \<Rightarrow> string \<Rightarrow> obs_row \<Rightarrow> bool" where
  "obs_under mp pre r \<longleftrightarrow> o_mountpoint_id r = mp \<and> has_prefix (o_path r) pre"

definition q_DeleteObservationSubtree :: "int \<Rightarrow> string \<Rightarrow> string list sql" where
  "q_DeleteObservationSubtree mp pre d q =
     (Inr (map o_path (filter (obs_under mp pre) (db_obs d))),
      d\<lparr>db_obs := filter (\<lambda>r. \<not> obs_under mp pre r) (db_obs d)\<rparr>, q)"

text \<open>\<open>new_prefix || substr(path, length(old_prefix) + 1)\<close>.\<close>

definition repath :: "string \<Rightarrow> string \<Rightarrow> string \<Rightarrow> string" where
  "repath old new p = new @ drop (length old) p"

definition q_MoveObservationSubtree :: "int \<Rightarrow> string \<Rightarrow> string \<Rightarrow> unit sql" where
  "q_MoveObservationSubtree mp old new d q =
     (case rekey_rows (Some \<circ> obs_key) (obs_under mp old)
            (\<lambda>r. r\<lparr>o_path := repath old new (o_path r), o_observed_at := db_now d\<rparr>)
            [] (db_obs d) of
        None \<Rightarrow> (Inl ErrUnique, d, q)
      | Some rows \<Rightarrow> (Inr (), d\<lparr>db_obs := rows\<rparr>, q))"

definition swept :: "int \<Rightarrow> string \<Rightarrow> string \<Rightarrow> int \<Rightarrow> obs_row \<Rightarrow> bool" where
  "swept mp root pre epoch r \<longleftrightarrow>
     o_mountpoint_id r = mp \<and> (o_path r = root \<or> has_prefix (o_path r) pre) \<and> o_seen_epoch r \<noteq> epoch"

definition q_SweepScanEpoch :: "int \<Rightarrow> string \<Rightarrow> string \<Rightarrow> int \<Rightarrow> string list sql" where
  "q_SweepScanEpoch mp root pre epoch d q =
     (Inr (map o_path (filter (swept mp root pre epoch) (db_obs d))),
      d\<lparr>db_obs := filter (\<lambda>r. \<not> swept mp root pre epoch r) (db_obs d)\<rparr>, q)"

lemmas fs_stmt_defs [sql_defs] =
  q_UpsertMountpoint_def q_LockWatermark_def q_SetWatermark_def q_NextScanEpoch_def
  q_GetObservation_def q_UpsertObservation_def q_DeleteObservation_def
  q_DeleteObservationSubtree_def q_MoveObservationSubtree_def q_SweepScanEpoch_def

section \<open>Facts\<close>

lemma repath_prefix: "has_prefix (repath old new p) new"
  by (simp add: repath_def)

lemma repath_inj:
  "has_prefix p old \<Longrightarrow> has_prefix r old \<Longrightarrow> repath old new p = repath old new r \<Longrightarrow> p = r"
  by (auto simp: repath_def has_prefix_iff)

lemma repath_back: "has_prefix p old \<Longrightarrow> repath new old (repath old new p) = p"
  by (auto simp: repath_def has_prefix_iff)

lemma index_ok_Some: "index_ok (Some \<circ> f) xs \<longleftrightarrow> distinct (map f xs)"
  by (induction xs) auto

lemma distinct_filter_keys: "distinct (map f xs) \<Longrightarrow> distinct (map f (filter P xs))"
  by (simp add: distinct_map_filter)

text \<open>
  After the destination subtree was emptied, moving a subtree onto it cannot collide with
  the primary key, whatever the order the rows are visited in.
\<close>

lemma MoveObservationSubtree_no_conflict:
  assumes keys: "distinct (map obs_key (db_obs d))"
    and gone: "\<And>r. r \<in> set (db_obs d) \<Longrightarrow> \<not> obs_under mp new r"
  shows "\<exists>d'. q_MoveObservationSubtree mp old new d q = (Inr (), d', q)"
proof -
  let ?f = "\<lambda>r. r\<lparr>o_path := repath old new (o_path r), o_observed_at := db_now d\<rparr>"
  have out: "obs_key (?f r) \<notin> obs_key ` set (db_obs d)" if "obs_under mp old r" for r
  proof
    assume "obs_key (?f r) \<in> obs_key ` set (db_obs d)"
    then obtain s where "s \<in> set (db_obs d)" and s: "obs_key s = obs_key (?f r)" by force
    then have "o_mountpoint_id s = mp" "o_path s = repath old new (o_path r)"
      using that by (auto simp: obs_key_def obs_under_def)
    then have "obs_under mp new s"
      by (simp add: obs_under_def repath_prefix)
    with gone \<open>s \<in> set (db_obs d)\<close> show False by blast
  qed
  have inj: "index_ok (Some \<circ> obs_key) (map ?f (filter (obs_under mp old) (db_obs d)))"
    unfolding index_ok_Some map_map
  proof (subst distinct_map, intro conjI inj_onI)
    show "distinct (filter (obs_under mp old) (db_obs d))"
      using keys by (simp add: distinct_map)
    fix r s
    assume "r \<in> set (filter (obs_under mp old) (db_obs d))"
      "s \<in> set (filter (obs_under mp old) (db_obs d))" "(obs_key \<circ> ?f) r = (obs_key \<circ> ?f) s"
    then have "r \<in> set (db_obs d)" "s \<in> set (db_obs d)" "obs_key r = obs_key s"
      by (auto simp: obs_key_def obs_under_def dest: repath_inj)
    then show "r = s" using keys by (auto intro: distinct_map_inj)
  qed
  have "rekey_rows (Some \<circ> obs_key) (obs_under mp old) ?f [] (db_obs d) \<noteq> None"
    by (rule rekey_rows_succeeds) (use out inj in auto)
  then show ?thesis
    by (auto simp: q_MoveObservationSubtree_def)
qed

lemma MoveObservationSubtree_result:
  "q_MoveObservationSubtree mp old new d q = (Inr u, d', q') \<Longrightarrow>
     q' = q \<and> d' = d\<lparr>db_obs := update_where (obs_under mp old)
        (\<lambda>r. r\<lparr>o_path := repath old new (o_path r), o_observed_at := db_now d\<rparr>) (db_obs d)\<rparr>"
  by (auto simp: q_MoveObservationSubtree_def split: option.splits dest: rekey_rows_result)

section \<open>The constraints are kept\<close>

lemma obs_ok_upsert:
  assumes "obs_ok d q" "o_mountpoint_id row \<in> m_id ` set (db_mountpoints d)"
    "o_seen_epoch row \<le> sq_epoch q"
  shows "obs_ok (d\<lparr>db_obs := upsert_by obs_key row (db_obs d)\<rparr>) q"
  using assms by (auto simp: obs_ok_def set_upsert_by distinct_upsert_by)

lemma obs_ok_filter: "obs_ok d q \<Longrightarrow> obs_ok (d\<lparr>db_obs := filter P (db_obs d)\<rparr>) q"
  by (auto simp: obs_ok_def distinct_filter_keys)

lemma db_ok_obs_update:
  "db_ok d q \<Longrightarrow> obs_ok (d\<lparr>db_obs := rows\<rparr>) q \<Longrightarrow> db_ok (d\<lparr>db_obs := rows\<rparr>) q"
  by (auto simp: db_ok_def mountpoints_ok_def docs_ok_def cvs_ok_def extracted_ok_def thumbs_ok_def)

lemma obs_ok_move:
  assumes ok: "obs_ok d q" and run: "rekey_rows (Some \<circ> obs_key) P f [] (db_obs d) = Some rows"
    and same: "\<And>r. o_mountpoint_id (f r) = o_mountpoint_id r \<and> o_seen_epoch (f r) = o_seen_epoch r"
  shows "obs_ok (d\<lparr>db_obs := rows\<rparr>) q"
proof -
  have "index_ok (Some \<circ> obs_key) rows"
    using run by (rule rekey_rows_index [rotated]) (use ok in \<open>simp add: index_ok_Some obs_ok_def\<close>)
  moreover have "rows = update_where P f (db_obs d)"
    using rekey_rows_result [OF run] by simp
  ultimately show ?thesis
    using ok same by (auto simp: obs_ok_def index_ok_Some set_update_where)
qed

end
