(* ===== verification/Document_Queries.thy ===== *)
theory Document_Queries
  imports Filesystem_Queries
begin

text \<open>
  The statements of \<open>internal/store/sqlcgen/documents.sql.go\<close>: document identity, content
  versions and extraction results.  A \<open>:one\<close> statement with no row is \<open>ErrNoRows\<close>.
\<close>

definition row_or_none :: "'r option \<Rightarrow> err + 'r" where
  "row_or_none r = (case r of None \<Rightarrow> Inl ErrNoRows | Some x \<Rightarrow> Inr x)"

section \<open>Finding documents\<close>

definition doc_at :: "int \<Rightarrow> string \<Rightarrow> doc_row \<Rightarrow> bool" where
  "doc_at mp path r \<longleftrightarrow> d_mountpoint_id r = mp \<and> d_path r = path \<and> live r"

definition q_FindLiveDocumentByPath :: "int \<Rightarrow> string \<Rightarrow> doc_row sql" where
  "q_FindLiveDocumentByPath mp path =
     select (\<lambda>d. row_or_none (List.find (doc_at mp path) (db_docs d)))"

definition q_FindLiveDocumentByInode :: "int \<Rightarrow> int \<Rightarrow> int \<Rightarrow> doc_row sql" where
  "q_FindLiveDocumentByInode mp dev ino =
     select (\<lambda>d. row_or_none (first_by d_id
       (\<lambda>r. d_mountpoint_id r = mp \<and> d_dev r = dev \<and> d_ino r = ino \<and> live r) (db_docs d)))"

definition has_hash :: "database \<Rightarrow> string \<Rightarrow> doc_row \<Rightarrow> bool" where
  "has_hash d hash r \<longleftrightarrow>
     (\<exists>c \<in> set (db_cvs d). d_current_cv r = Some (cv_id c) \<and> cv_content_hash c = hash)"

definition observed :: "database \<Rightarrow> int \<Rightarrow> string \<Rightarrow> bool" where
  "observed d mp path \<longleftrightarrow> (mp, path) \<in> obs_key ` set (db_obs d)"

definition q_FindLiveDocumentByContent :: "int \<Rightarrow> string \<Rightarrow> doc_row sql" where
  "q_FindLiveDocumentByContent mp hash =
     select (\<lambda>d. row_or_none (first_by d_id
       (\<lambda>r. d_mountpoint_id r = mp \<and> has_hash d hash r \<and> live r \<and>
            \<not> observed d (d_mountpoint_id r) (d_path r)) (db_docs d)))"

section \<open>Creating, moving and tombstoning documents\<close>

definition fresh_doc :: "int \<Rightarrow> int \<Rightarrow> string \<Rightarrow> int \<Rightarrow> int \<Rightarrow> int \<Rightarrow> doc_row" where
  "fresh_doc did mp path dev ino t =
     \<lparr>d_id = did, d_mountpoint_id = mp, d_path = path, d_dev = dev, d_ino = ino,
      d_current_cv = None, d_deleted_at = None, d_first_seen_at = t, d_updated_at = t\<rparr>"

text \<open>The partial unique index refuses a live row whose path another live row holds.\<close>

definition collides :: "doc_row \<Rightarrow> doc_row list \<Rightarrow> bool" where
  "collides r rows \<longleftrightarrow> live_key r \<noteq> None \<and> live_key r \<in> live_key ` set rows"

definition q_CreateDocument :: "int \<Rightarrow> string \<Rightarrow> int \<Rightarrow> int \<Rightarrow> doc_row sql" where
  "q_CreateDocument mp path dev ino d q =
     (let q' = q\<lparr>sq_doc := sq_doc q + 1\<rparr>;
          r = fresh_doc (sq_doc q') mp path dev ino (db_now d)
      in if collides r (db_docs d) then (Inl ErrUnique, d, q')
         else if mp \<notin> m_id ` set (db_mountpoints d) then (Inl ErrForeignKey, d, q')
         else (Inr r, d\<lparr>db_docs := db_docs d @ [r]\<rparr>, q'))"

definition relocated :: "string \<Rightarrow> int \<Rightarrow> int \<Rightarrow> int \<Rightarrow> doc_row \<Rightarrow> doc_row" where
  "relocated path dev ino t r = r\<lparr>d_path := path, d_dev := dev, d_ino := ino, d_updated_at := t\<rparr>"

definition q_MoveDocument :: "int \<Rightarrow> string \<Rightarrow> int \<Rightarrow> int \<Rightarrow> doc_row sql" where
  "q_MoveDocument did path dev ino d q =
     (let f = relocated path dev ino (db_now d)
      in case List.find (\<lambda>r. d_id r = did) (db_docs d) of
           None \<Rightarrow> (Inl ErrNoRows, d, q)
         | Some r \<Rightarrow>
             if collides (f r) (filter (\<lambda>s. d_id s \<noteq> did) (db_docs d))
             then (Inl ErrUnique, d, q)
             else (Inr (f r), d\<lparr>db_docs := update_where (\<lambda>s. d_id s = did) f (db_docs d)\<rparr>, q))"

definition doc_under :: "int \<Rightarrow> string \<Rightarrow> doc_row \<Rightarrow> bool" where
  "doc_under mp pre r \<longleftrightarrow> d_mountpoint_id r = mp \<and> has_prefix (d_path r) pre \<and> live r"

definition repathed :: "string \<Rightarrow> string \<Rightarrow> int \<Rightarrow> doc_row \<Rightarrow> doc_row" where
  "repathed old new t r = r\<lparr>d_path := repath old new (d_path r), d_updated_at := t\<rparr>"

definition q_MoveDocumentSubtree :: "int \<Rightarrow> string \<Rightarrow> string \<Rightarrow> (int \<times> string) list sql" where
  "q_MoveDocumentSubtree mp old new d q =
     (let f = repathed old new (db_now d)
      in case rekey_rows live_key (doc_under mp old) f [] (db_docs d) of
           None \<Rightarrow> (Inl ErrUnique, d, q)
         | Some rows \<Rightarrow>
             (Inr (map (\<lambda>r. (d_id r, d_path (f r))) (filter (doc_under mp old) (db_docs d))),
              d\<lparr>db_docs := rows\<rparr>, q))"

definition tombstone :: "int \<Rightarrow> doc_row \<Rightarrow> doc_row" where
  "tombstone t r = r\<lparr>d_deleted_at := Some (case d_deleted_at r of None \<Rightarrow> t | Some t0 \<Rightarrow> t0),
                     d_updated_at := t\<rparr>"

definition q_TombstoneDocument :: "int \<Rightarrow> doc_row sql" where
  "q_TombstoneDocument did d q =
     (case List.find (\<lambda>r. d_id r = did) (db_docs d) of
        None \<Rightarrow> (Inl ErrNoRows, d, q)
      | Some r \<Rightarrow> (Inr (tombstone (db_now d) r),
          d\<lparr>db_docs := update_where (\<lambda>s. d_id s = did) (tombstone (db_now d)) (db_docs d)\<rparr>, q))"

definition q_TombstoneDocumentByPath :: "int \<Rightarrow> string \<Rightarrow> doc_row sql" where
  "q_TombstoneDocumentByPath mp path d q =
     (case List.find (doc_at mp path) (db_docs d) of
        None \<Rightarrow> (Inl ErrNoRows, d, q)
      | Some r \<Rightarrow> (Inr (tombstone (db_now d) r),
          d\<lparr>db_docs := update_where (doc_at mp path) (tombstone (db_now d)) (db_docs d)\<rparr>, q))"

definition q_TombstoneDocumentSubtree :: "int \<Rightarrow> string \<Rightarrow> (int \<times> string \<times> int option) list sql" where
  "q_TombstoneDocumentSubtree mp pre d q =
     (Inr (map (\<lambda>r. (d_id r, d_path r, d_current_cv r)) (filter (doc_under mp pre) (db_docs d))),
      d\<lparr>db_docs := update_where (doc_under mp pre) (tombstone (db_now d)) (db_docs d)\<rparr>, q)"

section \<open>Content versions\<close>

definition q_UpsertContentVersion :: "string \<Rightarrow> int \<Rightarrow> cv_row sql" where
  "q_UpsertContentVersion hash n d q =
     (let q' = q\<lparr>sq_cv := sq_cv q + 1\<rparr> in
      case List.find (\<lambda>c. cv_content_hash c = hash) (db_cvs d) of
        Some c \<Rightarrow>
          (let c' = c\<lparr>cv_size_bytes := n\<rparr> in
           (Inr c', d\<lparr>db_cvs := upsert_by cv_content_hash c' (db_cvs d)\<rparr>, q'))
      | None \<Rightarrow>
          (let c = \<lparr>cv_id = sq_cv q', cv_content_hash = hash, cv_size_bytes = n,
                    cv_created_at = db_now d\<rparr> in
           (Inr c, d\<lparr>db_cvs := db_cvs d @ [c]\<rparr>, q')))"

text \<open>
  The compare-and-swap: the row is matched by id and by the version it is expected to
  hold (\<open>IS NOT DISTINCT FROM\<close>, so \<open>None\<close> matches a document never promoted).
\<close>

definition with_version :: "int option \<Rightarrow> int \<Rightarrow> doc_row \<Rightarrow> doc_row" where
  "with_version new t r = r\<lparr>d_current_cv := new, d_updated_at := t\<rparr>"

text \<open>The foreign key of \<open>current_content_version_id\<close>.\<close>

definition version_exists :: "database \<Rightarrow> int option \<Rightarrow> bool" where
  "version_exists d v = (case v of None \<Rightarrow> True | Some c \<Rightarrow> c \<in> cv_id ` set (db_cvs d))"

definition q_SetDocumentCurrentVersion :: "int option \<Rightarrow> int \<Rightarrow> int option \<Rightarrow> doc_row sql" where
  "q_SetDocumentCurrentVersion new did expected d q =
     (let f = with_version new (db_now d) in
      case List.find (\<lambda>r. d_id r = did \<and> d_current_cv r = expected) (db_docs d) of
        None \<Rightarrow> (Inl ErrNoRows, d, q)
      | Some r \<Rightarrow>
          if \<not> version_exists d new
          then (Inl ErrForeignKey, d, q)
          else (Inr (f r), d\<lparr>db_docs :=
                  update_where (\<lambda>s. d_id s = did \<and> d_current_cv s = expected) f (db_docs d)\<rparr>, q))"

section \<open>Extraction results\<close>

text \<open>A row as the two marks insert it: every other column takes its default.\<close>

definition marked_row :: "int \<Rightarrow> string \<Rightarrow> string option \<Rightarrow> int \<Rightarrow> ex_row" where
  "marked_row cv status msg t =
     \<lparr>ex_cv_id = cv, ex_status = status, ex_text = [], ex_metadata = ''{}'',
      ex_content_type = None, ex_error = msg, ex_extracted_at = None, ex_updated_at = t\<rparr>"

definition q_MarkExtractionPending :: "int \<Rightarrow> unit sql" where
  "q_MarkExtractionPending cv d q =
     (if cv \<in> ex_cv_id ` set (db_extracted d) then (Inr (), d, q)
      else if cv \<notin> cv_id ` set (db_cvs d) then (Inl ErrForeignKey, d, q)
      else (Inr (), d\<lparr>db_extracted := db_extracted d @
              [marked_row cv status_pending None (db_now d)]\<rparr>, q))"

definition q_MarkExtractionFailed :: "int \<Rightarrow> string option \<Rightarrow> unit sql" where
  "q_MarkExtractionFailed cv msg d q =
     (if cv \<in> ex_cv_id ` set (db_extracted d)
      then (Inr (), d\<lparr>db_extracted := update_where (\<lambda>r. ex_cv_id r = cv)
              (\<lambda>r. r\<lparr>ex_status := status_failed, ex_error := msg, ex_updated_at := db_now d\<rparr>)
              (db_extracted d)\<rparr>, q)
      else if cv \<notin> cv_id ` set (db_cvs d) then (Inl ErrForeignKey, d, q)
      else (Inr (), d\<lparr>db_extracted := db_extracted d @
              [marked_row cv status_failed msg (db_now d)]\<rparr>, q))"

definition q_UpsertExtraction ::
  "int \<Rightarrow> string \<Rightarrow> string \<Rightarrow> string \<Rightarrow> string option \<Rightarrow> string option \<Rightarrow> ex_row sql" where
  "q_UpsertExtraction cv status txt meta ctype msg d q =
     (let r = \<lparr>ex_cv_id = cv, ex_status = status, ex_text = txt, ex_metadata = meta,
               ex_content_type = ctype, ex_error = msg, ex_extracted_at = Some (db_now d),
               ex_updated_at = db_now d\<rparr> in
      if cv \<notin> cv_id ` set (db_cvs d) then (Inl ErrForeignKey, d, q)
      else if status \<notin> statuses then (Inl ErrCheck, d, q)
      else (Inr r, d\<lparr>db_extracted := upsert_by ex_cv_id r (db_extracted d)\<rparr>, q))"

definition doc_with_file :: "database \<Rightarrow> doc_row \<Rightarrow> (doc_row \<times> obs_row) option" where
  "doc_with_file d r =
     map_option (Pair r) (List.find (\<lambda>o'. obs_key o' = (d_mountpoint_id r, d_path r)) (db_obs d))"

text \<open>Returns the document id, its mountpoint, its path and the observed size.\<close>

definition q_FindPathForContentVersion :: "int option \<Rightarrow> (int \<times> int \<times> string \<times> int) sql" where
  "q_FindPathForContentVersion cv = select (\<lambda>d.
     case first_by d_id (\<lambda>r. cv \<noteq> None \<and> d_current_cv r = cv \<and> live r \<and>
            observed d (d_mountpoint_id r) (d_path r)) (db_docs d) of
       None \<Rightarrow> Inl ErrNoRows
     | Some r \<Rightarrow> (case doc_with_file d r of
          None \<Rightarrow> Inl ErrNoRows
        | Some (_, o') \<Rightarrow> Inr (d_id r, d_mountpoint_id r, d_path r, o_size o')))"

definition q_FindDocumentSourcePath :: "int \<Rightarrow> int option \<Rightarrow> (string \<times> int) sql" where
  "q_FindDocumentSourcePath did cv = select (\<lambda>d.
     case List.find (\<lambda>r. d_id r = did \<and> cv \<noteq> None \<and> d_current_cv r = cv \<and> live r) (db_docs d) of
       None \<Rightarrow> Inl ErrNoRows
     | Some r \<Rightarrow> (case doc_with_file d r of
          None \<Rightarrow> Inl ErrNoRows
        | Some (_, o') \<Rightarrow> Inr (d_path r, o_size o')))"

lemmas doc_stmt_defs [sql_defs] =
  q_FindLiveDocumentByPath_def q_FindLiveDocumentByInode_def q_FindLiveDocumentByContent_def
  q_CreateDocument_def q_MoveDocument_def q_MoveDocumentSubtree_def q_TombstoneDocument_def
  q_TombstoneDocumentByPath_def q_TombstoneDocumentSubtree_def q_UpsertContentVersion_def
  q_SetDocumentCurrentVersion_def q_MarkExtractionPending_def q_MarkExtractionFailed_def
  q_UpsertExtraction_def

end
