(* ===== verification/Schema_Invariant.thy ===== *)
theory Schema_Invariant
  imports Document_Queries
begin

text \<open>
  Every statement of the ingestion path keeps the constraints of the schema, on every
  branch: each lemma below is one law of the contract the later theories rely on.
\<close>

lemma goodI:
  assumes "\<And>d q r d' q'. \<lbrakk>f d q = (r, d', q'); I d q; e \<le> sq_epoch q\<rbrakk> \<Longrightarrow> I d' q' \<and> seqs_le q q'"
  shows "good I e f"
  unfolding good_def
proof (intro allI impI)
  fix d q assume I: "I d q" "e \<le> sq_epoch q"
  obtain r d' q' where "f d q = (r, d', q')" by (cases "f d q")
  with assms [OF this I]
  show "I (fst (snd (f d q))) (snd (snd (f d q))) \<and> seqs_le q (snd (snd (f d q)))" by simp
qed

section \<open>Changing one table\<close>

lemma db_ok_watermark: "db_ok d q \<Longrightarrow> db_ok (d\<lparr>db_watermark := w\<rparr>) q"
  by (simp add: db_ok_defs)

lemma db_ok_outbox: "db_ok d q \<Longrightarrow> db_ok (d\<lparr>db_outbox := w\<rparr>) q"
  by (simp add: db_ok_defs)

lemma db_ok_docs:
  "db_ok d q \<Longrightarrow> docs_ok (d\<lparr>db_docs := rows\<rparr>) q \<Longrightarrow> db_ok (d\<lparr>db_docs := rows\<rparr>) q"
  by (simp add: db_ok_defs)

lemma db_ok_extracted:
  "db_ok d q \<Longrightarrow> extracted_ok (d\<lparr>db_extracted := rows\<rparr>) \<Longrightarrow> db_ok (d\<lparr>db_extracted := rows\<rparr>) q"
  by (simp add: db_ok_defs)

lemma docs_ok_update:
  assumes "docs_ok d q"
    and "\<And>r. r \<in> set (db_docs d) \<Longrightarrow> P r \<Longrightarrow>
      d_id (f r) = d_id r \<and> d_mountpoint_id (f r) = d_mountpoint_id r \<and> d_current_cv (f r) = d_current_cv r"
    and "index_ok live_key (update_where P f (db_docs d))"
  shows "docs_ok (d\<lparr>db_docs := update_where P f (db_docs d)\<rparr>) q"
proof -
  have ids: "map d_id (update_where P f (db_docs d)) = map d_id (db_docs d)"
    using assms(2) by (auto simp: update_where_def)
  show ?thesis
    using assms by (auto simp: docs_ok_def ids set_update_where)
qed

lemma docs_ok_tombstone:
  assumes "docs_ok d q"
  shows "docs_ok (d\<lparr>db_docs := update_where P (tombstone t) (db_docs d)\<rparr>) q"
proof (rule docs_ok_update [OF assms])
  show "index_ok live_key (update_where P (tombstone t) (db_docs d))"
    by (rule index_ok_update_where)
      (use assms in \<open>auto simp: docs_ok_def live_key_def live_def tombstone_def\<close>)
qed (simp add: tombstone_def)

lemma docs_ok_append:
  assumes "docs_ok d q" "0 \<le> sq_doc q" "live_key r \<notin> live_key ` set (db_docs d)"
    "d_id r = sq_doc q + 1" "d_mountpoint_id r \<in> m_id ` set (db_mountpoints d)" "d_current_cv r = None"
  shows "docs_ok (d\<lparr>db_docs := db_docs d @ [r]\<rparr>) (q\<lparr>sq_doc := sq_doc q + 1\<rparr>)"
proof -
  have "ids_ok (sq_doc q + 1) (map d_id (db_docs d) @ [sq_doc q + 1])"
    using assms by (intro ids_ok_append_next) (auto simp: docs_ok_def)
  moreover have "index_ok live_key (db_docs d @ [r])"
    using assms(1,3) by (auto simp: docs_ok_def index_ok_append image_iff)
  ultimately show ?thesis using assms by (auto simp: docs_ok_def)
qed

lemma index_ok_update_one:
  assumes "index_ok k rows" "distinct (map i rows)" "r \<in> set rows" "i r = x"
    and "k (f r) = None \<or> k (f r) \<notin> k ` set (filter (\<lambda>s. i s \<noteq> x) rows)"
  shows "index_ok k (update_where (\<lambda>s. i s = x) f rows)"
  using assms
proof (induction rows)
  case Nil
  then show ?case by simp
next
  case (Cons s rows)
  show ?case
  proof (cases "i s = x")
    case True
    with Cons.prems have "s = r" "\<forall>t \<in> set rows. i t \<noteq> x" by (auto simp: image_iff)
    then have same: "update_where (\<lambda>s. i s = x) f rows = rows" "filter (\<lambda>s. i s \<noteq> x) rows = rows"
      by (auto intro: update_where_none)
    then have "update_where (\<lambda>s. i s = x) f (s # rows) = f r # rows"
      using True \<open>s = r\<close> by (simp add: update_where_def)
    with Cons.prems(1,5) same True show ?thesis by simp
  next
    case False
    with Cons.prems have "r \<in> set rows" by auto
    with Cons False have tl: "index_ok k (update_where (\<lambda>s. i s = x) f rows)" by auto
    have "k s = None \<or> k s \<notin> k ` set (update_where (\<lambda>s. i s = x) f rows)"
    proof -
      have "k s \<noteq> k t" if "t \<in> set rows" "k s \<noteq> None" for t
        using Cons.prems(1) that by (auto simp: image_iff)
      moreover have "k s \<noteq> k (f t)" if "t \<in> set rows" "i t = x" "k s \<noteq> None" for t
      proof -
        from Cons.prems(2,3,4) that \<open>r \<in> set rows\<close> have "t = r"
          by (auto intro: distinct_map_inj)
        with Cons.prems(5) that False show ?thesis by auto
      qed
      ultimately show ?thesis by (auto simp: set_update_where)
    qed
    with tl False show ?thesis by (simp add: update_where_def)
  qed
qed

section \<open>Statement by statement\<close>

lemma ok_SetWatermark: "good db_ok e (q_SetWatermark seq)"
  by (rule goodI) (auto simp: q_SetWatermark_def db_ok_watermark)

lemma ok_NextScanEpoch: "good db_ok e q_NextScanEpoch"
  by (rule goodI) (auto simp: q_NextScanEpoch_def db_ok_defs seqs_le_def)

lemma ok_UpsertObservation:
  assumes "o_seen_epoch row \<le> e"
  shows "good db_ok e (q_UpsertObservation row)"
proof (rule goodI)
  fix d q r d' q'
  assume run: "q_UpsertObservation row d q = (r, d', q')" and ok: "db_ok d q" and e: "e \<le> sq_epoch q"
  let ?row = "row\<lparr>o_observed_at := db_now d\<rparr>"
  show "db_ok d' q' \<and> seqs_le q q'"
  proof (cases "o_mountpoint_id row \<in> m_id ` set (db_mountpoints d)")
    case True
    have "obs_ok (d\<lparr>db_obs := upsert_by obs_key ?row (db_obs d)\<rparr>) q"
      by (rule obs_ok_upsert) (use ok True assms e in \<open>auto simp: db_ok_def\<close>)
    with ok run True show ?thesis
      by (auto simp: q_UpsertObservation_def intro: db_ok_obs_update)
  next
    case False
    with run ok show ?thesis by (auto simp: q_UpsertObservation_def)
  qed
qed

lemma ok_obs_filter: "db_ok d q \<Longrightarrow> db_ok (d\<lparr>db_obs := filter P (db_obs d)\<rparr>) q"
  by (rule db_ok_obs_update) (auto simp: db_ok_def obs_ok_filter)

lemma ok_DeleteObservation: "good db_ok e (q_DeleteObservation mp path)"
  by (rule goodI) (auto simp: q_DeleteObservation_def ok_obs_filter)

lemma ok_DeleteObservationSubtree: "good db_ok e (q_DeleteObservationSubtree mp pre)"
  by (rule goodI) (auto simp: q_DeleteObservationSubtree_def ok_obs_filter)

lemma ok_SweepScanEpoch: "good db_ok e (q_SweepScanEpoch mp root pre epoch)"
  by (rule goodI) (auto simp: q_SweepScanEpoch_def ok_obs_filter)

lemma ok_MoveObservationSubtree: "good db_ok e (q_MoveObservationSubtree mp old new)"
proof (rule goodI)
  fix d q r d' q'
  assume run: "q_MoveObservationSubtree mp old new d q = (r, d', q')" and ok: "db_ok d q"
  show "db_ok d' q' \<and> seqs_le q q'"
  proof (cases "rekey_rows (Some \<circ> obs_key) (obs_under mp old)
      (\<lambda>r. r\<lparr>o_path := repath old new (o_path r), o_observed_at := db_now d\<rparr>) [] (db_obs d)")
    case None
    with run ok show ?thesis by (auto simp: q_MoveObservationSubtree_def)
  next
    case (Some rows)
    have "obs_ok (d\<lparr>db_obs := rows\<rparr>) q"
      by (rule obs_ok_move [OF _ Some]) (use ok in \<open>auto simp: db_ok_def\<close>)
    with run ok Some show ?thesis
      by (auto simp: q_MoveObservationSubtree_def intro: db_ok_obs_update)
  qed
qed

lemma collides_iff:
  "collides r rows \<longleftrightarrow> \<not> (live_key r = None \<or> live_key r \<notin> live_key ` set rows)"
  by (simp add: collides_def)

lemma ok_CreateDocument: "good db_ok e (q_CreateDocument mp path dev ino)"
proof (rule goodI)
  fix d q r d' q'
  assume run: "q_CreateDocument mp path dev ino d q = (r, d', q')" and ok: "db_ok d q"
  let ?q = "q\<lparr>sq_doc := sq_doc q + 1\<rparr>"
  let ?r = "fresh_doc (sq_doc q + 1) mp path dev ino (db_now d)"
  have le: "seqs_le q ?q" by (simp add: seqs_le_def)
  have key: "live_key ?r = Some (mp, path)" by (simp add: live_key_def live_def fresh_doc_def)
  have docs: "docs_ok (d\<lparr>db_docs := db_docs d @ [?r]\<rparr>) ?q"
    if "\<not> collides ?r (db_docs d)" "mp \<in> m_id ` set (db_mountpoints d)"
    by (rule docs_ok_append)
      (use ok that key in \<open>auto simp: db_ok_def seqs_ok_def collides_def fresh_doc_def\<close>)
  consider "d' = d" "q' = ?q" | "\<not> collides ?r (db_docs d)" "mp \<in> m_id ` set (db_mountpoints d)"
    "d' = d\<lparr>db_docs := db_docs d @ [?r]\<rparr>" "q' = ?q"
    using run by (auto simp: q_CreateDocument_def Let_def split: if_splits)
  then show "db_ok d' q' \<and> seqs_le q q'"
    by cases (use db_ok_stable [OF ok le] le docs in \<open>auto intro: db_ok_docs\<close>)
qed

lemma ok_MoveDocument: "good db_ok e (q_MoveDocument did path dev ino)"
proof (rule goodI)
  fix d q r d' q'
  assume run: "q_MoveDocument did path dev ino d q = (r, d', q')" and ok: "db_ok d q"
  let ?f = "relocated path dev ino (db_now d)"
  have docs: "docs_ok d q" using ok by (simp add: db_ok_def)
  have moved: "docs_ok (d\<lparr>db_docs := update_where (\<lambda>s. d_id s = did) ?f (db_docs d)\<rparr>) q"
    if s: "List.find (\<lambda>r. d_id r = did) (db_docs d) = Some s"
      and free: "\<not> collides (?f s) (filter (\<lambda>s. d_id s \<noteq> did) (db_docs d))" for s
  proof (rule docs_ok_update [OF docs])
    show "index_ok live_key (update_where (\<lambda>s. d_id s = did) ?f (db_docs d))"
      by (rule index_ok_update_one [where r = s])
        (use docs find_SomeD [OF s] free in \<open>auto simp: docs_ok_def ids_ok_def collides_iff\<close>)
  qed (simp add: relocated_def)
  consider "d' = d" "q' = q" | s where "List.find (\<lambda>r. d_id r = did) (db_docs d) = Some s"
    "\<not> collides (?f s) (filter (\<lambda>s. d_id s \<noteq> did) (db_docs d))" "q' = q"
    "d' = d\<lparr>db_docs := update_where (\<lambda>s. d_id s = did) ?f (db_docs d)\<rparr>"
    using run by (auto simp: q_MoveDocument_def Let_def split: option.splits if_splits)
  then show "db_ok d' q' \<and> seqs_le q q'"
    by cases (use ok moved in \<open>auto intro: db_ok_docs\<close>)
qed

lemma ok_MoveDocumentSubtree: "good db_ok e (q_MoveDocumentSubtree mp old new)"
proof (rule goodI)
  fix d q r d' q'
  assume run: "q_MoveDocumentSubtree mp old new d q = (r, d', q')" and ok: "db_ok d q"
  let ?f = "repathed old new (db_now d)"
  have docs: "docs_ok d q" using ok by (simp add: db_ok_def)
  have moved: "docs_ok (d\<lparr>db_docs := rows\<rparr>) q"
    if rows: "rekey_rows live_key (doc_under mp old) ?f [] (db_docs d) = Some rows" for rows
  proof -
    have eq: "rows = update_where (doc_under mp old) ?f (db_docs d)"
      using rekey_rows_result [OF rows] by simp
    have "index_ok live_key rows"
      by (rule rekey_rows_index [OF _ rows]) (use docs in \<open>simp add: docs_ok_def\<close>)
    then show ?thesis
      unfolding eq by (intro docs_ok_update [OF docs]) (auto simp: repathed_def)
  qed
  consider "d' = d" "q' = q" | rows where
    "rekey_rows live_key (doc_under mp old) ?f [] (db_docs d) = Some rows"
    "d' = d\<lparr>db_docs := rows\<rparr>" "q' = q"
    using run by (auto simp: q_MoveDocumentSubtree_def Let_def split: option.splits)
  then show "db_ok d' q' \<and> seqs_le q q'"
    by cases (use ok moved in \<open>auto intro: db_ok_docs\<close>)
qed

lemma ok_tombstone: "db_ok d q \<Longrightarrow> db_ok (d\<lparr>db_docs := update_where P (tombstone t) (db_docs d)\<rparr>) q"
  by (rule db_ok_docs) (auto simp: db_ok_def docs_ok_tombstone)

lemma ok_TombstoneDocument: "good db_ok e (q_TombstoneDocument did)"
  by (rule goodI) (auto simp: q_TombstoneDocument_def ok_tombstone split: option.splits)

lemma ok_TombstoneDocumentByPath: "good db_ok e (q_TombstoneDocumentByPath mp path)"
  by (rule goodI) (auto simp: q_TombstoneDocumentByPath_def ok_tombstone split: option.splits)

lemma ok_TombstoneDocumentSubtree: "good db_ok e (q_TombstoneDocumentSubtree mp pre)"
  by (rule goodI) (auto simp: q_TombstoneDocumentSubtree_def ok_tombstone)

lemma cvs_ok_append:
  assumes "cvs_ok d q" "0 \<le> sq_cv q" "cv_id c = sq_cv q + 1"
    "cv_content_hash c \<notin> cv_content_hash ` set (db_cvs d)"
  shows "cvs_ok (d\<lparr>db_cvs := db_cvs d @ [c]\<rparr>) (q\<lparr>sq_cv := sq_cv q + 1\<rparr>)"
proof -
  have "ids_ok (sq_cv q + 1) (map cv_id (db_cvs d) @ [sq_cv q + 1])"
    using assms by (intro ids_ok_append_next) (auto simp: cvs_ok_def)
  with assms show ?thesis by (simp add: cvs_ok_def)
qed

lemma cvs_upsert_ids:
  assumes dist: "distinct (map cv_content_hash rows)" and c: "c \<in> set rows"
  shows "map cv_id (upsert_by cv_content_hash (c\<lparr>cv_size_bytes := n\<rparr>) rows) = map cv_id rows"
proof -
  have "cv_id c = cv_id y" if "y \<in> set rows" "cv_content_hash y = cv_content_hash c" for y
    using distinct_map_inj [OF dist] c that by auto
  with c show ?thesis by (auto simp: upsert_by_def)
qed

text \<open>Growing the content versions, or changing a size, breaks no reference to them.\<close>

lemma db_ok_cvs:
  assumes "db_ok d q" "cvs_ok (d\<lparr>db_cvs := rows\<rparr>) q" "cv_id ` set (db_cvs d) \<subseteq> cv_id ` set rows"
  shows "db_ok (d\<lparr>db_cvs := rows\<rparr>) q"
proof -
  have "docs_ok (d\<lparr>db_cvs := rows\<rparr>) q" "extracted_ok (d\<lparr>db_cvs := rows\<rparr>)" "thumbs_ok (d\<lparr>db_cvs := rows\<rparr>) q"
    using assms by (auto simp: db_ok_def docs_ok_def extracted_ok_def thumbs_ok_def)
  with assms show ?thesis by (simp add: db_ok_def mountpoints_ok_def obs_ok_def)
qed

lemma ok_UpsertContentVersion: "good db_ok e (q_UpsertContentVersion hash n)"
proof (rule goodI)
  fix d q r d' q'
  assume run: "q_UpsertContentVersion hash n d q = (r, d', q')" and ok: "db_ok d q"
  let ?q = "q\<lparr>sq_cv := sq_cv q + 1\<rparr>"
  have le: "seqs_le q ?q" by (simp add: seqs_le_def)
  note ok' = db_ok_stable [OF ok le]
  have cvs: "cvs_ok d q" "0 \<le> sq_cv q" using ok by (auto simp: db_ok_def seqs_ok_def)
  show "db_ok d' q' \<and> seqs_le q q'"
  proof (cases "List.find (\<lambda>c. cv_content_hash c = hash) (db_cvs d)")
    case None
    let ?c = "\<lparr>cv_id = sq_cv q + 1, cv_content_hash = hash, cv_size_bytes = n, cv_created_at = db_now d\<rparr>"
    have "cvs_ok (d\<lparr>db_cvs := db_cvs d @ [?c]\<rparr>) ?q"
      by (rule cvs_ok_append [OF cvs]) (use None in \<open>auto simp: find_None_set\<close>)
    then have "db_ok (d\<lparr>db_cvs := db_cvs d @ [?c]\<rparr>) ?q"
      by (intro db_ok_cvs [OF ok']) auto
    with run None le show ?thesis by (simp add: q_UpsertContentVersion_def Let_def)
  next
    case (Some c)
    let ?rows = "upsert_by cv_content_hash (c\<lparr>cv_size_bytes := n\<rparr>) (db_cvs d)"
    have c: "c \<in> set (db_cvs d)" using find_SomeD [OF Some] by simp
    have ids: "map cv_id ?rows = map cv_id (db_cvs d)"
      using cvs c by (intro cvs_upsert_ids) (auto simp: cvs_ok_def)
    have "map cv_content_hash ?rows = map cv_content_hash (db_cvs d)"
      using c by (intro keys_upsert_by_present) auto
    with ids cvs le have "cvs_ok (d\<lparr>db_cvs := ?rows\<rparr>) ?q"
      by (auto simp: cvs_ok_def seqs_le_def intro: ids_ok_mono)
    moreover have "cv_id ` set ?rows = cv_id ` set (db_cvs d)" using ids by (metis set_map)
    ultimately have "db_ok (d\<lparr>db_cvs := ?rows\<rparr>) ?q" by (intro db_ok_cvs [OF ok']) auto
    with run Some le show ?thesis by (simp add: q_UpsertContentVersion_def Let_def)
  qed
qed

lemma docs_ok_with_version:
  assumes docs: "docs_ok d q" and fk: "version_exists d new"
  shows "docs_ok (d\<lparr>db_docs := update_where P (with_version new t) (db_docs d)\<rparr>) q"
proof -
  let ?rows = "update_where P (with_version new t) (db_docs d)"
  have ids: "map d_id ?rows = map d_id (db_docs d)"
    by (rule map_update_where_same) (simp add: with_version_def)
  have mps: "map d_mountpoint_id ?rows = map d_mountpoint_id (db_docs d)"
    by (rule map_update_where_same) (simp add: with_version_def)
  have ix: "index_ok live_key ?rows"
    by (rule index_ok_update_where)
      (use docs in \<open>auto simp: docs_ok_def live_key_def live_def with_version_def\<close>)
  have "d_mountpoint_id ` set ?rows = d_mountpoint_id ` set (db_docs d)"
    using mps by (metis set_map)
  then have mp: "\<forall>r \<in> set ?rows. d_mountpoint_id r \<in> m_id ` set (db_mountpoints d)"
    using docs by (metis docs_ok_def image_eqI image_iff)
  have cv: "\<forall>r \<in> set ?rows. \<forall>v. d_current_cv r = Some v \<longrightarrow> v \<in> cv_id ` set (db_cvs d)"
  proof (intro ballI allI impI)
    fix r v assume r: "r \<in> set ?rows" and v: "d_current_cv r = Some v"
    from r consider "r \<in> set (db_docs d)" | "d_current_cv r = new"
      by (auto simp: set_update_where with_version_def)
    then show "v \<in> cv_id ` set (db_cvs d)"
    proof cases
      case 1
      with docs v show ?thesis by (simp add: docs_ok_def)
    next
      case 2
      with fk v show ?thesis by (simp add: version_exists_def)
    qed
  qed
  from docs ids ix mp cv show ?thesis by (simp add: docs_ok_def)
qed

lemma ok_SetDocumentCurrentVersion: "good db_ok e (q_SetDocumentCurrentVersion new did expected)"
proof (rule goodI)
  fix d q r d' q'
  assume run: "q_SetDocumentCurrentVersion new did expected d q = (r, d', q')" and ok: "db_ok d q"
  let ?rows = "update_where (\<lambda>s. d_id s = did \<and> d_current_cv s = expected)
     (with_version new (db_now d)) (db_docs d)"
  have docs: "docs_ok d q" using ok by (simp add: db_ok_def)
  show "db_ok d' q' \<and> seqs_le q q'"
  proof (cases "List.find (\<lambda>r. d_id r = did \<and> d_current_cv r = expected) (db_docs d) = None \<or>
      \<not> version_exists d new")
    case True
    then have "d' = d \<and> q' = q"
      using run by (simp only: q_SetDocumentCurrentVersion_def Let_def) (auto split: option.splits if_splits)
    with ok show ?thesis by simp
  next
    case False
    then have "d' = d\<lparr>db_docs := ?rows\<rparr> \<and> q' = q"
      using run by (simp only: q_SetDocumentCurrentVersion_def Let_def) (auto split: option.splits if_splits)
    with False ok docs_ok_with_version [OF docs] show ?thesis by (simp add: db_ok_docs)
  qed
qed

lemma extracted_ok_append:
  "extracted_ok d \<Longrightarrow> ex_cv_id r \<notin> ex_cv_id ` set (db_extracted d) \<Longrightarrow>
     ex_cv_id r \<in> cv_id ` set (db_cvs d) \<Longrightarrow> ex_status r \<in> statuses \<Longrightarrow>
     extracted_ok (d\<lparr>db_extracted := db_extracted d @ [r]\<rparr>)"
  by (auto simp: extracted_ok_def)

lemma db_ok_extracted_ok: "db_ok d q \<Longrightarrow> extracted_ok d"
  by (simp add: db_ok_def)

lemma marked_row_simps [simp]:
  "ex_cv_id (marked_row cv st msg t) = cv" "ex_status (marked_row cv st msg t) = st"
  by (simp_all add: marked_row_def)

lemma statuses_simps [simp]:
  "status_pending \<in> statuses" "status_failed \<in> statuses" "status_succeeded \<in> statuses"
  by (simp_all add: statuses_def)

lemma ok_MarkExtractionPending: "good db_ok e (q_MarkExtractionPending cv)"
proof (rule goodI)
  fix d q r d' q'
  assume run: "q_MarkExtractionPending cv d q = (r, d', q')" and ok: "db_ok d q"
  let ?row = "marked_row cv status_pending None (db_now d)"
  have ex: "extracted_ok d" using ok by (rule db_ok_extracted_ok)
  consider "d' = d" "q' = q" | "cv \<notin> ex_cv_id ` set (db_extracted d)" "cv \<in> cv_id ` set (db_cvs d)"
    "d' = d\<lparr>db_extracted := db_extracted d @ [?row]\<rparr>" "q' = q"
    using run unfolding q_MarkExtractionPending_def by (simp split: if_splits)
  then show "db_ok d' q' \<and> seqs_le q q'"
  proof cases
    case 2
    then have "extracted_ok (d\<lparr>db_extracted := db_extracted d @ [?row]\<rparr>)"
      by (intro extracted_ok_append [OF ex]) simp_all
    with 2 ok show ?thesis by (simp add: db_ok_extracted)
  qed (use ok in simp)
qed

lemma extracted_ok_failed:
  assumes "extracted_ok d"
  shows "extracted_ok (d\<lparr>db_extracted := update_where (\<lambda>r. ex_cv_id r = cv)
    (\<lambda>r. r\<lparr>ex_status := status_failed, ex_error := msg, ex_updated_at := t\<rparr>) (db_extracted d)\<rparr>)"
  using assms by (simp add: extracted_ok_def map_update_where_same) (auto simp: set_update_where)

lemma ok_MarkExtractionFailed: "good db_ok e (q_MarkExtractionFailed cv msg)"
proof (rule goodI)
  fix d q r d' q'
  assume run: "q_MarkExtractionFailed cv msg d q = (r, d', q')" and ok: "db_ok d q"
  let ?row = "marked_row cv status_failed msg (db_now d)"
  let ?rows = "update_where (\<lambda>r. ex_cv_id r = cv)
    (\<lambda>r. r\<lparr>ex_status := status_failed, ex_error := msg, ex_updated_at := db_now d\<rparr>) (db_extracted d)"
  have ex: "extracted_ok d" using ok by (rule db_ok_extracted_ok)
  consider "d' = d" "q' = q" | "d' = d\<lparr>db_extracted := ?rows\<rparr>" "q' = q"
    | "cv \<notin> ex_cv_id ` set (db_extracted d)" "cv \<in> cv_id ` set (db_cvs d)"
      "d' = d\<lparr>db_extracted := db_extracted d @ [?row]\<rparr>" "q' = q"
    using run unfolding q_MarkExtractionFailed_def by (simp split: if_splits)
  then show "db_ok d' q' \<and> seqs_le q q'"
  proof cases
    case 2
    with ok extracted_ok_failed [OF ex] show ?thesis by (simp add: db_ok_extracted)
  next
    case 3
    then have "extracted_ok (d\<lparr>db_extracted := db_extracted d @ [?row]\<rparr>)"
      by (intro extracted_ok_append [OF ex]) simp_all
    with 3 ok show ?thesis by (simp add: db_ok_extracted)
  qed (use ok in simp)
qed

lemma extracted_ok_upsert:
  "extracted_ok d \<Longrightarrow> ex_cv_id r \<in> cv_id ` set (db_cvs d) \<Longrightarrow> ex_status r \<in> statuses \<Longrightarrow>
     extracted_ok (d\<lparr>db_extracted := upsert_by ex_cv_id r (db_extracted d)\<rparr>)"
  by (auto simp: extracted_ok_def set_upsert_by distinct_upsert_by)

lemma ok_UpsertExtraction: "good db_ok e (q_UpsertExtraction cv status txt meta ctype msg)"
proof (rule goodI)
  fix d q r d' q'
  assume run: "q_UpsertExtraction cv status txt meta ctype msg d q = (r, d', q')" and ok: "db_ok d q"
  let ?row = "\<lparr>ex_cv_id = cv, ex_status = status, ex_text = txt, ex_metadata = meta,
    ex_content_type = ctype, ex_error = msg, ex_extracted_at = Some (db_now d), ex_updated_at = db_now d\<rparr>"
  have ex: "extracted_ok d" using ok by (rule db_ok_extracted_ok)
  consider "d' = d" "q' = q" | "cv \<in> cv_id ` set (db_cvs d)" "status \<in> statuses"
      "d' = d\<lparr>db_extracted := upsert_by ex_cv_id ?row (db_extracted d)\<rparr>" "q' = q"
    using run unfolding q_UpsertExtraction_def Let_def by (simp split: if_splits)
  then show "db_ok d' q' \<and> seqs_le q q'"
  proof cases
    case 2
    then have "extracted_ok (d\<lparr>db_extracted := upsert_by ex_cv_id ?row (db_extracted d)\<rparr>)"
      by (intro extracted_ok_upsert [OF ex]) simp_all
    with 2 ok show ?thesis by (simp add: db_ok_extracted)
  qed (use ok in simp)
qed

end
