(* ===== verification/Jobs.thy ===== *)
theory Jobs
  imports Schema_Invariant
begin

text \<open>
  The job definitions and the enqueuer (\<open>internal/jobs/jobs.go\<close>).  The River client is a
  third-party package: what the code asks of it is the list of insert requests of a
  transaction, which commit or roll back with its rows.
\<close>

section \<open>Job kinds and insert options\<close>

definition QueueExtract :: string where "QueueExtract = ''extract''"

text \<open>River's default queue is the empty name in an \<open>InsertOpts\<close>.\<close>

definition QueueDefault :: string where "QueueDefault = ''''"

datatype job_state = JobAvailable | JobCancelled | JobCompleted | JobDiscarded | JobPending
  | JobRetryable | JobRunning | JobScheduled

definition stillOutstanding :: "job_state list" where
  "stillOutstanding = [JobAvailable, JobPending, JobRetryable, JobRunning, JobScheduled]"

definition TriggerDebounced :: string where "TriggerDebounced = ''debounced''"
definition TriggerSettled :: string where "TriggerSettled = ''settled''"

lemma triggers_differ [simp]: "TriggerDebounced \<noteq> TriggerSettled" "TriggerSettled \<noteq> TriggerDebounced"
  by (simp_all add: TriggerDebounced_def TriggerSettled_def)

fun Kind :: "job_args \<Rightarrow> string" where
  "Kind (IngestPathArgs _ _ _) = ''ingest_path''"
| "Kind (ExtractArgs _) = ''extract''"
| "Kind (InvalidateThumbnailsArgs _ _) = ''invalidate_thumbnails''"
| "Kind EvictionMaintenanceArgs = ''eviction_maintenance''"
| "Kind CacheSweepArgs = ''cache_sweep''"

record insert_opts =
  io_queue :: string
  io_max_attempts :: nat
  io_by_args :: bool
  io_by_state :: "job_state list"

fun InsertOpts :: "job_args \<Rightarrow> insert_opts" where
  "InsertOpts (IngestPathArgs _ _ _) =
     \<lparr>io_queue = QueueDefault, io_max_attempts = 5, io_by_args = True, io_by_state = stillOutstanding\<rparr>"
| "InsertOpts (ExtractArgs _) =
     \<lparr>io_queue = QueueExtract, io_max_attempts = 5, io_by_args = True, io_by_state = stillOutstanding\<rparr>"
| "InsertOpts (InvalidateThumbnailsArgs _ _) =
     \<lparr>io_queue = QueueDefault, io_max_attempts = 10, io_by_args = True, io_by_state = stillOutstanding\<rparr>"
| "InsertOpts EvictionMaintenanceArgs =
     \<lparr>io_queue = QueueDefault, io_max_attempts = 3, io_by_args = False, io_by_state = stillOutstanding\<rparr>"
| "InsertOpts CacheSweepArgs =
     \<lparr>io_queue = QueueDefault, io_max_attempts = 3, io_by_args = False, io_by_state = stillOutstanding\<rparr>"

section \<open>The enqueuer\<close>

record enqueuer =
  eq_bound :: bool
  eq_debounce :: int

definition NewEnqueuer :: "int \<Rightarrow> enqueuer" where
  "NewEnqueuer debounce = \<lparr>eq_bound = False, eq_debounce = debounce\<rparr>"

definition Bind :: "enqueuer \<Rightarrow> enqueuer" where
  "Bind e = e\<lparr>eq_bound := True\<rparr>"

text \<open>The request \<open>InsertTx\<close> carries on the open transaction.\<close>

definition request :: "job_args \<Rightarrow> int option \<Rightarrow> job_insert" where
  "request args at = \<lparr>ji_args = args, ji_scheduled_at = at\<rparr>"

definition q_InsertTx :: "job_args \<Rightarrow> int option \<Rightarrow> unit sql" where
  "q_InsertTx args at d q = (Inr (), d\<lparr>db_outbox := db_outbox d @ [request args at]\<rparr>, q)"

definition insert_job :: "enqueuer \<Rightarrow> job_args \<Rightarrow> int option \<Rightarrow> unit m" where
  "insert_job enq args at =
     (if \<not> eq_bound enq then fail ErrNotBound else stmt (q_InsertTx args at))"

definition IngestPath :: "enqueuer \<Rightarrow> int \<Rightarrow> string \<Rightarrow> bool \<Rightarrow> unit m" where
  "IngestPath enq mp path immediate =
     (if immediate then insert_job enq (IngestPathArgs mp path TriggerSettled) None
      else bind now (\<lambda>t. insert_job enq (IngestPathArgs mp path TriggerDebounced)
             (Some (t + eq_debounce enq))))"

definition Extract :: "enqueuer \<Rightarrow> int \<Rightarrow> unit m" where
  "Extract enq cv = insert_job enq (ExtractArgs cv) None"

definition InvalidateThumbnails :: "enqueuer \<Rightarrow> int \<Rightarrow> int \<Rightarrow> unit m" where
  "InvalidateThumbnails enq did superseded =
     insert_job enq (InvalidateThumbnailsArgs did superseded) None"

section \<open>Facts\<close>

lemma ok_InsertTx: "good db_ok e (q_InsertTx args at)"
  by (rule goodI) (auto simp: q_InsertTx_def db_ok_outbox)

lemma confined_insert_job [keeps_intros]: "confined (insert_job enq args at)"
  unfolding insert_job_def by (intro keeps_intros)

lemma confined_IngestPath [keeps_intros]: "confined (IngestPath enq mp path b)"
  unfolding IngestPath_def by (intro keeps_intros)

lemma confined_Extract [keeps_intros]: "confined (Extract enq cv)"
  unfolding Extract_def by (intro keeps_intros)

lemma confined_InvalidateThumbnails [keeps_intros]: "confined (InvalidateThumbnails enq did cv)"
  unfolding InvalidateThumbnails_def by (intro keeps_intros)

lemma faithful_insert_job [keeps_intros]: "faithful (insert_job enq args at)"
  unfolding insert_job_def by (intro keeps_intros)

lemma faithful_IngestPath [keeps_intros]: "faithful (IngestPath enq mp path b)"
  unfolding IngestPath_def by (intro keeps_intros)

lemma faithful_Extract [keeps_intros]: "faithful (Extract enq cv)"
  unfolding Extract_def by (intro keeps_intros)

lemma faithful_InvalidateThumbnails [keeps_intros]: "faithful (InvalidateThumbnails enq did cv)"
  unfolding InvalidateThumbnails_def by (intro keeps_intros)

lemma insert_job_quiet:
  "quiet w \<Longrightarrow> eq_bound enq \<Longrightarrow> insert_job enq args at w =
     (Inr (), w\<lparr>w_db := (w_db w)\<lparr>db_outbox := db_outbox (w_db w) @ [request args at]\<rparr>\<rparr>)"
  by (simp add: insert_job_def stmt_quiet exec_sql_def q_InsertTx_def)

text \<open>An unbound enqueuer fails every insertion, so the transaction around it rolls back.\<close>

lemma insert_job_unbound: "\<not> eq_bound enq \<Longrightarrow> insert_job enq args at w = (Inl ErrNotBound, w)"
  by (simp add: insert_job_def fail_def)

end
