(* ===== verification/PgStore.thy ===== *)
theory PgStore
  imports Jobs
begin

text \<open>
  The store interface of the ingestion package (\<open>internal/ingest/store.go\<close>) and its
  PostgreSQL implementation (\<open>internal/ingest/pgstore.go\<close>).  A \<open>time.Time\<close> is a count of
  nanoseconds since the Unix epoch; \<open>timestamptz\<close> keeps microseconds.
\<close>

section \<open>The types of the interface\<close>

record Observation =
  ob_mp :: int
  ob_path :: string
  ob_size :: int
  ob_mode :: int
  ob_mtime :: int
  ob_ino :: int
  ob_dev :: int
  ob_is_dir :: bool
  ob_seen_epoch :: int

record Document =
  doc_id :: int
  doc_mp :: int
  doc_path :: string
  doc_dev :: int
  doc_ino :: int
  doc_cv :: int

datatype Trigger = Debounced | Settled

fun trigger_string :: "Trigger \<Rightarrow> string" where
  "trigger_string Settled = ''settled''"
| "trigger_string Debounced = ''debounced''"

text \<open>The zero \<open>time.Time\<close>: 0001-01-01 00:00:00 UTC.\<close>

definition zero_time :: int where "zero_time = - 62135596800 * 1000000000"

definition to_micros :: "int \<Rightarrow> int" where "to_micros t = t div 1000"
definition from_micros :: "int \<Rightarrow> int" where "from_micros u = u * 1000"

definition derefID :: "int option \<Rightarrow> int" where
  "derefID v = (case v of None \<Rightarrow> 0 | Some i \<Rightarrow> i)"

definition toDocument :: "doc_row \<Rightarrow> Document" where
  "toDocument r = \<lparr>doc_id = d_id r, doc_mp = d_mountpoint_id r, doc_path = d_path r,
     doc_dev = d_dev r, doc_ino = d_ino r, doc_cv = derefID (d_current_cv r)\<rparr>"

text \<open>\<open>errors.Is(err, pgx.ErrNoRows)\<close> is "not found"; every other error is passed on.\<close>

definition or_missing :: "'a m \<Rightarrow> 'a option m" where
  "or_missing m = bind (try_m m) (\<lambda>r. case r of
     Inl e \<Rightarrow> if e = ErrNoRows then ret None else fail e
   | Inr x \<Rightarrow> ret (Some x))"

definition documentOrMissing :: "doc_row m \<Rightarrow> Document option m" where
  "documentOrMissing m = bind (or_missing m) (\<lambda>r. ret (map_option toDocument r))"

section \<open>The methods of pgTx\<close>

definition tx_Watermark :: "int m" where
  "tx_Watermark = bind (or_missing (stmt q_LockWatermark))
     (\<lambda>r. ret (case r of None \<Rightarrow> 0 | Some wm \<Rightarrow> wm))"

definition tx_SetWatermark :: "int \<Rightarrow> unit m" where
  "tx_SetWatermark seq = stmt (q_SetWatermark seq)"

definition tx_NextScanEpoch :: "int m" where
  "tx_NextScanEpoch = stmt q_NextScanEpoch"

definition to_observation :: "obs_row \<Rightarrow> Observation" where
  "to_observation r =
     \<lparr>ob_mp = o_mountpoint_id r, ob_path = o_path r, ob_size = o_size r, ob_mode = o_mode r,
      ob_mtime = (case o_mtime r of None \<Rightarrow> zero_time | Some u \<Rightarrow> from_micros u),
      ob_ino = o_ino r, ob_dev = o_dev r, ob_is_dir = o_is_dir r, ob_seen_epoch = o_seen_epoch r\<rparr>"

definition tx_GetObservation :: "int \<Rightarrow> string \<Rightarrow> Observation option m" where
  "tx_GetObservation mp path =
     bind (or_missing (stmt (q_GetObservation mp path))) (\<lambda>r. ret (map_option to_observation r))"

text \<open>\<open>observed_at\<close> is filled in by the statement.\<close>

definition obs_params :: "Observation \<Rightarrow> obs_row" where
  "obs_params ob =
     \<lparr>o_mountpoint_id = ob_mp ob, o_path = ob_path ob, o_size = ob_size ob, o_mode = ob_mode ob,
      o_mtime = (if ob_mtime ob = zero_time then None else Some (to_micros (ob_mtime ob))),
      o_ino = ob_ino ob, o_dev = ob_dev ob, o_is_dir = ob_is_dir ob,
      o_seen_epoch = ob_seen_epoch ob, o_observed_at = 0\<rparr>"

definition tx_UpsertObservation :: "Observation \<Rightarrow> unit m" where
  "tx_UpsertObservation ob = stmt (q_UpsertObservation (obs_params ob))"

definition tx_DeleteObservation :: "int \<Rightarrow> string \<Rightarrow> unit m" where
  "tx_DeleteObservation mp path = stmt (q_DeleteObservation mp path)"

definition tx_DeleteObservationSubtree :: "int \<Rightarrow> string \<Rightarrow> unit m" where
  "tx_DeleteObservationSubtree mp pre =
     bind (stmt (q_DeleteObservationSubtree mp pre)) (\<lambda>_. ret ())"

definition tx_MoveObservationSubtree :: "int \<Rightarrow> string \<Rightarrow> string \<Rightarrow> unit m" where
  "tx_MoveObservationSubtree mp old new = stmt (q_MoveObservationSubtree mp old new)"

definition tx_SweepScanEpoch :: "int \<Rightarrow> string \<Rightarrow> int \<Rightarrow> string list m" where
  "tx_SweepScanEpoch mp root epoch =
     stmt (q_SweepScanEpoch mp root (subtree_prefix root) epoch)"

definition tx_FindLiveDocumentByPath :: "int \<Rightarrow> string \<Rightarrow> Document option m" where
  "tx_FindLiveDocumentByPath mp path =
     documentOrMissing (stmt (q_FindLiveDocumentByPath mp path))"

definition tx_FindLiveDocumentByInode :: "int \<Rightarrow> int \<Rightarrow> int \<Rightarrow> Document option m" where
  "tx_FindLiveDocumentByInode mp dev ino =
     documentOrMissing (stmt (q_FindLiveDocumentByInode mp dev ino))"

definition tx_FindLiveDocumentByContent :: "int \<Rightarrow> string \<Rightarrow> Document option m" where
  "tx_FindLiveDocumentByContent mp hash =
     documentOrMissing (stmt (q_FindLiveDocumentByContent mp hash))"

definition tx_CreateDocument :: "int \<Rightarrow> string \<Rightarrow> int \<Rightarrow> int \<Rightarrow> Document m" where
  "tx_CreateDocument mp path dev ino =
     bind (stmt (q_CreateDocument mp path dev ino)) (\<lambda>r. ret (toDocument r))"

definition tx_MoveDocument :: "int \<Rightarrow> string \<Rightarrow> int \<Rightarrow> int \<Rightarrow> unit m" where
  "tx_MoveDocument did path dev ino =
     bind (stmt (q_MoveDocument did path dev ino)) (\<lambda>_. ret ())"

definition tx_MoveDocumentSubtree :: "int \<Rightarrow> string \<Rightarrow> string \<Rightarrow> Document list m" where
  "tx_MoveDocumentSubtree mp old new =
     bind (stmt (q_MoveDocumentSubtree mp old new)) (\<lambda>rows.
       ret (map (\<lambda>(did, path). \<lparr>doc_id = did, doc_mp = mp, doc_path = path, doc_dev = 0,
                   doc_ino = 0, doc_cv = 0\<rparr>) rows))"

definition tx_TombstoneDocument :: "int \<Rightarrow> unit m" where
  "tx_TombstoneDocument did = bind (stmt (q_TombstoneDocument did)) (\<lambda>_. ret ())"

definition tx_TombstoneDocumentByPath :: "int \<Rightarrow> string \<Rightarrow> Document option m" where
  "tx_TombstoneDocumentByPath mp path =
     documentOrMissing (stmt (q_TombstoneDocumentByPath mp path))"

definition subtree_document :: "int \<Rightarrow> int \<times> string \<times> int option \<Rightarrow> Document" where
  "subtree_document mp row =
     \<lparr>doc_id = fst row, doc_mp = mp, doc_path = fst (snd row), doc_dev = 0, doc_ino = 0,
      doc_cv = derefID (snd (snd row))\<rparr>"

definition tx_TombstoneDocumentSubtree :: "int \<Rightarrow> string \<Rightarrow> Document list m" where
  "tx_TombstoneDocumentSubtree mp pre =
     bind (stmt (q_TombstoneDocumentSubtree mp pre)) (\<lambda>rows. ret (map (subtree_document mp) rows))"

definition tx_UpsertContentVersion :: "string \<Rightarrow> int \<Rightarrow> int m" where
  "tx_UpsertContentVersion hash n =
     bind (stmt (q_UpsertContentVersion hash n)) (\<lambda>r. ret (cv_id r))"

definition version_ref :: "int \<Rightarrow> int option" where
  "version_ref v = (if v \<noteq> 0 then Some v else None)"

definition tx_SetDocumentCurrentVersion :: "int \<Rightarrow> int \<Rightarrow> int \<Rightarrow> bool m" where
  "tx_SetDocumentCurrentVersion did expected cv =
     bind (or_missing (stmt (q_SetDocumentCurrentVersion (Some cv) did (version_ref expected))))
       (\<lambda>r. ret (r \<noteq> None))"

definition tx_MarkExtractionPending :: "int \<Rightarrow> unit m" where
  "tx_MarkExtractionPending cv = stmt (q_MarkExtractionPending cv)"

definition tx_EnqueueIngestPath :: "enqueuer \<Rightarrow> int \<Rightarrow> string \<Rightarrow> Trigger \<Rightarrow> unit m" where
  "tx_EnqueueIngestPath enq mp path trigger = IngestPath enq mp path (trigger = Settled)"

definition tx_EnqueueExtract :: "enqueuer \<Rightarrow> int \<Rightarrow> unit m" where
  "tx_EnqueueExtract enq cv = Extract enq cv"

definition tx_EnqueueInvalidateThumbnails :: "enqueuer \<Rightarrow> int \<Rightarrow> int \<Rightarrow> unit m" where
  "tx_EnqueueInvalidateThumbnails enq did superseded = InvalidateThumbnails enq did superseded"

lemmas tx_defs =
  tx_Watermark_def tx_SetWatermark_def tx_NextScanEpoch_def tx_GetObservation_def
  tx_UpsertObservation_def tx_DeleteObservation_def tx_DeleteObservationSubtree_def
  tx_MoveObservationSubtree_def tx_SweepScanEpoch_def tx_FindLiveDocumentByPath_def
  tx_FindLiveDocumentByInode_def tx_FindLiveDocumentByContent_def tx_CreateDocument_def
  tx_MoveDocument_def tx_MoveDocumentSubtree_def tx_TombstoneDocument_def
  tx_TombstoneDocumentByPath_def tx_TombstoneDocumentSubtree_def tx_UpsertContentVersion_def
  tx_SetDocumentCurrentVersion_def tx_MarkExtractionPending_def tx_EnqueueIngestPath_def
  tx_EnqueueExtract_def tx_EnqueueInvalidateThumbnails_def

end
