(* ===== verification/Tx_Contract.thy ===== *)
theory Tx_Contract
  imports PgStore
begin

text \<open>
  What the ingestion code may assume of a transaction.  The locales \<open>scan_invariant\<close> and \<open>tx_invariant\<close> are the
  contract of the \<open>Tx\<close> interface for a database invariant: one law per statement behind it.
  Its lemmas give, once, that every method of \<open>Tx\<close> keeps the invariant; the reconciler and
  the processor are proved against it, and the interpretations discharge the laws for the
  invariants of this program.
\<close>

section \<open>Methods that write only through statements\<close>

lemma confined_or_missing [keeps_intros]: "confined m \<Longrightarrow> confined (or_missing m)"
  unfolding or_missing_def by (intro keeps_intros)

lemma confined_documentOrMissing [keeps_intros]: "confined m \<Longrightarrow> confined (documentOrMissing m)"
  unfolding documentOrMissing_def by (intro keeps_intros)

lemma confined_tx [keeps_intros]:
  "confined tx_Watermark"
  "confined (tx_SetWatermark seq)"
  "confined tx_NextScanEpoch"
  "confined (tx_GetObservation mp path)"
  "confined (tx_UpsertObservation ob)"
  "confined (tx_DeleteObservation mp path)"
  "confined (tx_DeleteObservationSubtree mp pre)"
  "confined (tx_MoveObservationSubtree mp old new)"
  "confined (tx_SweepScanEpoch mp root epoch)"
  "confined (tx_FindLiveDocumentByPath mp path)"
  "confined (tx_FindLiveDocumentByInode mp dev ino)"
  "confined (tx_FindLiveDocumentByContent mp hash)"
  "confined (tx_CreateDocument mp path dev ino)"
  "confined (tx_MoveDocument did path dev ino)"
  "confined (tx_MoveDocumentSubtree mp old new)"
  "confined (tx_TombstoneDocument did)"
  "confined (tx_TombstoneDocumentByPath mp path)"
  "confined (tx_TombstoneDocumentSubtree mp pre)"
  "confined (tx_UpsertContentVersion hash n)"
  "confined (tx_SetDocumentCurrentVersion did expected cv)"
  "confined (tx_MarkExtractionPending cv)"
  "confined (tx_EnqueueIngestPath enq mp path t)"
  "confined (tx_EnqueueExtract enq cv)"
  "confined (tx_EnqueueInvalidateThumbnails enq did cv)"
  unfolding tx_defs by (intro keeps_intros)+

lemma faithful_or_missing [keeps_intros]:
  assumes m: "faithful m"
  shows "faithful (or_missing m)"
proof (rule faithfulI)
  fix w r w' assume w: "calm w" and run: "or_missing m w = (r, w')" and r: "r \<noteq> Inl ErrConn"
  obtain r1 w1 where m1: "m w = (r1, w1)" by (cases "m w")
  have r1: "r1 \<noteq> Inl ErrConn"
    using run m1 r by (auto simp: or_missing_def bind_def try_m_def fail_def)
  from run m1 have "w1 = w'" by (auto simp: or_missing_def bind_def try_m_def ret_def fail_def split: sum.splits if_splits)
  with faithfulD [OF m w m1 r1] run m1
  show "calm w' \<and> or_missing m (w\<lparr>w_script := []\<rparr>) = (r, w'\<lparr>w_script := []\<rparr>)"
    by (auto simp: or_missing_def bind_def try_m_def ret_def fail_def split: sum.splits if_splits)
qed

lemma faithful_documentOrMissing [keeps_intros]: "faithful m \<Longrightarrow> faithful (documentOrMissing m)"
  unfolding documentOrMissing_def by (intro keeps_intros)

lemma faithful_tx [keeps_intros]:
  "faithful tx_Watermark"
  "faithful (tx_SetWatermark seq)"
  "faithful tx_NextScanEpoch"
  "faithful (tx_GetObservation mp path)"
  "faithful (tx_UpsertObservation ob)"
  "faithful (tx_DeleteObservation mp path)"
  "faithful (tx_DeleteObservationSubtree mp pre)"
  "faithful (tx_MoveObservationSubtree mp old new)"
  "faithful (tx_SweepScanEpoch mp root epoch)"
  "faithful (tx_FindLiveDocumentByPath mp path)"
  "faithful (tx_FindLiveDocumentByInode mp dev ino)"
  "faithful (tx_FindLiveDocumentByContent mp hash)"
  "faithful (tx_CreateDocument mp path dev ino)"
  "faithful (tx_MoveDocument did path dev ino)"
  "faithful (tx_MoveDocumentSubtree mp old new)"
  "faithful (tx_TombstoneDocument did)"
  "faithful (tx_TombstoneDocumentByPath mp path)"
  "faithful (tx_TombstoneDocumentSubtree mp pre)"
  "faithful (tx_UpsertContentVersion hash n)"
  "faithful (tx_SetDocumentCurrentVersion did expected cv)"
  "faithful (tx_MarkExtractionPending cv)"
  "faithful (tx_EnqueueIngestPath enq mp path t)"
  "faithful (tx_EnqueueExtract enq cv)"
  "faithful (tx_EnqueueInvalidateThumbnails enq did cv)"
  unfolding tx_defs by (intro keeps_intros)+

section \<open>The contract of Tx\<close>

text \<open>
  Everything but the watermark first: what a scan or an ingest job may do.  The full
  contract adds the one statement that moves the watermark.
\<close>

locale scan_invariant = db_invariant I for I :: "database \<Rightarrow> seqs \<Rightarrow> bool" +
  assumes law_NextScanEpoch: "good I e q_NextScanEpoch"
    and law_UpsertObservation: "o_seen_epoch row \<le> e \<Longrightarrow> good I e (q_UpsertObservation row)"
    and law_DeleteObservation: "good I e (q_DeleteObservation mp path)"
    and law_DeleteObservationSubtree: "good I e (q_DeleteObservationSubtree mp pre)"
    and law_MoveObservationSubtree: "good I e (q_MoveObservationSubtree mp old new)"
    and law_SweepScanEpoch: "good I e (q_SweepScanEpoch mp root pre epoch)"
    and law_CreateDocument: "good I e (q_CreateDocument mp path dev ino)"
    and law_MoveDocument: "good I e (q_MoveDocument did path dev ino)"
    and law_MoveDocumentSubtree: "good I e (q_MoveDocumentSubtree mp old new)"
    and law_TombstoneDocument: "good I e (q_TombstoneDocument did)"
    and law_TombstoneDocumentByPath: "good I e (q_TombstoneDocumentByPath mp path)"
    and law_TombstoneDocumentSubtree: "good I e (q_TombstoneDocumentSubtree mp pre)"
    and law_UpsertContentVersion: "good I e (q_UpsertContentVersion hash n)"
    and law_SetDocumentCurrentVersion: "good I e (q_SetDocumentCurrentVersion v did expected)"
    and law_MarkExtractionPending: "good I e (q_MarkExtractionPending cv)"
    and law_InsertTx: "good I e (q_InsertTx args at)"
begin

lemmas laws = law_NextScanEpoch law_DeleteObservation
  law_DeleteObservationSubtree law_MoveObservationSubtree law_SweepScanEpoch law_CreateDocument
  law_MoveDocument law_MoveDocumentSubtree law_TombstoneDocument law_TombstoneDocumentByPath
  law_TombstoneDocumentSubtree law_UpsertContentVersion law_SetDocumentCurrentVersion
  law_MarkExtractionPending law_InsertTx

lemma reads:
  "good I e q_LockWatermark" "good I e (q_GetObservation mp path)"
  "good I e (q_FindLiveDocumentByPath mp path)" "good I e (q_FindLiveDocumentByInode mp dev ino)"
  "good I e (q_FindLiveDocumentByContent mp hash)"
  by (simp_all add: sql_defs good_select)

lemma keeps_or_missing [keeps_intros]: "keeps I e m \<Longrightarrow> keeps I e (or_missing m)"
  unfolding or_missing_def by (intro keeps_intros)

lemma keeps_documentOrMissing [keeps_intros]: "keeps I e m \<Longrightarrow> keeps I e (documentOrMissing m)"
  unfolding documentOrMissing_def by (intro keeps_intros)

lemma keeps_insert_job [keeps_intros]: "keeps I e (insert_job enq args at)"
  unfolding insert_job_def by (intro keeps_intros laws)

lemma keeps_enqueue [keeps_intros]:
  "keeps I e (IngestPath enq mp path b)" "keeps I e (Extract enq cv)"
  "keeps I e (InvalidateThumbnails enq did cv)"
  unfolding IngestPath_def Extract_def InvalidateThumbnails_def by (intro keeps_intros)+

lemma keeps_tx [keeps_intros]:
  "keeps I e tx_Watermark"
  "keeps I e tx_NextScanEpoch"
  "keeps I e (tx_GetObservation mp path)"
  "keeps I e (tx_DeleteObservation mp path)"
  "keeps I e (tx_DeleteObservationSubtree mp pre)"
  "keeps I e (tx_MoveObservationSubtree mp old new)"
  "keeps I e (tx_SweepScanEpoch mp root epoch)"
  "keeps I e (tx_FindLiveDocumentByPath mp path)"
  "keeps I e (tx_FindLiveDocumentByInode mp dev ino)"
  "keeps I e (tx_FindLiveDocumentByContent mp hash)"
  "keeps I e (tx_CreateDocument mp path dev ino)"
  "keeps I e (tx_MoveDocument did path dev ino)"
  "keeps I e (tx_MoveDocumentSubtree mp old new)"
  "keeps I e (tx_TombstoneDocument did)"
  "keeps I e (tx_TombstoneDocumentByPath mp path)"
  "keeps I e (tx_TombstoneDocumentSubtree mp pre)"
  "keeps I e (tx_UpsertContentVersion hash n)"
  "keeps I e (tx_SetDocumentCurrentVersion did expected cv)"
  "keeps I e (tx_MarkExtractionPending cv)"
  "keeps I e (tx_EnqueueIngestPath enq mp path t)"
  "keeps I e (tx_EnqueueExtract enq cv)"
  "keeps I e (tx_EnqueueInvalidateThumbnails enq did cv)"
  unfolding tx_defs by (intro keeps_intros laws reads)+

lemma keeps_tx_UpsertObservation:
  "ob_seen_epoch ob \<le> e \<Longrightarrow> keeps I e (tx_UpsertObservation ob)"
  unfolding tx_UpsertObservation_def
  by (intro keeps_intros law_UpsertObservation) (simp add: obs_params_def)

text \<open>
  Drawing an epoch makes it available: whatever runs after may tag rows with it.
\<close>

lemma keeps_epoch [keeps_intros]:
  assumes "\<And>x. e \<le> x \<Longrightarrow> keeps I x (f x)"
  shows "keeps I e (bind tx_NextScanEpoch f)"
  unfolding keeps_def
proof (intro allI impI)
  fix w assume w: "holds_from I e w"
  obtain r w1 where m: "tx_NextScanEpoch w = (r, w1)" by (cases "tx_NextScanEpoch w")
  from keepsD [OF keeps_tx(2) m w] have w1: "holds_from I e w1" .
  show "holds_from I e (snd (bind tx_NextScanEpoch f w))"
  proof (cases r)
    case (Inl x)
    with m w1 show ?thesis by (simp add: bind_def)
  next
    case (Inr x)
    have "x = sq_epoch (w_seqs w1)" "e \<le> x"
      using m Inr w by (auto simp: tx_NextScanEpoch_def stmt.simps exec_sql_def q_NextScanEpoch_def
        holds_from_def split: list.splits step.splits)
    then have "holds_from I x w1" "e \<le> x" using w1 by (auto simp: holds_from_def)
    then have "holds_from I x (snd (f x w1))" using assms [of x] by (simp add: keeps_def)
    with \<open>e \<le> x\<close> m Inr show ?thesis by (simp add: bind_def holds_from_def)
  qed
qed

end

locale tx_invariant = scan_invariant I for I :: "database \<Rightarrow> seqs \<Rightarrow> bool" +
  assumes law_SetWatermark: "good I e (q_SetWatermark seq)"
begin

lemma keeps_SetWatermark [keeps_intros]: "keeps I e (tx_SetWatermark seq)"
  unfolding tx_SetWatermark_def by (intro keeps_intros law_SetWatermark)

end

end
