(* ===== verification/Tx_Invariants.thy ===== *)
theory Tx_Invariants
  imports Tx_Contract
begin

text \<open>
  The invariants the ingestion statements keep, each an interpretation of the contract:
  the constraints of the schema, a watermark that never moves back, documents that are
  never deleted nor brought back to life, content versions that keep their hash, job
  requests that are never withdrawn, and a thumbnail table ingestion does not touch.
\<close>

interpretation schema: tx_invariant db_ok
  by unfold_locales
    (blast intro: db_ok_stable ok_SetWatermark ok_NextScanEpoch ok_UpsertObservation
      ok_DeleteObservation ok_DeleteObservationSubtree ok_MoveObservationSubtree ok_SweepScanEpoch
      ok_CreateDocument ok_MoveDocument ok_MoveDocumentSubtree ok_TombstoneDocument
      ok_TombstoneDocumentByPath ok_TombstoneDocumentSubtree ok_UpsertContentVersion
      ok_SetDocumentCurrentVersion ok_MarkExtractionPending ok_InsertTx)+

section \<open>Statements that leave a table alone\<close>

definition untouched :: "(database \<Rightarrow> 'a) \<Rightarrow> 'b sql \<Rightarrow> bool" where
  "untouched F f \<longleftrightarrow> (\<forall>d q. F (fst (snd (f d q))) = F d \<and> seqs_le q (snd (snd (f d q))))"

lemmas write_defs =
  q_SetWatermark_def q_NextScanEpoch_def q_UpsertObservation_def q_DeleteObservation_def
  q_DeleteObservationSubtree_def q_MoveObservationSubtree_def q_SweepScanEpoch_def
  q_CreateDocument_def q_MoveDocument_def q_MoveDocumentSubtree_def q_TombstoneDocument_def
  q_TombstoneDocumentByPath_def q_TombstoneDocumentSubtree_def q_UpsertContentVersion_def
  q_SetDocumentCurrentVersion_def q_MarkExtractionPending_def q_InsertTx_def

lemma untouched_outbox:
  "untouched db_outbox (q_SetWatermark seq)"
  "untouched db_outbox q_NextScanEpoch"
  "untouched db_outbox (q_UpsertObservation row)"
  "untouched db_outbox (q_DeleteObservation mp path)"
  "untouched db_outbox (q_DeleteObservationSubtree mp pre)"
  "untouched db_outbox (q_MoveObservationSubtree mp old new)"
  "untouched db_outbox (q_SweepScanEpoch mp root pre epoch)"
  "untouched db_outbox (q_CreateDocument mp path dev ino)"
  "untouched db_outbox (q_MoveDocument did path dev ino)"
  "untouched db_outbox (q_MoveDocumentSubtree mp old new)"
  "untouched db_outbox (q_TombstoneDocument did)"
  "untouched db_outbox (q_TombstoneDocumentByPath mp path)"
  "untouched db_outbox (q_TombstoneDocumentSubtree mp pre)"
  "untouched db_outbox (q_UpsertContentVersion hash n)"
  "untouched db_outbox (q_SetDocumentCurrentVersion v did expected)"
  "untouched db_outbox (q_MarkExtractionPending cv)"
  by (auto simp: untouched_def write_defs Let_def seqs_le_def split: option.splits)

lemma untouched_watermark:
  "untouched db_watermark q_NextScanEpoch"
  "untouched db_watermark (q_UpsertObservation row)"
  "untouched db_watermark (q_DeleteObservation mp path)"
  "untouched db_watermark (q_DeleteObservationSubtree mp pre)"
  "untouched db_watermark (q_MoveObservationSubtree mp old new)"
  "untouched db_watermark (q_SweepScanEpoch mp root pre epoch)"
  "untouched db_watermark (q_CreateDocument mp path dev ino)"
  "untouched db_watermark (q_MoveDocument did path dev ino)"
  "untouched db_watermark (q_MoveDocumentSubtree mp old new)"
  "untouched db_watermark (q_TombstoneDocument did)"
  "untouched db_watermark (q_TombstoneDocumentByPath mp path)"
  "untouched db_watermark (q_TombstoneDocumentSubtree mp pre)"
  "untouched db_watermark (q_UpsertContentVersion hash n)"
  "untouched db_watermark (q_SetDocumentCurrentVersion v did expected)"
  "untouched db_watermark (q_MarkExtractionPending cv)"
  "untouched db_watermark (q_InsertTx args at)"
  by (auto simp: untouched_def write_defs Let_def seqs_le_def split: option.splits)

lemma untouched_thumbs:
  "untouched db_thumbs (q_SetWatermark seq)"
  "untouched db_thumbs q_NextScanEpoch"
  "untouched db_thumbs (q_UpsertObservation row)"
  "untouched db_thumbs (q_DeleteObservation mp path)"
  "untouched db_thumbs (q_DeleteObservationSubtree mp pre)"
  "untouched db_thumbs (q_MoveObservationSubtree mp old new)"
  "untouched db_thumbs (q_SweepScanEpoch mp root pre epoch)"
  "untouched db_thumbs (q_CreateDocument mp path dev ino)"
  "untouched db_thumbs (q_MoveDocument did path dev ino)"
  "untouched db_thumbs (q_MoveDocumentSubtree mp old new)"
  "untouched db_thumbs (q_TombstoneDocument did)"
  "untouched db_thumbs (q_TombstoneDocumentByPath mp path)"
  "untouched db_thumbs (q_TombstoneDocumentSubtree mp pre)"
  "untouched db_thumbs (q_UpsertContentVersion hash n)"
  "untouched db_thumbs (q_SetDocumentCurrentVersion v did expected)"
  "untouched db_thumbs (q_MarkExtractionPending cv)"
  "untouched db_thumbs (q_InsertTx args at)"
  by (auto simp: untouched_def write_defs Let_def seqs_le_def split: option.splits)

lemma untouched_versions:
  "untouched db_cvs (q_SetWatermark seq)"
  "untouched db_cvs q_NextScanEpoch"
  "untouched db_cvs (q_UpsertObservation row)"
  "untouched db_cvs (q_DeleteObservation mp path)"
  "untouched db_cvs (q_DeleteObservationSubtree mp pre)"
  "untouched db_cvs (q_MoveObservationSubtree mp old new)"
  "untouched db_cvs (q_SweepScanEpoch mp root pre epoch)"
  "untouched db_cvs (q_CreateDocument mp path dev ino)"
  "untouched db_cvs (q_MoveDocument did path dev ino)"
  "untouched db_cvs (q_MoveDocumentSubtree mp old new)"
  "untouched db_cvs (q_TombstoneDocument did)"
  "untouched db_cvs (q_TombstoneDocumentByPath mp path)"
  "untouched db_cvs (q_TombstoneDocumentSubtree mp pre)"
  "untouched db_cvs (q_SetDocumentCurrentVersion v did expected)"
  "untouched db_cvs (q_MarkExtractionPending cv)"
  "untouched db_cvs (q_InsertTx args at)"
  by (auto simp: untouched_def write_defs Let_def seqs_le_def split: option.splits)

lemma untouched_mountpoints:
  "untouched db_mountpoints (q_SetWatermark seq)"
  "untouched db_mountpoints q_NextScanEpoch"
  "untouched db_mountpoints (q_UpsertObservation row)"
  "untouched db_mountpoints (q_DeleteObservation mp path)"
  "untouched db_mountpoints (q_DeleteObservationSubtree mp pre)"
  "untouched db_mountpoints (q_MoveObservationSubtree mp old new)"
  "untouched db_mountpoints (q_SweepScanEpoch mp root pre epoch)"
  "untouched db_mountpoints (q_CreateDocument mp path dev ino)"
  "untouched db_mountpoints (q_MoveDocument did path dev ino)"
  "untouched db_mountpoints (q_MoveDocumentSubtree mp old new)"
  "untouched db_mountpoints (q_TombstoneDocument did)"
  "untouched db_mountpoints (q_TombstoneDocumentByPath mp path)"
  "untouched db_mountpoints (q_TombstoneDocumentSubtree mp pre)"
  "untouched db_mountpoints (q_UpsertContentVersion hash n)"
  "untouched db_mountpoints (q_SetDocumentCurrentVersion v did expected)"
  "untouched db_mountpoints (q_MarkExtractionPending cv)"
  "untouched db_mountpoints (q_InsertTx args at)"
  by (auto simp: untouched_def write_defs Let_def seqs_le_def split: option.splits)

lemma untouched_documents:
  "untouched db_docs (q_SetWatermark seq)"
  "untouched db_docs q_NextScanEpoch"
  "untouched db_docs (q_UpsertObservation row)"
  "untouched db_docs (q_DeleteObservation mp path)"
  "untouched db_docs (q_DeleteObservationSubtree mp pre)"
  "untouched db_docs (q_MoveObservationSubtree mp old new)"
  "untouched db_docs (q_SweepScanEpoch mp root pre epoch)"
  "untouched db_docs (q_UpsertContentVersion hash n)"
  "untouched db_docs (q_MarkExtractionPending cv)"
  "untouched db_docs (q_InsertTx args at)"
  by (auto simp: untouched_def write_defs Let_def seqs_le_def split: option.splits)

section \<open>The watermark never moves back\<close>

definition watermark_from :: "int \<Rightarrow> database \<Rightarrow> seqs \<Rightarrow> bool" where
  "watermark_from w0 d q \<longleftrightarrow> (case db_watermark d of None \<Rightarrow> False | Some w \<Rightarrow> w0 \<le> w)"

lemma good_watermark: "untouched db_watermark f \<Longrightarrow> good (watermark_from w0) e f"
  by (simp add: good_def untouched_def watermark_from_def)

interpretation watermark: tx_invariant "watermark_from w0" for w0
proof unfold_locales
  show "good (watermark_from w0) e (q_SetWatermark seq)" for e seq
    by (rule goodI) (auto simp: q_SetWatermark_def watermark_from_def split: option.splits)
qed (simp_all add: good_watermark untouched_watermark watermark_from_def)

text \<open>Without \<open>SetWatermark\<close> it does not move at all.\<close>

definition watermark_is :: "int option \<Rightarrow> database \<Rightarrow> seqs \<Rightarrow> bool" where
  "watermark_is v d q \<longleftrightarrow> db_watermark d = v"

lemma good_watermark_is: "untouched db_watermark f \<Longrightarrow> good (watermark_is v) e f"
  by (simp add: good_def untouched_def watermark_is_def)

interpretation still: scan_invariant "watermark_is v" for v
  by unfold_locales (simp_all add: watermark_is_def good_watermark_is untouched_watermark)

section \<open>Job requests are never withdrawn\<close>

definition requested :: "job_insert list \<Rightarrow> database \<Rightarrow> seqs \<Rightarrow> bool" where
  "requested js d q \<longleftrightarrow> js = take (length js) (db_outbox d)"

lemma good_requested: "untouched db_outbox f \<Longrightarrow> good (requested js) e f"
  by (simp add: good_def untouched_def requested_def)

interpretation outbox: tx_invariant "requested js" for js
proof unfold_locales
  show "good (requested js) e (q_InsertTx args at)" for e args at
    by (rule goodI) (auto simp: q_InsertTx_def requested_def, metis length_take min.absorb_iff2 nat_le_linear take_all)
qed (simp_all add: good_requested untouched_outbox requested_def)

section \<open>The thumbnail table belongs to others\<close>

definition thumbs_are :: "th_row list \<Rightarrow> database \<Rightarrow> seqs \<Rightarrow> bool" where
  "thumbs_are ths d q \<longleftrightarrow> db_thumbs d = ths"

lemma good_thumbs: "untouched db_thumbs f \<Longrightarrow> good (thumbs_are ths) e f"
  by (simp add: good_def untouched_def thumbs_are_def)

interpretation thumbs: tx_invariant "thumbs_are ths" for ths
  by unfold_locales (simp_all add: thumbs_are_def good_thumbs untouched_thumbs)

text \<open>Nor does ingestion change the mountpoints.\<close>

definition mountpoints_are :: "mountpoint_row list \<Rightarrow> database \<Rightarrow> seqs \<Rightarrow> bool" where
  "mountpoints_are mps d q \<longleftrightarrow> db_mountpoints d = mps"

lemma good_mountpoints: "untouched db_mountpoints f \<Longrightarrow> good (mountpoints_are mps) e f"
  by (simp add: good_def untouched_def mountpoints_are_def)

interpretation mountpoints: tx_invariant "mountpoints_are mps" for mps
  by unfold_locales (simp_all add: mountpoints_are_def good_mountpoints untouched_mountpoints)

section \<open>A tombstone is final and no document row is ever deleted\<close>

text \<open>
  \<open>ids\<close> names documents that exist and \<open>dead\<close> those among them that are tombstones: the
  rows stay, and the tombstones stay tombstones.
\<close>

definition buried :: "int set \<Rightarrow> int set \<Rightarrow> database \<Rightarrow> seqs \<Rightarrow> bool" where
  "buried ids dead d q \<longleftrightarrow> (\<forall>i \<in> dead. i \<le> sq_doc q) \<and> ids \<subseteq> d_id ` set (db_docs d) \<and>
     (\<forall>r \<in> set (db_docs d). d_id r \<in> dead \<longrightarrow> \<not> live r)"

lemma buried_mono:
  "buried ids dead d q \<Longrightarrow> db_docs d' = db_docs d \<Longrightarrow> seqs_le q q' \<Longrightarrow> buried ids dead d' q'"
  unfolding buried_def seqs_le_def by (metis order_trans)

lemma good_buried: "untouched db_docs f \<Longrightarrow> good (buried ids dead) e f"
  unfolding good_def untouched_def by (blast intro: buried_mono)

lemma buried_update:
  assumes "buried ids dead d q" "\<And>r. P r \<Longrightarrow> d_id (f r) = d_id r" "\<And>r. P r \<Longrightarrow> \<not> live r \<Longrightarrow> \<not> live (f r)"
  shows "buried ids dead (d\<lparr>db_docs := update_where P f (db_docs d)\<rparr>) q"
proof -
  have "map d_id (update_where P f (db_docs d)) = map d_id (db_docs d)"
    using assms(2) by (rule map_update_where_same)
  then have "d_id ` set (update_where P f (db_docs d)) = d_id ` set (db_docs d)"
    by (metis set_map)
  moreover have "\<not> live s" if "s \<in> set (update_where P f (db_docs d))" "d_id s \<in> dead" for s
    using that assms by (auto simp: buried_def set_update_where)
  ultimately show ?thesis using assms(1) by (simp add: buried_def)
qed

lemma buried_laws:
  "good (buried ids dead) e (q_CreateDocument mp path dev ino)"
  "good (buried ids dead) e (q_MoveDocument did path dev ino)"
  "good (buried ids dead) e (q_MoveDocumentSubtree mp old new)"
  "good (buried ids dead) e (q_TombstoneDocument did)"
  "good (buried ids dead) e (q_TombstoneDocumentByPath mp path)"
  "good (buried ids dead) e (q_TombstoneDocumentSubtree mp pre)"
  "good (buried ids dead) e (q_SetDocumentCurrentVersion v did expected)"
proof -
  show "good (buried ids dead) e (q_CreateDocument mp path dev ino)"
    by (rule goodI)
      (fastforce simp: q_CreateDocument_def Let_def buried_def seqs_le_def fresh_doc_def split: if_splits)
  show "good (buried ids dead) e (q_MoveDocument did path dev ino)"
    by (rule goodI)
      (auto simp: q_MoveDocument_def Let_def relocated_def live_def split: option.splits if_splits
        intro!: buried_update)
  show "good (buried ids dead) e (q_MoveDocumentSubtree mp old new)"
    by (rule goodI)
      (auto simp: q_MoveDocumentSubtree_def Let_def repathed_def live_def split: option.splits
        intro!: buried_update dest!: rekey_rows_result)
  show "good (buried ids dead) e (q_TombstoneDocument did)"
    by (rule goodI)
      (auto simp: q_TombstoneDocument_def tombstone_def live_def split: option.splits intro!: buried_update)
  show "good (buried ids dead) e (q_TombstoneDocumentByPath mp path)"
    by (rule goodI)
      (auto simp: q_TombstoneDocumentByPath_def tombstone_def live_def split: option.splits
        intro!: buried_update)
  show "good (buried ids dead) e (q_TombstoneDocumentSubtree mp pre)"
    by (rule goodI)
      (auto simp: q_TombstoneDocumentSubtree_def tombstone_def live_def intro!: buried_update)
  show "good (buried ids dead) e (q_SetDocumentCurrentVersion v did expected)"
    by (rule goodI)
      (auto simp: q_SetDocumentCurrentVersion_def Let_def with_version_def live_def
        split: option.splits if_splits intro!: buried_update)
qed

interpretation documents: tx_invariant "buried ids dead" for ids dead
proof unfold_locales
  show "buried ids dead d q'" if "buried ids dead d q" "seqs_le q q'" for d q q'
    using that by (blast intro: buried_mono)
qed (simp_all add: good_buried untouched_documents buried_laws)

section \<open>A content version keeps its hash\<close>

definition version_names :: "(int \<times> string) set \<Rightarrow> database \<Rightarrow> seqs \<Rightarrow> bool" where
  "version_names S d q \<longleftrightarrow> distinct (map cv_content_hash (db_cvs d)) \<and>
     S \<subseteq> (\<lambda>c. (cv_id c, cv_content_hash c)) ` set (db_cvs d)"

lemma good_versions: "untouched db_cvs f \<Longrightarrow> good (version_names S) e f"
  by (simp add: good_def untouched_def version_names_def)

lemma versions_upsert: "good (version_names S) e (q_UpsertContentVersion hash n)"
proof (rule goodI)
  fix d q r d' q'
  assume run: "q_UpsertContentVersion hash n d q = (r, d', q')" and ok: "version_names S d q"
  let ?name = "\<lambda>c. (cv_id c, cv_content_hash c)"
  show "version_names S d' q' \<and> seqs_le q q'"
  proof (cases "List.find (\<lambda>c. cv_content_hash c = hash) (db_cvs d)")
    case None
    with run ok show ?thesis
      by (auto simp: q_UpsertContentVersion_def Let_def version_names_def seqs_le_def find_None_set)
  next
    case (Some c)
    have c: "c \<in> set (db_cvs d)" using find_SomeD [OF Some] by simp
    have dist: "distinct (map cv_content_hash (db_cvs d))" using ok by (simp add: version_names_def)
    let ?rows = "upsert_by cv_content_hash (c\<lparr>cv_size_bytes := n\<rparr>) (db_cvs d)"
    have ids: "map cv_id ?rows = map cv_id (db_cvs d)" by (rule cvs_upsert_ids [OF dist c])
    have keys: "map cv_content_hash ?rows = map cv_content_hash (db_cvs d)"
      using c by (intro keys_upsert_by_present) auto
    have "map ?name ?rows = zip (map cv_id ?rows) (map cv_content_hash ?rows)"
      by (simp add: zip_map_map zip_same_conv_map)
    also have "\<dots> = map ?name (db_cvs d)"
      unfolding ids keys by (simp add: zip_map_map zip_same_conv_map)
    finally have "?name ` set ?rows = ?name ` set (db_cvs d)" by (metis set_map)
    with run Some ok keys show ?thesis
      by (simp add: q_UpsertContentVersion_def Let_def version_names_def seqs_le_def)
        (auto simp: seqs_le_def)
  qed
qed

interpretation versions: tx_invariant "version_names S" for S
  by unfold_locales (simp_all add: version_names_def [abs_def, symmetric] good_versions untouched_versions versions_upsert,
     simp_all add: version_names_def)

end
