(* ===== verification/Doctype.thy ===== *)
theory Doctype
  imports GoText
begin

text \<open>
  \<open>internal/doctype/doctype.go\<close>: the gate that decides which watched files become
  documents and under which media type they are announced.  Two things the package takes
  from Go's runtime tables are parameters: the Unicode lower-casing of a string with a
  non-ASCII byte (\<open>uni\<close>) and the content sniffer \<open>http.DetectContentType\<close> (\<open>sniff\<close>).
\<close>

definition SniffLen :: nat where "SniffLen = 512"

definition DefaultExtensions :: "string list" where
  "DefaultExtensions =
     [''pdf'',
      ''doc'', ''docx'', ''xls'', ''xlsx'', ''ppt'', ''pptx'',
      ''odt'', ''ods'', ''odp'',
      ''rtf'', ''epub'',
      ''txt'', ''md'', ''markdown'', ''csv'', ''tsv'',
      ''json'', ''xml'', ''html'', ''htm'', ''xhtml'',
      ''eml'', ''msg'']"

definition extensionTypes :: "(string \<times> string) list" where
  "extensionTypes =
     [(''pdf'', ''application/pdf''),
      (''doc'', ''application/msword''),
      (''docx'', ''application/vnd.openxmlformats-officedocument.wordprocessingml.document''),
      (''xls'', ''application/vnd.ms-excel''),
      (''xlsx'', ''application/vnd.openxmlformats-officedocument.spreadsheetml.sheet''),
      (''ppt'', ''application/vnd.ms-powerpoint''),
      (''pptx'', ''application/vnd.openxmlformats-officedocument.presentationml.presentation''),
      (''odt'', ''application/vnd.oasis.opendocument.text''),
      (''ods'', ''application/vnd.oasis.opendocument.spreadsheet''),
      (''odp'', ''application/vnd.oasis.opendocument.presentation''),
      (''rtf'', ''application/rtf''),
      (''epub'', ''application/epub+zip''),
      (''txt'', ''text/plain''),
      (''md'', ''text/markdown''),
      (''markdown'', ''text/markdown''),
      (''csv'', ''text/csv''),
      (''tsv'', ''text/tab-separated-values''),
      (''json'', ''application/json''),
      (''xml'', ''application/xml''),
      (''html'', ''text/html''),
      (''htm'', ''text/html''),
      (''xhtml'', ''application/xhtml+xml''),
      (''eml'', ''message/rfc822''),
      (''msg'', ''application/vnd.ms-outlook'')]"

definition textLike :: "string list" where
  "textLike = [''txt'', ''md'', ''markdown'', ''csv'', ''tsv'',
               ''json'', ''xml'', ''html'', ''htm'', ''xhtml'']"

text \<open>
  \<open>Filter\<close>: the include set.  The record also carries the Unicode case table its methods
  read, so that a filter is one value for the components that hold it.
\<close>

record doc_filter =
  allowed :: "string set"
  uni_lower :: "string \<Rightarrow> string"

definition norm_extension :: "(string \<Rightarrow> string) \<Rightarrow> string \<Rightarrow> string" where
  "norm_extension uni ext = to_lower uni (trim_prefix (trim_space ext) ''.'')"

definition NewFilter :: "(string \<Rightarrow> string) \<Rightarrow> string list \<Rightarrow> doc_filter" where
  "NewFilter uni extensions =
     (let exts = (if extensions = [] then DefaultExtensions else extensions)
      in \<lparr>allowed = set (filter (\<lambda>n. n \<noteq> []) (map (norm_extension uni) exts)),
          uni_lower = uni\<rparr>)"

definition Extensions :: "doc_filter \<Rightarrow> string list" where
  "Extensions f = sorted_list_of_set (allowed f)"

definition extensionOf :: "(string \<Rightarrow> string) \<Rightarrow> string \<Rightarrow> string" where
  "extensionOf uni base = to_lower uni (trim_prefix (path_ext base) ''.'')"

definition AllowPath :: "doc_filter \<Rightarrow> string \<Rightarrow> bool" where
  "AllowPath f path =
     (let base = path_base path in
      if has_prefix base ''.'' \<or> has_prefix base ''~$'' then False
      else extensionOf (uni_lower f) base \<in> allowed f)"

definition isBinary :: "(string \<Rightarrow> string) \<Rightarrow> string \<Rightarrow> bool" where
  "isBinary sniff head = (sniff head = ''application/octet-stream'')"

definition ContentType :: "(string \<Rightarrow> string) \<Rightarrow> doc_filter \<Rightarrow> string \<Rightarrow> string \<Rightarrow> string \<times> bool" where
  "ContentType sniff f path head =
     (if \<not> AllowPath f path then ([], False)
      else
        let ext = extensionOf (uni_lower f) (path_base path) in
        if ext \<in> set textLike \<and> head \<noteq> [] \<and> isBinary sniff head then ([], False)
        else case map_of extensionTypes ext of
               Some declared \<Rightarrow> (declared, True)
             | None \<Rightarrow> if head = [] then ([], True) else (sniff head, True))"

section \<open>Facts\<close>

lemma ascii_lower_idem [simp]: "ascii_lower (ascii_lower c) = ascii_lower c"
proof -
  have "(of_char c :: nat) < 256" by simp
  then show ?thesis
    by (auto simp: ascii_lower_def Let_def of_char_of split: if_splits)
qed

lemma AllowPath_filter:
  "AllowPath f path \<Longrightarrow> extensionOf (uni_lower f) (path_base path) \<in> allowed f"
  by (auto simp: AllowPath_def Let_def split: if_splits)

lemma AllowPath_visible:
  "AllowPath f path \<Longrightarrow>
     \<not> has_prefix (path_base path) ''.'' \<and> \<not> has_prefix (path_base path) ''~$''"
  by (auto simp: AllowPath_def Let_def split: if_splits)

lemma ContentType_allows: "snd (ContentType sniff f path head) \<Longrightarrow> AllowPath f path"
  by (auto simp: ContentType_def split: if_splits)

text \<open>A word of lower-case ASCII letters is already in normal form.\<close>

definition lower_letter :: "char \<Rightarrow> bool" where
  "lower_letter c = (97 \<le> (of_char c :: nat) \<and> (of_char c :: nat) \<le> 122)"

lemma space_encodings_not_letters:
  "list_all (\<lambda>e. e \<noteq> [] \<and> \<not> lower_letter (hd e) \<and> \<not> lower_letter (last e)) space_encodings"
  by (simp add: space_encodings_def lower_letter_def)

lemma find_space_letters:
  assumes "list_all lower_letter s"
  shows "List.find (has_prefix s) space_encodings = None"
    and "List.find (has_suffix s) space_encodings = None"
proof -
  have head: "lower_letter (hd e) \<and> lower_letter (last e)" if "s = a @ e @ b" "e \<noteq> []" for e a b
    using assms that by (simp add: list_all_iff)
  have no: "\<not> (lower_letter (hd e) \<and> lower_letter (last e)) \<and> e \<noteq> []"
    if "e \<in> set space_encodings" for e
    using space_encodings_not_letters that by (auto simp: list_all_iff)
  show "List.find (has_prefix s) space_encodings = None"
    using head [of "[]"] no by (fastforce simp: find_None_set has_prefix_iff)
  show "List.find (has_suffix s) space_encodings = None"
    using head [where b = "[]"] no by (fastforce simp: find_None_set has_suffix_iff)
qed

lemma norm_extension_letters:
  assumes "list_all lower_letter s"
  shows "norm_extension uni s = s"
proof -
  have trim: "trim_space s = s"
    by (simp add: trim_space_def trim_left_space.simps trim_right_space.simps
        find_space_letters [OF assms])
  have "trim_prefix s ''.'' = s"
    using assms by (cases s) (auto simp: trim_prefix_def has_prefix_def lower_letter_def)
  moreover have "list_all is_ascii s" "map ascii_lower s = s"
    using assms
    by (induction s) (auto simp: lower_letter_def is_ascii_def ascii_lower_def Let_def)
  ultimately show ?thesis
    by (simp add: norm_extension_def trim to_lower_def)
qed

lemma default_extensions_normal:
  assumes "e \<in> set DefaultExtensions"
  shows "norm_extension uni e = e"
proof (rule norm_extension_letters)
  have "list_all (list_all lower_letter) DefaultExtensions"
    by (simp add: DefaultExtensions_def lower_letter_def)
  then show "list_all lower_letter e"
    using assms by (simp add: list_all_iff)
qed

lemma allowed_default: "allowed (NewFilter uni []) = set DefaultExtensions"
proof -
  have "[] \<notin> set DefaultExtensions" by (simp add: DefaultExtensions_def)
  then show ?thesis
    by (auto simp: NewFilter_def Let_def image_iff default_extensions_normal)
qed

lemma default_types_total:
  "set DefaultExtensions = fst ` set extensionTypes" "set textLike \<subseteq> set DefaultExtensions"
  by (simp_all add: DefaultExtensions_def extensionTypes_def textLike_def)

end
