(* ===== verification/Processor.thy ===== *)
theory Processor
  imports Tx_Invariants Doctype
begin

text \<open>
  The processor (\<open>internal/ingest/processor.go\<close>): it hashes an observed file outside any
  transaction and then, in one transaction, decides which document the path belongs to and
  whether its bytes changed.  SHA-256 and the content sniff are parameters; what the
  filesystem answers is data.
\<close>

section \<open>Hashing a file\<close>

text \<open>What one \<open>Read\<close> returns, or the cancelled context seen before it.\<close>

datatype read_step = ReadOk string | ReadEOF string | ReadErr string | CtxDone

text \<open>What \<open>Open\<close> returns; after the last listed read the file is at EOF.\<close>

datatype opened = OpenNotExist | OpenError | Opened "read_step list"

definition hex_digit :: "nat \<Rightarrow> char" where
  "hex_digit n = char_of (if n < 10 then 48 + n else 87 + n)"

definition hex_encode :: "string \<Rightarrow> string" where
  "hex_encode s = concat (map (\<lambda>c. [hex_digit (of_char c div 16), hex_digit (of_char c mod 16)]) s)"

text \<open>\<open>headBuf = append(headBuf, buf[:min(n, SniffLen-len(headBuf))]...)\<close>.\<close>

definition grow_head :: "string \<Rightarrow> string \<Rightarrow> string" where
  "grow_head head buf =
     (if length head < SniffLen then head @ take (min (length buf) (SniffLen - length head)) buf
      else head)"

text \<open>The bytes written to the hash so far, the size and the head.\<close>

type_synonym hash_state = "string \<times> int \<times> string"

definition absorb :: "string \<Rightarrow> hash_state \<Rightarrow> hash_state" where
  "absorb buf st = (case st of (written, n, head) \<Rightarrow>
     if length buf > 0 then (written @ buf, n + int (length buf), grow_head head buf)
     else (written, n, head))"

fun hash_loop :: "read_step list \<Rightarrow> hash_state \<Rightarrow> err + hash_state" where
  "hash_loop [] st = Inr st"
| "hash_loop (CtxDone # rs) st = Inl ErrCanceled"
| "hash_loop (ReadOk buf # rs) st = hash_loop rs (absorb buf st)"
| "hash_loop (ReadEOF buf # rs) st = Inr (absorb buf st)"
| "hash_loop (ReadErr buf # rs) st = Inl ErrRead"

definition hash_file :: "(string \<Rightarrow> string) \<Rightarrow> opened \<Rightarrow> err + (string \<times> int \<times> string)" where
  "hash_file sha file =
     (case file of
        OpenNotExist \<Rightarrow> Inl ErrNotExist
      | OpenError \<Rightarrow> Inl ErrOpen
      | Opened rs \<Rightarrow> (case hash_loop rs ([], 0, []) of
            Inl e \<Rightarrow> Inl e
          | Inr (written, n, head) \<Rightarrow> Inr (hex_encode (sha written), n, head)))"

section \<open>The processor\<close>

record Processor =
  pr_enqueuer :: enqueuer
  pr_filter :: doc_filter
  pr_sha256 :: "string \<Rightarrow> string"
  pr_sniff :: "string \<Rightarrow> string"

definition promoteAttempts :: nat where "promoteAttempts = 3"

definition sameFile :: "Observation \<Rightarrow> Observation \<Rightarrow> bool" where
  "sameFile a b \<longleftrightarrow> (if ob_ino a = 0 \<or> ob_ino b = 0 then True
     else ob_dev a = ob_dev b \<and> ob_ino a = ob_ino b)"

text \<open>Move the document found to the path and return it as it was read.\<close>

definition adopt :: "Document \<Rightarrow> string \<Rightarrow> Observation \<Rightarrow> Document m" where
  "adopt doc path ob = andThen (tx_MoveDocument (doc_id doc) path (ob_dev ob) (ob_ino ob)) (ret doc)"

definition resolveByContent :: "int \<Rightarrow> string \<Rightarrow> Observation \<Rightarrow> string \<Rightarrow> Document m" where
  "resolveByContent mp path ob digest =
     bind (tx_FindLiveDocumentByContent mp digest) (\<lambda>found. case found of
       Some doc \<Rightarrow> adopt doc path ob
     | None \<Rightarrow> tx_CreateDocument mp path (ob_dev ob) (ob_ino ob))"

definition resolveDocument :: "int \<Rightarrow> string \<Rightarrow> Observation \<Rightarrow> string \<Rightarrow> Document m" where
  "resolveDocument mp path ob digest =
     bind (tx_FindLiveDocumentByPath mp path) (\<lambda>found. case found of
       Some doc \<Rightarrow>
         if doc_dev doc \<noteq> ob_dev ob \<or> doc_ino doc \<noteq> ob_ino ob then adopt doc path ob else ret doc
     | None \<Rightarrow>
         if ob_ino ob \<noteq> 0
         then bind (tx_FindLiveDocumentByInode mp (ob_dev ob) (ob_ino ob)) (\<lambda>found. case found of
                Some doc \<Rightarrow> adopt doc path ob
              | None \<Rightarrow> resolveByContent mp path ob digest)
         else resolveByContent mp path ob digest)"

text \<open>The flip of a document to a new version, with the jobs it implies.\<close>

definition flip :: "Processor \<Rightarrow> Document \<Rightarrow> int \<Rightarrow> unit m" where
  "flip p doc versionID =
     (let superseded = doc_cv doc in
      bind (tx_SetDocumentCurrentVersion (doc_id doc) superseded versionID) (\<lambda>swapped.
        if \<not> swapped then fail ErrVersionRaced
        else andThen (tx_MarkExtractionPending versionID)
             (andThen (tx_EnqueueExtract (pr_enqueuer p) versionID)
             (if superseded \<noteq> 0
              then tx_EnqueueInvalidateThumbnails (pr_enqueuer p) (doc_id doc) superseded
              else ret ()))))"

definition promote_body :: "Processor \<Rightarrow> int \<Rightarrow> string \<Rightarrow> Observation \<Rightarrow> string \<Rightarrow> int \<Rightarrow> unit m" where
  "promote_body p mp path seen digest n =
     bind (tx_GetObservation mp path) (\<lambda>current. case current of
       None \<Rightarrow> ret ()
     | Some current \<Rightarrow>
         if ob_is_dir current \<or> \<not> sameFile seen current then ret ()
         else bind (resolveDocument mp path current digest) (\<lambda>doc.
              bind (tx_UpsertContentVersion digest n) (\<lambda>versionID.
                if doc_cv doc = versionID then ret () else flip p doc versionID)))"

text \<open>\<open>errors.Is(err, errVersionRaced)\<close>: a lost compare-and-swap is not an error.\<close>

definition settled :: "unit m \<Rightarrow> bool m" where
  "settled m = bind (try_m m) (\<lambda>r. case r of
     Inl e \<Rightarrow> if e = ErrVersionRaced then ret False else fail e
   | Inr _ \<Rightarrow> ret True)"

definition promote :: "Processor \<Rightarrow> int \<Rightarrow> string \<Rightarrow> Observation \<Rightarrow> string \<Rightarrow> int \<Rightarrow> bool m" where
  "promote p mp path seen digest n = settled (InTx (promote_body p mp path seen digest n))"

fun promote_loop :: "nat \<Rightarrow> bool m \<Rightarrow> unit m" where
  "promote_loop 0 attempt = fail ErrPromoteAttempts"
| "promote_loop (Suc k) attempt =
     bind attempt (\<lambda>done. if done then ret () else promote_loop k attempt)"

definition ProcessPath :: "Processor \<Rightarrow> (string \<Rightarrow> opened) \<Rightarrow> int \<Rightarrow> string \<Rightarrow> unit m" where
  "ProcessPath p files mp path =
     bind (InTx (tx_GetObservation mp path)) (\<lambda>found. case found of
       None \<Rightarrow> ret ()
     | Some ob \<Rightarrow>
         if ob_is_dir ob \<or> \<not> AllowPath (pr_filter p) path then ret ()
         else case hash_file (pr_sha256 p) (files path) of
                Inl e \<Rightarrow> if e = ErrNotExist then ret () else fail e
              | Inr (digest, n, head) \<Rightarrow>
                  if \<not> snd (ContentType (pr_sniff p) (pr_filter p) path head) then ret ()
                  else promote_loop promoteAttempts (promote p mp path ob digest n))"

section \<open>Against the contract\<close>

lemma confined_adopt [keeps_intros]: "confined (adopt doc path ob)"
  unfolding adopt_def by (intro keeps_intros)

lemma confined_resolve [keeps_intros]: "confined (resolveDocument mp path ob digest)"
  unfolding resolveDocument_def resolveByContent_def by (intro keeps_intros)

lemma confined_flip [keeps_intros]: "confined (flip p doc v)"
  unfolding flip_def Let_def by (intro keeps_intros)

lemma confined_promote_body [keeps_intros]: "confined (promote_body p mp path seen digest n)"
  unfolding promote_body_def by (intro keeps_intros)

lemma faithful_adopt [keeps_intros]: "faithful (adopt doc path ob)"
  unfolding adopt_def by (intro keeps_intros)

lemma faithful_resolve [keeps_intros]: "faithful (resolveDocument mp path ob digest)"
  unfolding resolveDocument_def resolveByContent_def by (intro keeps_intros)

lemma faithful_flip [keeps_intros]: "faithful (flip p doc v)"
  unfolding flip_def Let_def by (intro keeps_intros)

lemma faithful_promote_body [keeps_intros]: "faithful (promote_body p mp path seen digest n)"
  unfolding promote_body_def by (intro keeps_intros)

lemma faithful_settled [keeps_intros]:
  assumes m: "faithful m"
  shows "faithful (settled m)"
proof (rule faithfulI)
  fix w r w' assume w: "calm w" and run: "settled m w = (r, w')" and r: "r \<noteq> Inl ErrConn"
  obtain r1 w1 where m1: "m w = (r1, w1)" by (cases "m w")
  have r1: "r1 \<noteq> Inl ErrConn"
    using run m1 r by (auto simp: settled_def bind_def try_m_def fail_def)
  from run m1 have "w1 = w'" by (auto simp: settled_def bind_def try_m_def ret_def fail_def split: sum.splits if_splits)
  with faithfulD [OF m w m1 r1] run m1
  show "calm w' \<and> settled m (w\<lparr>w_script := []\<rparr>) = (r, w'\<lparr>w_script := []\<rparr>)"
    by (auto simp: settled_def bind_def try_m_def ret_def fail_def split: sum.splits if_splits)
qed

lemma faithful_promote [keeps_intros]: "faithful (promote p mp path seen digest n)"
  unfolding promote_def by (intro keeps_intros)

lemma faithful_promote_loop [keeps_intros]: "faithful m \<Longrightarrow> faithful (promote_loop k m)"
  by (induction k) (auto intro!: keeps_intros)

context scan_invariant
begin

lemma keeps_adopt [keeps_intros]: "keeps I e (adopt doc path ob)"
  unfolding adopt_def by (intro keeps_intros)

lemma keeps_resolve [keeps_intros]: "keeps I e (resolveDocument mp path ob digest)"
  unfolding resolveDocument_def resolveByContent_def by (intro keeps_intros)

lemma keeps_flip [keeps_intros]: "keeps I e (flip p doc v)"
  unfolding flip_def Let_def by (intro keeps_intros)

lemma keeps_promote_body [keeps_intros]: "keeps I e (promote_body p mp path seen digest n)"
  unfolding promote_body_def by (intro keeps_intros)

lemma keeps_promote [keeps_intros]: "keeps I e (promote p mp path seen digest n)"
  unfolding promote_def settled_def by (intro keeps_intros)

lemma keeps_promote_loop [keeps_intros]: "keeps I e m \<Longrightarrow> keeps I e (promote_loop k m)"
  by (induction k) (auto intro!: keeps_intros)

lemma keeps_ProcessPath [keeps_intros]: "keeps I e (ProcessPath p files mp path)"
  unfolding ProcessPath_def by (intro keeps_intros)

end

section \<open>Hashing does not depend on how the file is read\<close>

lemma absorb_head:
  "absorb buf (written, n, take SniffLen written) =
     (written @ buf, n + int (length buf), take SniffLen (written @ buf))"
proof -
  have "take (min (length buf) k) buf = take k buf" for k by (simp add: min_def)
  then show ?thesis
    by (cases "length written < SniffLen") (auto simp: absorb_def grow_head_def min_def)
qed

fun read_bytes :: "read_step list \<Rightarrow> string" where
  "read_bytes [] = []"
| "read_bytes (ReadOk buf # rs) = buf @ read_bytes rs"
| "read_bytes (ReadEOF buf # rs) = buf"
| "read_bytes (_ # rs) = []"

fun reads_through :: "read_step list \<Rightarrow> bool" where
  "reads_through [] = True"
| "reads_through (ReadOk buf # rs) = reads_through rs"
| "reads_through (ReadEOF buf # rs) = True"
| "reads_through (_ # rs) = False"

lemma hash_loop_reads:
  "reads_through rs \<Longrightarrow> hash_loop rs (written, n, take SniffLen written) =
     Inr (written @ read_bytes rs, n + int (length (read_bytes rs)), take SniffLen (written @ read_bytes rs))"
proof (induction rs arbitrary: written n)
  case Nil
  then show ?case by simp
next
  case (Cons s rs)
  show ?case
  proof (cases s)
    case (ReadOk b)
    with Cons.prems have "reads_through rs" by simp
    from Cons.IH [OF this, of "written @ b" "n + int (length b)"] ReadOk show ?thesis
      by (simp only: hash_loop.simps absorb_head read_bytes.simps append_assoc length_append of_nat_add add.assoc)
  next
    case (ReadEOF b)
    then show ?thesis by (simp only: hash_loop.simps absorb_head read_bytes.simps)
  qed (use Cons.prems in simp_all)
qed

end
