(* ===== verification/Migrate.thy ===== *)
theory Migrate
  imports GoNumbers Processor
begin

text \<open>
  The migration runner (\<open>internal/store/migrate.go\<close>) and the command around it
  (\<open>internal/migratecli/migratecli.go\<close>).  What a migration's SQL does to a schema, River's own
  migrations and SHA-256 are parameters; the embedded files are data.  Every call to the database
  may fail, as a script of failures says; a commit that fails has not happened.
\<close>

section \<open>The embedded migrations\<close>

record Migration =
  mg_version :: int
  mg_name :: string
  mg_checksum :: string
  mg_sql :: string

datatype mig_error =
    BadName string
  | Duplicate int
  | Unreadable string
  | Changed int                \<comment> \<open>an applied migration was edited\<close>
  | DatabaseError
  | DriftReported "int list"
  | PendingReported int

definition parseMigrationName :: "string \<Rightarrow> mig_error + (int \<times> string)" where
  "parseMigrationName filename =
     (case str_cut (trim_suffix filename ''.sql'') ''_'' of (digits, rest, ok) \<Rightarrow>
        if \<not> ok then Inl (BadName filename)
        else (case ParseInt digits of
               None \<Rightarrow> Inl (BadName filename)
             | Some version \<Rightarrow> if version \<le> 0 then Inl (BadName filename) else Inr (version, rest)))"

text \<open>A directory entry: its name, whether it is a directory, and its bytes if they can be read.\<close>

record dir_entry =
  de_name :: string
  de_is_dir :: bool
  de_body :: "string option"

text \<open>The loop, with the versions seen so far.\<close>

fun load_entries :: "(string \<Rightarrow> string) \<Rightarrow> dir_entry list \<Rightarrow> int list \<Rightarrow> mig_error + Migration list" where
  "load_entries sha [] seen = Inr []"
| "load_entries sha (e # es) seen =
     (if de_is_dir e \<or> \<not> has_suffix (de_name e) ''.sql'' then load_entries sha es seen
      else case parseMigrationName (de_name e) of
             Inl err \<Rightarrow> Inl err
           | Inr (version, name) \<Rightarrow>
               if version \<in> set seen then Inl (Duplicate version)
               else (case de_body e of
                       None \<Rightarrow> Inl (Unreadable (de_name e))
                     | Some body \<Rightarrow>
                         (case load_entries sha es (version # seen) of
                            Inl err \<Rightarrow> Inl err
                          | Inr ms \<Rightarrow> Inr (\<lparr>mg_version = version, mg_name = name,
                              mg_checksum = hex_encode (sha body), mg_sql = body\<rparr> # ms))))"

definition loadMigrations :: "(string \<Rightarrow> string) \<Rightarrow> dir_entry list \<Rightarrow> mig_error + Migration list" where
  "loadMigrations sha entries =
     (case load_entries sha entries [] of
        Inl err \<Rightarrow> Inl err
      | Inr ms \<Rightarrow> Inr (sort_key mg_version ms))"

section \<open>The database\<close>

text \<open>
  The schema is whatever the SQL acts on.  \<open>schema_migrations\<close> is \<open>None\<close> until the runner has
  created it.
\<close>

record 's mig_db =
  md_schema :: 's
  md_versions :: "(int \<times> string \<times> string) list option"
  md_locked :: bool
  md_faults :: "bool list"

record 's sql_engine =
  sq_exec :: "string \<Rightarrow> 's \<Rightarrow> 's option"      \<comment> \<open>\<open>None\<close>: the SQL fails\<close>
  sq_river_up :: "'s \<Rightarrow> 's option"
  sq_river_ok :: "'s \<Rightarrow> bool"

text \<open>Whether the next call to the database goes through.\<close>

fun next_call :: "'s mig_db \<Rightarrow> bool \<times> 's mig_db" where
  "next_call w = (case md_faults w of
      [] \<Rightarrow> (True, w)
    | fault # fs \<Rightarrow> (\<not> fault, w\<lparr>md_faults := fs\<rparr>))"

declare next_call.simps [simp del]

definition migrateRiver :: "'s sql_engine \<Rightarrow> 's mig_db \<Rightarrow> bool \<times> 's mig_db" where
  "migrateRiver eng w = (case next_call w of (ok, w) \<Rightarrow>
     if \<not> ok then (False, w)
     else (case sq_river_up eng (md_schema w) of
            None \<Rightarrow> (False, w)
          | Some s \<Rightarrow> (True, w\<lparr>md_schema := s\<rparr>)))"

definition appliedVersions :: "'s mig_db \<Rightarrow> (int \<rightharpoonup> string) option \<times> 's mig_db" where
  "appliedVersions w = (case next_call w of (ok, w) \<Rightarrow>
     (case md_versions w of
       None \<Rightarrow> (None, w)
     | Some rows \<Rightarrow> (if ok then Some (map_of (map (\<lambda>(v, n, c). (v, c)) rows)) else None, w)))"

text \<open>The insertion into \<open>schema_migrations\<close>: the table must exist and the version be new.\<close>

definition record_version :: "Migration \<Rightarrow> (int \<times> string \<times> string) list option \<Rightarrow> (int \<times> string \<times> string) list option" where
  "record_version mig versions =
     (case versions of
        None \<Rightarrow> None
      | Some rows \<Rightarrow> if mg_version mig \<in> fst ` set rows then None
                     else Some (rows @ [(mg_version mig, mg_name mig, mg_checksum mig)]))"

text \<open>One migration in its transaction; the state is the old one unless it commits.\<close>

definition apply_migration :: "'s sql_engine \<Rightarrow> Migration \<Rightarrow> 's mig_db \<Rightarrow> bool \<times> 's mig_db" where
  "apply_migration eng mig w =
     (case next_call w of (ok1, w) \<Rightarrow> if \<not> ok1 then (False, w) else              \<comment> \<open>\<open>BEGIN\<close>\<close>
     (case next_call w of (ok2, w) \<Rightarrow> if \<not> ok2 then (False, w) else              \<comment> \<open>the SQL\<close>
     (case sq_exec eng (mg_sql mig) (md_schema w) of
        None \<Rightarrow> (False, w)
      | Some s \<Rightarrow>
          (case next_call w of (ok3, w) \<Rightarrow> if \<not> ok3 then (False, w) else         \<comment> \<open>the record\<close>
          (case record_version mig (md_versions w) of
             None \<Rightarrow> (False, w)
           | Some rows \<Rightarrow>
               (case next_call w of (ok4, w) \<Rightarrow> if \<not> ok4 then (False, w)       \<comment> \<open>\<open>COMMIT\<close>\<close>
                else (True, w\<lparr>md_schema := s, md_versions := Some rows\<rparr>)))))))"

section \<open>The runner\<close>

text \<open>Returns the versions applied and the error that ended the run.\<close>

fun up_loop :: "'s sql_engine \<Rightarrow> (int \<rightharpoonup> string) \<Rightarrow> Migration list \<Rightarrow> 's mig_db \<Rightarrow>
    (int list \<times> mig_error option) \<times> 's mig_db" where
  "up_loop eng applied [] w = (([], None), w)"
| "up_loop eng applied (mig # migs) w =
     (case applied (mg_version mig) of
        Some prior \<Rightarrow>
          if prior \<noteq> mg_checksum mig then (([], Some (Changed (mg_version mig))), w)
          else up_loop eng applied migs w
      | None \<Rightarrow>
          (case apply_migration eng mig w of
             (False, w') \<Rightarrow> (([], Some DatabaseError), w')
           | (True, w') \<Rightarrow>
               (case up_loop eng applied migs w' of
                  ((run, e), w'') \<Rightarrow> ((mg_version mig # run, e), w''))))"

text \<open>The deferred release of the lock, which only logs its error.\<close>

definition unlock :: "'s mig_db \<Rightarrow> 's mig_db" where
  "unlock w = (case next_call w of (ok, w) \<Rightarrow> if ok then w\<lparr>md_locked := False\<rparr> else w)"

definition up_locked :: "'s sql_engine \<Rightarrow> Migration list \<Rightarrow> 's mig_db \<Rightarrow> (int list \<times> mig_error option) \<times> 's mig_db" where
  "up_locked eng migs w =
     (case next_call w of (ok, w) \<Rightarrow>                                  \<comment> \<open>\<open>CREATE TABLE IF NOT EXISTS\<close>\<close>
        if \<not> ok then (([], Some DatabaseError), w)
        else (case appliedVersions (w\<lparr>md_versions := Some (case md_versions w of None \<Rightarrow> [] | Some rows \<Rightarrow> rows)\<rparr>) of
               (None, w) \<Rightarrow> (([], Some DatabaseError), w)
             | (Some applied, w) \<Rightarrow> up_loop eng applied migs w))"

definition Up :: "'s sql_engine \<Rightarrow> Migration list \<Rightarrow> 's mig_db \<Rightarrow> (int list \<times> mig_error option) \<times> 's mig_db" where
  "Up eng migs w =
     (case migrateRiver eng w of
        (False, w) \<Rightarrow> (([], Some DatabaseError), w)
      | (True, w) \<Rightarrow>
          (case next_call w of (ok1, w) \<Rightarrow>                            \<comment> \<open>\<open>Acquire\<close>\<close>
             if \<not> ok1 then (([], Some DatabaseError), w)
             else case next_call w of (ok2, w) \<Rightarrow>                     \<comment> \<open>\<open>pg_advisory_lock\<close>\<close>
               if \<not> ok2 then (([], Some DatabaseError), w)
               else case up_locked eng migs (w\<lparr>md_locked := True\<rparr>) of (r, w) \<Rightarrow> (r, unlock w)))"

record Status =
  sm_migration :: Migration
  sm_applied :: bool
  sm_drifted :: bool

definition status_of :: "(int \<rightharpoonup> string) \<Rightarrow> Migration \<Rightarrow> Status" where
  "status_of applied mig =
     \<lparr>sm_migration = mig, sm_applied = applied (mg_version mig) \<noteq> None,
      sm_drifted = (case applied (mg_version mig) of None \<Rightarrow> False | Some prior \<Rightarrow> prior \<noteq> mg_checksum mig)\<rparr>"

text \<open>The probe of \<open>to_regclass\<close>, then the versions if the table exists.\<close>

definition Migrator_Status :: "'s sql_engine \<Rightarrow> Migration list \<Rightarrow> 's mig_db \<Rightarrow>
    (Status list \<times> bool) option \<times> 's mig_db" where
  "Migrator_Status eng migs w =
     (case next_call w of (ok1, w) \<Rightarrow> if \<not> ok1 then (None, w) else
     (case next_call w of (ok2, w) \<Rightarrow> if \<not> ok2 then (None, w) else
     (case (if md_versions w = None then (Some Map.empty, w) else appliedVersions w) of
             (None, w) \<Rightarrow> (None, w)
           | (Some applied, w) \<Rightarrow>
               (case next_call w of (ok3, w) \<Rightarrow> if \<not> ok3 then (None, w)
                else (Some (map (status_of applied) migs, \<not> sq_river_ok eng (md_schema w)), w)))))"

section \<open>The command\<close>

record Options =
  opt_dry_run :: bool
  opt_status :: bool

definition pad_right :: "nat \<Rightarrow> string \<Rightarrow> string" where
  "pad_right n s = s @ replicate (n - length s) CHR '' ''"

definition status_state :: "Status \<Rightarrow> string" where
  "status_state s = (if sm_drifted s then ''DRIFTED'' else if sm_applied s then ''applied'' else ''pending'')"

text \<open>One line of the plan, without its newline.\<close>

definition status_line :: "Status \<Rightarrow> string" where
  "status_line s = pad_right 8 (status_state s) @ '' '' @ pad_right 7 (FormatInt (mg_version (sm_migration s))) @
     '' '' @ mg_name (sm_migration s)"

definition report :: "'s sql_engine \<Rightarrow> Migration list \<Rightarrow> bool \<Rightarrow> 's mig_db \<Rightarrow> (string list \<times> mig_error option) \<times> 's mig_db" where
  "report eng migs strict w =
     (case Migrator_Status eng migs w of
        (None, w) \<Rightarrow> (([], Some DatabaseError), w)
      | (Some (plan, riverPending), w) \<Rightarrow>
          (let river = (if riverPending then ''pending  river   (river schema)'' else ''applied  river   (river schema)'');
               drifted = map (mg_version \<circ> sm_migration) (filter sm_drifted plan);
               pending = int (length (filter (\<lambda>s. \<not> sm_drifted s \<and> \<not> sm_applied s) plan));
               err = (if drifted \<noteq> [] then Some (DriftReported drifted)
                      else if strict \<and> (0 < pending \<or> riverPending)
                      then Some (PendingReported (pending + (if riverPending then 1 else 0)))
                      else None)
           in ((river # map status_line plan, err), w)))"

text \<open>\<open>Run\<close> over the pool it has opened; the lines it prints go to a writer that accepts them.\<close>

definition NewMigrator :: "(string \<Rightarrow> string) \<Rightarrow> dir_entry list \<Rightarrow> mig_error + Migration list" where
  "NewMigrator sha entries = loadMigrations sha entries"

definition migrate_run :: "'s sql_engine \<Rightarrow> (string \<Rightarrow> string) \<Rightarrow> dir_entry list \<Rightarrow> Options \<Rightarrow> 's mig_db \<Rightarrow>
    (string list \<times> mig_error option) \<times> 's mig_db" where
  "migrate_run eng sha entries opts w =
     (case NewMigrator sha entries of
        Inl e \<Rightarrow> (([], Some e), w)
      | Inr migs \<Rightarrow>
          if opt_dry_run opts \<or> opt_status opts then report eng migs (opt_dry_run opts) w
          else (case Up eng migs w of
                  ((run, Some e), w) \<Rightarrow> (([], Some e), w)
                | ((run, None), w) \<Rightarrow>
                    ((if run = [] then [''schema up to date'']
                      else map (\<lambda>v. ''applied '' @ FormatInt v) run, None), w)))"

end
