(* ===== verification/Migrate_Correct.thy ===== *)
theory Migrate_Correct
  imports Migrate
begin

text \<open>
  What the migration runner guarantees: the embedded files load as one strictly ordered list,
  every migration is applied once and in order whatever interrupts the runs, and a dry run
  predicts the next run.
\<close>

section \<open>The embedded list\<close>

definition is_migration :: "dir_entry \<Rightarrow> bool" where
  "is_migration e \<longleftrightarrow> \<not> de_is_dir e \<and> has_suffix (de_name e) ''.sql''"

definition loads_as :: "(string \<Rightarrow> string) \<Rightarrow> dir_entry \<Rightarrow> Migration \<Rightarrow> bool" where
  "loads_as sha e m \<longleftrightarrow> is_migration e \<and> parseMigrationName (de_name e) = Inr (mg_version m, mg_name m) \<and>
     de_body e = Some (mg_sql m) \<and> mg_checksum m = hex_encode (sha (mg_sql m))"

lemma parseMigrationName_positive: "parseMigrationName f = Inr (v, n) \<Longrightarrow> 0 < v"
  by (auto simp: parseMigrationName_def split: prod.splits option.splits if_splits)

lemma load_entries_result:
  "load_entries sha es seen = Inr ms \<Longrightarrow>
     (\<forall>m. m \<in> set ms \<longleftrightarrow> (\<exists>e \<in> set es. loads_as sha e m)) \<and> distinct (map mg_version ms) \<and>
     mg_version ` set ms \<inter> set seen = {}"
proof (induction es arbitrary: seen ms)
  case (Cons e es)
  show ?case
  proof (cases "is_migration e")
    case False
    then have "load_entries sha es seen = Inr ms" using Cons.prems by (simp add: is_migration_def)
    from Cons.IH [OF this] False show ?thesis by (simp add: loads_as_def)
  next
    case True
    then obtain v n body rest where parsed: "parseMigrationName (de_name e) = Inr (v, n)" "v \<notin> set seen"
      "de_body e = Some body" "load_entries sha es (v # seen) = Inr rest"
      "ms = \<lparr>mg_version = v, mg_name = n, mg_checksum = hex_encode (sha body), mg_sql = body\<rparr> # rest"
      using Cons.prems
      by (auto simp: is_migration_def split: sum.splits prod.splits if_splits option.splits)
    have head: "loads_as sha e m \<longleftrightarrow>
        m = \<lparr>mg_version = v, mg_name = n, mg_checksum = hex_encode (sha body), mg_sql = body\<rparr>" for m
      using parsed(1,3) True by (cases m) (auto simp: loads_as_def)
    from Cons.IH [OF parsed(4)] parsed(2,5) show ?thesis by (auto simp: head)
  qed
qed simp

text \<open>
  C36: The embedded migrations load as a well-formed list: strictly increasing in version,
  every version positive, and exactly one entry for each \<open>.sql\<close> file, with the version and name
  its file name spells, its bytes and their checksum.  Two files of one version, a name that
  does not parse or a file that cannot be read is an error instead.
\<close>

theorem loadMigrations_wellformed:
  assumes "loadMigrations sha entries = Inr ms"
  shows "sorted_wrt (<) (map mg_version ms) \<and> list_all (\<lambda>m. 0 < mg_version m) ms \<and>
    (\<forall>m. m \<in> set ms \<longleftrightarrow> (\<exists>e \<in> set entries. loads_as sha e m))"
proof -
  obtain ns where ns: "load_entries sha entries [] = Inr ns" "ms = sort_key mg_version ns"
    using assms by (auto simp: loadMigrations_def split: sum.splits)
  note facts = load_entries_result [OF ns(1)]
  have "distinct (map mg_version ms)"
    using facts ns(2) by (simp add: distinct_map)
  then have "sorted_wrt (<) (map mg_version ms)"
    using ns(2) by (simp add: strict_sorted_iff)
  moreover have "list_all (\<lambda>m. 0 < mg_version m) ms"
    using facts ns(2) by (auto simp: list_all_iff loads_as_def dest: parseMigrationName_positive)
  ultimately show ?thesis using facts ns(2) by simp
qed

definition sample_entries :: "dir_entry list" where
  "sample_entries =
     [\<lparr>de_name = ''0010_b.sql'', de_is_dir = False, de_body = Some ''B''\<rparr>,
      \<lparr>de_name = ''9_a_a.sql'', de_is_dir = False, de_body = Some ''A''\<rparr>,
      \<lparr>de_name = ''notes'', de_is_dir = False, de_body = None\<rparr>]"

lemma loadMigrations_wellformed_witness:
  "case loadMigrations (take 1) sample_entries of
     Inl e \<Rightarrow> False
   | Inr ms \<Rightarrow> map mg_version ms = [9, 10] \<and> sorted_wrt (<) (map mg_version ms)"
proof -
  let ?ms = "[\<lparr>mg_version = 9, mg_name = ''a_a'', mg_checksum = ''41'', mg_sql = ''A''\<rparr>,
    \<lparr>mg_version = 10, mg_name = ''b'', mg_checksum = ''42'', mg_sql = ''B''\<rparr>]"
  have "loadMigrations (take 1) sample_entries = Inr ?ms" by code_simp
  with loadMigrations_wellformed [OF this] show ?thesis by simp
qed

section \<open>Calls and their failures\<close>

lemma next_call_data:
  "next_call w = (ok, w') \<Longrightarrow>
     md_schema w' = md_schema w \<and> md_versions w' = md_versions w \<and> md_locked w' = md_locked w"
  by (auto simp: next_call.simps split: list.splits)

lemma next_call_free: "md_faults w = [] \<Longrightarrow> next_call w = (True, w)"
  by (simp add: next_call.simps)

definition rows_of :: "'s mig_db \<Rightarrow> (int \<times> string \<times> string) list" where
  "rows_of w = (case md_versions w of None \<Rightarrow> [] | Some rows \<Rightarrow> rows)"

lemma rows_of_update [simp]:
  "rows_of (w\<lparr>md_schema := s\<rparr>) = rows_of w" "rows_of (w\<lparr>md_locked := b\<rparr>) = rows_of w"
  by (simp_all add: rows_of_def)

lemma rows_of_Some: "md_versions w = Some rows \<Longrightarrow> rows_of w = rows"
  by (simp add: rows_of_def)

definition row_of :: "Migration \<Rightarrow> int \<times> string \<times> string" where
  "row_of m = (mg_version m, mg_name m, mg_checksum m)"

definition recorded :: "(int \<times> string \<times> string) list \<Rightarrow> int \<rightharpoonup> string" where
  "recorded rows = map_of (map (\<lambda>(v, n, c). (v, c)) rows)"

text \<open>The specification: a list of migrations executed one after the other.\<close>

fun exec_all :: "'s sql_engine \<Rightarrow> 's \<Rightarrow> Migration list \<Rightarrow> 's option" where
  "exec_all eng s [] = Some s"
| "exec_all eng s (m # ms) =
     (case sq_exec eng (mg_sql m) s of None \<Rightarrow> None | Some s' \<Rightarrow> exec_all eng s' ms)"

definition pending :: "(int \<rightharpoonup> string) \<Rightarrow> Migration list \<Rightarrow> Migration list" where
  "pending applied migs = filter (\<lambda>m. applied (mg_version m) = None) migs"

definition drifted :: "(int \<rightharpoonup> string) \<Rightarrow> Migration \<Rightarrow> bool" where
  "drifted applied m \<longleftrightarrow> (\<exists>prior. applied (mg_version m) = Some prior \<and> prior \<noteq> mg_checksum m)"

lemma apply_migration_effect:
  assumes "apply_migration eng mig w = (ok, w')"
  shows "md_locked w' = md_locked w \<and>
    (if ok then \<exists>rows. md_versions w = Some rows \<and> md_versions w' = Some (rows @ [row_of mig]) \<and>
        sq_exec eng (mg_sql mig) (md_schema w) = Some (md_schema w')
     else md_versions w' = md_versions w \<and> md_schema w' = md_schema w)"
  using assms
  by (auto simp: apply_migration_def record_version_def row_of_def
      split: prod.splits if_splits option.splits dest!: next_call_data)

lemma up_loop_effect:
  assumes "up_loop eng applied migs w = ((run, e), w')" and "md_versions w = Some rows"
  shows "md_locked w' = md_locked w \<and>
    (\<exists>done rest. pending applied migs = done @ rest \<and> run = map mg_version done \<and>
      md_versions w' = Some (rows @ map row_of done) \<and> exec_all eng (md_schema w) done = Some (md_schema w') \<and>
      (e = None \<longrightarrow> rest = [] \<and> \<not> list_ex (drifted applied) migs))"
  using assms
proof (induction migs arbitrary: w rows run)
  case Nil
  then show ?case by (auto simp: pending_def)
next
  case (Cons mig migs)
  show ?case
  proof (cases "applied (mg_version mig)")
    case (Some prior)
    show ?thesis
    proof (cases "prior = mg_checksum mig")
      case True
      with Some Cons.prems have "up_loop eng applied migs w = ((run, e), w')" by simp
      from Cons.IH [OF this Cons.prems(2)] Some True show ?thesis by (simp add: pending_def drifted_def)
    next
      case False
      with Some Cons.prems show ?thesis by auto
    qed
  next
    case None
    obtain ok w1 where run1: "apply_migration eng mig w = (ok, w1)" by fastforce
    note effect = apply_migration_effect [OF run1]
    show ?thesis
    proof (cases ok)
      case False
      with None run1 effect Cons.prems show ?thesis by auto
    next
      case True
      obtain run' e' w'' where run2: "up_loop eng applied migs w1 = ((run', e'), w'')" by (metis prod.exhaust)
      with None run1 True Cons.prems have eqs: "run = mg_version mig # run'" "e' = e" "w'' = w'" by auto
      from effect True Cons.prems(2) have w1: "md_versions w1 = Some (rows @ [row_of mig])"
        "sq_exec eng (mg_sql mig) (md_schema w) = Some (md_schema w1)" "md_locked w1 = md_locked w" by auto
      from Cons.IH [OF run2 [unfolded eqs(2,3)] w1(1)] obtain done' rest where
        tail: "md_locked w' = md_locked w1" "pending applied migs = done' @ rest" "run' = map mg_version done'"
        "md_versions w' = Some ((rows @ [row_of mig]) @ map row_of done')"
        "exec_all eng (md_schema w1) done' = Some (md_schema w')"
        "e = None \<longrightarrow> rest = [] \<and> \<not> list_ex (drifted applied) migs" by blast
      have "pending applied (mig # migs) = (mig # done') @ rest" using None tail(2) by (simp add: pending_def)
      moreover have "\<not> drifted applied mig" using None by (simp add: drifted_def)
      ultimately show ?thesis
        using tail w1 eqs by (intro conjI exI [of _ "mig # done'"] exI [of _ rest]) simp_all
    qed
  qed
qed

lemma river_effect:
  assumes "migrateRiver eng w = (ok, w')"
  shows "md_versions w' = md_versions w \<and> md_locked w' = md_locked w \<and>
    (if ok then sq_river_up eng (md_schema w) = Some (md_schema w') else md_schema w' = md_schema w)"
  using assms by (auto simp: migrateRiver_def split: prod.splits if_splits option.splits dest!: next_call_data)

lemma appliedVersions_effect:
  assumes "appliedVersions w = (r, w')"
  shows "md_versions w' = md_versions w \<and> md_schema w' = md_schema w \<and>
    (\<forall>applied. r = Some applied \<longrightarrow> applied = recorded (rows_of w))"
  using assms
  by (auto simp: appliedVersions_def recorded_def rows_of_def split: prod.splits option.splits if_splits
      dest!: next_call_data)

lemma unlock_effect: "md_versions (unlock w) = md_versions w \<and> md_schema (unlock w) = md_schema w"
  by (auto simp: unlock_def split: prod.splits dest!: next_call_data)

text \<open>What a run did: it executed and recorded some migrations, the next ones in order.\<close>

definition advanced :: "'s sql_engine \<Rightarrow> Migration list \<Rightarrow> (int \<times> string \<times> string) list \<Rightarrow> 's \<Rightarrow> 's mig_db \<Rightarrow>
    int list \<Rightarrow> mig_error option \<Rightarrow> bool" where
  "advanced eng migs rows s w' run e \<longleftrightarrow>
     (\<exists>done rest. pending (recorded rows) migs = done @ rest \<and> run = map mg_version done \<and>
        rows_of w' = rows @ map row_of done \<and> exec_all eng s done = Some (md_schema w') \<and>
        (e = None \<longrightarrow> rest = [] \<and> \<not> list_ex (drifted (recorded rows)) migs))"

lemma advanced_nothing:
  "rows_of w' = rows \<Longrightarrow> md_schema w' = s \<Longrightarrow> advanced eng migs rows s w' [] (Some err)"
  unfolding advanced_def
  by (intro exI [of _ "[]"] exI [of _ "pending (recorded rows) migs"]) simp

lemma up_locked_effect:
  assumes "up_locked eng migs w = ((run, e), w')"
  shows "advanced eng migs (rows_of w) (md_schema w) w' run e"
proof -
  obtain ok w1 where call: "next_call w = (ok, w1)" by fastforce
  note data = next_call_data [OF call]
  show ?thesis
  proof (cases ok)
    case False
    with assms call data show ?thesis
      by (auto simp: up_locked_def rows_of_def intro!: advanced_nothing)
  next
    case True
    let ?w2 = "w1\<lparr>md_versions := Some (rows_of w)\<rparr>"
    obtain r w3 where versions: "appliedVersions ?w2 = (r, w3)" by fastforce
    note effect = appliedVersions_effect [OF versions]
    have run: "up_locked eng migs w =
        (case r of None \<Rightarrow> (([], Some DatabaseError), w3) | Some applied \<Rightarrow> up_loop eng applied migs w3)"
    proof -
      have "rows_of w1 = rows_of w" using data by (simp add: rows_of_def)
      with True call versions show ?thesis by (simp add: up_locked_def rows_of_def [symmetric] split: option.splits)
    qed
    show ?thesis
    proof (cases r)
      case None
      with run assms effect data show ?thesis by (auto simp: rows_of_def intro!: advanced_nothing)
    next
      case (Some applied)
      with effect have applied: "applied = recorded (rows_of w)" by (simp add: rows_of_def)
      from Some run assms have loop: "up_loop eng applied migs w3 = ((run, e), w')" by simp
      from effect have "md_versions w3 = Some (rows_of w)" by simp
      from up_loop_effect [OF loop this] effect data show ?thesis
        unfolding advanced_def applied by (metis rows_of_Some mig_db.select_convs(1) mig_db.update_convs(2) mig_db.surjective)
    qed
  qed
qed

lemma Up_effect:
  assumes "Up eng migs w = ((run, e), w')"
  shows "advanced eng migs (rows_of w) (md_schema w) w' run e \<and> e \<noteq> None \<and> run = [] \<and> md_schema w' = md_schema w \<or>
    (\<exists>s. sq_river_up eng (md_schema w) = Some s \<and> advanced eng migs (rows_of w) s w' run e)"
proof -
  obtain ok w1 where river: "migrateRiver eng w = (ok, w1)" by fastforce
  note river_data = river_effect [OF river]
  obtain ok1 w2 where call1: "next_call w1 = (ok1, w2)" by fastforce
  obtain ok2 w3 where call2: "next_call w2 = (ok2, w3)" by fastforce
  have data: "md_versions w3 = md_versions w" "md_versions w2 = md_versions w" "md_schema w3 = md_schema w1"
    "md_schema w2 = md_schema w1"
    using next_call_data [OF call1] next_call_data [OF call2] river_data by auto
  show ?thesis
  proof (cases ok)
    case False
    with assms river river_data show ?thesis
      by (auto simp: Up_def rows_of_def intro!: advanced_nothing)
  next
    case True
    with river_data have s: "sq_river_up eng (md_schema w) = Some (md_schema w1)" by simp
    show ?thesis
    proof (cases "ok1 \<and> ok2")
      case False
      with True assms river call1 call2 data s show ?thesis
        by (auto simp: Up_def rows_of_def split: if_splits intro!: advanced_nothing)
    next
      case granted: True
      obtain r w4 where locked: "up_locked eng migs (w3\<lparr>md_locked := True\<rparr>) = (r, w4)" by fastforce
      have "Up eng migs w = (r, unlock w4)" using True granted river call1 call2 locked by (simp add: Up_def)
      with assms locked have "up_locked eng migs (w3\<lparr>md_locked := True\<rparr>) = ((run, e), w4)" "w' = unlock w4"
        by auto
      from up_locked_effect [OF this(1)] this(2) s data show ?thesis
        by (auto simp: advanced_def rows_of_def unlock_effect)
    qed
  qed
qed

section \<open>Interrupted and repeated runs\<close>

text \<open>
  What rivermigrate documents: it brings its schema up to date, does nothing when it is, and this
  package's migrations do not touch River's tables.
\<close>

definition river_laws :: "'s sql_engine \<Rightarrow> bool" where
  "river_laws eng \<longleftrightarrow>
     (\<forall>s s'. sq_river_up eng s = Some s' \<longrightarrow> sq_river_ok eng s') \<and>
     (\<forall>s. sq_river_ok eng s \<longrightarrow> sq_river_up eng s = Some s) \<and>
     (\<forall>sql s s'. sq_exec eng sql s = Some s' \<longrightarrow> sq_river_ok eng s' = sq_river_ok eng s)"

lemma exec_all_append:
  "exec_all eng s (ms @ ns) = (case exec_all eng s ms of None \<Rightarrow> None | Some s' \<Rightarrow> exec_all eng s' ns)"
  by (induction ms arbitrary: s) (auto split: option.splits)

lemma exec_all_river:
  "river_laws eng \<Longrightarrow> exec_all eng s ms = Some s' \<Longrightarrow> sq_river_ok eng s' = sq_river_ok eng s"
  by (induction ms arbitrary: s) (auto simp: river_laws_def split: option.splits)

lemma recorded_append: "recorded (rows @ map row_of ms) v =
    (case recorded rows v of Some c \<Rightarrow> Some c | None \<Rightarrow> map_of (map (\<lambda>m. (mg_version m, mg_checksum m)) ms) v)"
  by (simp add: recorded_def map_add_def row_of_def comp_def split: option.splits)

lemma pending_after:
  assumes "distinct (map mg_version migs)" "pending (recorded rows) migs = done @ rest"
  shows "pending (recorded (rows @ map row_of done)) migs = rest"
proof -
  have "recorded (rows @ map row_of done) v = None \<longleftrightarrow> recorded rows v = None \<and> v \<notin> mg_version ` set done" for v
    by (simp add: recorded_append map_of_eq_None_iff image_image split: option.splits)
  then have "pending (recorded (rows @ map row_of done)) migs =
      filter (\<lambda>m. mg_version m \<notin> mg_version ` set done) (pending (recorded rows) migs)"
    by (simp add: pending_def conj_commute)
  moreover have "distinct (map mg_version (done @ rest))"
    using assms by (metis distinct_map_filter pending_def)
  ultimately show ?thesis
    using assms(2) by (auto simp: filter_empty_conv filter_id_conv)
qed

text \<open>
  C5: Every migration is applied exactly once and in order, however the runs are interrupted.
  When a run fails anywhere (a connection that drops, SQL that is refused, a record or a commit
  that fails) and a later run succeeds, the two together applied exactly the pending migrations
  in version order; the record of the database is the old one with these appended; and the
  schema is what executing them one after the other on the schema River prepared makes of it, as if
  a single run had done it.
\<close>

theorem interrupted_migration_resumes:
  assumes "river_laws eng" "distinct (map mg_version migs)"
    and "Up eng migs w = ((run1, e1), w1)"
    and "Up eng migs (w1\<lparr>md_faults := faults\<rparr>) = ((run2, None), w2)"
  shows "\<exists>s. sq_river_up eng (md_schema w) = Some s \<and>
    run1 @ run2 = map mg_version (pending (recorded (rows_of w)) migs) \<and>
    rows_of w2 = rows_of w @ map row_of (pending (recorded (rows_of w)) migs) \<and>
    exec_all eng s (pending (recorded (rows_of w)) migs) = Some (md_schema w2)"
proof -
  let ?w1 = "w1\<lparr>md_faults := faults\<rparr>"
  have w1: "rows_of ?w1 = rows_of w1" "md_schema ?w1 = md_schema w1" by (simp_all add: rows_of_def)
  from Up_effect [OF assms(4)] w1 obtain s2 where
    s2: "sq_river_up eng (md_schema w1) = Some s2" "advanced eng migs (rows_of w1) s2 w2 run2 None" by auto
  from s2(2) have second: "run2 = map mg_version (pending (recorded (rows_of w1)) migs)"
    "rows_of w2 = rows_of w1 @ map row_of (pending (recorded (rows_of w1)) migs)"
    "exec_all eng s2 (pending (recorded (rows_of w1)) migs) = Some (md_schema w2)"
    by (auto simp: advanced_def)
  from Up_effect [OF assms(3)] consider
      (idle) "run1 = []" "md_schema w1 = md_schema w" "advanced eng migs (rows_of w) (md_schema w) w1 [] e1"
    | (some) s where "sq_river_up eng (md_schema w) = Some s" "advanced eng migs (rows_of w) s w1 run1 e1"
    by blast
  then show ?thesis
  proof cases
    case idle
    then have "rows_of w1 = rows_of w" by (auto simp: advanced_def)
    with idle(1,2) s2(1) second show ?thesis by auto
  next
    case some
    from some(2) obtain first rest where first: "pending (recorded (rows_of w)) migs = first @ rest"
      "run1 = map mg_version first" "rows_of w1 = rows_of w @ map row_of first"
      "exec_all eng s first = Some (md_schema w1)" by (auto simp: advanced_def)
    have rest: "pending (recorded (rows_of w1)) migs = rest"
      using pending_after [OF assms(2) first(1)] first(3) by simp
    have "sq_river_ok eng (md_schema w1)"
      using exec_all_river [OF assms(1) first(4)] assms(1) some(1) by (auto simp: river_laws_def)
    with assms(1) s2(1) have "s2 = md_schema w1" by (auto simp: river_laws_def)
    with some(1) first second rest show ?thesis by (simp add: exec_all_append)
  qed
qed

text \<open>An engine for the witnesses: the schema is River's state and the SQL executed on it.\<close>

definition sample_engine :: "(bool \<times> string list) sql_engine" where
  "sample_engine = \<lparr>sq_exec = (\<lambda>sql (river, done). if sql = ''bad'' then None else Some (river, done @ [sql])),
     sq_river_up = (\<lambda>(river, done). Some (True, done)), sq_river_ok = fst\<rparr>"

definition sample_migrations :: "Migration list" where
  "sample_migrations =
     [\<lparr>mg_version = 1, mg_name = ''a'', mg_checksum = ''x'', mg_sql = ''A''\<rparr>,
      \<lparr>mg_version = 2, mg_name = ''b'', mg_checksum = ''y'', mg_sql = ''B''\<rparr>]"

definition fresh_mig_db :: "bool list \<Rightarrow> (bool \<times> string list) mig_db" where
  "fresh_mig_db faults =
     \<lparr>md_schema = (False, []), md_versions = None, md_locked = False, md_faults = faults\<rparr>"

lemma sample_engine_river: "river_laws sample_engine"
  by (auto simp: river_laws_def sample_engine_def split: if_splits)

text \<open>The connection drops at the commit of the second migration.\<close>

definition dropped_commit :: "bool list" where
  "dropped_commit = replicate 12 False @ [True]"

lemma interrupted_migration_resumes_witness:
  "case Up sample_engine sample_migrations (fresh_mig_db dropped_commit) of ((run1, e1), w1) \<Rightarrow>
     run1 = [1] \<and> e1 = Some DatabaseError \<and>
     (case Up sample_engine sample_migrations (w1\<lparr>md_faults := []\<rparr>) of ((run2, e2), w2) \<Rightarrow>
        run2 = [2] \<and> exec_all sample_engine (True, []) sample_migrations = Some (md_schema w2))"
proof -
  obtain run1 e1 w1 where run1: "Up sample_engine sample_migrations (fresh_mig_db dropped_commit) = ((run1, e1), w1)"
    by (metis prod.exhaust)
  obtain run2 e2 w2 where run2: "Up sample_engine sample_migrations (w1\<lparr>md_faults := []\<rparr>) = ((run2, e2), w2)"
    by (metis prod.exhaust)
  have "fst (Up sample_engine sample_migrations (fresh_mig_db dropped_commit)) = ([1], Some DatabaseError)" by code_simp
  then have first: "run1 = [1]" "e1 = Some DatabaseError" by (simp_all add: run1)
  have "snd (fst (Up sample_engine sample_migrations
      ((snd (Up sample_engine sample_migrations (fresh_mig_db dropped_commit)))\<lparr>md_faults := []\<rparr>))) = None" by code_simp
  then have second: "e2 = None" by (simp add: run1 run2)
  have versions: "distinct (map mg_version sample_migrations)" by (simp add: sample_migrations_def)
  have start: "sq_river_up sample_engine (md_schema (fresh_mig_db dropped_commit)) = Some (True, [])"
    "pending (recorded (rows_of (fresh_mig_db dropped_commit))) sample_migrations = sample_migrations"
    by (simp_all add: sample_engine_def fresh_mig_db_def rows_of_def pending_def recorded_def)
  from interrupted_migration_resumes [OF sample_engine_river versions run1 run2 [unfolded second]] first start
  have "[1] @ run2 = map mg_version sample_migrations" "exec_all sample_engine (True, []) sample_migrations = Some (md_schema w2)"
    by auto
  then show ?thesis using first by (simp add: run1 run2) (simp add: sample_migrations_def)
qed

section \<open>The dry run\<close>

text \<open>Without failures, and where the pending SQL is accepted, the loop runs to the first drift.\<close>

lemma apply_migration_free:
  assumes "md_faults w = []" "sq_exec eng (mg_sql mig) (md_schema w) = Some s"
    "md_versions w = Some rows" "mg_version mig \<notin> fst ` set rows"
  shows "apply_migration eng mig w = (True, w\<lparr>md_schema := s, md_versions := Some (rows @ [row_of mig])\<rparr>)"
  using assms by (simp add: apply_migration_def next_call_free record_version_def row_of_def)

lemma up_loop_free:
  assumes "md_faults w = []" "md_versions w = Some rows"
    and "exec_all eng (md_schema w) (pending applied migs) = Some s"
    and "distinct (map mg_version migs)"
    and "\<And>m. m \<in> set migs \<Longrightarrow> applied (mg_version m) = None \<Longrightarrow> mg_version m \<notin> fst ` set rows"
  shows "\<exists>run e. fst (up_loop eng applied migs w) = (run, e) \<and>
    (case find (drifted applied) migs of
       None \<Rightarrow> e = None \<and> run = map mg_version (pending applied migs)
     | Some m \<Rightarrow> e = Some (Changed (mg_version m)))"
  using assms
proof (induction migs arbitrary: w rows)
  case Nil
  then show ?case by (simp add: pending_def)
next
  case (Cons mig migs)
  show ?case
  proof (cases "applied (mg_version mig)")
    case (Some prior)
    with Cons.prems have "exec_all eng (md_schema w) (pending applied migs) = Some s" by (simp add: pending_def)
    then have tail: "\<exists>run e. fst (up_loop eng applied migs w) = (run, e) \<and>
      (case find (drifted applied) migs of
         None \<Rightarrow> e = None \<and> run = map mg_version (pending applied migs)
       | Some m \<Rightarrow> e = Some (Changed (mg_version m)))"
      using Cons.IH [OF Cons.prems(1,2)] Cons.prems(4,5) by simp
    have "pending applied (mig # migs) = pending applied migs" "drifted applied mig \<longleftrightarrow> prior \<noteq> mg_checksum mig"
      using Some by (simp_all add: pending_def drifted_def)
    with tail Some show ?thesis by (cases "find (drifted applied) migs") auto
  next
    case None
    with Cons.prems(3) obtain s1 where s1: "sq_exec eng (mg_sql mig) (md_schema w) = Some s1"
      "exec_all eng s1 (pending applied migs) = Some s" by (auto simp: pending_def split: option.splits)
    let ?w1 = "w\<lparr>md_schema := s1, md_versions := Some (rows @ [row_of mig])\<rparr>"
    have new: "mg_version mig \<notin> fst ` set rows" using Cons.prems(5) [of mig] None by simp
    note first = apply_migration_free [OF Cons.prems(1) s1(1) Cons.prems(2) new]
    have fresh: "mg_version m \<notin> fst ` set (rows @ [row_of mig])"
      if "m \<in> set migs" "applied (mg_version m) = None" for m
    proof -
      have "mg_version m \<in> mg_version ` set migs" using that(1) by (rule imageI)
      with Cons.prems(4) have "mg_version m \<noteq> mg_version mig" by (metis distinct.simps(2) list.simps(9) set_map)
      with Cons.prems(5) that show ?thesis by (simp add: row_of_def)
    qed
    have "\<exists>run e. fst (up_loop eng applied migs ?w1) = (run, e) \<and>
      (case find (drifted applied) migs of
         None \<Rightarrow> e = None \<and> run = map mg_version (pending applied migs)
       | Some m \<Rightarrow> e = Some (Changed (mg_version m)))"
      using Cons.IH [of ?w1 "rows @ [row_of mig]"] Cons.prems(1,4) s1(2) fresh by simp
    then obtain run e w2 where tail: "up_loop eng applied migs ?w1 = ((run, e), w2)"
      "case find (drifted applied) migs of
         None \<Rightarrow> e = None \<and> run = map mg_version (pending applied migs)
       | Some m \<Rightarrow> e = Some (Changed (mg_version m))" by (metis prod.collapse)
    have "up_loop eng applied (mig # migs) w = ((mg_version mig # run, e), w2)"
      using None first tail(1) by simp
    moreover have "\<not> drifted applied mig" using None by (simp add: drifted_def)
    moreover have "pending applied (mig # migs) = mig # pending applied migs" using None by (simp add: pending_def)
    ultimately show ?thesis
      using tail(2) by (cases "find (drifted applied) migs") auto
  qed
qed

lemma recorded_None: "recorded rows v = None \<longleftrightarrow> v \<notin> fst ` set rows"
  by (force simp: recorded_def map_of_eq_None_iff)

lemma Up_free:
  assumes "md_faults w = []" "sq_river_up eng (md_schema w) = Some s"
    and "exec_all eng s (pending (recorded (rows_of w)) migs) = Some s'"
    and "distinct (map mg_version migs)"
  shows "\<exists>run e. fst (Up eng migs w) = (run, e) \<and>
    (case find (drifted (recorded (rows_of w))) migs of
       None \<Rightarrow> e = None \<and> run = map mg_version (pending (recorded (rows_of w)) migs)
     | Some m \<Rightarrow> e = Some (Changed (mg_version m)))"
proof -
  let ?w = "w\<lparr>md_schema := s, md_locked := True, md_versions := Some (rows_of w)\<rparr>"
  have "fst (Up eng migs w) = fst (up_loop eng (recorded (rows_of w)) migs ?w)"
    using assms(1,2)
    by (auto simp: Up_def migrateRiver_def next_call_free up_locked_def appliedVersions_def recorded_def
        rows_of_def [symmetric] split: prod.splits)
  moreover have "\<exists>run e. fst (up_loop eng (recorded (rows_of w)) migs ?w) = (run, e) \<and>
    (case find (drifted (recorded (rows_of w))) migs of
       None \<Rightarrow> e = None \<and> run = map mg_version (pending (recorded (rows_of w)) migs)
     | Some m \<Rightarrow> e = Some (Changed (mg_version m)))"
    using assms by (intro up_loop_free [where rows = "rows_of w" and s = s']) (simp_all add: recorded_None)
  ultimately show ?thesis by simp
qed

text \<open>The plan: what \<open>Status\<close> answers without failures, and it writes nothing.\<close>

lemma Status_free:
  assumes "md_faults w = []"
  shows "Migrator_Status eng migs w =
    (Some (map (status_of (recorded (rows_of w))) migs, \<not> sq_river_ok eng (md_schema w)), w)"
proof (cases "md_versions w")
  case None
  then have "recorded (rows_of w) = Map.empty" by (simp add: rows_of_def recorded_def)
  with None assms show ?thesis by (simp add: Migrator_Status_def next_call_free)
next
  case (Some rows)
  then have "rows_of w = rows" by (rule rows_of_Some)
  with Some assms show ?thesis
    by (simp add: Migrator_Status_def next_call_free appliedVersions_def recorded_def)
qed

lemma status_drifted: "sm_drifted (status_of applied m) = drifted applied m"
  by (simp add: status_of_def drifted_def split: option.splits)

lemma status_migration [simp]: "sm_migration (status_of applied m) = m"
  by (simp add: status_of_def)

lemma status_pending:
  "\<not> drifted applied m \<and> \<not> sm_applied (status_of applied m) \<longleftrightarrow> applied (mg_version m) = None"
  by (auto simp: status_of_def drifted_def)

lemma report_free:
  fixes eng :: "'s sql_engine"
  assumes "md_faults w = []"
  defines "applied \<equiv> recorded (rows_of w)"
  defines "riverPending \<equiv> \<not> sq_river_ok eng (md_schema w)"
  shows "\<exists>lines. report eng migs True w = ((lines,
    if list_ex (drifted applied) migs
    then Some (DriftReported (map mg_version (filter (drifted applied) migs)))
    else if pending applied migs \<noteq> [] \<or> riverPending
    then Some (PendingReported (int (length (pending applied migs)) + (if riverPending then 1 else 0)))
    else None), w)"
proof -
  have "filter (drifted applied) migs = [] \<longleftrightarrow> \<not> list_ex (drifted applied) migs"
    by (auto simp: filter_empty_conv list_ex_iff)
  then show ?thesis
    by (simp add: report_def Status_free [OF assms(1)] applied_def [symmetric] riverPending_def Let_def
        filter_map comp_def status_drifted status_pending pending_def [symmetric])
qed

text \<open>
  C35: A dry run predicts the next run.  While nothing fails and the pending SQL would be
  accepted, a dry run writes nothing, and it succeeds exactly when the next \<open>Up\<close> would apply no
  migration and find River's schema current; it reports drift exactly when \<open>Up\<close> would stop at an
  edited migration; and otherwise it reports as many pending migrations as \<open>Up\<close> would apply, with
  River's counted as one.
\<close>

theorem dry_run_predicts_up:
  assumes "md_faults w = []" "sq_river_up eng (md_schema w) = Some s"
    and "exec_all eng s (pending (recorded (rows_of w)) migs) = Some s'"
    and "distinct (map mg_version migs)"
  shows "\<exists>lines plan_error run up_error. report eng migs True w = ((lines, plan_error), w) \<and>
    fst (Up eng migs w) = (run, up_error) \<and>
    (plan_error = None \<longleftrightarrow> up_error = None \<and> run = [] \<and> sq_river_ok eng (md_schema w)) \<and>
    ((\<exists>vs. plan_error = Some (DriftReported vs)) \<longleftrightarrow> up_error \<noteq> None) \<and>
    (up_error = None \<longrightarrow> plan_error \<noteq> None \<longrightarrow> plan_error =
       Some (PendingReported (int (length run) + (if sq_river_ok eng (md_schema w) then 0 else 1))))"
proof -
  let ?applied = "recorded (rows_of w)"
  obtain run e where up: "fst (Up eng migs w) = (run, e)"
    "case find (drifted ?applied) migs of
       None \<Rightarrow> e = None \<and> run = map mg_version (pending ?applied migs)
     | Some m \<Rightarrow> e = Some (Changed (mg_version m))"
    using Up_free [OF assms] by blast
  obtain lines where plan: "report eng migs True w = ((lines,
    if list_ex (drifted ?applied) migs
    then Some (DriftReported (map mg_version (filter (drifted ?applied) migs)))
    else if pending ?applied migs \<noteq> [] \<or> \<not> sq_river_ok eng (md_schema w)
    then Some (PendingReported (int (length (pending ?applied migs)) + (if \<not> sq_river_ok eng (md_schema w) then 1 else 0)))
    else None), w)"
    using report_free [OF assms(1)] by blast
  have none: "list_ex (drifted ?applied) migs \<longleftrightarrow> find (drifted ?applied) migs \<noteq> None"
    by (auto simp: list_ex_iff find_None_iff)
  show ?thesis
    using up plan unfolding none
    by (cases "find (drifted ?applied) migs") auto
qed

lemma dry_run_predicts_up_witness:
  "snd (fst (report sample_engine sample_migrations True (fresh_mig_db []))) = Some (PendingReported 3) \<and>
   fst (Up sample_engine sample_migrations (fresh_mig_db [])) = ([1, 2], None)"
proof -
  let ?w = "fresh_mig_db []"
  have up: "fst (Up sample_engine sample_migrations ?w) = ([1, 2], None)" by code_simp
  have free: "md_faults ?w = []" "sq_river_up sample_engine (md_schema ?w) = Some (True, [])"
    "exec_all sample_engine (True, []) (pending (recorded (rows_of ?w)) sample_migrations) = Some (True, [''A'', ''B''])"
    "distinct (map mg_version sample_migrations)" "\<not> sq_river_ok sample_engine (md_schema ?w)"
    by (simp_all add: fresh_mig_db_def sample_engine_def sample_migrations_def rows_of_def pending_def recorded_def)
  from dry_run_predicts_up [OF free(1-4)] up free(5) show ?thesis by auto
qed

end
