(* ===== verification/Config.thy ===== *)
theory Config
  imports GoNumbers Database
begin

text \<open>
  The process configuration (\<open>internal/config/config.go\<close>): the sections with the environment
  variables, defaults and requirements of their struct tags, and \<open>LoadFrom\<close>.  The library that
  reads the tags, \<open>caarlos0/env\<close>, is a parameter; the locale states what it documents.  Durations
  are in nanoseconds.
\<close>

section \<open>Struct tags\<close>

datatype kind = KString | KInt | KInt32 | KBool | KDuration | KList char

datatype setting = SString string | SInt int | SBool bool | SDuration int | SList "string list"

record env_field =
  ef_name :: string
  ef_kind :: kind
  ef_default :: "string option"
  ef_required :: bool      \<comment> \<open>\<open>required,notEmpty\<close>\<close>

definition optional :: "string \<Rightarrow> kind \<Rightarrow> env_field" where
  "optional name k = \<lparr>ef_name = name, ef_kind = k, ef_default = None, ef_required = False\<rparr>"

definition defaulted :: "string \<Rightarrow> kind \<Rightarrow> string \<Rightarrow> env_field" where
  "defaulted name k d = \<lparr>ef_name = name, ef_kind = k, ef_default = Some d, ef_required = False\<rparr>"

definition mandatory :: "string \<Rightarrow> kind \<Rightarrow> env_field" where
  "mandatory name k = \<lparr>ef_name = name, ef_kind = k, ef_default = None, ef_required = True\<rparr>"

lemmas tag_defs = optional_def defaulted_def mandatory_def

definition server_fields :: "env_field list" where
  "server_fields =
     [defaulted ''LISTEN_ADDR'' KString '':8080'', defaulted ''SHUTDOWN_TIMEOUT'' KDuration ''30s'',
      defaulted ''READ_HEADER_TIMEOUT'' KDuration ''10s'', defaulted ''READ_TIMEOUT'' KDuration ''30s'',
      defaulted ''IDLE_TIMEOUT'' KDuration ''120s'']"

definition database_fields :: "env_field list" where
  "database_fields = [mandatory ''DATABASE_URL'' KString, optional ''DATABASE_MAX_CONNS'' KInt32]"

definition tika_fields :: "env_field list" where
  "tika_fields =
     [optional ''TIKA_URL'' KString, defaulted ''TIKA_TIMEOUT'' KDuration ''5m'', optional ''TIKA_MAX_BYTES'' KInt,
      defaulted ''TIKA_MAX_RESPONSE_BYTES'' KInt ''67108864'']"

definition gahaku_fields :: "env_field list" where
  "gahaku_fields = [optional ''GAHAKU_URL'' KString, defaulted ''GAHAKU_TIMEOUT'' KDuration ''5m'']"

definition storage_fields :: "env_field list" where
  "storage_fields =
     [optional ''S3_ENDPOINT'' KString, defaulted ''S3_REGION'' KString ''us-east-1'',
      optional ''S3_ACCESS_KEY_ID'' KString, optional ''S3_SECRET_ACCESS_KEY'' KString,
      defaulted ''S3_BUCKET'' KString ''hirame-thumbnails'', defaulted ''S3_USE_PATH_STYLE'' KBool ''true'',
      optional ''S3_MAX_CACHE_BYTES'' KInt, optional ''S3_MAX_OBJECT_AGE'' KDuration,
      defaulted ''S3_EVICTION_INTERVAL'' KDuration ''15m'', defaulted ''S3_SWEEP_INTERVAL'' KDuration ''6h'',
      defaulted ''S3_TIMEOUT'' KDuration ''30s'']"

definition watch_fields :: "env_field list" where
  "watch_fields =
     [optional ''WATCH_MOUNTPOINTS'' (KList (CHR '','')), defaulted ''WATCH_DEBOUNCE_INTERVAL'' KDuration ''2s'',
      optional ''OVERWATCH_TARGET'' KString,
      defaulted ''OVERWATCH_SOCKET'' KString ''/run/overwatch/default/default.sock'',
      defaulted ''WATCH_RECONNECT_BACKOFF'' KDuration ''5s'',
      optional ''WATCH_INCLUDE_EXTENSIONS'' (KList (CHR '',''))]"

definition concurrency_fields :: "env_field list" where
  "concurrency_fields =
     [optional ''RIVER_WORKERS'' KInt, defaulted ''EXTRACT_CONCURRENCY'' KInt ''4'',
      defaulted ''RENDER_CONCURRENCY'' KInt ''2'', defaulted ''THUMBNAIL_CONCURRENCY'' KInt ''4'']"

definition config_fields :: "env_field list" where
  "config_fields = server_fields @ database_fields @ tika_fields @ gahaku_fields @ storage_fields @
     watch_fields @ concurrency_fields"

lemmas section_defs = server_fields_def database_fields_def tika_fields_def gahaku_fields_def
  storage_fields_def watch_fields_def concurrency_fields_def

section \<open>The configuration\<close>

record server_config =
  sv_listen_addr :: string
  sv_shutdown_timeout :: int
  sv_read_header_timeout :: int
  sv_read_timeout :: int
  sv_idle_timeout :: int

record database_config =
  dc_url :: string
  dc_max_conns :: int

record tika_config =
  kc_base_url :: string
  kc_timeout :: int
  kc_max_bytes :: int
  kc_max_response_bytes :: int

record gahaku_config =
  gc_target :: string
  gc_timeout :: int

record storage_config =
  sc_endpoint :: string
  sc_region :: string
  sc_access_key_id :: string
  sc_secret_access_key :: string
  sc_bucket :: string
  sc_use_path_style :: bool
  sc_max_cache_bytes :: int
  sc_max_object_age :: int
  sc_eviction_interval :: int
  sc_sweep_interval :: int
  sc_timeout :: int

record watch_config =
  wc_mountpoints :: "string list"
  wc_debounce_interval :: int
  wc_overwatch_target :: string
  wc_overwatch_socket :: string
  wc_reconnect_backoff :: int
  wc_include_extensions :: "string list"

record concurrency_config =
  cc_river_workers :: int
  cc_extract :: int
  cc_render :: int
  cc_thumbnail :: int

record Config =
  cf_server :: server_config
  cf_database :: database_config
  cf_tika :: tika_config
  cf_gahaku :: gahaku_config
  cf_storage :: storage_config
  cf_watch :: watch_config
  cf_concurrency :: concurrency_config

text \<open>What is read of a decoded setting of each type; a setting that is not there is the zero value.\<close>

definition get_string :: "(string \<times> setting) list \<Rightarrow> string \<Rightarrow> string" where
  "get_string vs n = (case map_of vs n of Some (SString s) \<Rightarrow> s | _ \<Rightarrow> [])"

definition get_int :: "(string \<times> setting) list \<Rightarrow> string \<Rightarrow> int" where
  "get_int vs n = (case map_of vs n of Some (SInt i) \<Rightarrow> i | _ \<Rightarrow> 0)"

definition get_bool :: "(string \<times> setting) list \<Rightarrow> string \<Rightarrow> bool" where
  "get_bool vs n = (case map_of vs n of Some (SBool b) \<Rightarrow> b | _ \<Rightarrow> False)"

definition get_duration :: "(string \<times> setting) list \<Rightarrow> string \<Rightarrow> int" where
  "get_duration vs n = (case map_of vs n of Some (SDuration d) \<Rightarrow> d | _ \<Rightarrow> 0)"

definition get_list :: "(string \<times> setting) list \<Rightarrow> string \<Rightarrow> string list" where
  "get_list vs n = (case map_of vs n of Some (SList xs) \<Rightarrow> xs | _ \<Rightarrow> [])"

lemmas get_defs = get_string_def get_int_def get_bool_def get_duration_def get_list_def

definition decode_config :: "(string \<times> setting) list \<Rightarrow> Config" where
  "decode_config vs =
     \<lparr>cf_server = \<lparr>sv_listen_addr = get_string vs ''LISTEN_ADDR'',
        sv_shutdown_timeout = get_duration vs ''SHUTDOWN_TIMEOUT'',
        sv_read_header_timeout = get_duration vs ''READ_HEADER_TIMEOUT'',
        sv_read_timeout = get_duration vs ''READ_TIMEOUT'', sv_idle_timeout = get_duration vs ''IDLE_TIMEOUT''\<rparr>,
      cf_database = \<lparr>dc_url = get_string vs ''DATABASE_URL'', dc_max_conns = get_int vs ''DATABASE_MAX_CONNS''\<rparr>,
      cf_tika = \<lparr>kc_base_url = get_string vs ''TIKA_URL'', kc_timeout = get_duration vs ''TIKA_TIMEOUT'',
        kc_max_bytes = get_int vs ''TIKA_MAX_BYTES'', kc_max_response_bytes = get_int vs ''TIKA_MAX_RESPONSE_BYTES''\<rparr>,
      cf_gahaku = \<lparr>gc_target = get_string vs ''GAHAKU_URL'', gc_timeout = get_duration vs ''GAHAKU_TIMEOUT''\<rparr>,
      cf_storage = \<lparr>sc_endpoint = get_string vs ''S3_ENDPOINT'', sc_region = get_string vs ''S3_REGION'',
        sc_access_key_id = get_string vs ''S3_ACCESS_KEY_ID'',
        sc_secret_access_key = get_string vs ''S3_SECRET_ACCESS_KEY'', sc_bucket = get_string vs ''S3_BUCKET'',
        sc_use_path_style = get_bool vs ''S3_USE_PATH_STYLE'', sc_max_cache_bytes = get_int vs ''S3_MAX_CACHE_BYTES'',
        sc_max_object_age = get_duration vs ''S3_MAX_OBJECT_AGE'',
        sc_eviction_interval = get_duration vs ''S3_EVICTION_INTERVAL'',
        sc_sweep_interval = get_duration vs ''S3_SWEEP_INTERVAL'', sc_timeout = get_duration vs ''S3_TIMEOUT''\<rparr>,
      cf_watch = \<lparr>wc_mountpoints = get_list vs ''WATCH_MOUNTPOINTS'',
        wc_debounce_interval = get_duration vs ''WATCH_DEBOUNCE_INTERVAL'',
        wc_overwatch_target = get_string vs ''OVERWATCH_TARGET'', wc_overwatch_socket = get_string vs ''OVERWATCH_SOCKET'',
        wc_reconnect_backoff = get_duration vs ''WATCH_RECONNECT_BACKOFF'',
        wc_include_extensions = get_list vs ''WATCH_INCLUDE_EXTENSIONS''\<rparr>,
      cf_concurrency = \<lparr>cc_river_workers = get_int vs ''RIVER_WORKERS'', cc_extract = get_int vs ''EXTRACT_CONCURRENCY'',
        cc_render = get_int vs ''RENDER_CONCURRENCY'', cc_thumbnail = get_int vs ''THUMBNAIL_CONCURRENCY''\<rparr>\<rparr>"

section \<open>Loading\<close>

type_synonym environment = "string \<rightharpoonup> string"

text \<open>\<open>env.ParseWithOptions\<close>: the settings by variable name, or an error.\<close>

type_synonym env_parse = "env_field list \<Rightarrow> environment \<Rightarrow> (string \<times> setting) list option"

text \<open>Why a process does not start, or ends.\<close>

datatype start_error = ErrLoadConfig | ErrDatabaseURL | ErrDatabaseConnect | ErrDatabasePing | ErrTikaURL
  | ErrObjstore | ErrGahakuDial | ErrRiverConfig | ErrRegister err | ErrWatcherDial | ErrRiverStart
  | ErrIngest err | ErrRiverStop | ErrListen | ErrShutdown

definition LoadFrom :: "env_parse \<Rightarrow> environment \<Rightarrow> environment option \<Rightarrow> start_error + Config" where
  "LoadFrom parse process environ =
     (case parse config_fields (case environ of None \<Rightarrow> process | Some e \<Rightarrow> e) of
        None \<Rightarrow> Inl ErrLoadConfig
      | Some vs \<Rightarrow> Inr (decode_config vs))"

definition Load :: "env_parse \<Rightarrow> environment \<Rightarrow> start_error + Config" where
  "Load parse process = LoadFrom parse process None"

section \<open>What the library documents\<close>

fun zero_setting :: "kind \<Rightarrow> setting" where
  "zero_setting KString = SString []"
| "zero_setting KInt = SInt 0"
| "zero_setting KInt32 = SInt 0"
| "zero_setting KBool = SBool False"
| "zero_setting KDuration = SDuration 0"
| "zero_setting (KList _) = SList []"

text \<open>
  A variable that is set decides its field; unset or empty, the default does; without one, a
  required field is an error and any other keeps its zero value.
\<close>

definition field_setting :: "(kind \<Rightarrow> string \<Rightarrow> setting option) \<Rightarrow> environment \<Rightarrow> env_field \<Rightarrow> setting option" where
  "field_setting convert env f =
     (case env (ef_name f) of
        Some (c # cs) \<Rightarrow> convert (ef_kind f) (c # cs)
      | _ \<Rightarrow> (case ef_default f of
            Some d \<Rightarrow> convert (ef_kind f) d
          | None \<Rightarrow> if ef_required f then None else Some (zero_setting (ef_kind f))))"

definition second :: int where "second = 1000000000"
definition minute :: int where "minute = 60 * second"
definition hour :: int where "hour = 60 * minute"

lemmas unit_defs = second_def minute_def hour_def

locale env_library =
  fixes convert :: "kind \<Rightarrow> string \<Rightarrow> setting option" and parse :: env_parse
  assumes convert_string: "convert KString s = Some (SString s)"
    and convert_int: "ParseInt s = Some n \<Longrightarrow> convert KInt s = Some (SInt n)"
    and convert_true: "convert KBool ''true'' = Some (SBool True)"
    and convert_seconds: "parse_digits s = Some n \<Longrightarrow> n * second < int64_bound \<Longrightarrow>
      convert KDuration (s @ ''s'') = Some (SDuration (n * second))"
    and convert_minutes: "parse_digits s = Some n \<Longrightarrow> n * minute < int64_bound \<Longrightarrow>
      convert KDuration (s @ ''m'') = Some (SDuration (n * minute))"
    and convert_hours: "parse_digits s = Some n \<Longrightarrow> n * hour < int64_bound \<Longrightarrow>
      convert KDuration (s @ ''h'') = Some (SDuration (n * hour))"
    and parse_all: "(\<And>f. f \<in> set fs \<Longrightarrow> field_setting convert env f = Some (chosen f)) \<Longrightarrow>
      parse fs env = Some (map (\<lambda>f. (ef_name f, chosen f)) fs)"
    and parse_fails: "f \<in> set fs \<Longrightarrow> field_setting convert env f = None \<Longrightarrow> parse fs env = None"

section \<open>Defaults\<close>

definition default_config :: "string \<Rightarrow> Config" where
  "default_config url =
     \<lparr>cf_server = \<lparr>sv_listen_addr = '':8080'', sv_shutdown_timeout = 30 * second, sv_read_header_timeout = 10 * second,
        sv_read_timeout = 30 * second, sv_idle_timeout = 120 * second\<rparr>,
      cf_database = \<lparr>dc_url = url, dc_max_conns = 0\<rparr>,
      cf_tika = \<lparr>kc_base_url = [], kc_timeout = 5 * minute, kc_max_bytes = 0, kc_max_response_bytes = 64 * 2 ^ 20\<rparr>,
      cf_gahaku = \<lparr>gc_target = [], gc_timeout = 5 * minute\<rparr>,
      cf_storage = \<lparr>sc_endpoint = [], sc_region = ''us-east-1'', sc_access_key_id = [], sc_secret_access_key = [],
        sc_bucket = ''hirame-thumbnails'', sc_use_path_style = True, sc_max_cache_bytes = 0, sc_max_object_age = 0,
        sc_eviction_interval = 15 * minute, sc_sweep_interval = 6 * hour, sc_timeout = 30 * second\<rparr>,
      cf_watch = \<lparr>wc_mountpoints = [], wc_debounce_interval = 2 * second, wc_overwatch_target = [],
        wc_overwatch_socket = ''/run/overwatch/default/default.sock'', wc_reconnect_backoff = 5 * second,
        wc_include_extensions = []\<rparr>,
      cf_concurrency = \<lparr>cc_river_workers = 0, cc_extract = 4, cc_render = 2, cc_thumbnail = 4\<rparr>\<rparr>"

lemma config_names_distinct: "distinct (map ef_name config_fields)"
  by code_simp

lemma parse_digits_samples:
  "parse_digits ''2'' = Some 2" "parse_digits ''5'' = Some 5" "parse_digits ''6'' = Some 6"
  "parse_digits ''10'' = Some 10" "parse_digits ''15'' = Some 15" "parse_digits ''30'' = Some 30"
  "parse_digits ''120'' = Some 120"
  by code_simp+

lemma ParseInt_samples:
  "ParseInt ''2'' = Some 2" "ParseInt ''4'' = Some 4" "ParseInt ''67108864'' = Some 67108864"
  by code_simp+

text \<open>A reading of the tags: the conversions the defaults need, and no others.\<close>

definition plain_duration :: "string \<Rightarrow> setting option" where
  "plain_duration s =
     (case parse_digits (butlast s) of
        Some n \<Rightarrow>
          (if last s = CHR ''s'' then Some (SDuration (n * second))
           else if last s = CHR ''m'' then Some (SDuration (n * minute))
           else if last s = CHR ''h'' then Some (SDuration (n * hour)) else None)
      | None \<Rightarrow> None)"

fun plain_convert :: "kind \<Rightarrow> string \<Rightarrow> setting option" where
  "plain_convert KString s = Some (SString s)"
| "plain_convert KInt s = map_option SInt (ParseInt s)"
| "plain_convert KInt32 s = map_option SInt (ParseInt s)"
| "plain_convert KBool s = (if s = ''true'' then Some (SBool True) else if s = ''false'' then Some (SBool False) else None)"
| "plain_convert KDuration s = plain_duration s"
| "plain_convert (KList c) s = Some (SList [s])"

definition plain_parse :: env_parse where
  "plain_parse fs env =
     (if list_all (\<lambda>f. field_setting plain_convert env f \<noteq> None) fs
      then Some (map (\<lambda>f. (ef_name f, the (field_setting plain_convert env f))) fs) else None)"

lemma plain_defaults:
  "plain_convert KDuration ''30s'' = Some (SDuration (30 * second))" "plain_convert KDuration ''10s'' = Some (SDuration (10 * second))"
  "plain_convert KDuration ''120s'' = Some (SDuration (120 * second))" "plain_convert KDuration ''5m'' = Some (SDuration (5 * minute))"
  "plain_convert KDuration ''15m'' = Some (SDuration (15 * minute))" "plain_convert KDuration ''6h'' = Some (SDuration (6 * hour))"
  "plain_convert KDuration ''2s'' = Some (SDuration (2 * second))" "plain_convert KDuration ''5s'' = Some (SDuration (5 * second))"
  "plain_convert KInt ''2'' = Some (SInt 2)" "plain_convert KInt ''4'' = Some (SInt 4)"
  "plain_convert KInt ''67108864'' = Some (SInt 67108864)" "plain_convert KBool ''true'' = Some (SBool True)"
  by (simp_all add: plain_duration_def parse_digits_samples ParseInt_samples)

text \<open>The settings of an environment that sets only the database's URL.\<close>

definition minimal_setting :: "string \<Rightarrow> env_field \<Rightarrow> setting" where
  "minimal_setting url f =
     (if ef_required f then SString url
      else case ef_default f of None \<Rightarrow> zero_setting (ef_kind f) | Some d \<Rightarrow> the (plain_convert (ef_kind f) d))"

lemma decode_minimal:
  "decode_config (map (\<lambda>f. (ef_name f, minimal_setting url f)) config_fields) = default_config url"
  by code_simp

text \<open>The defaults the tags hold.\<close>

definition default_texts :: "(kind \<times> string) list" where
  "default_texts = [(KDuration, ''30s''), (KDuration, ''10s''), (KDuration, ''120s''), (KDuration, ''5m''),
     (KDuration, ''15m''), (KDuration, ''6h''), (KDuration, ''2s''), (KDuration, ''5s''),
     (KInt, ''2''), (KInt, ''4''), (KInt, ''67108864''), (KBool, ''true'')]"

lemma config_defaults:
  "list_all (\<lambda>f. (ef_required f \<longrightarrow> ef_kind f = KString \<and> ef_default f = None) \<and>
     (ef_required f \<longleftrightarrow> ef_name f = ''DATABASE_URL'') \<and>
     (case ef_default f of None \<Rightarrow> True | Some d \<Rightarrow> ef_kind f = KString \<or> (ef_kind f, d) \<in> set default_texts)) config_fields"
  by code_simp

context env_library
begin

lemma convert_defaults:
  "convert KDuration ''30s'' = Some (SDuration (30 * second))" "convert KDuration ''10s'' = Some (SDuration (10 * second))"
  "convert KDuration ''120s'' = Some (SDuration (120 * second))" "convert KDuration ''5m'' = Some (SDuration (5 * minute))"
  "convert KDuration ''15m'' = Some (SDuration (15 * minute))" "convert KDuration ''6h'' = Some (SDuration (6 * hour))"
  "convert KDuration ''2s'' = Some (SDuration (2 * second))" "convert KDuration ''5s'' = Some (SDuration (5 * second))"
  using convert_seconds [OF parse_digits_samples(6)] convert_seconds [OF parse_digits_samples(4)]
    convert_seconds [OF parse_digits_samples(7)] convert_minutes [OF parse_digits_samples(2)]
    convert_minutes [OF parse_digits_samples(5)] convert_hours [OF parse_digits_samples(3)]
    convert_seconds [OF parse_digits_samples(1)] convert_seconds [OF parse_digits_samples(2)]
  by (simp_all add: unit_defs int64_bound_def)

lemma convert_ints:
  "convert KInt ''2'' = Some (SInt 2)" "convert KInt ''4'' = Some (SInt 4)" "convert KInt ''67108864'' = Some (SInt 67108864)"
  by (simp_all add: convert_int ParseInt_samples)

lemma minimal_fields:
  assumes "url \<noteq> []" "f \<in> set config_fields"
  shows "field_setting convert [''DATABASE_URL'' \<mapsto> url] f = Some (minimal_setting url f)"
proof -
  obtain c cs where url: "url = c # cs" using assms(1) by (cases url) auto
  have f: "ef_required f \<longrightarrow> ef_kind f = KString \<and> ef_default f = None" "ef_required f \<longleftrightarrow> ef_name f = ''DATABASE_URL''"
    "case ef_default f of None \<Rightarrow> True | Some d \<Rightarrow> ef_kind f = KString \<or> (ef_kind f, d) \<in> set default_texts"
    using config_defaults assms(2) by (auto simp: list_all_iff)
  have "convert (ef_kind f) d = Some (the (plain_convert (ef_kind f) d))" if "ef_default f = Some d" for d
    using f(3) that
    by (auto simp: default_texts_def convert_string convert_true convert_defaults convert_ints plain_defaults
        simp del: plain_convert.simps(2-6))
  with f(1,2) show ?thesis
    by (auto simp: url field_setting_def minimal_setting_def convert_string split: option.splits)
qed

lemma load_minimal:
  "url \<noteq> [] \<Longrightarrow> LoadFrom parse process (Some [''DATABASE_URL'' \<mapsto> url]) = Inr (default_config url)"
  using parse_all [where fs = config_fields and chosen = "minimal_setting url" and env = "[''DATABASE_URL'' \<mapsto> url]"]
  by (simp add: LoadFrom_def decode_minimal minimal_fields)

lemma load_fails:
  assumes "env ''DATABASE_URL'' = None \<or> env ''DATABASE_URL'' = Some []"
  shows "LoadFrom parse process (Some env) = Inl ErrLoadConfig"
proof -
  let ?f = "mandatory ''DATABASE_URL'' KString"
  have "?f \<in> set config_fields" by (simp add: config_fields_def section_defs)
  moreover have "field_setting convert env ?f = None"
    using assms by (auto simp: field_setting_def tag_defs)
  ultimately show ?thesis using parse_fails by (simp add: LoadFrom_def)
qed

end

text \<open>
  The database is all a deployment must configure.  With \<open>DATABASE_URL\<close> alone, both
  processes load the documented defaults (every default in a struct tag is well formed and
  means the documented value), whatever the process environment holds; with \<open>DATABASE_URL\<close>
  missing or empty, no environment loads; and no two settings share a variable.
\<close>

theorem LoadFrom_minimal:
  assumes "env_library convert parse"
  shows "(\<forall>url. url \<noteq> [] \<longrightarrow> LoadFrom parse process (Some [''DATABASE_URL'' \<mapsto> url]) = Inr (default_config url)) \<and>
    (\<forall>env. env ''DATABASE_URL'' = None \<or> env ''DATABASE_URL'' = Some [] \<longrightarrow>
      LoadFrom parse process (Some env) = Inl ErrLoadConfig) \<and>
    distinct (map ef_name config_fields)"
  using env_library.load_minimal [OF assms] env_library.load_fails [OF assms] config_names_distinct by blast

interpretation plain: env_library plain_convert plain_parse
proof
  show "plain_parse fs env = Some (map (\<lambda>f. (ef_name f, v f)) fs)"
    if "\<And>f. f \<in> set fs \<Longrightarrow> field_setting plain_convert env f = Some (v f)" for fs env v
    using that by (auto simp: plain_parse_def list_all_iff)
  show "plain_parse fs env = None" if "f \<in> set fs" "field_setting plain_convert env f = None" for f fs env
    using that by (auto simp: plain_parse_def list_all_iff)
qed (auto simp: plain_duration_def)

lemma LoadFrom_minimal_witness:
  "LoadFrom plain_parse Map.empty (Some [''DATABASE_URL'' \<mapsto> ''postgres:///h'']) = Inr (default_config ''postgres:///h'') \<and>
   LoadFrom plain_parse Map.empty (Some [''TIKA_URL'' \<mapsto> ''http://tika'']) = Inl ErrLoadConfig"
  using LoadFrom_minimal [OF plain.env_library_axioms, of Map.empty] by auto

end
