(* ===== verification/Object_Store.thy ===== *)
theory Object_Store
  imports Database
begin

text \<open>
  The S3 client of the thumbnail cache (\<open>internal/objstore/objstore.go\<close>).  The gateway behind
  the AWS SDK is not code of this repository: it is a parameter, a record of the requests the
  client makes over a state of its own, and the locale \<open>s3_gateway\<close> states what S3 documents
  of them.  The locale \<open>object_store\<close> is the contract the cache workers and the thumbnail
  service use; the client establishes it over any such gateway.
\<close>

section \<open>The gateway\<close>

text \<open>An SDK error, as far as the client looks into it.\<close>

record s3_error =
  se_no_such_key :: bool        \<comment> \<open>unwraps to \<open>types.NoSuchKey\<close>\<close>
  se_not_found :: bool          \<comment> \<open>unwraps to \<open>types.NotFound\<close>\<close>
  se_code :: "string option"    \<comment> \<open>\<open>smithy.APIError\<close>\<close>
  se_status :: "int option"     \<comment> \<open>\<open>smithyhttp.ResponseError\<close>\<close>

text \<open>\<open>GetTorn\<close>: the request succeeded and reading the body failed.\<close>

datatype get_answer = GetRefused s3_error | GetBody string | GetTorn

record s3_item =
  it_key :: "string option"
  it_size :: "int option"
  it_modified :: "int option"

record 'g gateway =
  gw_get :: "string \<Rightarrow> string \<Rightarrow> 'g \<Rightarrow> get_answer \<times> 'g"
  gw_put :: "string \<Rightarrow> string \<Rightarrow> string \<Rightarrow> string option \<Rightarrow> 'g \<Rightarrow> s3_error option \<times> 'g"
  gw_delete :: "string \<Rightarrow> string \<Rightarrow> 'g \<Rightarrow> s3_error option \<times> 'g"

section \<open>The client\<close>

record ObjConfig =
  oc_endpoint :: string
  oc_bucket :: string

text \<open>\<open>st_client\<close> is false for the store built from an empty endpoint.\<close>

record Store =
  st_client :: bool
  st_bucket :: string

definition NewStore :: "ObjConfig \<Rightarrow> err + Store" where
  "NewStore cfg =
     (if oc_endpoint cfg = [] then Inr \<lparr>st_client = False, st_bucket = []\<rparr>
      else if oc_bucket cfg = [] then Inl ErrBucketRequired
      else Inr \<lparr>st_client = True, st_bucket = oc_bucket cfg\<rparr>)"

definition isNotFound :: "s3_error \<Rightarrow> bool" where
  "isNotFound e \<longleftrightarrow>
     (if se_no_such_key e then True
      else if se_not_found e then True
      else if se_code e \<in> {Some ''NoSuchKey'', Some ''NotFound'', Some ''404''} then True
      else se_status e = Some 404)"

definition Store_Get :: "'g gateway \<Rightarrow> Store \<Rightarrow> string \<Rightarrow> 'g \<Rightarrow> (err + string) \<times> 'g" where
  "Store_Get gw s key g =
     (if \<not> st_client s then (Inl ErrNotConfigured, g)
      else case gw_get gw (st_bucket s) key g of
             (GetRefused e, g') \<Rightarrow> (Inl (if isNotFound e then ErrNoSuchKey else ErrObject), g')
           | (GetTorn, g') \<Rightarrow> (Inl ErrObject, g')
           | (GetBody body, g') \<Rightarrow> (Inr body, g'))"

definition Store_Put :: "'g gateway \<Rightarrow> Store \<Rightarrow> string \<Rightarrow> string \<Rightarrow> string \<Rightarrow> 'g \<Rightarrow> err option \<times> 'g" where
  "Store_Put gw s key body contentType g =
     (if \<not> st_client s then (Some ErrNotConfigured, g)
      else case gw_put gw (st_bucket s) key body
                  (if contentType = [] then None else Some contentType) g of
             (None, g') \<Rightarrow> (None, g')
           | (Some _, g') \<Rightarrow> (Some ErrObject, g'))"

definition Store_Delete :: "'g gateway \<Rightarrow> Store \<Rightarrow> string \<Rightarrow> 'g \<Rightarrow> err option \<times> 'g" where
  "Store_Delete gw s key g =
     (if \<not> st_client s then (Some ErrNotConfigured, g)
      else case gw_delete gw (st_bucket s) key g of
             (None, g') \<Rightarrow> (None, g')
           | (Some e, g') \<Rightarrow> (if se_no_such_key e then None else Some ErrObject, g'))"

record Object =
  obj_key :: string
  obj_size :: int
  obj_modified :: int

text \<open>\<open>aws.ToTime(nil)\<close> is Go's zero time, year 1, in microseconds of the Unix epoch.\<close>

definition no_time :: int where "no_time = -62135596800000000"

definition object_of :: "s3_item \<Rightarrow> Object" where
  "object_of it =
     \<lparr>obj_key = (case it_key it of None \<Rightarrow> [] | Some k \<Rightarrow> k),
      obj_size = (case it_size it of None \<Rightarrow> 0 | Some n \<Rightarrow> n),
      obj_modified = (case it_modified it of None \<Rightarrow> no_time | Some t \<Rightarrow> t)\<rparr>"

text \<open>
  What the paginator yields is data: the pages it answers with, in order, each one items or
  an error.  The state is the caller's.
\<close>

fun walk_pages :: "(s3_error + s3_item list) list \<Rightarrow> (Object list \<Rightarrow> 's \<Rightarrow> err option \<times> 's) \<Rightarrow>
    's \<Rightarrow> err option \<times> 's" where
  "walk_pages [] fn s = (None, s)"
| "walk_pages (Inl _ # pages) fn s = (Some ErrObject, s)"
| "walk_pages (Inr items # pages) fn s =
     (case fn (map object_of items) s of
        (Some e, s') \<Rightarrow> (Some e, s')
      | (None, s') \<Rightarrow> walk_pages pages fn s')"

definition Store_List :: "Store \<Rightarrow> (s3_error + s3_item list) list \<Rightarrow>
    (Object list \<Rightarrow> 's \<Rightarrow> err option \<times> 's) \<Rightarrow> 's \<Rightarrow> err option \<times> 's" where
  "Store_List st pages fn s =
     (if \<not> st_client st then (Some ErrNotConfigured, s) else walk_pages pages fn s)"

section \<open>The contract\<close>

text \<open>
  What the callers rely on.  A request that failed may still have taken effect; a deletion
  that succeeded left nothing, whether or not there was anything.
\<close>

locale object_deleter =
  fixes del :: "string \<Rightarrow> 'g \<Rightarrow> err option \<times> 'g"
    and contents :: "'g \<Rightarrow> string \<Rightarrow> string option"
  assumes del_done: "del k g = (None, g') \<Longrightarrow> contents g' = (contents g)(k := None)"
    and del_failed: "del k g = (Some e, g') \<Longrightarrow>
      contents g' = contents g \<or> contents g' = (contents g)(k := None)"
begin

lemma del_others: "del k g = (r, g') \<Longrightarrow> j \<noteq> k \<Longrightarrow> contents g' j = contents g j"
  using del_done del_failed by (cases r) (metis fun_upd_other)+

lemma del_shrinks: "del k g = (r, g') \<Longrightarrow> contents g' j = None \<or> contents g' j = contents g j"
  using del_done del_failed by (cases r) (metis fun_upd_apply)+

end

locale object_store = object_deleter del contents
  for del :: "string \<Rightarrow> 'g \<Rightarrow> err option \<times> 'g" and contents +
  fixes get :: "string \<Rightarrow> 'g \<Rightarrow> (err + string) \<times> 'g"
    and put :: "string \<Rightarrow> string \<Rightarrow> string \<Rightarrow> 'g \<Rightarrow> err option \<times> 'g"
  assumes get_body: "get k g = (Inr body, g') \<Longrightarrow> contents g k = Some body"
    and get_still: "get k g = (r, g') \<Longrightarrow> contents g' = contents g"
    and get_missing: "get k g = (Inl ErrNoSuchKey, g') \<Longrightarrow> contents g k = None"
    and put_done: "put k body ct g = (None, g') \<Longrightarrow> contents g' = (contents g)(k := Some body)"
    and put_failed: "put k body ct g = (Some e, g') \<Longrightarrow>
      contents g' = contents g \<or> contents g' = (contents g)(k := Some body)"

text \<open>What S3 documents of the three requests, for one configured bucket.\<close>

locale s3_gateway =
  fixes gw :: "'g gateway" and st :: Store and contents :: "'g \<Rightarrow> string \<Rightarrow> string option"
  assumes configured: "st_client st"
    and s3_delete: "gw_delete gw (st_bucket st) k g = (None, g') \<Longrightarrow> contents g' = (contents g)(k := None)"
    and s3_delete_missing: "gw_delete gw (st_bucket st) k g = (Some e, g') \<Longrightarrow> se_no_such_key e \<Longrightarrow>
      contents g' = (contents g)(k := None)"
    and s3_delete_failed: "gw_delete gw (st_bucket st) k g = (Some e, g') \<Longrightarrow>
      contents g' = contents g \<or> contents g' = (contents g)(k := None)"
    and s3_get: "gw_get gw (st_bucket st) k g = (GetBody body, g') \<Longrightarrow> contents g k = Some body"
    and s3_get_still: "gw_get gw (st_bucket st) k g = (a, g') \<Longrightarrow> contents g' = contents g"
    and s3_get_missing: "gw_get gw (st_bucket st) k g = (GetRefused e, g') \<Longrightarrow> isNotFound e \<Longrightarrow>
      contents g k = None"
    and s3_put: "gw_put gw (st_bucket st) k body ct g = (None, g') \<Longrightarrow>
      contents g' = (contents g)(k := Some body)"
    and s3_put_failed: "gw_put gw (st_bucket st) k body ct g = (Some e, g') \<Longrightarrow>
      contents g' = contents g \<or> contents g' = (contents g)(k := Some body)"

text \<open>The client turns the gateway's documented behaviour into the contract.\<close>

sublocale s3_gateway \<subseteq> object_store "Store_Delete gw st" contents "Store_Get gw st" "Store_Put gw st"
proof
  fix k g g' assume "Store_Delete gw st k g = (None, g')"
  then show "contents g' = (contents g)(k := None)"
    using s3_delete s3_delete_missing configured
    by (auto simp: Store_Delete_def split: prod.splits option.splits if_splits)
next
  fix k g e g' assume "Store_Delete gw st k g = (Some e, g')"
  then show "contents g' = contents g \<or> contents g' = (contents g)(k := None)"
    using s3_delete_failed configured
    by (auto simp: Store_Delete_def split: prod.splits option.splits if_splits)
next
  fix k g body g' assume "Store_Get gw st k g = (Inr body, g')"
  then show "contents g k = Some body"
    using s3_get configured by (auto simp: Store_Get_def split: prod.splits get_answer.splits)
next
  fix k g r g' assume "Store_Get gw st k g = (r, g')"
  then show "contents g' = contents g"
    using s3_get_still configured by (auto simp: Store_Get_def split: prod.splits get_answer.splits)
next
  fix k g g' assume "Store_Get gw st k g = (Inl ErrNoSuchKey, g')"
  then show "contents g k = None"
    using s3_get_missing configured
    by (auto simp: Store_Get_def split: prod.splits get_answer.splits if_splits)
next
  fix k body ct g g' assume "Store_Put gw st k body ct g = (None, g')"
  then show "contents g' = (contents g)(k := Some body)"
    using s3_put configured by (auto simp: Store_Put_def split: prod.splits option.splits)
next
  fix k body ct g e g' assume "Store_Put gw st k body ct g = (Some e, g')"
  then show "contents g' = contents g \<or> contents g' = (contents g)(k := Some body)"
    using s3_put_failed configured by (auto simp: Store_Put_def split: prod.splits option.splits)
qed

section \<open>A reference gateway\<close>

text \<open>
  One gateway with the documented behaviour: the objects of a bucket, and the requests it
  will still refuse, one flag per request to come.
\<close>

record bucket =
  bk_objects :: "string \<rightharpoonup> string"
  bk_refusals :: "bool list"

definition unavailable :: s3_error where
  "unavailable = \<lparr>se_no_such_key = False, se_not_found = False, se_code = Some ''ServiceUnavailable'',
     se_status = Some 503\<rparr>"

definition missing :: s3_error where
  "missing = \<lparr>se_no_such_key = False, se_not_found = False, se_code = None, se_status = Some 404\<rparr>"

definition refuses :: "bucket \<Rightarrow> bool" where
  "refuses b \<longleftrightarrow> bk_refusals b \<noteq> [] \<and> hd (bk_refusals b)"

definition next_request :: "bucket \<Rightarrow> bucket" where
  "next_request b = b\<lparr>bk_refusals := tl (bk_refusals b)\<rparr>"

definition reference_gateway :: "bucket gateway" where
  "reference_gateway =
     \<lparr>gw_get = \<lambda>_ k b. (if refuses b then GetRefused unavailable
         else case bk_objects b k of None \<Rightarrow> GetRefused missing | Some body \<Rightarrow> GetBody body,
         next_request b),
      gw_put = \<lambda>_ k body _ b. (if refuses b then (Some unavailable, next_request b)
         else (None, (next_request b)\<lparr>bk_objects := (bk_objects b)(k := Some body)\<rparr>)),
      gw_delete = \<lambda>_ k b. (if refuses b then (Some unavailable, next_request b)
         else (None, (next_request b)\<lparr>bk_objects := (bk_objects b)(k := None)\<rparr>))\<rparr>"

definition reference_store :: Store where
  "reference_store = \<lparr>st_client = True, st_bucket = ''hirame-thumbnails''\<rparr>"

interpretation ref: s3_gateway reference_gateway reference_store bk_objects
  by unfold_locales
    (auto simp: reference_gateway_def reference_store_def next_request_def unavailable_def
       missing_def isNotFound_def split: if_splits option.splits)

end
