(* ===== verification/Image_Spec.thy ===== *)
theory Image_Spec
  imports GoNumbers
begin

text \<open>
  The image specification of a request and the cache key it becomes
  (\<open>internal/service/imagespec.go\<close>, \<open>internal/service/thumbnailkey.go\<close>).  Pixel counts and
  page numbers are \<open>uint32\<close>; the enum of the API is the \<open>int32\<close> of the generated code, so a
  value outside it can arrive.
\<close>

type_synonym u32 = "32 word"
type_synonym ImageFormat = "32 word"

definition IMAGE_FORMAT_UNSPECIFIED :: ImageFormat where "IMAGE_FORMAT_UNSPECIFIED = 0"
definition IMAGE_FORMAT_PNG :: ImageFormat where "IMAGE_FORMAT_PNG = 1"
definition IMAGE_FORMAT_JPEG :: ImageFormat where "IMAGE_FORMAT_JPEG = 2"
definition IMAGE_FORMAT_WEBP :: ImageFormat where "IMAGE_FORMAT_WEBP = 3"
definition IMAGE_FORMAT_AVIF :: ImageFormat where "IMAGE_FORMAT_AVIF = 4"

lemmas image_format_defs = IMAGE_FORMAT_UNSPECIFIED_def IMAGE_FORMAT_PNG_def IMAGE_FORMAT_JPEG_def
  IMAGE_FORMAT_WEBP_def IMAGE_FORMAT_AVIF_def

text \<open>The renderer's own vocabulary (\<open>internal/gahakuclient\<close>).\<close>

datatype Format = FormatPNG | FormatJPEG | FormatWEBP | FormatAVIF

text \<open>The codes of the API's errors, as far as the handlers raise them.\<close>

datatype code = CodeInvalidArgument | CodeNotFound | CodeFailedPrecondition | CodeOutOfRange
  | CodeResourceExhausted | CodeUnavailable | CodeDeadlineExceeded | CodeCanceled | CodeInternal

section \<open>Formats\<close>

record imageFormat =
  if_proto :: ImageFormat
  if_name :: string
  if_mediaType :: string
  if_rendererFmt :: Format

definition defaultRenderFormat :: ImageFormat where "defaultRenderFormat = IMAGE_FORMAT_PNG"
definition defaultThumbnailFormat :: ImageFormat where "defaultThumbnailFormat = IMAGE_FORMAT_WEBP"

definition imageFormats :: "(ImageFormat \<times> imageFormat) list" where
  "imageFormats =
     [(IMAGE_FORMAT_PNG, \<lparr>if_proto = IMAGE_FORMAT_PNG, if_name = ''png'',
         if_mediaType = ''image/png'', if_rendererFmt = FormatPNG\<rparr>),
      (IMAGE_FORMAT_JPEG, \<lparr>if_proto = IMAGE_FORMAT_JPEG, if_name = ''jpeg'',
         if_mediaType = ''image/jpeg'', if_rendererFmt = FormatJPEG\<rparr>),
      (IMAGE_FORMAT_WEBP, \<lparr>if_proto = IMAGE_FORMAT_WEBP, if_name = ''webp'',
         if_mediaType = ''image/webp'', if_rendererFmt = FormatWEBP\<rparr>),
      (IMAGE_FORMAT_AVIF, \<lparr>if_proto = IMAGE_FORMAT_AVIF, if_name = ''avif'',
         if_mediaType = ''image/avif'', if_rendererFmt = FormatAVIF\<rparr>)]"

definition resolveFormat :: "ImageFormat \<Rightarrow> ImageFormat \<Rightarrow> code + imageFormat" where
  "resolveFormat requested fallback =
     (let requested = (if requested = IMAGE_FORMAT_UNSPECIFIED then fallback else requested) in
      case map_of imageFormats requested of
        None \<Rightarrow> Inl CodeInvalidArgument
      | Some format \<Rightarrow> Inr format)"

section \<open>Bounds\<close>

record imageBounds =
  ib_width :: u32
  ib_height :: u32

text \<open>\<open>*hiramev1.ImageSize\<close>: a nil message answers 0 on both axes.\<close>

record ImageSize =
  is_width :: u32
  is_height :: u32

definition GetWidth :: "ImageSize option \<Rightarrow> u32" where
  "GetWidth s = (case s of None \<Rightarrow> 0 | Some s \<Rightarrow> is_width s)"

definition GetHeight :: "ImageSize option \<Rightarrow> u32" where
  "GetHeight s = (case s of None \<Rightarrow> 0 | Some s \<Rightarrow> is_height s)"

definition bounds_message :: "imageBounds \<Rightarrow> ImageSize" where
  "bounds_message b = \<lparr>is_width = ib_width b, is_height = ib_height b\<rparr>"

definition defaultRenderPixels :: u32 where "defaultRenderPixels = 2048"
definition maxRenderPixels :: u32 where "maxRenderPixels = 5000"

definition boundRenderAxis :: "u32 \<Rightarrow> u32" where
  "boundRenderAxis v = (if v = 0 then defaultRenderPixels else min v maxRenderPixels)"

definition renderBounds :: "ImageSize option \<Rightarrow> imageBounds" where
  "renderBounds s =
     \<lparr>ib_width = boundRenderAxis (GetWidth s), ib_height = boundRenderAxis (GetHeight s)\<rparr>"

definition defaultThumbnailPixels :: u32 where "defaultThumbnailPixels = 192"
definition thumbnailQuantum :: u32 where "thumbnailQuantum = 64"
definition maxThumbnailPixels :: u32 where "maxThumbnailPixels = 1024"

definition quantizeThumbnailAxis :: "u32 \<Rightarrow> u32" where
  "quantizeThumbnailAxis v =
     (if v = 0 then defaultThumbnailPixels
      else if v \<ge> maxThumbnailPixels then maxThumbnailPixels
      else (v + thumbnailQuantum - 1) div thumbnailQuantum * thumbnailQuantum)"

definition thumbnailBounds :: "ImageSize option \<Rightarrow> imageBounds" where
  "thumbnailBounds s =
     \<lparr>ib_width = quantizeThumbnailAxis (GetWidth s), ib_height = quantizeThumbnailAxis (GetHeight s)\<rparr>"

section \<open>The cache key\<close>

record entry =
  en_contentVersionID :: int
  en_contentHash :: string
  en_page :: u32
  en_bounds :: imageBounds
  en_format :: imageFormat

definition key_text :: "string \<Rightarrow> u32 \<Rightarrow> u32 \<Rightarrow> u32 \<Rightarrow> string \<Rightarrow> string" where
  "key_text hash page width height format =
     ''thumbnails/'' @ hash @ ''/p'' @ show_nat (uint page) @ ''/'' @ show_nat (uint width) @ ''x'' @
     show_nat (uint height) @ ''.'' @ format"

definition objectKey :: "entry \<Rightarrow> string" where
  "objectKey e = key_text (en_contentHash e) (en_page e) (ib_width (en_bounds e))
     (ib_height (en_bounds e)) (if_name (en_format e))"

definition singleflightKey :: "entry \<Rightarrow> string" where "singleflightKey e = objectKey e"

section \<open>Facts\<close>

lemma resolveFormat_Inr:
  "resolveFormat requested fallback = Inr f \<Longrightarrow>
     f \<in> snd ` set imageFormats \<and>
     if_proto f = (if requested = IMAGE_FORMAT_UNSPECIFIED then fallback else requested)"
  by (auto simp: resolveFormat_def imageFormats_def Let_def image_format_defs
      split: option.splits if_splits)

lemma axis_quantized:
  assumes "v \<noteq> 0" "v < maxThumbnailPixels"
  shows "unat (quantizeThumbnailAxis v) = (unat v + 63) div 64 * 64"
proof -
  have v: "unat v < 1024" using assms(2) by (simp add: maxThumbnailPixels_def word_less_nat_alt)
  have sum: "unat (v + 64 - 1) = unat v + 63"
  proof -
    have "v + 64 - 1 = v + 63" by simp
    moreover have "unat (v + 63) = unat v + 63"
      using v by (simp add: unat_word_ariths)
    ultimately show ?thesis by (simp only:)
  qed
  have quotient: "unat ((v + 64 - 1) div 64) = (unat v + 63) div 64"
    by (simp only: unat_div sum) simp
  have "(unat v + 63) div 64 * 64 < 2 ^ 32" using v by simp
  then have "unat ((v + 64 - 1) div 64 * 64) = (unat v + 63) div 64 * 64"
    by (simp only: unat_word_ariths(2) quotient) simp
  moreover have "\<not> maxThumbnailPixels \<le> v" using assms(2) by (simp add: not_le)
  ultimately show ?thesis using assms(1)
    by (simp add: quantizeThumbnailAxis_def thumbnailQuantum_def)
qed

lemma digit_separators [simp]:
  "\<not> is_digit (CHR ''/'')" "\<not> is_digit (CHR ''x'')" "\<not> is_digit (CHR ''.'')"
  by (simp_all add: is_digit_def)

text \<open>Equal keys come from equal parts, because a hash holds no slash.\<close>

lemma key_text_inj:
  assumes eq: "key_text h p w t f = key_text h' p' w' t' f'"
    and slash: "CHR ''/'' \<notin> set h" "CHR ''/'' \<notin> set h'"
  shows "h = h' \<and> p = p' \<and> w = w' \<and> t = t' \<and> f = f'"
proof -
  let ?rest = "\<lambda>p w t f. CHR ''p'' # show_nat (uint (p :: u32)) @ CHR ''/'' # show_nat (uint (w :: u32)) @
      CHR ''x'' # show_nat (uint (t :: u32)) @ CHR ''.'' # f"
  from eq have split: "h @ CHR ''/'' # ?rest p w t f = h' @ CHR ''/'' # ?rest p' w' t' f'"
    by (simp add: key_text_def)
  have hash: "takeWhile (\<lambda>c. c \<noteq> CHR ''/'') (g @ CHR ''/'' # u) = g" if "CHR ''/'' \<notin> set g" for g u
  proof -
    have "\<And>c. c \<in> set g \<Longrightarrow> c \<noteq> CHR ''/''" using that by auto
    then show ?thesis by (simp add: takeWhile_append2)
  qed
  have h: "h = h'" using hash [OF slash(1)] hash [OF slash(2)] split by metis
  with split have "show_nat (uint p) @ CHR ''/'' # show_nat (uint w) @ CHR ''x'' # show_nat (uint t) @ CHR ''.'' # f =
      show_nat (uint p') @ CHR ''/'' # show_nat (uint w') @ CHR ''x'' # show_nat (uint t') @ CHR ''.'' # f'"
    by simp
  from digits_then_inj [OF this _ uint_ge_0 uint_ge_0] have p: "uint p = uint p'"
    and "show_nat (uint w) @ CHR ''x'' # show_nat (uint t) @ CHR ''.'' # f =
      show_nat (uint w') @ CHR ''x'' # show_nat (uint t') @ CHR ''.'' # f'" by simp_all
  from digits_then_inj [OF this(2) _ uint_ge_0 uint_ge_0] have w: "uint w = uint w'"
    and "show_nat (uint t) @ CHR ''.'' # f = show_nat (uint t') @ CHR ''.'' # f'" by simp_all
  from digits_then_inj [OF this(2) _ uint_ge_0 uint_ge_0] have "uint t = uint t'" "f = f'" by simp_all
  with h p w show ?thesis by (simp add: word_uint_eq_iff)
qed

section \<open>What a request's size becomes\<close>

lemma axis_bounds:
  "64 \<le> unat (quantizeThumbnailAxis v) \<and> unat (quantizeThumbnailAxis v) \<le> 1024 \<and>
     64 dvd unat (quantizeThumbnailAxis v)"
proof -
  consider "v = 0" | "v \<noteq> 0" "v \<ge> maxThumbnailPixels" | "v \<noteq> 0" "v < maxThumbnailPixels" by force
  then show ?thesis
  proof cases
    case 3
    then have "0 < unat v" "unat v < 1024"
      by (simp_all add: maxThumbnailPixels_def word_less_nat_alt unat_gt_0)
    moreover from this have "1 \<le> (unat v + 63) div 64 \<and> (unat v + 63) div 64 \<le> 16" by auto
    ultimately show ?thesis unfolding axis_quantized [OF 3] by auto
  qed (simp_all add: quantizeThumbnailAxis_def maxThumbnailPixels_def defaultThumbnailPixels_def)
qed

lemma axis_covers:
  assumes "0 < unat v" "unat v \<le> 1024"
  shows "unat v \<le> unat (quantizeThumbnailAxis v) \<and> unat (quantizeThumbnailAxis v) < unat v + 64"
proof (cases "v < maxThumbnailPixels")
  case True
  have "v \<noteq> 0" using assms(1) by auto
  have "unat v \<le> (unat v + 63) div 64 * 64 \<and> (unat v + 63) div 64 * 64 < unat v + 64" by linarith
  with axis_quantized [OF \<open>v \<noteq> 0\<close> True] show ?thesis by simp
next
  case False
  with assms have "unat v = 1024" by (simp add: maxThumbnailPixels_def word_less_nat_alt not_less)
  moreover from this False have "quantizeThumbnailAxis v = maxThumbnailPixels"
    by (auto simp: quantizeThumbnailAxis_def not_less)
  ultimately show ?thesis by (simp add: maxThumbnailPixels_def)
qed

text \<open>Quantizing again changes nothing: a cached entry's size is the one its key was built from.\<close>

lemma axis_again: "quantizeThumbnailAxis (quantizeThumbnailAxis v) = quantizeThumbnailAxis v"
proof -
  let ?q = "quantizeThumbnailAxis v"
  from axis_bounds [of v] obtain k where k: "unat ?q = 64 * k" "64 \<le> unat ?q" "unat ?q \<le> 1024" by blast
  show ?thesis
  proof (cases "?q < maxThumbnailPixels")
    case True
    have "?q \<noteq> 0" using k(2) by auto
    have "(unat ?q + 63) div 64 * 64 = unat ?q" using k(1) by simp
    with axis_quantized [OF \<open>?q \<noteq> 0\<close> True] have "unat (quantizeThumbnailAxis ?q) = unat ?q" by simp
    then show ?thesis by (simp add: word_unat_eq_iff)
  next
    case False
    with k(3) have "?q = maxThumbnailPixels"
      by (simp add: maxThumbnailPixels_def word_unat_eq_iff word_less_nat_alt not_less)
    then show ?thesis by (simp add: quantizeThumbnailAxis_def maxThumbnailPixels_def)
  qed
qed

text \<open>
  Whatever size a request asks for, the entry it is cached under has both axes a positive
  multiple of 64 of at most 1024, at least as large as asked up to that cap and less than 64
  pixels larger, and quantizing that size again gives the same entry; no request size wraps.
\<close>

theorem thumbnail_size_quantized:
  fixes width height :: u32
  defines "b \<equiv> thumbnailBounds (Some \<lparr>is_width = width, is_height = height\<rparr>)"
  shows "unat (ib_width b) \<in> {64 * k |k. k \<in> {1..16}} \<and> unat (ib_height b) \<in> {64 * k |k. k \<in> {1..16}} \<and>
    (unat width \<in> {1..1024} \<longrightarrow> unat (ib_width b) \<in> {unat width..<unat width + 64}) \<and>
    (unat height \<in> {1..1024} \<longrightarrow> unat (ib_height b) \<in> {unat height..<unat height + 64}) \<and>
    thumbnailBounds (Some (bounds_message b)) = b"
proof -
  have mult: "unat (quantizeThumbnailAxis v) \<in> {64 * k |k. k \<in> {1..16}}" for v
    using axis_bounds [of v] by (auto elim!: dvdE)
  have cover: "unat v \<in> {1..1024} \<longrightarrow> unat (quantizeThumbnailAxis v) \<in> {unat v..<unat v + 64}" for v
    using axis_covers [of v] by auto
  show ?thesis
    using mult cover by (simp add: b_def thumbnailBounds_def GetWidth_def GetHeight_def bounds_message_def axis_again)
qed

lemma thumbnail_size_quantized_witness:
  "unat (ib_width (thumbnailBounds (Some \<lparr>is_width = 100, is_height = 4294967295\<rparr>))) = 128 \<and>
   unat (ib_width (thumbnailBounds (Some \<lparr>is_width = 100, is_height = 4294967295\<rparr>))) \<in> {100..<164} \<and>
   unat (ib_height (thumbnailBounds (Some \<lparr>is_width = 100, is_height = 4294967295\<rparr>))) \<in> {64 * k |k. k \<in> {1..16}}"
proof -
  have "unat (ib_width (thumbnailBounds (Some \<lparr>is_width = 100, is_height = 4294967295\<rparr>))) = 128" by code_simp
  with thumbnail_size_quantized [of 100 4294967295] show ?thesis by simp
qed

end
