(* ===== verification/Gahaku_Client.thy ===== *)
theory Gahaku_Client
  imports Image_Spec Processor
begin

text \<open>
  The rendering client (\<open>internal/gahakuclient/gahakuclient.go\<close>): one bidirectional stream per
  page.  The renderer behind the stream is another program; what it answers, when it ends the
  stream early and what the filesystem answers is data.  The messages the client sends are
  kept, in order.
\<close>

section \<open>Errors\<close>

datatype grpc_code = GrpcOutOfRange | GrpcInvalidArgument | GrpcResourceExhausted | GrpcUnavailable
  | GrpcDeadlineExceeded | GrpcCanceled | GrpcOther

text \<open>A renderer's error by what the handlers can tell of it, in the order they ask.\<close>

datatype render_error =
    ReConnect code          \<comment> \<open>a \<open>*connect.Error\<close>, raised by the response stream\<close>
  | ReNotConfigured         \<comment> \<open>\<open>gahakuclient.ErrNotConfigured\<close>\<close>
  | ReContextCanceled
  | ReContextDeadline
  | ReStatus grpc_code      \<comment> \<open>an error with a gRPC status\<close>
  | ReOther

section \<open>Requests\<close>

record PageRequest =
  pq_source :: string
  pq_page :: u32
  pq_format :: Format
  pq_max_width :: u32
  pq_max_height :: u32

text \<open>The messages of the stream: first the header, then the bytes of the file.\<close>

datatype render_request =
    ReqHeader Format u32 u32 u32 u32  \<comment> \<open>format, size limits, first and last page\<close>
  | ReqChunk string

datatype recv = RecvChunk string | RecvOther | RecvError render_error

text \<open>
  One render as the environment answers it: what opening the file gives, whether the stream
  opens, which sends succeed (every one after the listed), the status a broken stream carries,
  whether \<open>CloseSend\<close> succeeds, and the messages received before the end of the stream.
\<close>

record render_io =
  io_source :: opened
  io_stream :: "render_error option"
  io_sends :: "bool list"
  io_status :: "render_error option"
  io_close :: bool
  io_recvs :: "recv list"

section \<open>The client\<close>

type_synonym sent = "render_request list"

text \<open>A send and what it leaves of the answers to come.\<close>

definition try_send :: "bool list \<Rightarrow> render_request \<Rightarrow> sent \<Rightarrow> bool \<times> bool list \<times> sent" where
  "try_send oks msg msgs = (case oks of
      [] \<Rightarrow> (True, [], msgs @ [msg])
    | ok # oks \<Rightarrow> if ok then (True, oks, msgs @ [msg]) else (False, oks, msgs))"

definition recvStatus :: "render_io \<Rightarrow> render_error" where
  "recvStatus io = (case io_status io of None \<Rightarrow> ReOther | Some e \<Rightarrow> e)"

fun sendFile :: "render_io \<Rightarrow> read_step list \<Rightarrow> bool list \<Rightarrow> sent \<Rightarrow> render_error option \<times> sent" where
  "sendFile io [] oks msgs = (None, msgs)"
| "sendFile io (ReadOk buf # rs) oks msgs =
     (if buf = [] then sendFile io rs oks msgs
      else case try_send oks (ReqChunk buf) msgs of
             (False, _, msgs') \<Rightarrow> (Some (recvStatus io), msgs')
           | (True, oks', msgs') \<Rightarrow> sendFile io rs oks' msgs')"
| "sendFile io (ReadEOF buf # rs) oks msgs =
     (if buf = [] then (None, msgs)
      else case try_send oks (ReqChunk buf) msgs of
             (False, _, msgs') \<Rightarrow> (Some (recvStatus io), msgs')
           | (True, _, msgs') \<Rightarrow> (None, msgs'))"
| "sendFile io (ReadErr buf # rs) oks msgs =
     (if buf = [] then (Some ReOther, msgs)
      else case try_send oks (ReqChunk buf) msgs of
             (False, _, msgs') \<Rightarrow> (Some (recvStatus io), msgs')
           | (True, _, msgs') \<Rightarrow> (Some ReOther, msgs'))"
| "sendFile io (CtxDone # rs) oks msgs = (Some ReOther, msgs)"

text \<open>The callback that takes each slice, over a state of the caller's.\<close>

type_synonym 's chunk_fn = "string \<Rightarrow> 's \<Rightarrow> render_error option \<times> 's"

fun recv_loop :: "recv list \<Rightarrow> 's chunk_fn \<Rightarrow> 's \<Rightarrow> render_error option \<times> 's" where
  "recv_loop [] chunk s = (None, s)"
| "recv_loop (RecvError e # rs) chunk s = (Some e, s)"
| "recv_loop (RecvOther # rs) chunk s = recv_loop rs chunk s"
| "recv_loop (RecvChunk body # rs) chunk s =
     (if body = [] then recv_loop rs chunk s
      else case chunk body s of
             (Some e, s') \<Rightarrow> (Some e, s')
           | (None, s') \<Rightarrow> recv_loop rs chunk s')"

definition render_header :: "PageRequest \<Rightarrow> render_request" where
  "render_header req = ReqHeader (pq_format req) (pq_max_width req) (pq_max_height req) (pq_page req) (pq_page req)"

text \<open>\<open>configured\<close> is false for the client built from an empty target.\<close>

definition RenderPage_client ::
  "bool \<Rightarrow> render_io \<Rightarrow> PageRequest \<Rightarrow> 's chunk_fn \<Rightarrow> 's \<Rightarrow> render_error option \<times> 's \<times> sent" where
  "RenderPage_client configured io req chunk s =
     (if \<not> configured then (Some ReNotConfigured, s, [])
      else case io_source io of
             OpenNotExist \<Rightarrow> (Some ReOther, s, [])
           | OpenError \<Rightarrow> (Some ReOther, s, [])
           | Opened reads \<Rightarrow>
               (case io_stream io of
                  Some e \<Rightarrow> (Some e, s, [])
                | None \<Rightarrow>
                    (case try_send (io_sends io) (render_header req) [] of
                       (False, _, msgs) \<Rightarrow> (Some (recvStatus io), s, msgs)
                     | (True, oks, msgs) \<Rightarrow>
                         (case sendFile io reads oks msgs of
                            (Some e, msgs') \<Rightarrow> (Some e, s, msgs')
                          | (None, msgs') \<Rightarrow>
                              if \<not> io_close io then (Some ReOther, s, msgs')
                              else (case recv_loop (io_recvs io) chunk s of
                                      (e, s') \<Rightarrow> (e, s', msgs'))))))"

section \<open>What is sent\<close>

fun chunks_of :: "sent \<Rightarrow> string" where
  "chunks_of [] = []"
| "chunks_of (ReqChunk b # ms) = b @ chunks_of ms"
| "chunks_of (ReqHeader f w h a z # ms) = chunks_of ms"

lemma chunks_of_append [simp]: "chunks_of (xs @ ys) = chunks_of xs @ chunks_of ys"
  by (induction xs rule: chunks_of.induct) auto

lemma sendFile_sends:
  "sendFile io rs oks msgs = (e, msgs') \<Longrightarrow> \<exists>cs. msgs' = msgs @ map ReqChunk cs \<and>
     (\<forall>c \<in> set cs. c \<noteq> []) \<and> (e = None \<longrightarrow> reads_through rs \<and> concat cs = read_bytes rs)"
proof (induction io rs oks msgs rule: sendFile.induct)
  case (2 io buf rs oks msgs)
  show ?case
  proof (cases "buf = []")
    case True
    with 2 show ?thesis by auto
  next
    case False
    obtain ok oks1 msgs1 where send: "try_send oks (ReqChunk buf) msgs = (ok, oks1, msgs1)" by (metis prod_cases3)
    show ?thesis
    proof (cases ok)
      case True
      with send have msgs1: "msgs1 = msgs @ [ReqChunk buf]"
        by (auto simp: try_send_def split: list.splits if_splits)
      from 2(2) [OF False send [symmetric]] 2(3) False send True msgs1
      obtain cs where "msgs' = msgs @ ReqChunk buf # map ReqChunk cs" "\<forall>c \<in> set cs. c \<noteq> []"
        "e = None \<longrightarrow> reads_through rs \<and> concat cs = read_bytes rs" by auto
      with False show ?thesis by (intro exI [of _ "buf # cs"]) auto
    next
      case f: False
      with send have "msgs1 = msgs" by (auto simp: try_send_def split: list.splits if_splits)
      with 2(3) False send f show ?thesis by (intro exI [of _ "[]"]) auto
    qed
  qed
next
  case (3 io buf rs oks msgs)
  then show ?case
    by (cases "buf = []"; cases oks; cases "hd oks")
      (auto simp: try_send_def intro: exI [of _ "[buf]"] exI [of _ "[]"])
next
  case (4 io buf rs oks msgs)
  then show ?case
    by (cases "buf = []"; cases oks; cases "hd oks")
      (auto simp: try_send_def intro: exI [of _ "[buf]"] exI [of _ "[]"])
qed auto

text \<open>What reaches the caller: the slices before the first error, in order.\<close>

fun received :: "recv list \<Rightarrow> string list" where
  "received [] = []"
| "received (RecvError e # rs) = []"
| "received (RecvOther # rs) = received rs"
| "received (RecvChunk body # rs) = (if body = [] then received rs else body # received rs)"

fun recv_result :: "recv list \<Rightarrow> render_error option" where
  "recv_result [] = None"
| "recv_result (RecvError e # rs) = Some e"
| "recv_result (_ # rs) = recv_result rs"

lemma recv_loop_collects:
  "recv_loop rs (\<lambda>b acc. (None, acc @ b)) acc = (recv_result rs, acc @ concat (received rs))"
  by (induction rs arbitrary: acc rule: received.induct) auto

end
