(* ===== verification/Extract_Worker.thy ===== *)
theory Extract_Worker
  imports Processor GoNumbers
begin

text \<open>
  Text extraction (\<open>internal/jobs/workers.go\<close>) and its Tika client (\<open>internal/tika/tika.go\<close>).  The
  Tika server, the HTTP transport, the JSON decoder and NFKC are parameters; what a file
  answers at each of the three times the worker opens it is data.  The two size caps are
  below \<open>2 ^ 63 - 1\<close>, so that adding one to them does not wrap.
\<close>

section \<open>The Tika client\<close>

text \<open>
  What the transport gets out of the request's body: the bytes up to end of file, or the
  error that ended them.  A \<open>cappedReader\<close> turns the read that passes the limit into
  \<open>ErrTooLarge\<close>.
\<close>

datatype body_read = BodyWhole string | BodyTooLarge | BodyFailed

fun body_prepend :: "string \<Rightarrow> body_read \<Rightarrow> body_read" where
  "body_prepend b (BodyWhole s) = BodyWhole (b @ s)"
| "body_prepend b r = r"

fun read_body :: "read_step list \<Rightarrow> body_read" where
  "read_body [] = BodyWhole []"
| "read_body (ReadOk b # rs) = body_prepend b (read_body rs)"
| "read_body (ReadEOF b # rs) = BodyWhole b"
| "read_body (ReadErr b # rs) = BodyFailed"
| "read_body (CtxDone # rs) = BodyFailed"

text \<open>\<open>n\<close>: the bytes read so far.\<close>

fun capped_body :: "int \<Rightarrow> int \<Rightarrow> read_step list \<Rightarrow> body_read" where
  "capped_body limit n [] = BodyWhole []"
| "capped_body limit n (ReadOk b # rs) =
     (if limit < n + int (length b) then BodyTooLarge
      else body_prepend b (capped_body limit (n + int (length b)) rs))"
| "capped_body limit n (ReadEOF b # rs) =
     (if limit < n + int (length b) then BodyTooLarge else BodyWhole b)"
| "capped_body limit n (ReadErr b # rs) =
     (if limit < n + int (length b) then BodyTooLarge else BodyFailed)"
| "capped_body limit n (CtxDone # rs) = BodyFailed"

text \<open>
  What \<open>http.Client.Do\<close> returns: an error, which may wrap the body's \<open>ErrTooLarge\<close>, or a
  response with a status and a body to read.
\<close>

datatype http_result = HttpFailed bool | HttpResponse int "read_step list"

record tika_request =
  tk_path :: string
  tk_accept :: string
  tk_content_type :: "string option"

record tika_client =
  tc_configured :: bool
  tc_max_bytes :: int
  tc_max_response :: int
  tc_do :: "tika_request \<Rightarrow> body_read \<Rightarrow> http_result"
  tc_valid :: "string \<Rightarrow> bool"
  tc_decode :: json_fields

text \<open>\<open>io.ReadAll\<close>, and of an \<open>io.LimitReader\<close> with \<open>n\<close> bytes left; \<open>None\<close> for a read error.\<close>

fun read_all :: "read_step list \<Rightarrow> string option" where
  "read_all [] = Some []"
| "read_all (ReadOk b # rs) = map_option (append b) (read_all rs)"
| "read_all (ReadEOF b # rs) = Some b"
| "read_all (ReadErr b # rs) = None"
| "read_all (CtxDone # rs) = None"

fun read_limited :: "nat \<Rightarrow> read_step list \<Rightarrow> string option" where
  "read_limited n [] = Some []"
| "read_limited n (ReadOk b # rs) =
     (if n \<le> length b then Some (take n b) else map_option (append b) (read_limited (n - length b) rs))"
| "read_limited n (ReadEOF b # rs) = Some (take n b)"
| "read_limited n (ReadErr b # rs) = (if n < length b then Some (take n b) else None)"
| "read_limited n (CtxDone # rs) = None"

definition readResponse :: "tika_client \<Rightarrow> read_step list \<Rightarrow> err + string" where
  "readResponse c body =
     (if tc_max_response c \<le> 0
      then (case read_all body of None \<Rightarrow> Inl ErrTika | Some out \<Rightarrow> Inr out)
      else (case read_limited (nat (tc_max_response c + 1)) body of
              None \<Rightarrow> Inl ErrTika
            | Some out \<Rightarrow> if tc_max_response c < int (length out) then Inl ErrTooLarge else Inr out))"

definition request_body :: "tika_client \<Rightarrow> read_step list \<Rightarrow> body_read" where
  "request_body c file =
     (if 0 < tc_max_bytes c then capped_body (tc_max_bytes c) 0 file else read_body file)"

definition tika_put :: "tika_client \<Rightarrow> string \<Rightarrow> string \<Rightarrow> read_step list \<Rightarrow> string \<Rightarrow> err + string" where
  "tika_put c path accept file contentType =
     (if \<not> tc_configured c then Inl ErrNotConfigured
      else case tc_do c \<lparr>tk_path = path, tk_accept = accept,
                  tk_content_type = (if contentType = [] then None else Some contentType)\<rparr>
                (request_body c file) of
             HttpFailed tooLarge \<Rightarrow> Inl (if tooLarge then ErrTooLarge else ErrTika)
           | HttpResponse status body \<Rightarrow>
               if status \<noteq> 200 then Inl (ErrTikaStatus status) else readResponse c body)"

definition tika_Text :: "tika_client \<Rightarrow> read_step list \<Rightarrow> string \<Rightarrow> err + string" where
  "tika_Text c file contentType = tika_put c ''/tika'' ''text/plain'' file contentType"

fun json_strings :: "json list \<Rightarrow> string list option" where
  "json_strings [] = Some []"
| "json_strings (JString s # vs) = map_option (Cons s) (json_strings vs)"
| "json_strings (JNull # vs) = map_option (Cons []) (json_strings vs)"
| "json_strings (_ # vs) = None"

definition contentTypeOf :: "json_fields \<Rightarrow> string \<Rightarrow> string" where
  "contentTypeOf decode raw =
     (case decode raw of
        None \<Rightarrow> []
      | Some kvs \<Rightarrow>
          (case map_of kvs ''Content-Type'' of
             None \<Rightarrow> []
           | Some (JString s) \<Rightarrow> s
           | Some (JArray vs) \<Rightarrow> (case json_strings vs of Some (s # _) \<Rightarrow> s | _ \<Rightarrow> [])
           | Some _ \<Rightarrow> []))"

text \<open>The raw document and Tika's content type.\<close>

definition tika_Meta :: "tika_client \<Rightarrow> read_step list \<Rightarrow> string \<Rightarrow> err + (string \<times> string)" where
  "tika_Meta c file contentType =
     (case tika_put c ''/meta'' ''application/json'' file contentType of
        Inl e \<Rightarrow> Inl e
      | Inr resp \<Rightarrow> if \<not> tc_valid c resp then Inl ErrInvalidJSON
                   else Inr (resp, contentTypeOf (tc_decode c) resp))"

text \<open>\<open>StatusError.Permanent\<close>: 415 and 422.\<close>

definition status_permanent :: "int \<Rightarrow> bool" where
  "status_permanent status \<longleftrightarrow> status = 415 \<or> status = 422"

section \<open>The worker\<close>

record ExtractWorker =
  xw_tika :: tika_client
  xw_filter :: doc_filter
  xw_sniff :: "string \<Rightarrow> string"
  xw_normalize :: "string \<Rightarrow> string"
  xw_message :: "err \<Rightarrow> string"     \<comment> \<open>\<open>err.Error()\<close>\<close>

text \<open>What the file at a path answers each time it is opened: for its head, its text and its metadata.\<close>

record extract_files =
  xf_head :: "string \<Rightarrow> opened"
  xf_text :: "string \<Rightarrow> opened"
  xf_meta :: "string \<Rightarrow> opened"

text \<open>\<open>io.ReadFull\<close> of up to \<open>n\<close> bytes, a short file being no error.\<close>

fun read_full :: "nat \<Rightarrow> read_step list \<Rightarrow> string option" where
  "read_full n [] = Some []"
| "read_full n (ReadOk b # rs) =
     (if n \<le> length b then Some (take n b) else map_option (append b) (read_full (n - length b) rs))"
| "read_full n (ReadEOF b # rs) = Some (take n b)"
| "read_full n (ReadErr b # rs) = (if n \<le> length b then Some (take n b) else None)"
| "read_full n (CtxDone # rs) = None"

definition withFile :: "opened \<Rightarrow> (read_step list \<Rightarrow> err + 'a) \<Rightarrow> err + 'a" where
  "withFile file fn = (case file of
      OpenNotExist \<Rightarrow> Inl ErrNotExist
    | OpenError \<Rightarrow> Inl ErrOpen
    | Opened rs \<Rightarrow> fn rs)"

definition readHead :: "opened \<Rightarrow> err + string" where
  "readHead file = withFile file (\<lambda>rs. case read_full SniffLen rs of None \<Rightarrow> Inl ErrRead | Some h \<Rightarrow> Inr h)"

text \<open>Everything before the write: the text, the metadata and the content type to store.\<close>

definition extraction :: "ExtractWorker \<Rightarrow> extract_files \<Rightarrow> string \<Rightarrow> err + (string \<times> string \<times> string)" where
  "extraction xw files path =
     (case readHead (xf_head files path) of
        Inl e \<Rightarrow> Inl e
      | Inr head \<Rightarrow>
          (case ContentType (xw_sniff xw) (xw_filter xw) path head of
             (contentType, ok) \<Rightarrow>
               if \<not> ok then Inl ErrPermanent
               else (case withFile (xf_text files path) (\<lambda>f. tika_Text (xw_tika xw) f contentType) of
                  Inl e \<Rightarrow> Inl e
                | Inr txt \<Rightarrow>
                    (case withFile (xf_meta files path) (\<lambda>f. tika_Meta (xw_tika xw) f contentType) of
                       Inl e \<Rightarrow> Inl e
                     | Inr (raw, detected) \<Rightarrow>
                         Inr (xw_normalize xw txt, if raw = [] then ''{}'' else raw,
                              if detected \<noteq> [] then detected else contentType)))))"

definition extract_content :: "ExtractWorker \<Rightarrow> extract_files \<Rightarrow> int \<Rightarrow> string \<Rightarrow> unit m" where
  "extract_content xw files versionID path =
     (case extraction xw files path of
        Inl e \<Rightarrow> fail e
      | Inr (txt, meta, storedType) \<Rightarrow>
          bind (stmt (q_UpsertExtraction versionID ''succeeded'' txt meta (Some storedType) None))
            (\<lambda>_. ret ()))"

definition isPermanent :: "err \<Rightarrow> bool" where
  "isPermanent e = (case e of
      ErrPermanent \<Rightarrow> True
    | ErrTooLarge \<Rightarrow> True
    | ErrNotExist \<Rightarrow> True
    | ErrTikaStatus status \<Rightarrow> status_permanent status
    | _ \<Rightarrow> False)"

text \<open>What the queue is told: done, give up, or try again.\<close>

datatype job_result = JobDone | JobCancel err | JobRetry err

definition fail_job :: "ExtractWorker \<Rightarrow> int \<Rightarrow> err \<Rightarrow> world \<Rightarrow> job_result \<times> world" where
  "fail_job xw versionID cause w =
     (case stmt (q_MarkExtractionFailed versionID (Some (xw_message xw cause))) w of
        (Inl e, w') \<Rightarrow> (JobRetry e, w')
      | (Inr _, w') \<Rightarrow> (if isPermanent cause then JobCancel cause else JobRetry cause, w'))"

definition Extract_Work :: "ExtractWorker \<Rightarrow> extract_files \<Rightarrow> int \<Rightarrow> world \<Rightarrow> job_result \<times> world" where
  "Extract_Work xw files versionID w =
     (case stmt (q_FindPathForContentVersion (Some versionID)) w of
        (Inl e, w1) \<Rightarrow> (if e = ErrNoRows then JobDone else JobRetry e, w1)
      | (Inr (_, _, path, sz), w1) \<Rightarrow>
          (let mx = tc_max_bytes (xw_tika xw) in
           if 0 < mx \<and> mx < sz then fail_job xw versionID ErrTooLarge w1
           else case extract_content xw files versionID path w1 of
                  (Inl e, w2) \<Rightarrow> fail_job xw versionID e w2
                | (Inr _, w2) \<Rightarrow> (JobDone, w2)))"

end
