(* ===== verification/Clients.thy ===== *)
theory Clients
  imports Config Object_Store Gahaku_Client Extract_Worker
begin

text \<open>
  How the collaborators of both processes are built from their configuration, and the small
  operations beside the ones their own theories model: \<open>tika.New\<close>, \<open>gahakuclient.New\<close> and
  \<open>Close\<close>, \<open>objstore\<close>'s presigned URLs, \<open>ingest.DialDaemon\<close>.  What dials, signs and parses URLs is a
  parameter.
\<close>

section \<open>Tika\<close>

text \<open>The server behind a base URL, through the HTTP transport with the configured time limit.\<close>

record tika_services =
  ts_parse_url :: "string \<Rightarrow> bool"
  ts_transport :: "string \<Rightarrow> int \<Rightarrow> tika_request \<Rightarrow> body_read \<Rightarrow> http_result"
  ts_valid :: "string \<Rightarrow> bool"
  ts_decode :: json_fields

definition tika_New :: "tika_services \<Rightarrow> tika_config \<Rightarrow> start_error + tika_client" where
  "tika_New ts cfg =
     (let base = trim_suffix (kc_base_url cfg) ''/'' in
      if base \<noteq> [] \<and> \<not> ts_parse_url ts base then Inl ErrTikaURL
      else Inr \<lparr>tc_configured = base \<noteq> [], tc_max_bytes = kc_max_bytes cfg,
        tc_max_response = kc_max_response_bytes cfg, tc_do = ts_transport ts base (kc_timeout cfg),
        tc_valid = ts_valid ts, tc_decode = ts_decode ts\<rparr>)"

definition tika_MaxBytes :: "tika_client \<Rightarrow> int" where
  "tika_MaxBytes c = tc_max_bytes c"

definition StatusError_text :: "(int \<Rightarrow> string) \<Rightarrow> string \<Rightarrow> int \<Rightarrow> string" where
  "StatusError_text status_name path status =
     ''tika: '' @ path @ '' returned '' @ FormatInt status @ '' '' @ status_name status"

section \<open>The renderer\<close>

text \<open>\<open>gk_conn\<close>: the connection, by the target it was dialled to; without one every render is refused.\<close>

record gahaku_client =
  gk_conn :: "string option"
  gk_timeout :: int

definition gahaku_New :: "(string \<Rightarrow> bool) \<Rightarrow> gahaku_config \<Rightarrow> start_error + gahaku_client" where
  "gahaku_New dial cfg =
     (if gc_target cfg = [] then Inr \<lparr>gk_conn = None, gk_timeout = gc_timeout cfg\<rparr>
      else if \<not> dial (gc_target cfg) then Inl ErrGahakuDial
      else Inr \<lparr>gk_conn = Some (gc_target cfg), gk_timeout = gc_timeout cfg\<rparr>)"

text \<open>\<open>Close\<close>: the connection it closes.\<close>

definition gahaku_Close :: "gahaku_client \<Rightarrow> string option" where
  "gahaku_Close c = gk_conn c"

datatype proto_format = PROTO_PNG | PROTO_JPEG | PROTO_WEBP | PROTO_AVIF

fun Format_proto :: "Format \<Rightarrow> proto_format" where
  "Format_proto FormatPNG = PROTO_PNG"
| "Format_proto FormatJPEG = PROTO_JPEG"
| "Format_proto FormatWEBP = PROTO_WEBP"
| "Format_proto FormatAVIF = PROTO_AVIF"

lemma Format_proto_inj: "Format_proto a = Format_proto b \<longleftrightarrow> a = b"
  by (cases a; cases b) simp_all

section \<open>The object store\<close>

definition storage_store :: "storage_config \<Rightarrow> start_error + Store" where
  "storage_store cfg =
     (case NewStore \<lparr>oc_endpoint = sc_endpoint cfg, oc_bucket = sc_bucket cfg\<rparr> of
        Inl _ \<Rightarrow> Inl ErrObjstore
      | Inr st \<Rightarrow> Inr st)"

text \<open>
  The signer: bucket, key, content type and validity to a URL.  \<open>None\<close> is the store without a
  client, an error of its own.
\<close>

datatype presign_error = PresignNotConfigured | PresignFailed

definition PresignPut :: "(string \<Rightarrow> string \<Rightarrow> string option \<Rightarrow> int \<Rightarrow> string option) \<Rightarrow> Store \<Rightarrow>
    string \<Rightarrow> string \<Rightarrow> int \<Rightarrow> presign_error + string" where
  "PresignPut sign st key contentType expires =
     (if \<not> st_client st then Inl PresignNotConfigured
      else case sign (st_bucket st) key (if contentType \<noteq> [] then Some contentType else None) expires of
             None \<Rightarrow> Inl PresignFailed
           | Some url \<Rightarrow> Inr url)"

definition PresignGet :: "(string \<Rightarrow> string \<Rightarrow> int \<Rightarrow> string option) \<Rightarrow> Store \<Rightarrow>
    string \<Rightarrow> int \<Rightarrow> presign_error + string" where
  "PresignGet sign st key expires =
     (if \<not> st_client st then Inl PresignNotConfigured
      else case sign (st_bucket st) key expires of
             None \<Rightarrow> Inl PresignFailed
           | Some url \<Rightarrow> Inr url)"

definition Store_Bucket :: "Store \<Rightarrow> string" where
  "Store_Bucket st = st_bucket st"

section \<open>The watcher\<close>

datatype watch_target = DialTarget string | DialSocket string

definition daemon_target :: "string \<Rightarrow> string \<Rightarrow> watch_target" where
  "daemon_target target socketPath = (if target \<noteq> [] then DialTarget target else DialSocket socketPath)"

text \<open>\<open>DialDaemon\<close>: the connection, by what it was dialled to.\<close>

definition DialDaemon :: "(watch_target \<Rightarrow> bool) \<Rightarrow> string \<Rightarrow> string \<Rightarrow> start_error + watch_target" where
  "DialDaemon dial target socketPath =
     (let t = daemon_target target socketPath in if dial t then Inr t else Inl ErrWatcherDial)"

section \<open>The connection pool\<close>

text \<open>
  What pgx answers: the connection limit a database URL sets, or that it does not parse, and
  whether a pool can be made.
\<close>

record pool_env =
  pe_parse :: "string \<Rightarrow> int option"
  pe_connect :: bool

record pool =
  pl_max_conns :: int

definition openPool :: "pool_env \<Rightarrow> database_config \<Rightarrow> start_error + pool" where
  "openPool pe cfg =
     (case pe_parse pe (dc_url cfg) of
        None \<Rightarrow> Inl ErrDatabaseURL
      | Some n \<Rightarrow>
          if \<not> pe_connect pe then Inl ErrDatabaseConnect
          else Inr \<lparr>pl_max_conns = (if 0 < dc_max_conns cfg then dc_max_conns cfg else n)\<rparr>)"

end
