(* ===== verification/Service_Refs.thy ===== *)
theory Service_Refs
  imports Image_Spec Document_Queries
begin

text \<open>
  What every handler starts from (\<open>internal/service/service.go\<close>, \<open>internal/service/document.go\<close>):
  resolving a reference to a document's current content, and the messages built from the row.
  The JSON decoder is a parameter: it maps a metadata document to its fields, or fails.
\<close>

section \<open>The detail query\<close>

record GetDocumentRow =
  gd_id :: int
  gd_mountpoint_id :: int
  gd_path :: string
  gd_dev :: int
  gd_ino :: int
  gd_current_cv :: "int option"
  gd_deleted_at :: "int option"
  gd_first_seen_at :: int
  gd_updated_at :: int
  gd_root_path :: string
  gd_content_hash :: "string option"
  gd_size_bytes :: "int option"
  gd_content_first_seen_at :: "int option"
  gd_extraction_status :: "string option"
  gd_content_type :: "string option"
  gd_metadata :: "string option"
  gd_has_extracted_text :: bool
  gd_extraction_error :: "string option"
  gd_extracted_at :: "int option"

definition version_row :: "database \<Rightarrow> doc_row \<Rightarrow> cv_row option" where
  "version_row d r = (case d_current_cv r of None \<Rightarrow> None | Some v \<Rightarrow> List.find (\<lambda>c. cv_id c = v) (db_cvs d))"

definition extraction_of :: "database \<Rightarrow> doc_row \<Rightarrow> ex_row option" where
  "extraction_of d r = (case version_row d r of None \<Rightarrow> None
     | Some c \<Rightarrow> List.find (\<lambda>x. ex_cv_id x = cv_id c) (db_extracted d))"

definition detail_row :: "database \<Rightarrow> doc_row \<Rightarrow> mountpoint_row \<Rightarrow> GetDocumentRow" where
  "detail_row d r m =
     \<lparr>gd_id = d_id r, gd_mountpoint_id = d_mountpoint_id r, gd_path = d_path r, gd_dev = d_dev r,
      gd_ino = d_ino r, gd_current_cv = d_current_cv r, gd_deleted_at = d_deleted_at r,
      gd_first_seen_at = d_first_seen_at r, gd_updated_at = d_updated_at r,
      gd_root_path = m_root_path m,
      gd_content_hash = map_option cv_content_hash (version_row d r),
      gd_size_bytes = map_option cv_size_bytes (version_row d r),
      gd_content_first_seen_at = map_option cv_created_at (version_row d r),
      gd_extraction_status = map_option ex_status (extraction_of d r),
      gd_content_type = Option.bind (extraction_of d r) ex_content_type,
      gd_metadata = map_option ex_metadata (extraction_of d r),
      gd_has_extracted_text = (case extraction_of d r of None \<Rightarrow> False
        | Some x \<Rightarrow> ex_status x = status_succeeded \<and> ex_text x \<noteq> []),
      gd_extraction_error = Option.bind (extraction_of d r) ex_error,
      gd_extracted_at = Option.bind (extraction_of d r) ex_extracted_at\<rparr>"

definition q_GetDocument :: "int \<Rightarrow> GetDocumentRow sql" where
  "q_GetDocument did = select (\<lambda>d.
     case List.find (\<lambda>r. d_id r = did) (db_docs d) of
       None \<Rightarrow> Inl ErrNoRows
     | Some r \<Rightarrow> (case List.find (\<lambda>m. m_id m = d_mountpoint_id r) (db_mountpoints d) of
          None \<Rightarrow> Inl ErrNoRows
        | Some m \<Rightarrow> Inr (detail_row d r m)))"

section \<open>Resolving a reference\<close>

record DocumentRef =
  ref_document_id :: string
  ref_content_version_id :: string

text \<open>A handler answers a value or one of the API's error codes.\<close>

type_synonym 'a handler = "world \<Rightarrow> (code + 'a) \<times> world"

definition hbind :: "'a handler \<Rightarrow> ('a \<Rightarrow> 'b handler) \<Rightarrow> 'b handler" where
  "hbind h f w = (case h w of (Inl c, w') \<Rightarrow> (Inl c, w') | (Inr x, w') \<Rightarrow> f x w')"

definition hret :: "'a \<Rightarrow> 'a handler" where "hret x w = (Inr x, w)"
definition hfail :: "code \<Rightarrow> 'a handler" where "hfail c w = (Inl c, w)"

text \<open>A code or a value that needs no state.\<close>

definition hlift :: "code + 'a \<Rightarrow> 'a handler" where "hlift r w = (r, w)"

definition loadDocument :: "string \<Rightarrow> GetDocumentRow handler" where
  "loadDocument documentID w =
     (case ParseInt documentID of
        None \<Rightarrow> (Inl CodeNotFound, w)
      | Some i \<Rightarrow> (case stmt (q_GetDocument i) w of
            (Inl e, w') \<Rightarrow> (Inl (if e = ErrNoRows then CodeNotFound else CodeInternal), w')
          | (Inr row, w') \<Rightarrow> (Inr row, w')))"

definition current_content :: "DocumentRef \<Rightarrow> GetDocumentRow \<Rightarrow> code + GetDocumentRow" where
  "current_content r row =
     (case gd_content_hash row of
        None \<Rightarrow> Inl CodeFailedPrecondition
      | Some hash \<Rightarrow>
          if gd_deleted_at row \<noteq> None then Inl CodeFailedPrecondition
          else if hash \<noteq> ref_content_version_id r then Inl CodeFailedPrecondition
          else Inr row)"

definition resolveRef :: "DocumentRef \<Rightarrow> GetDocumentRow handler" where
  "resolveRef r =
     (if ref_document_id r = [] \<or> ref_content_version_id r = [] then hfail CodeInvalidArgument
      else hbind (loadDocument (ref_document_id r)) (\<lambda>row. hlift (current_content r row)))"

definition currentRef :: "GetDocumentRow \<Rightarrow> DocumentRef" where
  "currentRef row = \<lparr>ref_document_id = FormatInt (gd_id row),
     ref_content_version_id = (case gd_content_hash row of None \<Rightarrow> [] | Some h \<Rightarrow> h)\<rparr>"

section \<open>Presentation\<close>

definition relativePath :: "string \<Rightarrow> string \<Rightarrow> string" where
  "relativePath base absolute =
     (if absolute = base then path_base absolute
      else if has_prefix absolute (base @ ''/'') then drop (length base + 1) absolute
      else absolute)"

definition mediaTypeOf :: "string option \<Rightarrow> string" where
  "mediaTypeOf contentType = (case contentType of
      None \<Rightarrow> []
    | Some ct \<Rightarrow> (case str_index ct '';'' of
          Some i \<Rightarrow> trim_space (take i ct)
        | None \<Rightarrow> trim_space ct))"

text \<open>
  \<open>uint32(v)\<close> of a \<open>float64\<close> truncates; outside the range the result is what amd64 does, the
  low 32 bits of the \<open>int64\<close>, which is \<open>-2^63\<close> for a value that does not fit one.
\<close>

definition float_to_uint32 :: "rat \<Rightarrow> int" where
  "float_to_uint32 v = (if v \<ge> 9223372036854775808 then 0 else \<lfloor>v\<rfloor> mod 4294967296)"

definition firstNumber :: "json \<Rightarrow> int" where
  "firstNumber v =
     (case (case v of JArray [] \<Rightarrow> JOther | JArray (x # _) \<Rightarrow> x | _ \<Rightarrow> v) of
        JNumber n \<Rightarrow> if n < 1 then 0 else float_to_uint32 n
      | JString s \<Rightarrow> (case ParseUint32 (trim_space s) of None \<Rightarrow> 0 | Some n \<Rightarrow> n)
      | _ \<Rightarrow> 0)"

fun first_count :: "(string \<times> json) list \<Rightarrow> string list \<Rightarrow> int" where
  "first_count kvs [] = 0"
| "first_count kvs (k # ks) =
     (case map_of kvs k of
        None \<Rightarrow> first_count kvs ks
      | Some v \<Rightarrow> if firstNumber v > 0 then firstNumber v else first_count kvs ks)"

definition pageCountOf :: "json_fields \<Rightarrow> string option \<Rightarrow> string \<Rightarrow> int" where
  "pageCountOf decode metadata mediaType =
     (if has_prefix mediaType ''image/'' then 1
      else case metadata of
             None \<Rightarrow> 0
           | Some raw \<Rightarrow> if raw = [] then 0 else (case decode raw of
                 None \<Rightarrow> 0
               | Some kvs \<Rightarrow> first_count kvs [''xmpTPg:NPages'', ''meta:page-count'', ''Page-Count'']))"

section \<open>The document service\<close>

datatype ExtractionState = ES_UNSPECIFIED | ES_PENDING | ES_SUCCEEDED | ES_FAILED

definition extractionState :: "string option \<Rightarrow> ExtractionState" where
  "extractionState status = (case status of
      None \<Rightarrow> ES_UNSPECIFIED
    | Some s \<Rightarrow> if s = ''pending'' then ES_PENDING
               else if s = ''succeeded'' then ES_SUCCEEDED
               else if s = ''failed'' then ES_FAILED
               else ES_UNSPECIFIED)"

record ContentVersion =
  pv_id :: string
  pv_media_type :: string
  pv_page_count :: int
  pv_extraction_state :: ExtractionState
  pv_has_text :: bool
  pv_first_seen :: "int option"
  pv_size_bytes :: int
  pv_extraction_error :: string

definition contentVersionMessage :: "json_fields \<Rightarrow> string \<Rightarrow> GetDocumentRow \<Rightarrow> ContentVersion" where
  "contentVersionMessage decode hash row =
     (let mediaType = mediaTypeOf (gd_content_type row); state = extractionState (gd_extraction_status row) in
      \<lparr>pv_id = hash, pv_media_type = mediaType,
       pv_page_count = pageCountOf decode (gd_metadata row) mediaType,
       pv_extraction_state = state, pv_has_text = gd_has_extracted_text row,
       pv_first_seen = gd_content_first_seen_at row,
       pv_size_bytes = (case gd_size_bytes row of None \<Rightarrow> 0 | Some n \<Rightarrow> if n > 0 then n else 0),
       pv_extraction_error = (if state = ES_FAILED
         then (case gd_extraction_error row of None \<Rightarrow> [] | Some e \<Rightarrow> e) else [])\<rparr>)"

record DocumentMessage =
  pd_document_id :: string
  pd_mountpoint_id :: string
  pd_relative_path :: string
  pd_file_name :: string
  pd_deleted :: bool
  pd_discovered :: int
  pd_modified :: int
  pd_current_version :: "ContentVersion option"

definition documentMessage :: "json_fields \<Rightarrow> GetDocumentRow \<Rightarrow> DocumentMessage" where
  "documentMessage decode row =
     \<lparr>pd_document_id = FormatInt (gd_id row), pd_mountpoint_id = FormatInt (gd_mountpoint_id row),
      pd_relative_path = relativePath (gd_root_path row) (gd_path row),
      pd_file_name = path_base (gd_path row), pd_deleted = (gd_deleted_at row \<noteq> None),
      pd_discovered = gd_first_seen_at row, pd_modified = gd_updated_at row,
      pd_current_version = (case gd_content_hash row of
          None \<Rightarrow> None
        | Some hash \<Rightarrow> if gd_deleted_at row \<noteq> None then None
                      else Some (contentVersionMessage decode hash row))\<rparr>"

definition GetDocument :: "json_fields \<Rightarrow> string \<Rightarrow> DocumentMessage handler" where
  "GetDocument decode documentID =
     hbind (loadDocument documentID) (\<lambda>row. hret (documentMessage decode row))"

section \<open>Pages and sources\<close>

definition checkPage :: "json_fields \<Rightarrow> u32 \<Rightarrow> GetDocumentRow \<Rightarrow> code + unit" where
  "checkPage decode page row =
     (if page = 0 then Inl CodeInvalidArgument
      else let count = pageCountOf decode (gd_metadata row) (mediaTypeOf (gd_content_type row)) in
           if count > 0 \<and> uint page > count then Inl CodeOutOfRange else Inr ())"

definition sourcePath :: "GetDocumentRow \<Rightarrow> string handler" where
  "sourcePath row w =
     (case stmt (q_FindDocumentSourcePath (gd_id row) (gd_current_cv row)) w of
        (Inl e, w') \<Rightarrow> (Inl (if e = ErrNoRows then CodeFailedPrecondition else CodeInternal), w')
      | (Inr (path, _), w') \<Rightarrow> (Inr path, w'))"

section \<open>Facts\<close>

lemma resolveRef_Inr:
  assumes "resolveRef r w = (Inr row, w')"
  shows "\<exists>i. ParseInt (ref_document_id r) = Some i \<and> stmt (q_GetDocument i) w = (Inr row, w')"
    and "gd_content_hash row = Some (ref_content_version_id r)" "gd_deleted_at row = None"
  using assms
  by (auto simp: resolveRef_def hbind_def hfail_def hlift_def loadDocument_def current_content_def
      split: if_splits option.splits sum.splits prod.splits)

end
