(* ===== verification/Reconciler.thy ===== *)
theory Reconciler
  imports Tx_Invariants Doctype "HOL-Library.Word"
begin

text \<open>
  The reconciler (\<open>internal/ingest/reconciler.go\<close>): it applies the watcher's event stream
  to the observations and documents, one transaction per event, and rescans a root as one
  mark-and-sweep epoch.  The watcher is a daemon outside the repository: what its streams
  deliver is data of the model.  The fields of its messages keep their widths; \<open>int64(x)\<close>
  of a \<open>uint64\<close> is \<open>sint\<close>, of a \<open>uint32\<close> is \<open>uint\<close>.
\<close>

section \<open>The watcher's messages\<close>

record StatInfo =
  si_size :: "64 word"
  si_mode :: "32 word"
  si_ino :: "64 word"
  si_dev :: "64 word"
  si_mtime :: "int option"

datatype EventKind = EvCreate | EvModify | EvCloseWrite | EvAttrib | EvDelete | EvMove | EvOther

record FileEvent =
  ev_seq :: "64 word"
  ev_kind :: EventKind
  ev_path :: string
  ev_old_path :: string
  ev_is_dir :: bool
  ev_stat :: "StatInfo option"

text \<open>One path of a walk; what a scan stream delivers until its end, which is EOF.\<close>

type_synonym scanned = "string \<times> StatInfo option"

datatype scan_item = ScanBatch "scanned list" | ScanOther | ScanError

text \<open>The outcome of a \<open>Scan\<close> call on a root; \<open>None\<close> when the call itself fails.\<close>

type_synonym scans = "string \<Rightarrow> scan_item list option"

text \<open>What a subscription delivers until its end, which is EOF.\<close>

datatype stream_item =
    StreamEvent FileEvent
  | StreamGap "64 word option" scans   \<comment> \<open>the ring head \<open>Status\<close> then reports, and the scans\<close>
  | StreamOther
  | StreamCanceled
  | StreamError

record watch =
  wt_roots :: "string list option"     \<comment> \<open>\<open>Status\<close> as \<open>warnOnRootMismatch\<close> sees it\<close>
  wt_head :: "64 word option"          \<comment> \<open>\<open>Status\<close> as \<open>ringHead\<close> sees it\<close>
  wt_scans :: scans
  wt_stream :: "64 word \<Rightarrow> stream_item list option"   \<comment> \<open>\<open>Subscribe\<close> from a sequence number\<close>

section \<open>The reconciler\<close>

record Mountpoint =
  mp_id :: int
  mp_root :: string

record Reconciler =
  rc_enqueuer :: enqueuer
  rc_filter :: doc_filter
  rc_mountpoints :: "Mountpoint list"
  rc_backoff :: int

definition New :: "enqueuer \<Rightarrow> doc_filter \<Rightarrow> Mountpoint list \<Rightarrow> int \<Rightarrow> Reconciler" where
  "New enq flt mps backoff =
     \<lparr>rc_enqueuer = enq, rc_filter = flt, rc_mountpoints = mps,
      rc_backoff = (if backoff \<le> 0 then 1000000000 else backoff)\<rparr>"

definition roots :: "Reconciler \<Rightarrow> string list" where
  "roots r = map mp_root (rc_mountpoints r)"

text \<open>\<open>warnOnRootMismatch\<close>: the mountpoints it warns about.\<close>

definition covers :: "string \<Rightarrow> string \<Rightarrow> bool" where
  "covers root mp =
     (let clean = path_clean root in mp = clean \<or> has_prefix mp (subtree_prefix clean))"

definition warnOnRootMismatch :: "Reconciler \<Rightarrow> string list option \<Rightarrow> string list" where
  "warnOnRootMismatch r st =
     (case st of None \<Rightarrow> []
      | Some watched \<Rightarrow> filter (\<lambda>mp. \<not> list_ex (\<lambda>root. covers root mp) watched) (roots r))"

text \<open>A path is under a root when it is the root or lies beneath it.\<close>

definition contains :: "string \<Rightarrow> string \<Rightarrow> bool" where
  "contains root path \<longleftrightarrow> path = root \<or> has_prefix path (subtree_prefix root)"

fun deepest :: "string \<Rightarrow> Mountpoint list \<Rightarrow> Mountpoint option \<Rightarrow> Mountpoint option" where
  "deepest path [] best = best"
| "deepest path (mp # mps) best =
     (if \<not> contains (mp_root mp) path then deepest path mps best
      else case best of
             None \<Rightarrow> deepest path mps (Some mp)
           | Some b \<Rightarrow> if length (mp_root mp) > length (mp_root b)
                then deepest path mps (Some mp) else deepest path mps best)"

definition mountpointFor :: "Reconciler \<Rightarrow> string \<Rightarrow> Mountpoint option" where
  "mountpointFor r path = deepest path (rc_mountpoints r) None"

section \<open>Observations\<close>

definition observationOf :: "int \<Rightarrow> string \<Rightarrow> StatInfo option \<Rightarrow> bool \<Rightarrow> int \<Rightarrow> Observation" where
  "observationOf mp path stat isDir epoch =
     (case stat of
        None \<Rightarrow> \<lparr>ob_mp = mp, ob_path = path, ob_size = 0, ob_mode = 0, ob_mtime = zero_time,
                 ob_ino = 0, ob_dev = 0, ob_is_dir = isDir, ob_seen_epoch = epoch\<rparr>
      | Some s \<Rightarrow> \<lparr>ob_mp = mp, ob_path = path, ob_size = sint (si_size s), ob_mode = uint (si_mode s),
                 ob_mtime = (case si_mtime s of None \<Rightarrow> zero_time | Some t \<Rightarrow> t),
                 ob_ino = sint (si_ino s), ob_dev = sint (si_dev s), ob_is_dir = isDir,
                 ob_seen_epoch = epoch\<rparr>)"

definition statDev :: "StatInfo option \<Rightarrow> int" where
  "statDev stat = (case stat of None \<Rightarrow> 0 | Some s \<Rightarrow> sint (si_dev s))"

definition statIno :: "StatInfo option \<Rightarrow> int" where
  "statIno stat = (case stat of None \<Rightarrow> 0 | Some s \<Rightarrow> sint (si_ino s))"

section \<open>Thumbnail invalidation\<close>

definition invalidate :: "Reconciler \<Rightarrow> Document \<Rightarrow> unit m" where
  "invalidate r doc =
     (if doc_cv doc = 0 then ret ()
      else tx_EnqueueInvalidateThumbnails (rc_enqueuer r) (doc_id doc) (doc_cv doc))"

definition invalidateAll :: "Reconciler \<Rightarrow> Document list \<Rightarrow> unit m" where
  "invalidateAll r docs = for_each docs (invalidate r)"

section \<open>Applying one event\<close>

definition observeOnly :: "Reconciler \<Rightarrow> string \<Rightarrow> StatInfo option \<Rightarrow> bool \<Rightarrow> unit m" where
  "observeOnly r path stat isDir =
     (case mountpointFor r path of
        None \<Rightarrow> ret ()
      | Some mp \<Rightarrow> tx_UpsertObservation (observationOf (mp_id mp) path stat isDir 0))"

definition observe :: "Reconciler \<Rightarrow> string \<Rightarrow> StatInfo option \<Rightarrow> bool \<Rightarrow> Trigger \<Rightarrow> unit m" where
  "observe r path stat isDir trigger =
     (case mountpointFor r path of
        None \<Rightarrow> ret ()
      | Some mp \<Rightarrow> andThen (observeOnly r path stat isDir)
          (if isDir \<or> \<not> AllowPath (rc_filter r) path then ret ()
           else tx_EnqueueIngestPath (rc_enqueuer r) (mp_id mp) path trigger))"

definition applyDelete :: "Reconciler \<Rightarrow> string \<Rightarrow> bool \<Rightarrow> unit m" where
  "applyDelete r path isDir =
     (case mountpointFor r path of
        None \<Rightarrow> ret ()
      | Some mp \<Rightarrow> andThen (tx_DeleteObservation (mp_id mp) path)
          (if isDir then
             andThen (tx_DeleteObservationSubtree (mp_id mp) (subtree_prefix path))
             (bind (tx_TombstoneDocumentSubtree (mp_id mp) (subtree_prefix path)) (invalidateAll r))
           else bind (tx_TombstoneDocumentByPath (mp_id mp) path)
             (\<lambda>doc. case doc of None \<Rightarrow> ret () | Some doc \<Rightarrow> invalidate r doc)))"

text \<open>The target of a rename is destroyed by it, unless it is the document that moves.\<close>

definition retireTarget :: "Reconciler \<Rightarrow> int \<Rightarrow> string \<Rightarrow> Document \<Rightarrow> unit m" where
  "retireTarget r mp newPath moved =
     bind (tx_FindLiveDocumentByPath mp newPath) (\<lambda>existing. case existing of
       None \<Rightarrow> ret ()
     | Some existing \<Rightarrow>
         if doc_id existing \<noteq> doc_id moved
         then andThen (tx_TombstoneDocument (doc_id existing)) (invalidate r existing)
         else ret ())"

definition moveFile :: "Reconciler \<Rightarrow> int \<Rightarrow> string \<Rightarrow> string \<Rightarrow> StatInfo option \<Rightarrow> unit m" where
  "moveFile r mp oldPath newPath stat =
     andThen (tx_DeleteObservation mp oldPath)
     (andThen (tx_UpsertObservation (observationOf mp newPath stat False 0))
     (bind (tx_FindLiveDocumentByPath mp oldPath) (\<lambda>moved. case moved of
        None \<Rightarrow> (if \<not> AllowPath (rc_filter r) newPath then ret ()
                 else tx_EnqueueIngestPath (rc_enqueuer r) mp newPath Settled)
      | Some moved \<Rightarrow>
          andThen (retireTarget r mp newPath moved)
          (if \<not> AllowPath (rc_filter r) newPath
           then andThen (tx_TombstoneDocument (doc_id moved)) (invalidate r moved)
           else andThen (tx_MoveDocument (doc_id moved) newPath (statDev stat) (statIno stat))
                (tx_EnqueueIngestPath (rc_enqueuer r) mp newPath Settled)))))"

definition moveDirectory :: "Reconciler \<Rightarrow> int \<Rightarrow> string \<Rightarrow> string \<Rightarrow> StatInfo option \<Rightarrow> unit m" where
  "moveDirectory r mp oldPath newPath stat =
     (let oldPrefix = subtree_prefix oldPath; newPrefix = subtree_prefix newPath in
      andThen (tx_DeleteObservation mp newPath)
      (andThen (tx_DeleteObservationSubtree mp newPrefix)
      (bind (tx_TombstoneDocumentSubtree mp newPrefix) (\<lambda>replaced.
       andThen (invalidateAll r replaced)
      (andThen (tx_MoveObservationSubtree mp oldPrefix newPrefix)
      (andThen (tx_DeleteObservation mp oldPath)
      (andThen (tx_UpsertObservation (observationOf mp newPath stat True 0))
      (bind (tx_MoveDocumentSubtree mp oldPrefix newPrefix) (\<lambda>_. ret ())))))))))"

definition applyMove :: "Reconciler \<Rightarrow> FileEvent \<Rightarrow> unit m" where
  "applyMove r ev =
     (let oldPath = ev_old_path ev; newPath = ev_path ev in
      case (mountpointFor r oldPath, mountpointFor r newPath) of
        (Some _, None) \<Rightarrow> applyDelete r oldPath (ev_is_dir ev)
      | (None, Some _) \<Rightarrow> observe r newPath (ev_stat ev) (ev_is_dir ev) Settled
      | (None, None) \<Rightarrow> ret ()
      | (Some oldMP, Some newMP) \<Rightarrow>
          if mp_id oldMP \<noteq> mp_id newMP
          then andThen (applyDelete r oldPath (ev_is_dir ev))
                 (observe r newPath (ev_stat ev) (ev_is_dir ev) Settled)
          else if ev_is_dir ev then moveDirectory r (mp_id newMP) oldPath newPath (ev_stat ev)
          else moveFile r (mp_id newMP) oldPath newPath (ev_stat ev))"

definition applyKind :: "Reconciler \<Rightarrow> FileEvent \<Rightarrow> unit m" where
  "applyKind r ev =
     (case ev_kind ev of
        EvCreate \<Rightarrow> observe r (ev_path ev) (ev_stat ev) (ev_is_dir ev) Debounced
      | EvModify \<Rightarrow> observe r (ev_path ev) (ev_stat ev) (ev_is_dir ev) Debounced
      | EvCloseWrite \<Rightarrow> observe r (ev_path ev) (ev_stat ev) (ev_is_dir ev) Settled
      | EvAttrib \<Rightarrow> observeOnly r (ev_path ev) (ev_stat ev) (ev_is_dir ev)
      | EvDelete \<Rightarrow> applyDelete r (ev_path ev) (ev_is_dir ev)
      | EvMove \<Rightarrow> applyMove r ev
      | EvOther \<Rightarrow> ret ())"

definition event_seq :: "FileEvent \<Rightarrow> int" where
  "event_seq ev = sint (ev_seq ev)"

definition ApplyEvent :: "Reconciler \<Rightarrow> FileEvent \<Rightarrow> unit m" where
  "ApplyEvent r ev = InTx (bind tx_Watermark (\<lambda>watermark.
     if event_seq ev \<le> watermark then ret ()
     else andThen (applyKind r ev) (tx_SetWatermark (event_seq ev))))"

section \<open>Rescanning\<close>

text \<open>The type bit of \<open>fs.ModeDir\<close>.\<close>

definition is_mode_dir :: "int \<Rightarrow> bool" where
  "is_mode_dir mode = bit mode 31"

definition scannedObservation :: "int \<Rightarrow> scanned \<Rightarrow> int \<Rightarrow> Observation" where
  "scannedObservation mp ob epoch =
     (let next = observationOf mp (fst ob) (snd ob) False epoch
      in next\<lparr>ob_is_dir := is_mode_dir (ob_mode next)\<rparr>)"

definition scan_changed :: "Observation option \<Rightarrow> Observation \<Rightarrow> bool" where
  "scan_changed prior next =
     (case prior of None \<Rightarrow> True
      | Some p \<Rightarrow> ob_size p \<noteq> ob_size next \<or> ob_mtime p \<noteq> ob_mtime next)"

definition observeScanned :: "Reconciler \<Rightarrow> scanned \<Rightarrow> int \<Rightarrow> bool m" where
  "observeScanned r ob epoch =
     (case mountpointFor r (fst ob) of
        None \<Rightarrow> ret False
      | Some mp \<Rightarrow>
          (let path = fst ob; next = scannedObservation (mp_id mp) ob epoch;
               queue = andThen (tx_EnqueueIngestPath (rc_enqueuer r) (mp_id mp) path Settled) (ret True)
           in bind (tx_GetObservation (mp_id mp) path) (\<lambda>prior.
              andThen (tx_UpsertObservation next)
              (if ob_is_dir next \<or> \<not> AllowPath (rc_filter r) path then ret False
               else if scan_changed prior next then queue
               else bind (tx_FindLiveDocumentByPath (mp_id mp) path) (\<lambda>doc.
                 if doc \<noteq> None then ret False else queue)))))"

fun observe_batch :: "Reconciler \<Rightarrow> int \<Rightarrow> scanned list \<Rightarrow> nat \<times> nat \<Rightarrow> (nat \<times> nat) m" where
  "observe_batch r epoch [] counts = ret counts"
| "observe_batch r epoch (ob # obs) (seen, queued) =
     bind (observeScanned r ob epoch) (\<lambda>enqueued.
       observe_batch r epoch obs (Suc seen, if enqueued then Suc queued else queued))"

fun scan_loop :: "Reconciler \<Rightarrow> int \<Rightarrow> scan_item list \<Rightarrow> nat \<times> nat \<Rightarrow> (nat \<times> nat) m" where
  "scan_loop r epoch [] counts = ret counts"
| "scan_loop r epoch (ScanError # items) counts = fail ErrRecv"
| "scan_loop r epoch (ScanOther # items) counts = scan_loop r epoch items counts"
| "scan_loop r epoch (ScanBatch obs # items) counts =
     bind (observe_batch r epoch obs counts) (scan_loop r epoch items)"

definition tombstone_gone :: "Reconciler \<Rightarrow> int \<Rightarrow> string \<Rightarrow> unit m" where
  "tombstone_gone r mp path =
     bind (tx_TombstoneDocumentByPath mp path) (\<lambda>doc.
       case doc of None \<Rightarrow> ret () | Some doc \<Rightarrow> invalidate r doc)"

text \<open>The three counts are what the log line reports.\<close>

definition reconcileRoot :: "Reconciler \<Rightarrow> scans \<Rightarrow> Mountpoint \<Rightarrow> (nat \<times> nat \<times> nat) m" where
  "reconcileRoot r scans mp =
     (case scans (mp_root mp) of
        None \<Rightarrow> fail ErrScan
      | Some items \<Rightarrow> InTx (bind tx_NextScanEpoch (\<lambda>epoch.
          bind (scan_loop r epoch items (0, 0)) (\<lambda>(seen, queued).
          bind (tx_SweepScanEpoch (mp_id mp) (mp_root mp) epoch) (\<lambda>gone.
          andThen (for_each gone (tombstone_gone r (mp_id mp)))
            (ret (seen, queued, length gone)))))))"

definition reconcileAll :: "Reconciler \<Rightarrow> scans \<Rightarrow> int \<Rightarrow> unit m" where
  "reconcileAll r scans head =
     andThen (for_each (rc_mountpoints r) (\<lambda>mp. bind (reconcileRoot r scans mp) (\<lambda>_. ret ())))
       (InTx (tx_SetWatermark head))"

definition ringHead :: "64 word option \<Rightarrow> int m" where
  "ringHead head = (case head of None \<Rightarrow> fail ErrStatus | Some h \<Rightarrow> ret (sint h))"

section \<open>Following the stream\<close>

fun drive :: "Reconciler \<Rightarrow> stream_item list \<Rightarrow> unit m" where
  "drive r [] = ret ()"
| "drive r (StreamError # items) = fail ErrRecv"
| "drive r (StreamCanceled # items) = ret ()"
| "drive r (StreamOther # items) = drive r items"
| "drive r (StreamEvent ev # items) = andThen (ApplyEvent r ev) (drive r items)"
| "drive r (StreamGap head scans # items) =
     andThen (bind (ringHead head) (reconcileAll r scans)) (drive r items)"

definition subscribe :: "Reconciler \<Rightarrow> watch \<Rightarrow> int \<Rightarrow> unit m" where
  "subscribe r wt watermark =
     (case wt_stream wt (of_int watermark + 1) of
        None \<Rightarrow> fail ErrSubscribe | Some items \<Rightarrow> drive r items)"

definition runOnce :: "Reconciler \<Rightarrow> watch \<Rightarrow> unit m" where
  "runOnce r wt =
     bind (InTx tx_Watermark) (\<lambda>watermark.
       if watermark = 0
       then bind (ringHead (wt_head wt)) (\<lambda>head.
              andThen (reconcileAll r (wt_scans wt) head) (subscribe r wt head))
       else subscribe r wt watermark)"

text \<open>
  \<open>Run\<close> retries until its context is cancelled; the list holds what the watcher does in
  each attempt before that.
\<close>

fun run_loop :: "Reconciler \<Rightarrow> watch list \<Rightarrow> unit m" where
  "run_loop r [] = ret ()"
| "run_loop r (wt # wts) = bind (try_m (runOnce r wt)) (\<lambda>_. run_loop r wts)"

definition Run_reconciler :: "Reconciler \<Rightarrow> watch list \<Rightarrow> unit m" where
  "Run_reconciler r wts = (if rc_mountpoints r = [] then fail ErrNoMountpoints else run_loop r wts)"

end
