(* ===== verification/Reconciler_Contract.thy ===== *)
theory Reconciler_Contract
  imports Reconciler
begin

text \<open>
  The reconciler against the contract of \<open>Tx\<close>: whatever invariant the statements keep,
  every entry point of the reconciler keeps, for every event, every stream and every script
  of faults and concurrent commits.
\<close>

section \<open>Confinement and faithfulness\<close>

lemma confined_invalidate [keeps_intros]: "confined (invalidate r doc)"
  unfolding invalidate_def by (intro keeps_intros)

lemma confined_observeOnly [keeps_intros]: "confined (observeOnly r path stat isDir)"
  unfolding observeOnly_def by (intro keeps_intros)

lemma confined_observe [keeps_intros]: "confined (observe r path stat isDir t)"
  unfolding observe_def by (intro keeps_intros)

lemma confined_applyDelete [keeps_intros]: "confined (applyDelete r path isDir)"
  unfolding applyDelete_def invalidateAll_def by (intro keeps_intros)

lemma confined_moves [keeps_intros]:
  "confined (moveFile r mp old new stat)" "confined (moveDirectory r mp old new stat)"
  unfolding moveFile_def retireTarget_def moveDirectory_def invalidateAll_def by (intro keeps_intros)+

lemma confined_applyMove [keeps_intros]: "confined (applyMove r ev)"
  unfolding applyMove_def by (intro keeps_intros)

lemma confined_applyKind [keeps_intros]: "confined (applyKind r ev)"
  unfolding applyKind_def by (cases "ev_kind ev") (auto intro: keeps_intros)

lemma confined_observeScanned [keeps_intros]: "confined (observeScanned r ob epoch)"
  unfolding observeScanned_def Let_def by (intro keeps_intros)

lemma confined_observe_batch [keeps_intros]: "confined (observe_batch r epoch obs counts)"
  by (induction r epoch obs counts rule: observe_batch.induct) (auto intro!: keeps_intros)

lemma confined_scan_loop [keeps_intros]: "confined (scan_loop r epoch items counts)"
  by (induction r epoch items counts rule: scan_loop.induct) (auto intro!: keeps_intros)

lemma confined_tombstone_gone [keeps_intros]: "confined (tombstone_gone r mp path)"
  unfolding tombstone_gone_def by (intro keeps_intros)

lemma faithful_invalidate [keeps_intros]: "faithful (invalidate r doc)"
  unfolding invalidate_def by (intro keeps_intros)

lemma faithful_observeOnly [keeps_intros]: "faithful (observeOnly r path stat isDir)"
  unfolding observeOnly_def by (intro keeps_intros)

lemma faithful_observe [keeps_intros]: "faithful (observe r path stat isDir t)"
  unfolding observe_def by (intro keeps_intros)

lemma faithful_applyDelete [keeps_intros]: "faithful (applyDelete r path isDir)"
  unfolding applyDelete_def invalidateAll_def by (intro keeps_intros)

lemma faithful_moves [keeps_intros]:
  "faithful (moveFile r mp old new stat)" "faithful (moveDirectory r mp old new stat)"
  unfolding moveFile_def retireTarget_def moveDirectory_def invalidateAll_def by (intro keeps_intros)+

lemma faithful_applyMove [keeps_intros]: "faithful (applyMove r ev)"
  unfolding applyMove_def by (intro keeps_intros)

lemma faithful_applyKind [keeps_intros]: "faithful (applyKind r ev)"
  unfolding applyKind_def by (cases "ev_kind ev") (auto intro: keeps_intros)

lemma faithful_ApplyEvent [keeps_intros]: "faithful (ApplyEvent r ev)"
  unfolding ApplyEvent_def by (intro keeps_intros)

lemma faithful_observeScanned [keeps_intros]: "faithful (observeScanned r ob epoch)"
  unfolding observeScanned_def Let_def by (intro keeps_intros)

lemma faithful_observe_batch [keeps_intros]: "faithful (observe_batch r epoch obs counts)"
  by (induction r epoch obs counts rule: observe_batch.induct) (auto intro!: keeps_intros)

lemma faithful_scan_loop [keeps_intros]: "faithful (scan_loop r epoch items counts)"
  by (induction r epoch items counts rule: scan_loop.induct) (auto intro!: keeps_intros)

lemma faithful_tombstone_gone [keeps_intros]: "faithful (tombstone_gone r mp path)"
  unfolding tombstone_gone_def by (intro keeps_intros)

lemma faithful_reconcileRoot [keeps_intros]: "faithful (reconcileRoot r scans mp)"
  unfolding reconcileRoot_def by (intro keeps_intros)

lemma faithful_reconcileAll [keeps_intros]: "faithful (reconcileAll r scans head)"
  unfolding reconcileAll_def by (intro keeps_intros)

section \<open>Every entry point keeps what the statements keep\<close>

context scan_invariant
begin

lemma keeps_invalidate [keeps_intros]: "keeps I e (invalidate r doc)"
  unfolding invalidate_def by (intro keeps_intros)

lemma keeps_observation [keeps_intros]:
  "0 \<le> e \<Longrightarrow> keeps I e (tx_UpsertObservation (observationOf mp path stat isDir 0))"
  by (rule keeps_tx_UpsertObservation) (simp add: observationOf_def split: option.splits)

lemma keeps_observeOnly [keeps_intros]: "0 \<le> e \<Longrightarrow> keeps I e (observeOnly r path stat isDir)"
  unfolding observeOnly_def by (intro keeps_intros)

lemma keeps_observe [keeps_intros]: "0 \<le> e \<Longrightarrow> keeps I e (observe r path stat isDir t)"
  unfolding observe_def by (intro keeps_intros)

lemma keeps_applyDelete [keeps_intros]: "keeps I e (applyDelete r path isDir)"
  unfolding applyDelete_def invalidateAll_def by (intro keeps_intros)

lemma keeps_moveFile [keeps_intros]: "0 \<le> e \<Longrightarrow> keeps I e (moveFile r mp old new stat)"
  unfolding moveFile_def retireTarget_def by (intro keeps_intros)

lemma keeps_moveDirectory [keeps_intros]:
  "0 \<le> e \<Longrightarrow> keeps I e (moveDirectory r mp old new stat)"
  unfolding moveDirectory_def invalidateAll_def Let_def by (intro keeps_intros)

lemma keeps_applyMove [keeps_intros]: "0 \<le> e \<Longrightarrow> keeps I e (applyMove r ev)"
  unfolding applyMove_def by (intro keeps_intros)

lemma keeps_applyKind [keeps_intros]: "0 \<le> e \<Longrightarrow> keeps I e (applyKind r ev)"
  unfolding applyKind_def by (cases "ev_kind ev") (auto intro: keeps_intros)

lemma keeps_scanned [keeps_intros]:
  "epoch \<le> e \<Longrightarrow> keeps I e (tx_UpsertObservation (scannedObservation mp ob epoch))"
  by (rule keeps_tx_UpsertObservation)
    (simp add: scannedObservation_def observationOf_def Let_def split: option.splits)

lemma keeps_observeScanned [keeps_intros]: "epoch \<le> e \<Longrightarrow> keeps I e (observeScanned r ob epoch)"
  unfolding observeScanned_def Let_def by (intro keeps_intros)

lemma keeps_observe_batch [keeps_intros]: "epoch \<le> e \<Longrightarrow> keeps I e (observe_batch r epoch obs counts)"
  by (induction r epoch obs counts rule: observe_batch.induct) (auto intro!: keeps_intros)

lemma keeps_scan_loop [keeps_intros]: "epoch \<le> e \<Longrightarrow> keeps I e (scan_loop r epoch items counts)"
  by (induction r epoch items counts rule: scan_loop.induct) (auto intro!: keeps_intros)

lemma keeps_tombstone_gone [keeps_intros]: "keeps I e (tombstone_gone r mp path)"
  unfolding tombstone_gone_def by (intro keeps_intros)

lemma keeps_reconcileRoot [keeps_intros]: "keeps I e (reconcileRoot r scans mp)"
  unfolding reconcileRoot_def
  by (intro keeps_intros keeps_epoch) simp

lemma keeps_ringHead [keeps_intros]: "keeps I e (ringHead head)"
  unfolding ringHead_def by (intro keeps_intros)

end

context tx_invariant
begin

lemma keeps_ApplyEvent [keeps_intros]: "0 \<le> e \<Longrightarrow> keeps I e (ApplyEvent r ev)"
  unfolding ApplyEvent_def by (intro keeps_intros)

lemma keeps_reconcileAll [keeps_intros]: "keeps I e (reconcileAll r scans head)"
  unfolding reconcileAll_def by (intro keeps_intros)

lemma keeps_drive [keeps_intros]: "0 \<le> e \<Longrightarrow> keeps I e (drive r items)"
  by (induction r items rule: drive.induct) (auto intro!: keeps_intros)

lemma keeps_runOnce [keeps_intros]: "0 \<le> e \<Longrightarrow> keeps I e (runOnce r wt)"
  unfolding runOnce_def subscribe_def by (intro keeps_intros)

lemma keeps_run_loop [keeps_intros]: "0 \<le> e \<Longrightarrow> keeps I e (run_loop r wts)"
  by (induction wts) (auto intro!: keeps_intros)

lemma keeps_Run [keeps_intros]: "0 \<le> e \<Longrightarrow> keeps I e (Run_reconciler r wts)"
  unfolding Run_reconciler_def by (intro keeps_intros)

end

end
