(* ===== verification/Tx_Run.thy ===== *)
theory Tx_Run
  imports Tx_Contract
begin

text \<open>
  The methods of \<open>Tx\<close> as equations in the quiet world: what each does to the database when
  nothing disturbs it.  \<open>faithful\<close> carries what is proved from them to every run that no
  connection fault ends.
\<close>

named_theorems tx_run "what the methods of Tx do in the quiet world"

lemma world_same [simp]: "w\<lparr>w_db := w_db w, w_seqs := w_seqs w\<rparr> = w" "w\<lparr>w_db := w_db w\<rparr> = w"
  "w\<lparr>w_seqs := w_seqs w\<rparr> = (w::world)"
  by simp_all

lemma seqs_same [simp]: "w\<lparr>w_db := d, w_seqs := w_seqs w\<rparr> = w\<lparr>w_db := d\<rparr>"
  by (cases w) simp

lemma or_missing_run:
  "quiet w \<Longrightarrow> or_missing (stmt f) w = (case f (w_db w) (w_seqs w) of
     (Inl e, d, q) \<Rightarrow> (if e = ErrNoRows then Inr None else Inl e, w\<lparr>w_db := d, w_seqs := q\<rparr>)
   | (Inr x, d, q) \<Rightarrow> (Inr (Some x), w\<lparr>w_db := d, w_seqs := q\<rparr>))"
  by (auto simp: or_missing_def bind_def try_m_def ret_def fail_def stmt_quiet exec_sql_def
      split: prod.splits sum.splits)

lemma documentOrMissing_run:
  "quiet w \<Longrightarrow> documentOrMissing (stmt f) w = (case f (w_db w) (w_seqs w) of
     (Inl e, d, q) \<Rightarrow> (if e = ErrNoRows then Inr None else Inl e, w\<lparr>w_db := d, w_seqs := q\<rparr>)
   | (Inr x, d, q) \<Rightarrow> (Inr (Some (toDocument x)), w\<lparr>w_db := d, w_seqs := q\<rparr>))"
  by (auto simp: documentOrMissing_def bind_def ret_def or_missing_run split: prod.splits sum.splits)

text \<open>The database after a statement, table by table.\<close>

definition put_obs :: "world \<Rightarrow> obs_row list \<Rightarrow> world" where
  "put_obs w rows = w\<lparr>w_db := (w_db w)\<lparr>db_obs := rows\<rparr>\<rparr>"

definition put_docs :: "world \<Rightarrow> doc_row list \<Rightarrow> world" where
  "put_docs w rows = w\<lparr>w_db := (w_db w)\<lparr>db_docs := rows\<rparr>\<rparr>"

definition put_jobs :: "world \<Rightarrow> job_insert list \<Rightarrow> world" where
  "put_jobs w js = w\<lparr>w_db := (w_db w)\<lparr>db_outbox := db_outbox (w_db w) @ js\<rparr>\<rparr>"

definition put_watermark :: "world \<Rightarrow> int \<Rightarrow> world" where
  "put_watermark w seq = w\<lparr>w_db := (w_db w)\<lparr>db_watermark := map_option (\<lambda>v. max v seq) (db_watermark (w_db w))\<rparr>\<rparr>"

lemma put_simps [simp]:
  "quiet (put_obs w rows) = quiet w" "quiet (put_docs w ds) = quiet w" "quiet (put_jobs w js) = quiet w"
  "quiet (put_watermark w seq) = quiet w"
  "w_seqs (put_obs w rows) = w_seqs w" "w_seqs (put_docs w ds) = w_seqs w"
  "w_seqs (put_jobs w js) = w_seqs w" "w_seqs (put_watermark w seq) = w_seqs w"
  "w_clock (put_obs w rows) = w_clock w" "w_clock (put_docs w ds) = w_clock w"
  "w_clock (put_jobs w js) = w_clock w" "w_clock (put_watermark w seq) = w_clock w"
  "w_script (put_obs w rows) = w_script w" "w_script (put_docs w ds) = w_script w"
  "w_script (put_jobs w js) = w_script w" "w_script (put_watermark w seq) = w_script w"
  "w_base (put_obs w rows) = w_base w" "w_base (put_docs w ds) = w_base w"
  "w_base (put_jobs w js) = w_base w" "w_base (put_watermark w seq) = w_base w"
  by (simp_all add: put_obs_def put_docs_def put_jobs_def put_watermark_def)

lemma put_tables [simp]:
  "db_obs (w_db (put_obs w rows)) = rows" "db_obs (w_db (put_docs w ds)) = db_obs (w_db w)"
  "db_obs (w_db (put_jobs w js)) = db_obs (w_db w)" "db_obs (w_db (put_watermark w seq)) = db_obs (w_db w)"
  "db_docs (w_db (put_obs w rows)) = db_docs (w_db w)" "db_docs (w_db (put_docs w ds)) = ds"
  "db_docs (w_db (put_jobs w js)) = db_docs (w_db w)" "db_docs (w_db (put_watermark w seq)) = db_docs (w_db w)"
  "db_outbox (w_db (put_obs w rows)) = db_outbox (w_db w)" "db_outbox (w_db (put_docs w ds)) = db_outbox (w_db w)"
  "db_outbox (w_db (put_jobs w js)) = db_outbox (w_db w) @ js"
  "db_outbox (w_db (put_watermark w seq)) = db_outbox (w_db w)"
  "db_now (w_db (put_obs w rows)) = db_now (w_db w)" "db_now (w_db (put_docs w ds)) = db_now (w_db w)"
  "db_now (w_db (put_jobs w js)) = db_now (w_db w)" "db_now (w_db (put_watermark w seq)) = db_now (w_db w)"
  "db_mountpoints (w_db (put_obs w rows)) = db_mountpoints (w_db w)"
  "db_mountpoints (w_db (put_docs w ds)) = db_mountpoints (w_db w)"
  "db_mountpoints (w_db (put_jobs w js)) = db_mountpoints (w_db w)"
  "db_mountpoints (w_db (put_watermark w seq)) = db_mountpoints (w_db w)"
  "db_cvs (w_db (put_obs w rows)) = db_cvs (w_db w)" "db_cvs (w_db (put_docs w ds)) = db_cvs (w_db w)"
  "db_cvs (w_db (put_jobs w js)) = db_cvs (w_db w)" "db_cvs (w_db (put_watermark w seq)) = db_cvs (w_db w)"
  "db_watermark (w_db (put_obs w rows)) = db_watermark (w_db w)"
  "db_watermark (w_db (put_docs w ds)) = db_watermark (w_db w)"
  "db_watermark (w_db (put_jobs w js)) = db_watermark (w_db w)"
  "db_watermark (w_db (put_watermark w seq)) = map_option (\<lambda>v. max v seq) (db_watermark (w_db w))"
  "db_extracted (w_db (put_obs w rows)) = db_extracted (w_db w)"
  "db_extracted (w_db (put_docs w ds)) = db_extracted (w_db w)"
  "db_extracted (w_db (put_jobs w js)) = db_extracted (w_db w)"
  "db_extracted (w_db (put_watermark w seq)) = db_extracted (w_db w)"
  "db_thumbs (w_db (put_obs w rows)) = db_thumbs (w_db w)"
  "db_thumbs (w_db (put_docs w ds)) = db_thumbs (w_db w)"
  "db_thumbs (w_db (put_jobs w js)) = db_thumbs (w_db w)"
  "db_thumbs (w_db (put_watermark w seq)) = db_thumbs (w_db w)"
  by (simp_all add: put_obs_def put_docs_def put_jobs_def put_watermark_def)

lemma put_jobs_append [simp]: "put_jobs (put_jobs w js) ks = put_jobs w (js @ ks)"
  by (simp add: put_jobs_def)

lemma put_jobs_Nil [simp]: "put_jobs w [] = w"
  by (simp add: put_jobs_def)

lemma put_obs_put_obs [simp]: "put_obs (put_obs w a) b = put_obs w b"
  by (simp add: put_obs_def)

lemma put_docs_put_docs [simp]: "put_docs (put_docs w a) b = put_docs w b"
  by (simp add: put_docs_def)

section \<open>Equations\<close>

lemma Watermark_run [tx_run]:
  "quiet w \<Longrightarrow> tx_Watermark w = (Inr (case db_watermark (w_db w) of None \<Rightarrow> 0 | Some v \<Rightarrow> v), w)"
  by (simp add: tx_Watermark_def bind_def ret_def or_missing_run q_LockWatermark_def select_def
      split: option.splits)

lemma SetWatermark_run [tx_run]:
  "quiet w \<Longrightarrow> tx_SetWatermark seq w = (Inr (), put_watermark w seq)"
  by (simp add: tx_SetWatermark_def stmt_quiet exec_sql_def q_SetWatermark_def put_watermark_def)

lemma DeleteObservation_run [tx_run]:
  "quiet w \<Longrightarrow> tx_DeleteObservation mp path w =
     (Inr (), put_obs w (filter (\<lambda>r. obs_key r \<noteq> (mp, path)) (db_obs (w_db w))))"
  by (simp add: tx_DeleteObservation_def stmt_quiet exec_sql_def q_DeleteObservation_def put_obs_def)

lemma DeleteObservationSubtree_run [tx_run]:
  "quiet w \<Longrightarrow> tx_DeleteObservationSubtree mp pre w =
     (Inr (), put_obs w (filter (\<lambda>r. \<not> obs_under mp pre r) (db_obs (w_db w))))"
  by (simp add: tx_DeleteObservationSubtree_def bind_def ret_def stmt_quiet exec_sql_def
      q_DeleteObservationSubtree_def put_obs_def)

lemma UpsertObservation_run [tx_run]:
  "quiet w \<Longrightarrow> ob_mp ob \<in> m_id ` set (db_mountpoints (w_db w)) \<Longrightarrow> tx_UpsertObservation ob w =
     (Inr (), put_obs w (upsert_by obs_key ((obs_params ob)\<lparr>o_observed_at := db_now (w_db w)\<rparr>)
        (db_obs (w_db w))))"
  by (auto simp: tx_UpsertObservation_def stmt_quiet exec_sql_def q_UpsertObservation_def put_obs_def
      obs_params_def)

lemma SweepScanEpoch_run [tx_run]:
  "quiet w \<Longrightarrow> tx_SweepScanEpoch mp root epoch w =
     (Inr (map o_path (filter (swept mp root (subtree_prefix root) epoch) (db_obs (w_db w)))),
      put_obs w (filter (\<lambda>r. \<not> swept mp root (subtree_prefix root) epoch r) (db_obs (w_db w))))"
  by (simp add: tx_SweepScanEpoch_def stmt_quiet exec_sql_def q_SweepScanEpoch_def put_obs_def)

lemma GetObservation_run [tx_run]:
  "quiet w \<Longrightarrow> tx_GetObservation mp path w =
     (Inr (map_option to_observation (List.find (\<lambda>r. obs_key r = (mp, path)) (db_obs (w_db w)))), w)"
  by (simp add: tx_GetObservation_def bind_def ret_def or_missing_run q_GetObservation_def select_def
      split: option.splits)

lemma FindLiveDocumentByPath_run [tx_run]:
  "quiet w \<Longrightarrow> tx_FindLiveDocumentByPath mp path w =
     (Inr (map_option toDocument (List.find (doc_at mp path) (db_docs (w_db w)))), w)"
  by (simp add: tx_FindLiveDocumentByPath_def documentOrMissing_run q_FindLiveDocumentByPath_def
      select_def row_or_none_def split: option.splits)

lemma FindLiveDocumentByInode_run [tx_run]:
  "quiet w \<Longrightarrow> tx_FindLiveDocumentByInode mp dev ino w =
     (Inr (map_option toDocument (first_by d_id
        (\<lambda>r. d_mountpoint_id r = mp \<and> d_dev r = dev \<and> d_ino r = ino \<and> live r) (db_docs (w_db w)))), w)"
  by (simp add: tx_FindLiveDocumentByInode_def documentOrMissing_run q_FindLiveDocumentByInode_def
      select_def row_or_none_def split: option.splits)

lemma FindLiveDocumentByContent_run [tx_run]:
  "quiet w \<Longrightarrow> tx_FindLiveDocumentByContent mp hash w =
     (Inr (map_option toDocument (first_by d_id
       (\<lambda>r. d_mountpoint_id r = mp \<and> has_hash (w_db w) hash r \<and> live r \<and>
            \<not> observed (w_db w) (d_mountpoint_id r) (d_path r)) (db_docs (w_db w)))), w)"
  by (simp add: tx_FindLiveDocumentByContent_def documentOrMissing_run q_FindLiveDocumentByContent_def
      select_def row_or_none_def split: option.splits)

lemma TombstoneDocumentByPath_run [tx_run]:
  "quiet w \<Longrightarrow> tx_TombstoneDocumentByPath mp path w =
     (Inr (map_option (toDocument \<circ> tombstone (db_now (w_db w))) (List.find (doc_at mp path) (db_docs (w_db w)))),
      put_docs w (update_where (doc_at mp path) (tombstone (db_now (w_db w))) (db_docs (w_db w))))"
proof -
  assume w: "quiet w"
  have none: "update_where (doc_at mp path) f (db_docs (w_db w)) = db_docs (w_db w)"
    if "List.find (doc_at mp path) (db_docs (w_db w)) = None" for f
    by (rule update_where_none) (use that in \<open>simp add: find_None_set\<close>)
  show ?thesis
    using w by (simp add: tx_TombstoneDocumentByPath_def documentOrMissing_run
        q_TombstoneDocumentByPath_def put_docs_def none split: option.splits)
qed

lemma TombstoneDocumentSubtree_run [tx_run]:
  "quiet w \<Longrightarrow> tx_TombstoneDocumentSubtree mp pre w =
     (Inr (map (\<lambda>r. subtree_document mp (d_id r, d_path r, d_current_cv r)) (filter (doc_under mp pre) (db_docs (w_db w)))),
      put_docs w (update_where (doc_under mp pre) (tombstone (db_now (w_db w))) (db_docs (w_db w))))"
  by (simp add: tx_TombstoneDocumentSubtree_def bind_def ret_def stmt_quiet exec_sql_def
      q_TombstoneDocumentSubtree_def put_docs_def o_def)

lemma TombstoneDocument_run [tx_run]:
  "quiet w \<Longrightarrow> List.find (\<lambda>r. d_id r = did) (db_docs (w_db w)) = Some r \<Longrightarrow> tx_TombstoneDocument did w =
     (Inr (), put_docs w (update_where (\<lambda>r. d_id r = did) (tombstone (db_now (w_db w))) (db_docs (w_db w))))"
  by (simp add: tx_TombstoneDocument_def bind_def ret_def stmt_quiet exec_sql_def
      q_TombstoneDocument_def put_docs_def)

lemma MoveDocument_run [tx_run]:
  "quiet w \<Longrightarrow> List.find (\<lambda>r. d_id r = did) (db_docs (w_db w)) = Some r \<Longrightarrow>
     \<not> collides (relocated path dev ino (db_now (w_db w)) r) (filter (\<lambda>s. d_id s \<noteq> did) (db_docs (w_db w))) \<Longrightarrow>
     tx_MoveDocument did path dev ino w =
     (Inr (), put_docs w (update_where (\<lambda>r. d_id r = did) (relocated path dev ino (db_now (w_db w))) (db_docs (w_db w))))"
  by (simp add: tx_MoveDocument_def bind_def ret_def stmt_quiet exec_sql_def
      q_MoveDocument_def put_docs_def Let_def)

lemma insert_job_run [tx_run]:
  "quiet w \<Longrightarrow> eq_bound enq \<Longrightarrow> insert_job enq args at w = (Inr (), put_jobs w [request args at])"
  by (simp add: insert_job_quiet put_jobs_def)

definition ingest_request :: "int \<Rightarrow> enqueuer \<Rightarrow> int \<Rightarrow> string \<Rightarrow> Trigger \<Rightarrow> job_insert" where
  "ingest_request t enq mp path trigger =
     (case trigger of
        Settled \<Rightarrow> request (IngestPathArgs mp path TriggerSettled) None
      | Debounced \<Rightarrow> request (IngestPathArgs mp path TriggerDebounced) (Some (t + eq_debounce enq)))"

lemma EnqueueIngestPath_run [tx_run]:
  "quiet w \<Longrightarrow> eq_bound enq \<Longrightarrow> tx_EnqueueIngestPath enq mp path t w =
     (Inr (), put_jobs w [ingest_request (w_clock w) enq mp path t])"
  by (cases t) (simp_all add: tx_EnqueueIngestPath_def IngestPath_def bind_def now_def insert_job_run
      ingest_request_def)

lemma EnqueueExtract_run [tx_run]:
  "quiet w \<Longrightarrow> eq_bound enq \<Longrightarrow> tx_EnqueueExtract enq cv w =
     (Inr (), put_jobs w [request (ExtractArgs cv) None])"
  by (simp add: tx_EnqueueExtract_def Extract_def insert_job_run)

lemma EnqueueInvalidateThumbnails_run [tx_run]:
  "quiet w \<Longrightarrow> eq_bound enq \<Longrightarrow> tx_EnqueueInvalidateThumbnails enq did cv w =
     (Inr (), put_jobs w [request (InvalidateThumbnailsArgs did cv) None])"
  by (simp add: tx_EnqueueInvalidateThumbnails_def InvalidateThumbnails_def insert_job_run)

lemma MoveObservationSubtree_run:
  assumes "quiet w" "distinct (map obs_key (db_obs (w_db w)))"
    "\<And>r. r \<in> set (db_obs (w_db w)) \<Longrightarrow> \<not> obs_under mp new r"
  shows "tx_MoveObservationSubtree mp old new w =
    (Inr (), put_obs w (update_where (obs_under mp old)
       (\<lambda>r. r\<lparr>o_path := repath old new (o_path r), o_observed_at := db_now (w_db w)\<rparr>) (db_obs (w_db w))))"
proof -
  from MoveObservationSubtree_no_conflict [OF assms(2,3)]
  obtain d' where d': "q_MoveObservationSubtree mp old new (w_db w) (w_seqs w) = (Inr (), d', w_seqs w)"
    by blast
  from MoveObservationSubtree_result [OF this] d' assms(1) show ?thesis
    by (simp add: tx_MoveObservationSubtree_def put_obs_def stmt_quiet exec_sql_def)
qed

end
