(* ===== verification/Reconciler_Effects.thy ===== *)
theory Reconciler_Effects
  imports Reconciler_Contract Tx_Run
begin

text \<open>
  What each event does to the tables: the reconciler's operations as equations over the
  quiet world, and from there what they do in any run that no connection fault ends.
\<close>

section \<open>From the quiet world to every run without a fault\<close>

lemma undisturbed:
  assumes "faithful m" "calm w" "m w = (res, w')" "res \<noteq> Inl ErrConn"
    and "m (w\<lparr>w_script := []\<rparr>) = (res0, w0)"
  shows "res = res0" "w_db w' = w_db w0" "w_seqs w' = w_seqs w0" "calm w'"
  using faithfulD [OF assms(1-4)] assms(5) by auto

lemma quiet_stripped [simp]:
  "w_db (w\<lparr>w_script := s\<rparr>) = w_db w" "w_seqs (w\<lparr>w_script := s\<rparr>) = w_seqs w"
  "w_clock (w\<lparr>w_script := s\<rparr>) = w_clock w" "w_base (w\<lparr>w_script := s\<rparr>) = w_base w"
  by simp_all

lemma w_db_puts [simp]:
  "w_db (put_obs w rows) = (w_db w)\<lparr>db_obs := rows\<rparr>"
  "w_db (put_docs w ds) = (w_db w)\<lparr>db_docs := ds\<rparr>"
  "w_db (put_jobs w js) = (w_db w)\<lparr>db_outbox := db_outbox (w_db w) @ js\<rparr>"
  by (simp_all add: put_obs_def put_docs_def put_jobs_def)

section \<open>Invalidation\<close>

definition invalidations :: "Document list \<Rightarrow> job_insert list" where
  "invalidations docs =
     map (\<lambda>d. request (InvalidateThumbnailsArgs (doc_id d) (doc_cv d)) None)
       (filter (\<lambda>d. doc_cv d \<noteq> 0) docs)"

lemma invalidations_simps [simp]:
  "invalidations [] = []"
  "invalidations (d # ds) = (if doc_cv d = 0 then [] else
     [request (InvalidateThumbnailsArgs (doc_id d) (doc_cv d)) None]) @ invalidations ds"
  by (simp_all add: invalidations_def)

lemma invalidate_run [tx_run]:
  "quiet w \<Longrightarrow> eq_bound (rc_enqueuer r) \<Longrightarrow>
     invalidate r doc w = (Inr (), put_jobs w (invalidations [doc]))"
  by (simp add: invalidate_def tx_run ret_def)

lemma for_each_jobs_run:
  assumes "\<And>x v. x \<in> set xs \<Longrightarrow> quiet v \<Longrightarrow> f x v = (Inr (), put_jobs v (g x))" "quiet w"
  shows "for_each xs f w = (Inr (), put_jobs w (concat (map g xs)))"
  using assms
proof (induction xs arbitrary: w)
  case Nil
  then show ?case by (simp add: ret_def)
next
  case (Cons x xs)
  from Cons.prems have "f x w = (Inr (), put_jobs w (g x))" by simp
  then have "for_each (x # xs) f w = for_each xs f (put_jobs w (g x))"
    by (simp add: andThen_run)
  also have "\<dots> = (Inr (), put_jobs (put_jobs w (g x)) (concat (map g xs)))"
    using Cons.prems by (intro Cons.IH) auto
  finally show ?case by simp
qed

lemma invalidateAll_run [tx_run]:
  assumes "quiet w" "eq_bound (rc_enqueuer r)"
  shows "invalidateAll r docs w = (Inr (), put_jobs w (invalidations docs))"
proof -
  have "invalidateAll r docs w = (Inr (), put_jobs w (concat (map (\<lambda>d. invalidations [d]) docs)))"
    unfolding invalidateAll_def by (rule for_each_jobs_run) (use assms in \<open>auto simp: invalidate_run\<close>)
  moreover have "concat (map (\<lambda>d. invalidations [d]) docs) = invalidations docs"
    by (induction docs) (auto simp: invalidations_def)
  ultimately show ?thesis by simp
qed

section \<open>Observing\<close>

definition known :: "Reconciler \<Rightarrow> world \<Rightarrow> bool" where
  "known r w \<longleftrightarrow> mp_id ` set (rc_mountpoints r) \<subseteq> m_id ` set (db_mountpoints (w_db w))"

lemma deepest_mem:
  "deepest path mps best = Some mp \<Longrightarrow> mp \<in> set mps \<or> best = Some mp"
  by (induction path mps best rule: deepest.induct) (auto split: if_splits option.splits)

lemma mountpointFor_mem: "mountpointFor r path = Some mp \<Longrightarrow> mp \<in> set (rc_mountpoints r)"
  using deepest_mem by (fastforce simp: mountpointFor_def)

lemma known_mountpoint:
  "known r w \<Longrightarrow> mountpointFor r path = Some mp \<Longrightarrow> mp_id mp \<in> m_id ` set (db_mountpoints (w_db w))"
  using mountpointFor_mem by (fastforce simp: known_def)

text \<open>The row an observation writes.\<close>

definition observed_row :: "database \<Rightarrow> Observation \<Rightarrow> obs_row" where
  "observed_row d ob = (obs_params ob)\<lparr>o_observed_at := db_now d\<rparr>"

lemma obs_key_observed_row [simp]: "obs_key (observed_row d ob) = (ob_mp ob, ob_path ob)"
  by (simp add: observed_row_def obs_key_def obs_params_def)

lemma observationOf_key [simp]:
  "ob_mp (observationOf mp path stat isDir epoch) = mp"
  "ob_path (observationOf mp path stat isDir epoch) = path"
  "ob_seen_epoch (observationOf mp path stat isDir epoch) = epoch"
  "ob_is_dir (observationOf mp path stat isDir epoch) = isDir"
  by (simp_all add: observationOf_def split: option.splits)

lemma observeOnly_run [tx_run]:
  assumes "quiet w" "known r w" "mountpointFor r path = Some mp"
  shows "observeOnly r path stat isDir w =
    (Inr (), put_obs w (upsert_by obs_key
       (observed_row (w_db w) (observationOf (mp_id mp) path stat isDir 0)) (db_obs (w_db w))))"
  using assms known_mountpoint [OF assms(2,3)]
  by (simp add: observeOnly_def UpsertObservation_run observed_row_def)

lemma observe_run:
  assumes "quiet w" "known r w" "eq_bound (rc_enqueuer r)" "mountpointFor r path = Some mp"
  shows "observe r path stat isDir t w =
    (Inr (), put_jobs (put_obs w (upsert_by obs_key
       (observed_row (w_db w) (observationOf (mp_id mp) path stat isDir 0)) (db_obs (w_db w))))
      (if isDir \<or> \<not> AllowPath (rc_filter r) path then []
       else [ingest_request (w_clock w) (rc_enqueuer r) (mp_id mp) path t]))"
  using assms
  by (simp add: observe_def andThen_run [OF observeOnly_run] EnqueueIngestPath_run ret_def)

section \<open>Deleting\<close>

definition gone_obs :: "int \<Rightarrow> string \<Rightarrow> obs_row \<Rightarrow> bool" where
  "gone_obs mp path r \<longleftrightarrow> o_mountpoint_id r = mp \<and> contains path (o_path r)"

lemma gone_obs_iff:
  "obs_key r \<noteq> (mp, path) \<and> \<not> obs_under mp (subtree_prefix path) r \<longleftrightarrow> \<not> gone_obs mp path r"
  by (auto simp: gone_obs_def obs_under_def obs_key_def contains_def)

definition versions_of :: "int \<Rightarrow> doc_row list \<Rightarrow> Document list" where
  "versions_of mp rows = map (\<lambda>r. subtree_document mp (d_id r, d_path r, d_current_cv r)) rows"

lemma applyDelete_directory_run:
  assumes "quiet w" "eq_bound (rc_enqueuer r)" "mountpointFor r path = Some mp"
  shows "applyDelete r path True w =
    (Inr (), put_jobs (put_docs (put_obs w (filter (\<lambda>r. \<not> gone_obs (mp_id mp) path r) (db_obs (w_db w))))
        (update_where (doc_under (mp_id mp) (subtree_prefix path)) (tombstone (db_now (w_db w))) (db_docs (w_db w))))
      (invalidations (versions_of (mp_id mp)
        (filter (doc_under (mp_id mp) (subtree_prefix path)) (db_docs (w_db w))))))"
  using assms
  by (simp add: applyDelete_def andThen_run [OF DeleteObservation_run]
      andThen_run [OF DeleteObservationSubtree_run] bind_run [OF TombstoneDocumentSubtree_run]
      invalidateAll_run gone_obs_iff versions_of_def)

lemma toDocument_tombstone [simp]:
  "doc_id (toDocument (tombstone t r)) = d_id r" "doc_cv (toDocument (tombstone t r)) = derefID (d_current_cv r)"
  by (simp_all add: toDocument_def tombstone_def)

definition invalidation_of :: "doc_row \<Rightarrow> job_insert list" where
  "invalidation_of r = (if derefID (d_current_cv r) = 0 then [] else
     [request (InvalidateThumbnailsArgs (d_id r) (derefID (d_current_cv r))) None])"

lemma applyDelete_file_run:
  assumes "quiet w" "eq_bound (rc_enqueuer r)" "mountpointFor r path = Some mp"
  shows "applyDelete r path False w =
    (Inr (), put_jobs (put_docs (put_obs w (filter (\<lambda>r. obs_key r \<noteq> (mp_id mp, path)) (db_obs (w_db w))))
        (update_where (doc_at (mp_id mp) path) (tombstone (db_now (w_db w))) (db_docs (w_db w))))
      (case List.find (doc_at (mp_id mp) path) (db_docs (w_db w)) of
         None \<Rightarrow> [] | Some d \<Rightarrow> invalidation_of d))"
  using assms
  by (simp add: applyDelete_def andThen_run [OF DeleteObservation_run]
      bind_run [OF TombstoneDocumentByPath_run] invalidate_run ret_def invalidation_of_def
      split: option.splits)

section \<open>Moving a file\<close>

lemma live_unique:
  assumes "docs_ok d q" "List.find (doc_at mp path) (db_docs d) = Some r" "s \<in> set (db_docs d)" "doc_at mp path s"
  shows "s = r"
proof -
  have r: "r \<in> set (db_docs d)" "doc_at mp path r" using find_SomeD [OF assms(2)] by auto
  have "index_ok live_key (db_docs d)" using assms(1) by (simp add: docs_ok_def)
  from index_ok_inj [OF this assms(3) r(1)] show ?thesis
    using assms(4) r(2) by (simp add: live_key_def doc_at_def)
qed

lemma find_doc_id:
  assumes "docs_ok d q" "r \<in> set (db_docs d)"
  shows "List.find (\<lambda>s. d_id s = d_id r) (db_docs d) = Some r"
  using assms by (intro find_unique_key) (simp_all add: docs_ok_def ids_ok_def)

text \<open>The documents after \<open>moveFile\<close>: the target dies, the source takes its place.\<close>

definition replaced :: "int \<Rightarrow> string \<Rightarrow> doc_row \<Rightarrow> doc_row \<Rightarrow> bool" where
  "replaced mp path moved r \<longleftrightarrow> doc_at mp path r \<and> d_id r \<noteq> d_id moved"

lemma doc_at_tombstone [simp]: "\<not> doc_at mp path (tombstone t r)"
  by (simp add: doc_at_def tombstone_def live_def)

lemma retireTarget_run:
  assumes w: "quiet w" and bound: "eq_bound (rc_enqueuer r)" and ok: "docs_ok (w_db w) (w_seqs w)"
  shows "retireTarget r mp newPath (toDocument moved) w =
    (Inr (), put_jobs (put_docs w (update_where (replaced mp newPath moved) (tombstone (db_now (w_db w))) (db_docs (w_db w))))
       (case List.find (replaced mp newPath moved) (db_docs (w_db w)) of
          None \<Rightarrow> [] | Some x \<Rightarrow> invalidation_of x))"
proof -
  let ?docs = "db_docs (w_db w)"
  show ?thesis
  proof (cases "List.find (doc_at mp newPath) ?docs")
    case None
    then have none: "\<And>x. x \<in> set ?docs \<Longrightarrow> \<not> replaced mp newPath moved x"
      by (simp add: find_None_set replaced_def)
    then have "List.find (replaced mp newPath moved) ?docs = None"
      "update_where (replaced mp newPath moved) (tombstone (db_now (w_db w))) ?docs = ?docs"
      by (simp_all add: find_None_set update_where_none)
    with None w show ?thesis
      by (simp add: retireTarget_def bind_run [OF FindLiveDocumentByPath_run] ret_def put_docs_def)
  next
    case (Some x)
    have x: "x \<in> set ?docs" "doc_at mp newPath x" using find_SomeD [OF Some] by auto
    have uniq: "y = x" if "y \<in> set ?docs" "doc_at mp newPath y" for y
      using live_unique [OF ok Some that] .
    show ?thesis
    proof (cases "d_id x = d_id moved")
      case True
      then have none: "\<And>y. y \<in> set ?docs \<Longrightarrow> \<not> replaced mp newPath moved y"
        using uniq by (auto simp: replaced_def)
      then have "List.find (replaced mp newPath moved) ?docs = None"
        "update_where (replaced mp newPath moved) (tombstone (db_now (w_db w))) ?docs = ?docs"
        by (simp_all add: find_None_set update_where_none)
      with Some True w show ?thesis
        by (simp add: retireTarget_def bind_run [OF FindLiveDocumentByPath_run] ret_def put_docs_def toDocument_def)
    next
      case False
      have ids: "d_id y = d_id x \<longleftrightarrow> replaced mp newPath moved y" if "y \<in> set ?docs" for y
      proof
        assume "d_id y = d_id x"
        with ok that x(1) have "y = x"
          by (auto simp: docs_ok_def ids_ok_def intro: distinct_map_inj)
        with x False show "replaced mp newPath moved y" by (simp add: replaced_def)
      next
        assume "replaced mp newPath moved y"
        with uniq [OF that] show "d_id y = d_id x" by (simp add: replaced_def)
      qed
      then have upd: "update_where (\<lambda>y. d_id y = d_id x) (tombstone (db_now (w_db w))) ?docs =
          update_where (replaced mp newPath moved) (tombstone (db_now (w_db w))) ?docs"
        by (auto simp: update_where_def)
      have "List.find (replaced mp newPath moved) ?docs = List.find (\<lambda>y. d_id y = d_id x) ?docs"
        using ids by (intro find_cong_set) auto
      with find_doc_id [OF ok x(1)] have fnd: "List.find (replaced mp newPath moved) ?docs = Some x" by simp
      have tomb: "tx_TombstoneDocument (d_id x) w = (Inr (), put_docs w
          (update_where (replaced mp newPath moved) (tombstone (db_now (w_db w))) ?docs))"
        using TombstoneDocument_run [OF w find_doc_id [OF ok x(1)]] upd by simp
      have ids': "doc_id (toDocument x) = d_id x" "doc_id (toDocument moved) = d_id moved"
        "doc_cv (toDocument x) = derefID (d_current_cv x)"
        by (simp_all add: toDocument_def)
      show ?thesis
        using Some False w bound fnd
        by (simp add: retireTarget_def bind_def andThen_def FindLiveDocumentByPath_run ids' tomb
            invalidate_run invalidation_of_def)
    qed
  qed
qed

definition renamed_obs :: "database \<Rightarrow> int \<Rightarrow> string \<Rightarrow> string \<Rightarrow> StatInfo option \<Rightarrow> obs_row list" where
  "renamed_obs d mp oldPath newPath stat =
     upsert_by obs_key (observed_row d (observationOf mp newPath stat False 0))
       (filter (\<lambda>r. obs_key r \<noteq> (mp, oldPath)) (db_obs d))"

definition retired_docs :: "database \<Rightarrow> int \<Rightarrow> string \<Rightarrow> doc_row \<Rightarrow> doc_row list" where
  "retired_docs d mp newPath moved =
     update_where (replaced mp newPath moved) (tombstone (db_now d)) (db_docs d)"

definition renamed_docs :: "database \<Rightarrow> int \<Rightarrow> string \<Rightarrow> StatInfo option \<Rightarrow> doc_row \<Rightarrow> doc_row list" where
  "renamed_docs d mp newPath stat moved =
     update_where (\<lambda>s. d_id s = d_id moved) (relocated newPath (statDev stat) (statIno stat) (db_now d))
       (retired_docs d mp newPath moved)"

definition retired_jobs :: "database \<Rightarrow> int \<Rightarrow> string \<Rightarrow> doc_row \<Rightarrow> job_insert list" where
  "retired_jobs d mp newPath moved =
     (case List.find (replaced mp newPath moved) (db_docs d) of
        None \<Rightarrow> [] | Some x \<Rightarrow> invalidation_of x)"

lemma retired_keeps_moved:
  assumes ok: "docs_ok d q" and fnd: "List.find (doc_at mp oldPath) (db_docs d) = Some moved"
  shows "List.find (\<lambda>s. d_id s = d_id moved) (retired_docs d mp newPath moved) = Some moved"
proof -
  have m: "moved \<in> set (db_docs d)" using find_SomeD [OF fnd] by simp
  have "List.find (\<lambda>s. d_id s = d_id moved) (update_where (replaced mp newPath moved) f rows) =
      List.find (\<lambda>s. d_id s = d_id moved) rows" if "\<And>x. d_id (f x) = d_id x" for f rows
    using that by (induction rows) (auto simp: update_where_def replaced_def)
  then show ?thesis
    unfolding retired_docs_def using find_doc_id [OF ok m] by (simp add: tombstone_def)
qed

lemma retired_frees_target:
  "\<not> collides r (filter (\<lambda>s. d_id s \<noteq> d_id moved) (retired_docs d mp newPath moved))"
  if "live_key r = Some (mp, newPath)"
proof
  assume "collides r (filter (\<lambda>s. d_id s \<noteq> d_id moved) (retired_docs d mp newPath moved))"
  then obtain s where s: "s \<in> set (retired_docs d mp newPath moved)" "d_id s \<noteq> d_id moved"
    and "live_key r = live_key s"
    unfolding collides_def by auto
  with that have at: "doc_at mp newPath s" by (simp add: live_key_Some doc_at_def)
  from s(1) consider x where "s = tombstone (db_now d) x" | "\<not> replaced mp newPath moved s"
    unfolding retired_docs_def set_update_where by blast
  then show False
    by cases (use at s(2) in \<open>simp_all add: replaced_def\<close>)
qed

lemma docs_ok_put_obs [simp]: "docs_ok (d\<lparr>db_obs := rows\<rparr>) q = docs_ok d q"
  by (simp add: docs_ok_def)

lemma rename_steps:
  assumes "quiet w" "mp \<in> m_id ` set (db_mountpoints (w_db w))"
  shows "andThen (tx_DeleteObservation mp oldPath)
      (andThen (tx_UpsertObservation (observationOf mp newPath stat False 0)) f) w =
    f (put_obs w (renamed_obs (w_db w) mp oldPath newPath stat))"
  using assms by (simp add: andThen_def bind_def DeleteObservation_run UpsertObservation_run
      renamed_obs_def observed_row_def)

lemma moveFile_none_run:
  assumes w: "quiet w" and bound: "eq_bound (rc_enqueuer r)"
    and mp: "mp \<in> m_id ` set (db_mountpoints (w_db w))"
    and fnd: "List.find (doc_at mp oldPath) (db_docs (w_db w)) = None"
  shows "moveFile r mp oldPath newPath stat w =
    (Inr (), put_jobs (put_obs w (renamed_obs (w_db w) mp oldPath newPath stat))
      (if AllowPath (rc_filter r) newPath
       then [ingest_request (w_clock w) (rc_enqueuer r) mp newPath Settled] else []))"
  unfolding moveFile_def rename_steps [OF w mp]
  using w bound fnd by (simp add: bind_def FindLiveDocumentByPath_run EnqueueIngestPath_run ret_def)

lemma moveFile_some:
  assumes w: "quiet w" and bound: "eq_bound (rc_enqueuer r)" and ok: "docs_ok (w_db w) (w_seqs w)"
    and mp: "mp \<in> m_id ` set (db_mountpoints (w_db w))"
    and fnd: "List.find (doc_at mp oldPath) (db_docs (w_db w)) = Some moved"
  shows "moveFile r mp oldPath newPath stat w =
    (if \<not> AllowPath (rc_filter r) newPath
     then andThen (tx_TombstoneDocument (d_id moved)) (invalidate r (toDocument moved))
     else andThen (tx_MoveDocument (d_id moved) newPath (statDev stat) (statIno stat))
       (tx_EnqueueIngestPath (rc_enqueuer r) mp newPath Settled))
    (put_jobs (put_docs (put_obs w (renamed_obs (w_db w) mp oldPath newPath stat))
      (retired_docs (w_db w) mp newPath moved)) (retired_jobs (w_db w) mp newPath moved))"
proof -
  let ?w1 = "put_obs w (renamed_obs (w_db w) mp oldPath newPath stat)"
  have retire: "retireTarget r mp newPath (toDocument moved) ?w1 =
      (Inr (), put_jobs (put_docs ?w1 (retired_docs (w_db w) mp newPath moved)) (retired_jobs (w_db w) mp newPath moved))"
    using retireTarget_run [of ?w1 r mp newPath moved] w bound ok
    by (simp add: retired_docs_def retired_jobs_def)
  have ids: "doc_id (toDocument moved) = d_id moved" by (simp add: toDocument_def)
  show ?thesis
    unfolding moveFile_def rename_steps [OF w mp]
    using w fnd by (simp add: bind_def FindLiveDocumentByPath_run ids andThen_def retire)
qed

lemma moveFile_moved_run:
  assumes w: "quiet w" and bound: "eq_bound (rc_enqueuer r)" and ok: "docs_ok (w_db w) (w_seqs w)"
    and mp: "mp \<in> m_id ` set (db_mountpoints (w_db w))"
    and fnd: "List.find (doc_at mp oldPath) (db_docs (w_db w)) = Some moved"
    and allowed: "AllowPath (rc_filter r) newPath"
  shows "moveFile r mp oldPath newPath stat w =
    (Inr (), put_jobs (put_docs (put_obs w (renamed_obs (w_db w) mp oldPath newPath stat))
        (renamed_docs (w_db w) mp newPath stat moved))
      (retired_jobs (w_db w) mp newPath moved @
       [ingest_request (w_clock w) (rc_enqueuer r) mp newPath Settled]))"
proof -
  have m: "doc_at mp oldPath moved" using find_SomeD [OF fnd] by simp
  have key: "live_key (relocated newPath dev ino t moved) = Some (mp, newPath)" for dev ino t
    using m by (simp add: live_key_def live_def relocated_def doc_at_def)
  show ?thesis
    unfolding moveFile_some [OF w bound ok mp fnd]
    using w bound allowed retired_keeps_moved [OF ok fnd] retired_frees_target [OF key]
    by (simp add: andThen_def bind_def MoveDocument_run EnqueueIngestPath_run renamed_docs_def)
qed

lemma moveFile_dropped_run:
  assumes w: "quiet w" and bound: "eq_bound (rc_enqueuer r)" and ok: "docs_ok (w_db w) (w_seqs w)"
    and mp: "mp \<in> m_id ` set (db_mountpoints (w_db w))"
    and fnd: "List.find (doc_at mp oldPath) (db_docs (w_db w)) = Some moved"
    and excluded: "\<not> AllowPath (rc_filter r) newPath"
  shows "moveFile r mp oldPath newPath stat w =
    (Inr (), put_jobs (put_docs (put_obs w (renamed_obs (w_db w) mp oldPath newPath stat))
        (update_where (\<lambda>s. d_id s = d_id moved) (tombstone (db_now (w_db w)))
           (retired_docs (w_db w) mp newPath moved)))
      (retired_jobs (w_db w) mp newPath moved @ invalidation_of moved))"
proof -
  have ids: "doc_id (toDocument moved) = d_id moved" "doc_cv (toDocument moved) = derefID (d_current_cv moved)"
    by (simp_all add: toDocument_def)
  show ?thesis
    unfolding moveFile_some [OF w bound ok mp fnd]
    using w bound excluded retired_keeps_moved [OF ok fnd]
    by (simp add: andThen_def bind_def TombstoneDocument_run invalidate_run invalidation_of_def ids)
qed

section \<open>Moving a directory\<close>

lemma index_ok_map_inj:
  assumes "index_ok k rows" "\<And>r s. r \<in> set rows \<Longrightarrow> s \<in> set rows \<Longrightarrow> k (f r) = k (f s) \<Longrightarrow> k (f r) \<noteq> None \<Longrightarrow> k r = k s \<and> k r \<noteq> None"
  shows "index_ok k (map f rows)"
  using assms
proof (induction rows)
  case Nil
  then show ?case by simp
next
  case (Cons r rows)
  have "k (f r) \<noteq> k (f s)" if "s \<in> set rows" "k (f r) \<noteq> None" for s
  proof
    assume "k (f r) = k (f s)"
    with Cons.prems(2) [of r s] that have "k r = k s \<and> k r \<noteq> None" by (metis list.set_intros)
    with Cons.prems(1) that(1) show False by (metis imageI index_ok_Cons)
  qed
  moreover have "index_ok k (map f rows)"
  proof (rule Cons.IH)
    show "index_ok k rows" using Cons.prems(1) by simp
    fix x y assume "x \<in> set rows" "y \<in> set rows" "k (f x) = k (f y)" "k (f x) \<noteq> None"
    then show "k x = k y \<and> k x \<noteq> None" by (intro Cons.prems(2)) simp_all
  qed
  ultimately show ?case by auto
qed

text \<open>
  Once the destination is empty no live path there can be taken twice, in whatever order
  PostgreSQL visits the rows.
\<close>

lemma MoveDocumentSubtree_run:
  assumes w: "quiet w" and ix: "index_ok live_key (db_docs (w_db w))"
    and free: "\<And>r. r \<in> set (db_docs (w_db w)) \<Longrightarrow> \<not> doc_under mp new r"
  shows "bind (tx_MoveDocumentSubtree mp old new) (\<lambda>_. ret ()) w =
    (Inr (), put_docs w (update_where (doc_under mp old) (repathed old new (db_now (w_db w))) (db_docs (w_db w))))"
proof -
  let ?f = "repathed old new (db_now (w_db w))" and ?docs = "db_docs (w_db w)"
  have key: "live_key (?f r) = Some (mp, repath old new (d_path r))" if "doc_under mp old r" for r
    using that by (simp add: live_key_def live_def repathed_def doc_under_def)
  have out: "live_key (?f r) \<notin> live_key ` set ?docs" if under: "doc_under mp old r" for r
  proof
    assume "live_key (?f r) \<in> live_key ` set ?docs"
    then obtain s where "s \<in> set ?docs" "live_key s = Some (mp, repath old new (d_path r))"
      unfolding key [OF under] by (metis imageE)
    then have "doc_under mp new s" by (simp add: live_key_Some doc_under_def repath_prefix)
    with free \<open>s \<in> set ?docs\<close> show False by blast
  qed
  have inj: "index_ok live_key (map ?f (filter (doc_under mp old) ?docs))"
  proof (rule index_ok_map_inj)
    show "index_ok live_key (filter (doc_under mp old) ?docs)" using ix by (rule index_ok_filter)
    fix r s
    assume "r \<in> set (filter (doc_under mp old) ?docs)" "s \<in> set (filter (doc_under mp old) ?docs)"
      and eq: "live_key (?f r) = live_key (?f s)"
    then have r: "doc_under mp old r" and s: "doc_under mp old s" by auto
    from eq key [OF r] key [OF s] have "repath old new (d_path r) = repath old new (d_path s)" by simp
    with r s have "d_path r = d_path s" by (auto simp: doc_under_def dest: repath_inj)
    with r s show "live_key r = live_key s \<and> live_key r \<noteq> None"
      by (simp add: live_key_def doc_under_def)
  qed
  have "rekey_rows live_key (doc_under mp old) ?f [] ?docs \<noteq> None"
    by (rule rekey_rows_succeeds) (use out inj in auto)
  then obtain rows where rows: "rekey_rows live_key (doc_under mp old) ?f [] ?docs = Some rows" by blast
  with rekey_rows_result [OF rows] w show ?thesis
    by (simp add: tx_MoveDocumentSubtree_def bind_def ret_def stmt_quiet exec_sql_def
        q_MoveDocumentSubtree_def put_docs_def Let_def)
qed

definition moved_tree_obs :: "database \<Rightarrow> int \<Rightarrow> string \<Rightarrow> string \<Rightarrow> StatInfo option \<Rightarrow> obs_row list" where
  "moved_tree_obs d mp oldPath newPath stat =
     upsert_by obs_key (observed_row d (observationOf mp newPath stat True 0))
       (filter (\<lambda>r. obs_key r \<noteq> (mp, oldPath))
         (update_where (obs_under mp (subtree_prefix oldPath))
           (\<lambda>r. r\<lparr>o_path := repath (subtree_prefix oldPath) (subtree_prefix newPath) (o_path r),
                  o_observed_at := db_now d\<rparr>)
           (filter (\<lambda>r. \<not> gone_obs mp newPath r) (db_obs d))))"

definition cleared_docs :: "database \<Rightarrow> int \<Rightarrow> string \<Rightarrow> doc_row list" where
  "cleared_docs d mp newPath =
     update_where (doc_under mp (subtree_prefix newPath)) (tombstone (db_now d)) (db_docs d)"

lemma not_under_tombstone [simp]: "\<not> doc_under mp pre (tombstone t r)"
  by (simp add: doc_under_def tombstone_def live_def)

lemma cleared_docs_free:
  assumes "x \<in> set (cleared_docs d mp path)"
  shows "\<not> doc_under mp (subtree_prefix path) x"
proof -
  from assms consider y where "x = tombstone (db_now d) y" | "\<not> doc_under mp (subtree_prefix path) x"
    unfolding cleared_docs_def set_update_where by blast
  then show ?thesis by cases simp_all
qed

definition moved_tree_docs :: "database \<Rightarrow> int \<Rightarrow> string \<Rightarrow> string \<Rightarrow> doc_row list" where
  "moved_tree_docs d mp oldPath newPath =
     update_where (doc_under mp (subtree_prefix oldPath))
       (repathed (subtree_prefix oldPath) (subtree_prefix newPath) (db_now d)) (cleared_docs d mp newPath)"

lemma moveDirectory_run:
  assumes w: "quiet w" and bound: "eq_bound (rc_enqueuer r)" and ok: "db_ok (w_db w) (w_seqs w)"
    and mp: "mp \<in> m_id ` set (db_mountpoints (w_db w))"
  shows "moveDirectory r mp oldPath newPath stat w =
    (Inr (), put_jobs (put_docs (put_obs w (moved_tree_obs (w_db w) mp oldPath newPath stat))
        (moved_tree_docs (w_db w) mp oldPath newPath))
      (invalidations (versions_of mp (filter (doc_under mp (subtree_prefix newPath)) (db_docs (w_db w))))))"
proof -
  let ?old = "subtree_prefix oldPath" and ?new = "subtree_prefix newPath"
  let ?js = "invalidations (versions_of mp (filter (doc_under mp ?new) (db_docs (w_db w))))"
  let ?w1 = "put_jobs (put_docs (put_obs w (filter (\<lambda>r. \<not> gone_obs mp newPath r) (db_obs (w_db w))))
     (cleared_docs (w_db w) mp newPath)) ?js"
  have start: "moveDirectory r mp oldPath newPath stat w =
      andThen (tx_MoveObservationSubtree mp ?old ?new) (andThen (tx_DeleteObservation mp oldPath)
      (andThen (tx_UpsertObservation (observationOf mp newPath stat True 0))
      (bind (tx_MoveDocumentSubtree mp ?old ?new) (\<lambda>_. ret ())))) ?w1"
    using w bound
    by (simp add: moveDirectory_def Let_def andThen_run [OF DeleteObservation_run]
        andThen_run [OF DeleteObservationSubtree_run] bind_run [OF TombstoneDocumentSubtree_run]
        andThen_run [OF invalidateAll_run] gone_obs_iff versions_of_def cleared_docs_def del: w_db_puts)
  have dist: "distinct (map obs_key (db_obs (w_db ?w1)))"
    using ok by (simp add: db_ok_def obs_ok_def distinct_filter_keys)
  have gone: "\<not> obs_under mp ?new x" if "x \<in> set (db_obs (w_db ?w1))" for x
    using that by (auto simp: gone_obs_def obs_under_def contains_def)
  let ?w2 = "put_obs ?w1 (moved_tree_obs (w_db w) mp oldPath newPath stat)"
  have obs: "andThen (tx_MoveObservationSubtree mp ?old ?new) (andThen (tx_DeleteObservation mp oldPath)
      (andThen (tx_UpsertObservation (observationOf mp newPath stat True 0)) f)) ?w1 = f ?w2" for f :: "unit m"
    unfolding andThen_def bind_def
    using w mp MoveObservationSubtree_run [OF _ dist gone]
    by (simp add: DeleteObservation_run UpsertObservation_run moved_tree_obs_def observed_row_def)
  have free: "\<not> doc_under mp ?new x" if "x \<in> set (db_docs (w_db ?w2))" for x
    using that cleared_docs_free by simp
  have "docs_ok ((w_db w)\<lparr>db_docs := cleared_docs (w_db w) mp newPath\<rparr>) (w_seqs w)"
    unfolding cleared_docs_def using ok by (intro docs_ok_tombstone) (simp add: db_ok_def)
  then have ix: "index_ok live_key (db_docs (w_db ?w2))" by (simp add: docs_ok_def)
  show ?thesis
    unfolding start obs
    using MoveDocumentSubtree_run [OF _ ix free] w
    by (simp add: moved_tree_docs_def put_obs_def put_docs_def put_jobs_def)
qed

end
