(* ===== verification/Rescan.thy ===== *)
theory Rescan
  imports Reconciler_Effects
begin

text \<open>
  The rescan of a root as mark and sweep: every scanned path is tagged with a fresh epoch,
  what under the root still carries another tag is dropped, and the documents that stood
  there become tombstones.
\<close>

section \<open>One scanned path\<close>

text \<open>The row a scanned path gets and whether the path is queued, against the prior rows.\<close>

definition marks :: "Reconciler \<Rightarrow> int \<Rightarrow> database \<Rightarrow> scanned \<Rightarrow> obs_row list \<Rightarrow> obs_row list" where
  "marks r epoch d ob rows =
     (case mountpointFor r (fst ob) of None \<Rightarrow> rows
      | Some mp \<Rightarrow> upsert_by obs_key (observed_row d (scannedObservation (mp_id mp) ob epoch)) rows)"

definition needs_ingest :: "Reconciler \<Rightarrow> int \<Rightarrow> database \<Rightarrow> scanned \<Rightarrow> Mountpoint \<Rightarrow> obs_row list \<Rightarrow> bool" where
  "needs_ingest r epoch d ob mp rows \<longleftrightarrow>
     (let next = scannedObservation (mp_id mp) ob epoch;
          prior = map_option to_observation (List.find (\<lambda>r. obs_key r = (mp_id mp, fst ob)) rows)
      in \<not> ob_is_dir next \<and> AllowPath (rc_filter r) (fst ob) \<and>
         (scan_changed prior next \<or> List.find (doc_at (mp_id mp) (fst ob)) (db_docs d) = None))"

definition queues :: "Reconciler \<Rightarrow> int \<Rightarrow> database \<Rightarrow> scanned \<Rightarrow> obs_row list \<Rightarrow> job_insert list" where
  "queues r epoch d ob rows =
     (case mountpointFor r (fst ob) of None \<Rightarrow> []
      | Some mp \<Rightarrow> if needs_ingest r epoch d ob mp rows
          then [request (IngestPathArgs (mp_id mp) (fst ob) TriggerSettled) None] else [])"

lemma scannedObservation_key [simp]:
  "ob_mp (scannedObservation mp ob epoch) = mp" "ob_path (scannedObservation mp ob epoch) = fst ob"
  "ob_seen_epoch (scannedObservation mp ob epoch) = epoch"
  by (simp_all add: scannedObservation_def Let_def observationOf_def split: option.splits)

lemma observeScanned_run:
  assumes "quiet w" "known r w" "eq_bound (rc_enqueuer r)"
  shows "observeScanned r ob epoch w =
    (Inr (queues r epoch (w_db w) ob (db_obs (w_db w)) \<noteq> []),
     put_jobs (put_obs w (marks r epoch (w_db w) ob (db_obs (w_db w))))
       (queues r epoch (w_db w) ob (db_obs (w_db w))))"
proof (cases "mountpointFor r (fst ob)")
  case None
  then show ?thesis by (simp add: observeScanned_def ret_def marks_def queues_def put_obs_def)
next
  case (Some mp)
  from known_mountpoint [OF assms(2) Some]
  have mp: "mp_id mp \<in> m_id ` set (db_mountpoints (w_db w))" .
  have settled: "ingest_request t enq m p Settled = request (IngestPathArgs m p TriggerSettled) None"
    for t enq m p by (simp add: ingest_request_def)
  show ?thesis
    using assms Some mp
    by (simp add: observeScanned_def Let_def bind_def andThen_def GetObservation_run
        UpsertObservation_run FindLiveDocumentByPath_run EnqueueIngestPath_run ret_def
        marks_def queues_def needs_ingest_def observed_row_def settled)
qed

section \<open>A whole walk\<close>

fun scan_paths :: "scan_item list \<Rightarrow> scanned list" where
  "scan_paths [] = []"
| "scan_paths (ScanBatch obs # items) = obs @ scan_paths items"
| "scan_paths (_ # items) = scan_paths items"

fun scan_effect :: "Reconciler \<Rightarrow> int \<Rightarrow> database \<Rightarrow> scanned list \<Rightarrow> obs_row list \<Rightarrow> obs_row list \<times> job_insert list" where
  "scan_effect r epoch d [] rows = (rows, [])"
| "scan_effect r epoch d (ob # obs) rows =
     (case scan_effect r epoch d obs (marks r epoch d ob rows) of
        (rows', js) \<Rightarrow> (rows', queues r epoch d ob rows @ js))"

lemma marks_same_db: "db_now d = db_now d' \<Longrightarrow> marks r epoch d ob rows = marks r epoch d' ob rows"
  by (simp add: marks_def observed_row_def split: option.splits)

lemma queues_same_db: "db_docs d = db_docs d' \<Longrightarrow> queues r epoch d ob rows = queues r epoch d' ob rows"
  by (simp add: queues_def needs_ingest_def split: option.splits)

lemma scan_effect_same_db:
  "db_now d = db_now d' \<Longrightarrow> db_docs d = db_docs d' \<Longrightarrow> scan_effect r epoch d obs rows = scan_effect r epoch d' obs rows"
  by (induction obs arbitrary: rows) (simp_all add: marks_same_db [of d d'] queues_same_db [of d d'])

lemma scan_effect_append:
  "scan_effect r epoch d (xs @ ys) rows =
     (case scan_effect r epoch d xs rows of (rows1, js1) \<Rightarrow>
        case scan_effect r epoch d ys rows1 of (rows2, js2) \<Rightarrow> (rows2, js1 @ js2))"
  by (induction xs arbitrary: rows) (simp_all split: prod.splits)

lemma known_puts [simp]:
  "known r (put_obs w rows) = known r w" "known r (put_jobs w js) = known r w"
  "known r (put_docs w ds) = known r w"
  by (simp_all add: known_def)

definition scan_world :: "Reconciler \<Rightarrow> int \<Rightarrow> scanned list \<Rightarrow> world \<Rightarrow> world" where
  "scan_world r epoch obs w =
     (case scan_effect r epoch (w_db w) obs (db_obs (w_db w)) of
        (rows, js) \<Rightarrow> put_jobs (put_obs w rows) js)"

lemma scan_world_Nil [simp]: "scan_world r epoch [] w = w"
  by (simp add: scan_world_def put_obs_def)

lemma scan_world_quiet [simp]:
  "quiet (scan_world r epoch obs w) = quiet w" "known r (scan_world r epoch obs w) = known r w"
  "w_seqs (scan_world r epoch obs w) = w_seqs w"
  by (simp_all add: scan_world_def split: prod.splits)

lemma put_jobs_put_obs: "put_jobs (put_obs (put_jobs (put_obs w a) js) b) ks = put_jobs (put_obs w b) (js @ ks)"
  by (simp add: put_jobs_def put_obs_def)

lemma scan_world_Cons:
  "scan_world r epoch (ob # obs) w = scan_world r epoch obs
     (put_jobs (put_obs w (marks r epoch (w_db w) ob (db_obs (w_db w)))) (queues r epoch (w_db w) ob (db_obs (w_db w))))"
proof -
  let ?rows = "marks r epoch (w_db w) ob (db_obs (w_db w))" and ?js = "queues r epoch (w_db w) ob (db_obs (w_db w))"
  let ?v = "put_jobs (put_obs w ?rows) ?js"
  obtain rows js where e: "scan_effect r epoch (w_db w) obs ?rows = (rows, js)"
    by (cases "scan_effect r epoch (w_db w) obs ?rows")
  have "scan_effect r epoch (w_db ?v) obs ?rows = scan_effect r epoch (w_db w) obs ?rows"
    by (rule scan_effect_same_db) (simp_all del: w_db_puts)
  with e have e': "scan_effect r epoch (w_db ?v) obs (db_obs (w_db ?v)) = (rows, js)" by simp
  show ?thesis unfolding scan_world_def scan_effect.simps e e' prod.case put_jobs_put_obs by simp
qed

lemma scan_world_append:
  "scan_world r epoch (xs @ ys) w = scan_world r epoch ys (scan_world r epoch xs w)"
  by (induction xs arbitrary: w) (simp_all add: scan_world_Cons)

lemma observe_batch_run:
  "quiet w \<Longrightarrow> known r w \<Longrightarrow> eq_bound (rc_enqueuer r) \<Longrightarrow>
     \<exists>c. observe_batch r epoch obs counts w = (Inr c, scan_world r epoch obs w)"
proof (induction obs arbitrary: w counts)
  case Nil
  then show ?case by (simp add: ret_def)
next
  case (Cons ob obs)
  obtain seen queued where c: "counts = (seen, queued)" by (cases counts)
  show ?case
    unfolding c observe_batch.simps bind_def observeScanned_run [OF Cons.prems] scan_world_Cons prod.case sum.case
    by (rule Cons.IH) (use Cons.prems in simp_all)
qed

lemma scan_loop_run:
  "quiet w \<Longrightarrow> known r w \<Longrightarrow> eq_bound (rc_enqueuer r) \<Longrightarrow> ScanError \<notin> set items \<Longrightarrow>
     \<exists>c. scan_loop r epoch items counts w = (Inr c, scan_world r epoch (scan_paths items) w)"
proof (induction items arbitrary: w counts rule: scan_paths.induct)
  case 1
  then show ?case by (simp add: ret_def)
next
  case (2 obs items)
  from observe_batch_run [OF "2.prems"(1-3)]
  obtain c where c: "observe_batch r epoch obs counts w = (Inr c, scan_world r epoch obs w)" by blast
  have "\<exists>c'. scan_loop r epoch items c (scan_world r epoch obs w) =
      (Inr c', scan_world r epoch (scan_paths items) (scan_world r epoch obs w))"
    by (rule "2.IH") (use "2.prems" in simp_all)
  then show ?case by (simp add: bind_def c scan_world_append)
qed simp_all

section \<open>What carries the epoch\<close>

fun marked :: "Reconciler \<Rightarrow> scanned list \<Rightarrow> (int \<times> string) list" where
  "marked r [] = []"
| "marked r (ob # obs) =
     (case mountpointFor r (fst ob) of
        None \<Rightarrow> marked r obs | Some mp \<Rightarrow> (mp_id mp, fst ob) # marked r obs)"

lemma marked_iff:
  "(m, p) \<in> set (marked r obs) \<longleftrightarrow>
     (\<exists>ob mp. ob \<in> set obs \<and> fst ob = p \<and> mountpointFor r p = Some mp \<and> mp_id mp = m)"
  by (induction obs) (auto split: option.splits)

lemma observed_row_epoch [simp]: "o_seen_epoch (observed_row d ob) = ob_seen_epoch ob"
  by (simp add: observed_row_def obs_params_def)

lemma marks_row:
  "x \<in> set (marks r epoch d ob rows) \<longleftrightarrow>
     (if obs_key x \<in> set (marked r [ob])
      then x = observed_row d (scannedObservation (fst (obs_key x)) ob epoch) else x \<in> set rows)"
  by (auto simp: marks_def set_upsert_by split: option.splits)

lemma marks_keys: "obs_key ` set (marks r epoch d ob rows) = obs_key ` set rows \<union> set (marked r [ob])"
  by (auto simp: marks_def keys_upsert_by split: option.splits)

lemma marked_Cons: "set (marked r (ob # obs)) = set (marked r [ob]) \<union> set (marked r obs)"
  by (auto split: option.splits)

lemma scan_effect_keys:
  "obs_key ` set (fst (scan_effect r epoch d obs rows)) = obs_key ` set rows \<union> set (marked r obs)"
proof (induction obs arbitrary: rows)
  case (Cons ob obs)
  have "fst (scan_effect r epoch d (ob # obs) rows) = fst (scan_effect r epoch d obs (marks r epoch d ob rows))"
    by (simp split: prod.splits)
  with Cons.IH [of "marks r epoch d ob rows"] show ?case
    unfolding marked_Cons [of r ob obs] marks_keys by auto
qed simp

lemma scan_effect_rows:
  assumes "x \<in> set (fst (scan_effect r epoch d obs rows))"
  shows "if obs_key x \<in> set (marked r obs) then o_seen_epoch x = epoch else x \<in> set rows"
  using assms
proof (induction obs arbitrary: rows)
  case (Cons ob obs)
  have "fst (scan_effect r epoch d (ob # obs) rows) = fst (scan_effect r epoch d obs (marks r epoch d ob rows))"
    by (simp split: prod.splits)
  with Cons have ih: "if obs_key x \<in> set (marked r obs) then o_seen_epoch x = epoch
      else x \<in> set (marks r epoch d ob rows)" by simp
  have mk: "o_seen_epoch x = epoch"
    if "x \<in> set (marks r epoch d ob rows)" "obs_key x \<in> set (marked r [ob])"
  proof -
    from that have "x = observed_row d (scannedObservation (fst (obs_key x)) ob epoch)"
      by (simp only: marks_row if_True)
    then have "o_seen_epoch x = o_seen_epoch (observed_row d (scannedObservation (fst (obs_key x)) ob epoch))"
      by (rule arg_cong)
    then show ?thesis by simp
  qed
  have old: "x \<in> set rows"
    if "x \<in> set (marks r epoch d ob rows)" "obs_key x \<notin> set (marked r [ob])"
    using that by (simp only: marks_row if_False)
  show ?case
  proof (cases "obs_key x \<in> set (marked r obs)")
    case True
    with ih show ?thesis by (simp add: marked_Cons [of r ob obs] del: marked.simps)
  next
    case False
    with ih mk old show ?thesis by (auto simp: marked_Cons [of r ob obs] simp del: marked.simps)
  qed
qed simp

lemma scan_effect_keeps:
  assumes "x \<in> set rows" "obs_key x \<notin> set (marked r obs)"
  shows "x \<in> set (fst (scan_effect r epoch d obs rows))"
  using assms
proof (induction obs arbitrary: rows)
  case (Cons ob obs)
  have eq: "fst (scan_effect r epoch d (ob # obs) rows) = fst (scan_effect r epoch d obs (marks r epoch d ob rows))"
    by (simp split: prod.splits)
  have out: "obs_key x \<notin> set (marked r [ob])" "obs_key x \<notin> set (marked r obs)"
    using Cons.prems(2) unfolding marked_Cons [of r ob obs] by blast+
  have "x \<in> set (marks r epoch d ob rows)"
    using Cons.prems(1) out(1) by (simp add: marks_row del: marked.simps)
  from Cons.IH [OF this out(2)] show ?case unfolding eq .
qed simp

section \<open>The sweep\<close>

lemma swept_iff:
  "swept mp root (subtree_prefix root) epoch x \<longleftrightarrow>
     o_mountpoint_id x = mp \<and> contains root (o_path x) \<and> o_seen_epoch x \<noteq> epoch"
  by (auto simp: swept_def contains_def)

text \<open>A fresh epoch tells exactly the rows the walk did not reach.\<close>

lemma swept_after_scan:
  assumes fresh: "\<And>x. x \<in> set rows \<Longrightarrow> o_seen_epoch x < epoch"
    and x: "x \<in> set (fst (scan_effect r epoch d obs rows))"
  shows "swept mp root (subtree_prefix root) epoch x \<longleftrightarrow>
    o_mountpoint_id x = mp \<and> contains root (o_path x) \<and> obs_key x \<notin> set (marked r obs)"
  using scan_effect_rows [OF x] fresh [of x] by (auto simp: swept_iff split: if_splits)

lemma tombstone_gone_run:
  "quiet w \<Longrightarrow> eq_bound (rc_enqueuer r) \<Longrightarrow> tombstone_gone r mp path w =
     (Inr (), put_jobs (put_docs w (update_where (doc_at mp path) (tombstone (db_now (w_db w))) (db_docs (w_db w))))
       (case List.find (doc_at mp path) (db_docs (w_db w)) of None \<Rightarrow> [] | Some x \<Rightarrow> invalidation_of x))"
  by (simp add: tombstone_gone_def bind_def TombstoneDocumentByPath_run invalidate_run invalidation_of_def
      ret_def split: option.splits)

definition stood_at :: "int \<Rightarrow> string list \<Rightarrow> doc_row \<Rightarrow> bool" where
  "stood_at mp paths x \<longleftrightarrow> d_mountpoint_id x = mp \<and> d_path x \<in> set paths \<and> live x"

lemma stood_at_Cons:
  "update_where (stood_at mp ps) (tombstone t) (update_where (doc_at mp p) (tombstone t) rows) =
     update_where (stood_at mp (p # ps)) (tombstone t) rows"
proof -
  have dead: "\<not> stood_at mp ps (tombstone t x)" for x by (simp add: stood_at_def tombstone_def live_def)
  have "stood_at mp (p # ps) x \<longleftrightarrow> doc_at mp p x \<or> stood_at mp ps x" for x
    by (auto simp: stood_at_def doc_at_def)
  then show ?thesis using dead by (simp add: update_where_def)
qed

lemma tombstone_all_run:
  assumes "quiet w" "eq_bound (rc_enqueuer r)"
  shows "\<exists>js. for_each gone (tombstone_gone r mp) w =
    (Inr (), put_jobs (put_docs w (update_where (stood_at mp gone) (tombstone (db_now (w_db w))) (db_docs (w_db w)))) js)"
  using assms
proof (induction gone arbitrary: w)
  case Nil
  have "update_where (stood_at mp []) (tombstone (db_now (w_db w))) (db_docs (w_db w)) = db_docs (w_db w)"
    by (rule update_where_none) (simp add: stood_at_def)
  then show ?case by (intro exI [of _ "[]"]) (simp add: ret_def put_docs_def)
next
  case (Cons p ps)
  let ?js = "case List.find (doc_at mp p) (db_docs (w_db w)) of None \<Rightarrow> [] | Some x \<Rightarrow> invalidation_of x"
  let ?v = "put_jobs (put_docs w (update_where (doc_at mp p) (tombstone (db_now (w_db w))) (db_docs (w_db w)))) ?js"
  have "quiet ?v" using Cons.prems by simp
  from Cons.IH [OF this Cons.prems(2)] obtain js where
    js: "for_each ps (tombstone_gone r mp) ?v = (Inr (), put_jobs (put_docs ?v
      (update_where (stood_at mp ps) (tombstone (db_now (w_db ?v))) (db_docs (w_db ?v)))) js)" by blast
  have "put_jobs (put_docs (put_jobs (put_docs w a) ks) b) ls = put_jobs (put_docs w b) (ks @ ls)" for a b ks ls
    by (simp add: put_jobs_def put_docs_def)
  then show ?case
    using Cons.prems js
    by (intro exI [of _ "?js @ js"])
      (simp add: andThen_def bind_def tombstone_gone_run stood_at_Cons)
qed

section \<open>One root\<close>

lemma NextScanEpoch_run [tx_run]:
  "quiet w \<Longrightarrow> tx_NextScanEpoch w =
     (Inr (sq_epoch (w_seqs w) + 1), w\<lparr>w_seqs := (w_seqs w)\<lparr>sq_epoch := sq_epoch (w_seqs w) + 1\<rparr>\<rparr>)"
  by (simp add: tx_NextScanEpoch_def stmt_quiet exec_sql_def q_NextScanEpoch_def)

definition scan_rows :: "Reconciler \<Rightarrow> world \<Rightarrow> scan_item list \<Rightarrow> obs_row list" where
  "scan_rows r w items =
     fst (scan_effect r (sq_epoch (w_seqs w) + 1) (w_db w) (scan_paths items) (db_obs (w_db w)))"

definition scan_jobs :: "Reconciler \<Rightarrow> world \<Rightarrow> scan_item list \<Rightarrow> job_insert list" where
  "scan_jobs r w items =
     snd (scan_effect r (sq_epoch (w_seqs w) + 1) (w_db w) (scan_paths items) (db_obs (w_db w)))"

definition sweeps :: "Mountpoint \<Rightarrow> world \<Rightarrow> obs_row \<Rightarrow> bool" where
  "sweeps mp w = swept (mp_id mp) (mp_root mp) (subtree_prefix (mp_root mp)) (sq_epoch (w_seqs w) + 1)"

lemma reconcileRoot_run:
  assumes w: "quiet w" and known: "known r w" and bound: "eq_bound (rc_enqueuer r)"
    and items: "scans (mp_root mp) = Some items" "ScanError \<notin> set items"
  shows "\<exists>c w' js. reconcileRoot r scans mp w = (Inr c, w') \<and> quiet w' \<and>
    w_seqs w' = (w_seqs w)\<lparr>sq_epoch := sq_epoch (w_seqs w) + 1\<rparr> \<and>
    w_db w' = (w_db w)\<lparr>db_obs := filter (\<lambda>x. \<not> sweeps mp w x) (scan_rows r w items),
      db_docs := update_where (stood_at (mp_id mp) (map o_path (filter (sweeps mp w) (scan_rows r w items))))
        (tombstone (db_now (w_db w))) (db_docs (w_db w)),
      db_outbox := db_outbox (w_db w) @ scan_jobs r w items @ js\<rparr>"
proof -
  let ?e = "sq_epoch (w_seqs w) + 1" and ?obs = "scan_paths items"
  let ?v = "w\<lparr>w_base := w_db w, w_seqs := (w_seqs w)\<lparr>sq_epoch := ?e\<rparr>\<rparr>"
  let ?rows = "scan_rows r w items"
  let ?gone = "map o_path (filter (sweeps mp w) ?rows)"
  have v: "quiet ?v" "known r ?v" using w known by (simp_all add: known_def quiet_def)
  from scan_loop_run [OF v bound items(2)]
  obtain c where c: "scan_loop r ?e items (0, 0) ?v = (Inr c, scan_world r ?e ?obs ?v)" by blast
  obtain seen queued where sq: "c = (seen, queued)" by (cases c)
  have sw: "scan_world r ?e ?obs ?v = put_jobs (put_obs ?v ?rows) (scan_jobs r w items)"
    by (simp add: scan_world_def scan_rows_def scan_jobs_def split: prod.splits)
  let ?u = "put_jobs (put_obs ?v (filter (\<lambda>x. \<not> sweeps mp w x) ?rows)) (scan_jobs r w items)"
  have sweep: "tx_SweepScanEpoch (mp_id mp) (mp_root mp) ?e (put_jobs (put_obs ?v ?rows) (scan_jobs r w items)) =
      (Inr ?gone, ?u)"
    using v by (simp add: SweepScanEpoch_run sweeps_def put_jobs_def put_obs_def)
  have u: "quiet ?u" using v by simp
  from tombstone_all_run [OF u bound] obtain js where
    js: "for_each ?gone (tombstone_gone r (mp_id mp)) ?u = (Inr (), put_jobs (put_docs ?u
      (update_where (stood_at (mp_id mp) ?gone) (tombstone (db_now (w_db ?u))) (db_docs (w_db ?u)))) js)" by blast
  let ?w' = "put_jobs (put_docs ?u (update_where (stood_at (mp_id mp) ?gone)
     (tombstone (db_now (w_db ?u))) (db_docs (w_db ?u)))) js"
  let ?body = "bind tx_NextScanEpoch (\<lambda>epoch. bind (scan_loop r epoch items (0, 0)) (\<lambda>(seen, queued).
    bind (tx_SweepScanEpoch (mp_id mp) (mp_root mp) epoch) (\<lambda>gone.
    andThen (for_each gone (tombstone_gone r (mp_id mp))) (ret (seen, queued, length gone)))))"
  have base: "quiet (w\<lparr>w_base := w_db w\<rparr>)" using w by simp
  have body: "?body (w\<lparr>w_base := w_db w\<rparr>) = (Inr (seen, queued, length ?gone), ?w')"
    using js by (simp add: bind_def andThen_def NextScanEpoch_run [OF base] c sq sw sweep ret_def)
  have run: "reconcileRoot r scans mp w = (Inr (seen, queued, length ?gone), ?w'\<lparr>w_base := w_db ?w'\<rparr>)"
    unfolding reconcileRoot_def items(1) option.case
    by (rule InTx_quiet_commit [where fn = ?body and w = w and w' = ?w' and x = "(seen, queued, length ?gone)",
        OF w body]) (use w in simp)
  show ?thesis
    by (intro exI [of _ "(seen, queued, length ?gone)"] exI [of _ "?w'\<lparr>w_base := w_db ?w'\<rparr>"] exI [of _ js] conjI run)
      (use w in simp_all)
qed

end
