(* ===== verification/Sample.thy ===== *)
theory Sample
  imports Rescan
begin

text \<open>
  A small deployment the witnesses run the program on: one watched root with two indexed
  documents, one of them promoted to a content version.
\<close>

definition sample_mp :: Mountpoint where "sample_mp = \<lparr>mp_id = 1, mp_root = ''/d''\<rparr>"

definition sample_filter :: doc_filter where
  "sample_filter = \<lparr>allowed = {''pdf'', ''txt''}, uni_lower = (\<lambda>s. s)\<rparr>"

definition sample_rec :: Reconciler where
  "sample_rec = New (Bind (NewEnqueuer 5)) sample_filter [sample_mp] 0"

definition sample_obs :: "string \<Rightarrow> int \<Rightarrow> bool \<Rightarrow> obs_row" where
  "sample_obs path ino isDir =
     \<lparr>o_mountpoint_id = 1, o_path = path, o_size = 10, o_mode = 0, o_mtime = Some 7, o_ino = ino,
      o_dev = 1, o_is_dir = isDir, o_seen_epoch = 1, o_observed_at = 50\<rparr>"

definition sample_doc :: "int \<Rightarrow> string \<Rightarrow> int \<Rightarrow> int option \<Rightarrow> doc_row" where
  "sample_doc did path ino cv =
     \<lparr>d_id = did, d_mountpoint_id = 1, d_path = path, d_dev = 1, d_ino = ino, d_current_cv = cv,
      d_deleted_at = None, d_first_seen_at = 50, d_updated_at = 50\<rparr>"

definition sample_cv :: "int \<Rightarrow> string \<Rightarrow> cv_row" where
  "sample_cv i hash = \<lparr>cv_id = i, cv_content_hash = hash, cv_size_bytes = 10, cv_created_at = 50\<rparr>"

definition sample_db :: database where
  "sample_db =
     \<lparr>db_now = 100,
      db_mountpoints = [\<lparr>m_id = 1, m_root_path = ''/d'', m_enabled = True, m_created_at = 1, m_updated_at = 1\<rparr>],
      db_obs = [sample_obs ''/d/a.pdf'' 11 False, sample_obs ''/d/s'' 12 True, sample_obs ''/d/s/b.pdf'' 13 False],
      db_watermark = Some 5,
      db_cvs = [sample_cv 1 ''aa''],
      db_docs = [sample_doc 1 ''/d/a.pdf'' 11 (Some 1), sample_doc 2 ''/d/s/b.pdf'' 13 None],
      db_extracted = [], db_thumbs = [], db_outbox = []\<rparr>"

definition sample_seqs :: seqs where
  "sample_seqs = \<lparr>sq_mountpoint = 1, sq_epoch = 1, sq_cv = 1, sq_doc = 2, sq_thumb = 0\<rparr>"

definition sample_world :: "step list \<Rightarrow> world" where
  "sample_world script =
     \<lparr>w_db = sample_db, w_base = sample_db, w_seqs = sample_seqs, w_script = script, w_clock = 1000\<rparr>"

definition sample_event :: "64 word \<Rightarrow> EventKind \<Rightarrow> string \<Rightarrow> string \<Rightarrow> bool \<Rightarrow> FileEvent" where
  "sample_event seq kind path oldPath isDir =
     \<lparr>ev_seq = seq, ev_kind = kind, ev_path = path, ev_old_path = oldPath, ev_is_dir = isDir,
      ev_stat = Some \<lparr>si_size = 10, si_mode = 420, si_ino = 11, si_dev = 1, si_mtime = Some 7000\<rparr>\<rparr>"

lemmas sample_row_defs = sample_obs_def sample_doc_def sample_cv_def
lemmas sample_defs = sample_mp_def sample_filter_def sample_rec_def sample_db_def sample_seqs_def
  sample_world_def sample_event_def New_def Bind_def NewEnqueuer_def

lemma sample_world_fields [simp]:
  "w_db (sample_world s) = sample_db" "w_base (sample_world s) = sample_db"
  "w_seqs (sample_world s) = sample_seqs" "w_script (sample_world s) = s" "w_clock (sample_world s) = 1000"
  by (simp_all add: sample_world_def)

lemma sample_rec_fields [simp]:
  "eq_bound (rc_enqueuer sample_rec)" "rc_mountpoints sample_rec = [sample_mp]"
  "rc_filter sample_rec = sample_filter" "mp_id sample_mp = 1" "mp_root sample_mp = ''/d''"
  by (simp_all add: sample_defs)

lemma sample_db_ok: "db_ok sample_db sample_seqs"
  by (simp add: db_ok_defs sample_db_def sample_seqs_def sample_row_defs obs_key_def live_key_def live_def ids_ok_def)

lemma sample_quiet [simp]: "quiet (sample_world [])" "calm (sample_world [])"
  by (simp_all add: quiet_def calm_def)

lemma sample_known [simp]: "known sample_rec (sample_world s)"
  by (simp add: known_def sample_db_def)

lemma sample_holds: "(\<And>f. Interfere f \<notin> set s) \<Longrightarrow> holds db_ok (sample_world s)"
  by (simp add: holds_def rely_def sample_db_ok)

end
