(* ===== verification/Render_Service.thy ===== *)
theory Render_Service
  imports Service_Refs Gahaku_Client Sample "HOL-Library.Sublist"
begin

text \<open>
  Full-size page renders (\<open>internal/service/render.go\<close>): the handler streams an info frame and
  then each slice the renderer produces.  The response stream is a list of the answers its
  sends will give (every one after the listed succeeds) and of the frames that went out.  The
  renderer's side of a request is a function of the request.
\<close>

section \<open>Errors\<close>

definition renderCode :: "grpc_code \<Rightarrow> code" where
  "renderCode c = (case c of
      GrpcOutOfRange \<Rightarrow> CodeOutOfRange
    | GrpcInvalidArgument \<Rightarrow> CodeInvalidArgument
    | GrpcResourceExhausted \<Rightarrow> CodeResourceExhausted
    | GrpcUnavailable \<Rightarrow> CodeUnavailable
    | GrpcDeadlineExceeded \<Rightarrow> CodeDeadlineExceeded
    | GrpcCanceled \<Rightarrow> CodeCanceled
    | GrpcOther \<Rightarrow> CodeInternal)"

fun renderError :: "render_error \<Rightarrow> code" where
  "renderError (ReConnect c) = c"
| "renderError ReNotConfigured = CodeUnavailable"
| "renderError ReContextCanceled = CodeCanceled"
| "renderError ReContextDeadline = CodeDeadlineExceeded"
| "renderError (ReStatus c) = renderCode c"
| "renderError ReOther = CodeInternal"

section \<open>The response stream\<close>

datatype frame =
    InfoFrame DocumentRef u32 ImageFormat ImageSize
  | ChunkFrame string

record response_stream =
  rs_answers :: "code option list"
  rs_frames :: "frame list"

definition stream_send :: "frame \<Rightarrow> response_stream \<Rightarrow> code option \<times> response_stream" where
  "stream_send f s = (case rs_answers s of
      [] \<Rightarrow> (None, s\<lparr>rs_frames := rs_frames s @ [f]\<rparr>)
    | None # as \<Rightarrow> (None, \<lparr>rs_answers = as, rs_frames = rs_frames s @ [f]\<rparr>)
    | Some c # as \<Rightarrow> (Some c, s\<lparr>rs_answers := as\<rparr>))"

text \<open>The callback given to the renderer's client.\<close>

definition forward :: "response_stream chunk_fn" where
  "forward body s = (case stream_send (ChunkFrame body) s of (r, s') \<Rightarrow> (map_option ReConnect r, s'))"

section \<open>The handler\<close>

text \<open>\<open>acquire\<close>: whether the request's context lasts until a slot is free.\<close>

definition limit_acquire :: "bool \<Rightarrow> code option" where
  "limit_acquire slot = (if slot then None else Some CodeCanceled)"

record RenderPageRequest =
  rp_ref :: DocumentRef
  rp_page :: u32
  rp_format :: ImageFormat
  rp_max_size :: "ImageSize option"

text \<open>What surrounds one request.\<close>

record render_env =
  re_decode :: json_fields
  re_configured :: bool
  re_slot :: bool
  re_renderer :: "PageRequest \<Rightarrow> render_io"

definition render_prelude ::
  "render_env \<Rightarrow> RenderPageRequest \<Rightarrow> (GetDocumentRow \<times> imageFormat \<times> string) handler" where
  "render_prelude env req =
     hbind (resolveRef (rp_ref req)) (\<lambda>row.
     hbind (hlift (checkPage (re_decode env) (rp_page req) row)) (\<lambda>_.
     hbind (hlift (resolveFormat (rp_format req) defaultRenderFormat)) (\<lambda>format.
     hbind (sourcePath row) (\<lambda>source. hret (row, format, source)))))"

definition page_request :: "string \<Rightarrow> u32 \<Rightarrow> imageFormat \<Rightarrow> imageBounds \<Rightarrow> PageRequest" where
  "page_request source page format bounds =
     \<lparr>pq_source = source, pq_page = page, pq_format = if_rendererFmt format,
      pq_max_width = ib_width bounds, pq_max_height = ib_height bounds\<rparr>"

definition RenderPage :: "render_env \<Rightarrow> RenderPageRequest \<Rightarrow> world \<Rightarrow> response_stream \<Rightarrow>
    code option \<times> response_stream \<times> world" where
  "RenderPage env req w s =
     (case render_prelude env req w of
        (Inl c, w') \<Rightarrow> (Some c, s, w')
      | (Inr (row, format, source), w') \<Rightarrow>
          (let bounds = renderBounds (rp_max_size req) in
           case stream_send (InfoFrame (currentRef row) (rp_page req) (if_proto format) (bounds_message bounds)) s of
             (Some c, s1) \<Rightarrow> (Some c, s1, w')
           | (None, s1) \<Rightarrow>
               (case limit_acquire (re_slot env) of
                  Some c \<Rightarrow> (Some c, s1, w')
                | None \<Rightarrow>
                    (let pr = page_request source (rp_page req) format bounds in
                     case RenderPage_client (re_configured env) (re_renderer env pr) pr forward s1 of
                       (Some e, s2, _) \<Rightarrow> (Some (renderError e), s2, w')
                     | (None, s2, _) \<Rightarrow> (None, s2, w')))))"

section \<open>Facts\<close>

lemma hbind_Inr:
  "hbind h f w = (Inr y, w'') \<longleftrightarrow> (\<exists>x w'. h w = (Inr x, w') \<and> f x w' = (Inr y, w''))"
  by (auto simp: hbind_def split: prod.splits sum.splits)

lemma hret_eq: "hret x w = (r, w') \<longleftrightarrow> r = Inr x \<and> w' = w"
  by (auto simp: hret_def)

lemma hlift_eq: "hlift x w = (r, w') \<longleftrightarrow> r = x \<and> w' = w"
  by (auto simp: hlift_def)

lemmas h_inv = hbind_Inr hret_eq hlift_eq

text \<open>The frames of a stream only grow, and a slice that failed to go out is not among them.\<close>

lemma stream_send_frames:
  "stream_send f s = (r, s') \<Longrightarrow> rs_frames s' = rs_frames s @ (if r = None then [f] else [])"
  by (auto simp: stream_send_def split: list.splits option.splits)

lemma forward_frames:
  "forward body s = (r, s') \<Longrightarrow> rs_frames s' = rs_frames s @ (if r = None then [ChunkFrame body] else [])"
  by (auto simp: forward_def dest: stream_send_frames split: prod.splits)

lemma forward_error: "forward body s = (Some e, s') \<Longrightarrow> \<exists>c. e = ReConnect c"
  by (auto simp: forward_def split: prod.splits)

text \<open>What a received stream forwards: a first part of the slices, and all of them without an error.\<close>

lemma recv_loop_forwards:
  "recv_loop rs forward s = (e, s') \<Longrightarrow>
     \<exists>n. rs_frames s' = rs_frames s @ map ChunkFrame (take n (received rs)) \<and>
       (e = None \<longrightarrow> recv_result rs = None \<and> length (received rs) \<le> n)"
proof (induction rs arbitrary: s rule: received.induct)
  case (4 body rs)
  show ?case
  proof (cases "body = []")
    case True
    with 4 show ?thesis by auto
  next
    case False
    obtain r s1 where f: "forward body s = (r, s1)" by (cases "forward body s")
    note s1 = forward_frames [OF f]
    show ?thesis
    proof (cases r)
      case None
      with 4(2) False f 4(3) obtain n where
        "rs_frames s' = rs_frames s1 @ map ChunkFrame (take n (received rs))"
        "e = None \<longrightarrow> recv_result rs = None \<and> length (received rs) \<le> n" by auto
      with None s1 False show ?thesis by (intro exI [of _ "Suc n"]) auto
    next
      case (Some x)
      with 4(3) False f s1 show ?thesis by (intro exI [of _ 0]) auto
    qed
  qed
qed auto

lemma client_forwards:
  "RenderPage_client conf io req forward s = (e, s', msgs) \<Longrightarrow>
     \<exists>n. rs_frames s' = rs_frames s @ map ChunkFrame (take n (received (io_recvs io))) \<and>
       (e = None \<longrightarrow> recv_result (io_recvs io) = None \<and> length (received (io_recvs io)) \<le> n)"
  using recv_loop_forwards [of "io_recvs io" s e s']
  by (auto simp: RenderPage_client_def intro: exI [of _ 0]
      split: if_splits opened.splits option.splits prod.splits bool.splits)

lemma received_nonempty: "c \<in> set (received rs) \<Longrightarrow> c \<noteq> []"
  by (induction rs rule: received.induct) (auto split: if_splits)

lemma render_prelude_Inr:
  assumes "render_prelude env req w = (Inr (row, format, source), w')"
  obtains w1 where "resolveRef (rp_ref req) w = (Inr row, w1)"
    "checkPage (re_decode env) (rp_page req) row = Inr ()"
    "resolveFormat (rp_format req) defaultRenderFormat = Inr format"
    "sourcePath row w1 = (Inr source, w')"
  using assms by (auto simp: render_prelude_def h_inv)

section \<open>The frames of a stream\<close>

text \<open>
  What a client may see of one render whose renderer answers \<open>rs\<close>: nothing, with an error, or
  an info frame and a first part of the slices.
\<close>

definition frames_ok :: "RenderPageRequest \<Rightarrow> recv list \<Rightarrow> code option \<Rightarrow> frame list \<Rightarrow> bool" where
  "frames_ok req rs r frames \<longleftrightarrow> frames = [] \<and> r \<noteq> None \<or>
     (\<exists>did fmt slices.
        frames = InfoFrame \<lparr>ref_document_id = FormatInt did,
            ref_content_version_id = ref_content_version_id (rp_ref req)\<rparr> (rp_page req) fmt
            (bounds_message (renderBounds (rp_max_size req))) # map ChunkFrame slices \<and>
        prefix slices (received rs) \<and> [] \<notin> set slices \<and>
        (r = None \<longrightarrow> slices = received rs \<and> recv_result rs = None))"

lemma frames_ok_prefix:
  assumes "frames = InfoFrame \<lparr>ref_document_id = FormatInt did,
      ref_content_version_id = ref_content_version_id (rp_ref req)\<rparr> (rp_page req) fmt
      (bounds_message (renderBounds (rp_max_size req))) # map ChunkFrame (take n (received rs))"
    and "r = None \<longrightarrow> recv_result rs = None \<and> length (received rs) \<le> n"
  shows "frames_ok req rs r frames"
proof -
  have "[] \<notin> set (take n (received rs))" using received_nonempty in_set_takeD by metis
  with assms show ?thesis
    unfolding frames_ok_def
    by (intro disjI2 exI [of _ did] exI [of _ fmt] exI [of _ "take n (received rs)"])
      (auto simp: take_is_prefix)
qed

text \<open>The handler after its checks.\<close>

lemma RenderPage_after_prelude:
  assumes "render_prelude env req w = (Inr (row, format, source), w1)"
    and "RenderPage env req w \<lparr>rs_answers = answers, rs_frames = []\<rparr> = (r, s', w')"
  shows "frames_ok req (io_recvs (re_renderer env
     (page_request source (rp_page req) format (renderBounds (rp_max_size req))))) r (rs_frames s')"
proof -
  let ?s = "\<lparr>rs_answers = answers, rs_frames = []\<rparr>" and ?bounds = "renderBounds (rp_max_size req)"
  let ?info = "InfoFrame (currentRef row) (rp_page req) (if_proto format) (bounds_message ?bounds)"
  let ?pr = "page_request source (rp_page req) format ?bounds"
  let ?io = "re_renderer env ?pr"
  from assms(1) obtain w0 where "resolveRef (rp_ref req) w = (Inr row, w0)"
    using render_prelude_Inr by metis
  from resolveRef_Inr(2) [OF this] have ref: "currentRef row =
      \<lparr>ref_document_id = FormatInt (gd_id row), ref_content_version_id = ref_content_version_id (rp_ref req)\<rparr>"
    by (simp add: currentRef_def)
  obtain r1 s1 where send: "stream_send ?info ?s = (r1, s1)" by (cases "stream_send ?info ?s")
  note s1 = stream_send_frames [OF send]
  obtain e s2 msgs where client: "RenderPage_client (re_configured env) ?io ?pr forward s1 = (e, s2, msgs)"
    by (metis prod_cases3)
  obtain n where n: "rs_frames s2 = rs_frames s1 @ map ChunkFrame (take n (received (io_recvs ?io)))"
    "e = None \<longrightarrow> recv_result (io_recvs ?io) = None \<and> length (received (io_recvs ?io)) \<le> n"
    using client_forwards [OF client] by blast
  note run = assms(2) [unfolded RenderPage_def Let_def assms(1), simplified, unfolded send, simplified]
  consider c where "r1 = Some c" | "r1 = None" "\<not> re_slot env" | "r1 = None" "re_slot env"
    by (cases r1) auto
  then show ?thesis
  proof cases
    case 1
    with run s1 show ?thesis by (auto simp: frames_ok_def)
  next
    case 2
    with run s1 ref show ?thesis
      by (intro frames_ok_prefix [where n = 0]) (auto simp: limit_acquire_def)
  next
    case 3
    with run client have "r = map_option renderError e" "s' = s2"
      by (auto simp: limit_acquire_def split: option.splits)
    with 3 s1 ref n show ?thesis by (intro frames_ok_prefix [where n = n]) auto
  qed
qed

text \<open>
  C33: whatever the database, the renderer and the client's connection do, what a render sends
  is nothing, or one info frame that names the content version the request asked for, then
  nonempty slices of the renderer's output in its order; a call without an error sent all of
  them, and the renderer had ended its stream without an error.
\<close>

theorem RenderPage_frames:
  assumes run: "RenderPage env req w \<lparr>rs_answers = answers, rs_frames = []\<rparr> = (r, s', w')"
  shows "\<exists>source format. frames_ok req (io_recvs (re_renderer env
     (page_request source (rp_page req) format (renderBounds (rp_max_size req))))) r (rs_frames s')"
proof -
  obtain p w1 where pre: "render_prelude env req w = (p, w1)" by (cases "render_prelude env req w")
  show ?thesis
  proof (cases p)
    case (Inl c)
    with pre run show ?thesis by (auto simp: RenderPage_def frames_ok_def)
  next
    case (Inr x)
    with pre RenderPage_after_prelude [OF _ run] show ?thesis by (cases x) auto
  qed
qed

definition sample_render_io :: render_io where
  "sample_render_io = \<lparr>io_source = Opened [ReadEOF ''%PDF''], io_stream = None, io_sends = [],
     io_status = None, io_close = True, io_recvs = [RecvChunk ''AB'', RecvOther, RecvChunk ''C'']\<rparr>"

definition sample_render_env :: render_env where
  "sample_render_env = \<lparr>re_decode = (\<lambda>_. None), re_configured = True, re_slot = True,
     re_renderer = (\<lambda>_. sample_render_io)\<rparr>"

definition sample_render_request :: RenderPageRequest where
  "sample_render_request = \<lparr>rp_ref = \<lparr>ref_document_id = ''1'', ref_content_version_id = ''aa''\<rparr>,
     rp_page = 1, rp_format = IMAGE_FORMAT_UNSPECIFIED, rp_max_size = None\<rparr>"

lemma RenderPage_frames_witness:
  "let run = RenderPage sample_render_env sample_render_request (sample_world [])
         \<lparr>rs_answers = [], rs_frames = []\<rparr>
   in fst run = None \<and> length (rs_frames (fst (snd run))) = 3 \<and>
      (\<exists>source format. frames_ok sample_render_request (io_recvs (re_renderer sample_render_env
         (page_request source 1 format (renderBounds None)))) None (rs_frames (fst (snd run))))"
proof -
  let ?run = "RenderPage sample_render_env sample_render_request (sample_world [])
     \<lparr>rs_answers = [], rs_frames = []\<rparr>"
  have e: "fst ?run = None \<and> length (rs_frames (fst (snd ?run))) = 3" by code_simp
  then obtain s' w' where run: "?run = (None, s', w')" by (metis prod_cases3 fst_conv)
  from RenderPage_frames [OF run] e run show ?thesis
    by (simp add: Let_def sample_render_request_def)
qed

end
