(* ===== verification/Thumbnail_Queries.thy ===== *)
theory Thumbnail_Queries
  imports Schema_Invariant "HOL-Library.Product_Lexorder"
begin

text \<open>
  The statements of \<open>internal/store/sqlcgen/thumbnails.sql.go\<close>: the accounting of the
  thumbnail cache.  A row with \<open>pending_delete_at\<close> set is withdrawn: no read returns it, and
  it stays until its object is gone.  An \<open>:execrows\<close> statement returns the number of rows it
  touched.
\<close>

definition withdrawn :: "th_row \<Rightarrow> bool" where
  "withdrawn r \<longleftrightarrow> th_pending_delete_at r \<noteq> None"

text \<open>\<open>pending_delete_at = COALESCE(pending_delete_at, now())\<close>.\<close>

definition withdraw :: "int \<Rightarrow> th_row \<Rightarrow> th_row" where
  "withdraw t r = r\<lparr>th_pending_delete_at :=
     Some (case th_pending_delete_at r of None \<Rightarrow> t | Some t0 \<Rightarrow> t0)\<rparr>"

definition mark_where :: "(th_row \<Rightarrow> bool) \<Rightarrow> database \<Rightarrow> database" where
  "mark_where P d = d\<lparr>db_thumbs := update_where P (withdraw (db_now d)) (db_thumbs d)\<rparr>"

section \<open>Reading and publishing an entry\<close>

definition q_GetThumbnail :: "int \<Rightarrow> int \<Rightarrow> int \<Rightarrow> int \<Rightarrow> string \<Rightarrow> th_row sql" where
  "q_GetThumbnail cv page width height format = select (\<lambda>d.
     row_or_none (List.find (\<lambda>r. th_cv_id r = cv \<and> th_page r = page \<and> th_width r = width \<and>
        th_height r = height \<and> th_format r = format \<and> \<not> withdrawn r) (db_thumbs d)))"

definition q_TouchThumbnail :: "int \<Rightarrow> unit sql" where
  "q_TouchThumbnail i d q =
     (Inr (), d\<lparr>db_thumbs := update_where (\<lambda>r. th_id r = i)
        (\<lambda>r. r\<lparr>th_last_access_at := db_now d\<rparr>) (db_thumbs d)\<rparr>, q)"

definition republished :: "string \<Rightarrow> int \<Rightarrow> int \<Rightarrow> th_row \<Rightarrow> th_row" where
  "republished okey n t r = r\<lparr>th_object_key := okey, th_size_bytes := n,
     th_last_access_at := t, th_pending_delete_at := None\<rparr>"

text \<open>
  The conflict target is the entry's key; the unique \<open>object_key\<close> and the foreign key refuse
  as usual.  The identity column draws its value before the conflict is found.
\<close>

definition q_UpsertThumbnail ::
  "int \<Rightarrow> int \<Rightarrow> int \<Rightarrow> int \<Rightarrow> string \<Rightarrow> string \<Rightarrow> int \<Rightarrow> th_row sql" where
  "q_UpsertThumbnail cv page width height format okey n d q =
     (let q' = q\<lparr>sq_thumb := sq_thumb q + 1\<rparr>;
          k = (cv, page, width, height, format);
          others = filter (\<lambda>r. thumb_key r \<noteq> k) (db_thumbs d)
      in case List.find (\<lambda>r. thumb_key r = k) (db_thumbs d) of
           Some r \<Rightarrow>
             if okey \<in> th_object_key ` set others then (Inl ErrUnique, d, q')
             else (Inr (republished okey n (db_now d) r),
                   d\<lparr>db_thumbs := update_where (\<lambda>r. thumb_key r = k)
                       (republished okey n (db_now d)) (db_thumbs d)\<rparr>, q')
         | None \<Rightarrow>
             (let r = \<lparr>th_id = sq_thumb q', th_cv_id = cv, th_page = page, th_width = width,
                       th_height = height, th_format = format, th_object_key = okey,
                       th_size_bytes = n, th_created_at = db_now d, th_last_access_at = db_now d,
                       th_pending_delete_at = None\<rparr>
              in if okey \<in> th_object_key ` set others then (Inl ErrUnique, d, q')
                 else if cv \<notin> cv_id ` set (db_cvs d) then (Inl ErrForeignKey, d, q')
                 else (Inr r, d\<lparr>db_thumbs := db_thumbs d @ [r]\<rparr>, q')))"

section \<open>Withdrawing\<close>

definition held :: "database \<Rightarrow> int \<Rightarrow> bool" where
  "held d cv \<longleftrightarrow> (\<exists>r \<in> set (db_docs d). d_current_cv r = Some cv \<and> live r)"

definition marking :: "(database \<Rightarrow> th_row \<Rightarrow> bool) \<Rightarrow> int sql" where
  "marking P d q = (Inr (int (length (filter (P d) (db_thumbs d)))), mark_where (P d) d, q)"

definition q_MarkStaleThumbnailsPendingDelete :: "int sql" where
  "q_MarkStaleThumbnailsPendingDelete = marking (\<lambda>d r. \<not> withdrawn r \<and> \<not> held d (th_cv_id r))"

definition q_MarkThumbnailsPendingDelete :: "int list \<Rightarrow> int sql" where
  "q_MarkThumbnailsPendingDelete ids = marking (\<lambda>d r. th_id r \<in> set ids)"

definition q_MarkThumbnailsPendingDeleteForStaleContentVersion :: "int \<Rightarrow> int sql" where
  "q_MarkThumbnailsPendingDeleteForStaleContentVersion cv =
     marking (\<lambda>d r. th_cv_id r = cv \<and> \<not> withdrawn r \<and> \<not> held d (th_cv_id r))"

section \<open>Draining\<close>

text \<open>A row of the drain's work list: id, object key, size.\<close>

type_synonym drain_row = "int \<times> string \<times> int"

definition withdrawal_order :: "th_row \<Rightarrow> int \<times> int" where
  "withdrawal_order r = (case th_pending_delete_at r of None \<Rightarrow> 0 | Some t \<Rightarrow> t, th_id r)"

definition q_PendingDeleteThumbnails :: "nat \<Rightarrow> drain_row list sql" where
  "q_PendingDeleteThumbnails n = select (\<lambda>d. Inr
     (map (\<lambda>r. (th_id r, th_object_key r, th_size_bytes r))
        (take n (sort_key withdrawal_order (filter withdrawn (db_thumbs d))))))"

definition q_PurgeThumbnails :: "int list \<Rightarrow> int sql" where
  "q_PurgeThumbnails ids d q =
     (let gone = (\<lambda>r. th_id r \<in> set ids \<and> withdrawn r) in
      (Inr (int (length (filter gone (db_thumbs d)))),
       d\<lparr>db_thumbs := filter (\<lambda>r. \<not> gone r) (db_thumbs d)\<rparr>, q))"

definition q_ReferencedThumbnailObjectKeys :: "string list \<Rightarrow> string list sql" where
  "q_ReferencedThumbnailObjectKeys ks = select (\<lambda>d. Inr
     (filter (\<lambda>k. k \<in> set ks) (map th_object_key (db_thumbs d))))"

section \<open>Eviction candidates\<close>

definition q_ThumbnailEvictionCandidatesByAge :: "int \<Rightarrow> nat \<Rightarrow> th_row list sql" where
  "q_ThumbnailEvictionCandidatesByAge older n = select (\<lambda>d. Inr
     (take n (sort_key th_created_at
        (filter (\<lambda>r. th_created_at r < older \<and> \<not> withdrawn r) (db_thumbs d)))))"

definition lru_order :: "th_row \<Rightarrow> int \<times> int" where
  "lru_order r = (th_last_access_at r, th_id r)"

definition total_bytes :: "th_row list \<Rightarrow> int" where
  "total_bytes rs = sum_list (map th_size_bytes rs)"

text \<open>The bytes of the live rows used at least as recently, the row itself included.\<close>

definition running_bytes :: "database \<Rightarrow> th_row \<Rightarrow> int" where
  "running_bytes d r =
     total_bytes (filter (\<lambda>s. lru_order r \<le> lru_order s \<and> \<not> withdrawn s) (db_thumbs d))"

definition over_quota :: "int \<Rightarrow> database \<Rightarrow> th_row \<Rightarrow> bool" where
  "over_quota mx d r \<longleftrightarrow> \<not> withdrawn r \<and> running_bytes d r > mx"

definition q_ThumbnailEvictionCandidatesByQuota :: "int \<Rightarrow> (th_row \<times> int) list sql" where
  "q_ThumbnailEvictionCandidatesByQuota mx = select (\<lambda>d. Inr
     (map (\<lambda>r. (r, running_bytes d r))
        (sort_key lru_order (filter (over_quota mx d) (db_thumbs d)))))"

definition q_TotalThumbnailBytes :: "int sql" where
  "q_TotalThumbnailBytes = select (\<lambda>d. Inr (total_bytes (db_thumbs d)))"

section \<open>The constraints\<close>

lemma withdraw_simps [simp]:
  "th_id (withdraw t r) = th_id r" "thumb_key (withdraw t r) = thumb_key r"
  "th_object_key (withdraw t r) = th_object_key r" "th_cv_id (withdraw t r) = th_cv_id r"
  "th_size_bytes (withdraw t r) = th_size_bytes r" "withdrawn (withdraw t r)"
  "th_created_at (withdraw t r) = th_created_at r"
  "th_last_access_at (withdraw t r) = th_last_access_at r" "lru_order (withdraw t r) = lru_order r"
  by (simp_all add: withdraw_def thumb_key_def withdrawn_def lru_order_def)

lemma db_ok_thumbs:
  "db_ok d q \<Longrightarrow> thumbs_ok (d\<lparr>db_thumbs := rows\<rparr>) q \<Longrightarrow> db_ok (d\<lparr>db_thumbs := rows\<rparr>) q"
  by (simp add: db_ok_defs)

lemma thumbs_ok_update:
  assumes "thumbs_ok d q"
    and "\<And>r. r \<in> set (db_thumbs d) \<Longrightarrow> P r \<Longrightarrow> th_id (f r) = th_id r \<and> thumb_key (f r) = thumb_key r"
    and "distinct (map th_object_key (update_where P f (db_thumbs d)))"
  shows "thumbs_ok (d\<lparr>db_thumbs := update_where P f (db_thumbs d)\<rparr>) q"
proof -
  have ids: "map th_id (update_where P f (db_thumbs d)) = map th_id (db_thumbs d)"
    and keys: "map thumb_key (update_where P f (db_thumbs d)) = map thumb_key (db_thumbs d)"
    using assms(2) by (auto simp: update_where_def)
  have "th_cv_id (f r) = th_cv_id r" if "r \<in> set (db_thumbs d)" "P r" for r
    using assms(2) [OF that] by (simp add: thumb_key_def)
  then have "\<forall>r \<in> set (update_where P f (db_thumbs d)). th_cv_id r \<in> cv_id ` set (db_cvs d)"
    using assms(1) by (auto simp: thumbs_ok_def set_update_where)
  with assms(1,3) show ?thesis by (simp add: thumbs_ok_def ids keys)
qed

lemma db_ok_mark: "db_ok d q \<Longrightarrow> db_ok (mark_where P d) q"
  unfolding mark_where_def
  by (rule db_ok_thumbs, assumption, rule thumbs_ok_update)
    (auto simp: db_ok_def thumbs_ok_def map_update_where_same)

lemma ok_marking: "good db_ok e (marking P)"
  by (rule goodI) (auto simp: marking_def db_ok_mark)

lemma ok_MarkStale: "good db_ok e q_MarkStaleThumbnailsPendingDelete"
  "good db_ok e (q_MarkThumbnailsPendingDelete ids)"
  "good db_ok e (q_MarkThumbnailsPendingDeleteForStaleContentVersion cv)"
  unfolding q_MarkStaleThumbnailsPendingDelete_def q_MarkThumbnailsPendingDelete_def
    q_MarkThumbnailsPendingDeleteForStaleContentVersion_def
  by (rule ok_marking)+

lemma ok_PurgeThumbnails: "good db_ok e (q_PurgeThumbnails ids)"
proof (rule goodI)
  fix d q r d' q' assume run: "q_PurgeThumbnails ids d q = (r, d', q')" and ok: "db_ok d q"
  have "thumbs_ok (d\<lparr>db_thumbs := filter P (db_thumbs d)\<rparr>) q" for P
    using ok by (auto simp: db_ok_def thumbs_ok_def ids_ok_def distinct_map_filter)
  with ok run show "db_ok d' q' \<and> seqs_le q q'"
    by (auto simp: q_PurgeThumbnails_def Let_def intro: db_ok_thumbs)
qed

lemma ok_TouchThumbnail: "good db_ok e (q_TouchThumbnail i)"
proof (rule goodI)
  fix d q r d' q' assume run: "q_TouchThumbnail i d q = (r, d', q')" and ok: "db_ok d q"
  have "thumbs_ok (d\<lparr>db_thumbs := update_where (\<lambda>r. th_id r = i)
      (\<lambda>r. r\<lparr>th_last_access_at := db_now d\<rparr>) (db_thumbs d)\<rparr>) q"
    by (rule thumbs_ok_update)
      (use ok in \<open>auto simp: db_ok_def thumbs_ok_def thumb_key_def map_update_where_same\<close>)
  with ok run show "db_ok d' q' \<and> seqs_le q q'"
    by (auto simp: q_TouchThumbnail_def intro: db_ok_thumbs)
qed

lemma republished_simps: "th_object_key (republished okey n t r) = okey"
  by (simp add: republished_def)

lemma distinct_republished:
  assumes "distinct (map thumb_key rs)" "distinct (map th_object_key rs)"
    and "okey \<notin> th_object_key ` set (filter (\<lambda>r. thumb_key r \<noteq> k) rs)"
  shows "distinct (map th_object_key (update_where (\<lambda>r. thumb_key r = k) (republished okey n t) rs))"
  using assms
proof (induction rs)
  case Nil
  then show ?case by (simp add: update_where_def)
next
  case (Cons r rs)
  have IH: "distinct (map th_object_key (update_where (\<lambda>r. thumb_key r = k) (republished okey n t) rs))"
    using Cons.prems by (intro Cons.IH) auto
  show ?case
  proof (cases "thumb_key r = k")
    case True
    then have none: "\<And>s. s \<in> set rs \<Longrightarrow> thumb_key s \<noteq> k"
      using Cons.prems(1) by (auto simp: image_iff)
    then have same: "update_where (\<lambda>r. thumb_key r = k) (republished okey n t) rs = rs"
      by (rule update_where_none)
    have "okey \<notin> th_object_key ` set rs"
      using Cons.prems(3) none by auto
    moreover have "update_where (\<lambda>r. thumb_key r = k) (republished okey n t) (r # rs) =
        republished okey n t r # rs"
      using True same by (simp add: update_where_def)
    ultimately show ?thesis using Cons.prems(2) by (simp only: list.map republished_simps distinct.simps) simp
  next
    case False
    have "th_object_key r \<notin> th_object_key ` set (update_where (\<lambda>r. thumb_key r = k) (republished okey n t) rs)"
      using Cons.prems(2,3) False by (auto simp: set_update_where republished_def)
    moreover have "update_where (\<lambda>r. thumb_key r = k) (republished okey n t) (r # rs) =
        r # update_where (\<lambda>r. thumb_key r = k) (republished okey n t) rs"
      using False by (simp add: update_where_def)
    ultimately show ?thesis using IH by simp
  qed
qed

lemma ok_UpsertThumbnail: "good db_ok e (q_UpsertThumbnail cv page width height format okey n)"
proof (rule goodI)
  fix d q r d' q'
  assume run: "q_UpsertThumbnail cv page width height format okey n d q = (r, d', q')" and ok: "db_ok d q"
  let ?q = "q\<lparr>sq_thumb := sq_thumb q + 1\<rparr>" and ?k = "(cv, page, width, height, format)"
  have le: "seqs_le q ?q" by (simp add: seqs_le_def)
  note ok' = db_ok_stable [OF ok le]
  have th: "thumbs_ok d q" "thumbs_ok d ?q" "0 \<le> sq_thumb q"
    using ok ok' by (auto simp: db_ok_def seqs_ok_def)
  show "db_ok d' q' \<and> seqs_le q q'"
  proof (cases "List.find (\<lambda>r. thumb_key r = ?k) (db_thumbs d)")
    case (Some r0)
    show ?thesis
    proof (cases "okey \<in> th_object_key ` set (filter (\<lambda>r. thumb_key r \<noteq> ?k) (db_thumbs d))")
      case True
      with run Some ok' le show ?thesis by (auto simp: q_UpsertThumbnail_def Let_def)
    next
      case False
      have "thumbs_ok (d\<lparr>db_thumbs := update_where (\<lambda>r. thumb_key r = ?k)
          (republished okey n (db_now d)) (db_thumbs d)\<rparr>) ?q"
      proof (rule thumbs_ok_update [OF th(2)])
        show "distinct (map th_object_key (update_where (\<lambda>r. thumb_key r = ?k)
            (republished okey n (db_now d)) (db_thumbs d)))"
          by (rule distinct_republished) (use th(1) False in \<open>simp_all add: thumbs_ok_def\<close>)
      qed (simp add: republished_def thumb_key_def)
      from db_ok_thumbs [OF ok' this] False run Some le show ?thesis
        by (auto simp: q_UpsertThumbnail_def Let_def)
    qed
  next
    case None
    then have fresh: "?k \<notin> thumb_key ` set (db_thumbs d)" by (auto simp: find_None_set)
    then have all: "filter (\<lambda>r. thumb_key r \<noteq> ?k) (db_thumbs d) = db_thumbs d"
      by (simp add: filter_id_conv) (metis image_eqI)
    let ?r = "\<lparr>th_id = sq_thumb q + 1, th_cv_id = cv, th_page = page, th_width = width,
       th_height = height, th_format = format, th_object_key = okey, th_size_bytes = n,
       th_created_at = db_now d, th_last_access_at = db_now d, th_pending_delete_at = None\<rparr>"
    have "thumbs_ok (d\<lparr>db_thumbs := db_thumbs d @ [?r]\<rparr>) ?q"
      if "okey \<notin> th_object_key ` set (db_thumbs d)" "cv \<in> cv_id ` set (db_cvs d)"
      using th fresh that ids_ok_append_next [of "sq_thumb q" "map th_id (db_thumbs d)"]
      by (auto simp: thumbs_ok_def thumb_key_def)
    with ok' le run None all show ?thesis
      by (auto simp: q_UpsertThumbnail_def Let_def intro: db_ok_thumbs split: if_splits)
  qed
qed

end
