(* ===== verification/Cache_Workers.thy ===== *)
theory Cache_Workers
  imports Thumbnail_Queries Object_Store Jobs
begin

text \<open>
  The workers that remove thumbnails (\<open>internal/jobs/cache_workers.go\<close>).  Removal is
  two-phase: a row is withdrawn first, its object deleted second, the row purged last.  The
  state is the database world and the object store; the \<open>ObjectDeleter\<close> is an argument.
  The two loops have no bound of their own, so they are defined by recursion with a proof
  that they end under every script of faults and concurrent commits.
\<close>

definition evictionBatch :: nat where "evictionBatch = 500"
definition drainBatch :: nat where "drainBatch = 500"
definition orphanGrace :: int where "orphanGrace = 3600 * 1000000"

type_synonym 'g deleter = "string \<Rightarrow> 'g \<Rightarrow> err option \<times> 'g"

section \<open>The drain\<close>

record drain_acc =
  da_purge :: "int list"
  da_count :: int
  da_bytes :: int
  da_failed :: "err option"

definition note_failure :: "err \<Rightarrow> drain_acc \<Rightarrow> drain_acc" where
  "note_failure e acc = (if da_failed acc = None then acc\<lparr>da_failed := Some e\<rparr> else acc)"

definition note_deleted :: "int \<Rightarrow> int \<Rightarrow> drain_acc \<Rightarrow> drain_acc" where
  "note_deleted i n acc = acc\<lparr>da_purge := da_purge acc @ [i], da_count := da_count acc + 1,
     da_bytes := da_bytes acc + n\<rparr>"

fun delete_rows :: "'g deleter \<Rightarrow> drain_row list \<Rightarrow> drain_acc \<Rightarrow> 'g \<Rightarrow> drain_acc \<times> 'g" where
  "delete_rows del [] acc g = (acc, g)"
| "delete_rows del ((i, key, n) # rows) acc g =
     (case del key g of
        (Some e, g') \<Rightarrow> delete_rows del rows (note_failure e acc) g'
      | (None, g') \<Rightarrow> delete_rows del rows (note_deleted i n acc) g')"

definition purge_rows :: "int list \<Rightarrow> int m" where
  "purge_rows ids = (if ids = [] then ret 0 else stmt (q_PurgeThumbnails ids))"

text \<open>One turn of the loop: it returns, with or without an error, or goes round again.\<close>

datatype turn = Return "err option" | Again

definition drain_turn :: "'g deleter \<Rightarrow> int \<Rightarrow> int \<Rightarrow> world \<Rightarrow> 'g \<Rightarrow> turn \<times> int \<times> int \<times> world \<times> 'g" where
  "drain_turn del count bytes w g =
     (case stmt (q_PendingDeleteThumbnails drainBatch) w of
        (Inl e, w1) \<Rightarrow> (Return (Some e), count, bytes, w1, g)
      | (Inr rows, w1) \<Rightarrow>
          if rows = [] then (Return None, count, bytes, w1, g)
          else case delete_rows del rows
                 \<lparr>da_purge = [], da_count = count, da_bytes = bytes, da_failed = None\<rparr> g of
            (acc, g1) \<Rightarrow> (case purge_rows (da_purge acc) w1 of
                (Inl e, w2) \<Rightarrow> (Return (Some e), da_count acc, da_bytes acc, w2, g1)
              | (Inr _, w2) \<Rightarrow>
                  (if da_failed acc \<noteq> None then Return (da_failed acc)
                   else if length rows < drainBatch then Return None else Again,
                   da_count acc, da_bytes acc, w2, g1)))"

lemma stmt_script: "stmt f w = (r, w') \<Longrightarrow> w_script w' = tl (w_script w)"
  by (auto simp: stmt.simps exec_sql_def split: list.splits step.splits prod.splits)

lemma stmt_script_le: "stmt f w = (r, w') \<Longrightarrow> length (w_script w') \<le> length (w_script w)"
  by (simp add: stmt_script)

lemma stmt_script_less:
  "stmt f w = (r, w') \<Longrightarrow> w_script w \<noteq> [] \<Longrightarrow> length (w_script w') < length (w_script w)"
  by (cases "w_script w") (simp_all add: stmt_script)

lemma stmt_script_Nil:
  "stmt f w = (r, w') \<Longrightarrow> w_script w = [] \<Longrightarrow> f (w_db w) (w_seqs w) = (r, w_db w', w_seqs w')"
  by (auto simp: stmt.simps exec_sql_def split: prod.splits)

lemma delete_rows_all:
  "delete_rows del rows acc g = (acc', g') \<Longrightarrow> da_failed acc' = None \<Longrightarrow>
     da_failed acc = None \<and> da_purge acc' = da_purge acc @ map fst rows"
  by (induction del rows acc g rule: delete_rows.induct)
    (auto simp: note_failure_def note_deleted_def split: prod.splits option.splits if_splits)

lemma purge_shrinks:
  assumes "r \<in> set rows" "withdrawn r" "th_id r \<in> set ids"
  shows "length (filter withdrawn (filter (\<lambda>r. \<not> (th_id r \<in> set ids \<and> withdrawn r)) rows)) <
    length (filter withdrawn rows)"
proof -
  have eq: "filter withdrawn (filter (\<lambda>r. \<not> (th_id r \<in> set ids \<and> withdrawn r)) rows) =
      filter (\<lambda>r. th_id r \<notin> set ids) (filter withdrawn rows)"
    by (induction rows) auto
  show ?thesis
    unfolding eq by (rule length_filter_less [of r]) (use assms in auto)
qed

lemma pending_rows_listed:
  assumes "q_PendingDeleteThumbnails n d q = (Inr rows, d', q')" "rows \<noteq> []"
  shows "\<exists>r \<in> set (db_thumbs d). withdrawn r \<and> th_id r \<in> fst ` set rows"
proof -
  obtain x xs where rows: "rows = x # xs" using assms(2) by (cases rows) auto
  then have "x \<in> set rows" by simp
  then obtain r where r: "r \<in> set (take n (sort_key withdrawal_order (filter withdrawn (db_thumbs d))))"
    "x = (th_id r, th_object_key r, th_size_bytes r)"
    using assms(1) by (auto simp: q_PendingDeleteThumbnails_def select_def)
  then have "r \<in> set (filter withdrawn (db_thumbs d))"
    by (metis in_set_takeD set_sort)
  with r(2) rows show ?thesis by force
qed

text \<open>
  Going round again either used up a step of the script, or purged what it had listed.
\<close>

lemma drain_turn_progress:
  assumes "drain_turn del count bytes w g = (Again, count', bytes', w', g')"
  shows "length (w_script w') < length (w_script w) \<or>
    length (w_script w') = length (w_script w) \<and>
    length (filter withdrawn (db_thumbs (w_db w'))) < length (filter withdrawn (db_thumbs (w_db w)))"
proof -
  from assms obtain rows w1 acc n where
    list: "stmt (q_PendingDeleteThumbnails drainBatch) w = (Inr rows, w1)" and rows: "rows \<noteq> []" and
    del: "delete_rows del rows \<lparr>da_purge = [], da_count = count, da_bytes = bytes, da_failed = None\<rparr> g
      = (acc, g')" and
    purge: "purge_rows (da_purge acc) w1 = (Inr n, w')" and clean: "da_failed acc = None"
    by (auto simp: drain_turn_def split: prod.splits sum.splits if_splits)
  have ids: "da_purge acc = map fst rows"
    using delete_rows_all [OF del clean] by simp
  with purge rows have st: "stmt (q_PurgeThumbnails (da_purge acc)) w1 = (Inr n, w')"
    by (auto simp: purge_rows_def)
  show ?thesis
  proof (cases "w_script w = []")
    case False
    then show ?thesis
      using stmt_script_less [OF list] stmt_script_le [OF st] by simp
  next
    case True
    then have "w_script w1 = []" "w_script w' = []"
      using stmt_script [OF list] stmt_script [OF st] by simp_all
    note run = stmt_script_Nil [OF list True] stmt_script_Nil [OF st \<open>w_script w1 = []\<close>]
    have db: "db_thumbs (w_db w1) = db_thumbs (w_db w)"
      using run(1) by (auto simp: q_PendingDeleteThumbnails_def select_def)
    obtain r where r: "r \<in> set (db_thumbs (w_db w))" "withdrawn r" "th_id r \<in> fst ` set rows"
      using pending_rows_listed [OF run(1) rows] by blast
    have "db_thumbs (w_db w') = filter (\<lambda>r. \<not> (th_id r \<in> set (da_purge acc) \<and> withdrawn r)) (db_thumbs (w_db w))"
      using run(2) db by (auto simp: q_PurgeThumbnails_def Let_def dest: arg_cong [of _ _ db_thumbs])
    with purge_shrinks [OF r(1,2), of "da_purge acc"] r(3) ids True \<open>w_script w' = []\<close>
    show ?thesis by simp
  qed
qed

function drain_from ::
  "'g deleter \<Rightarrow> int \<Rightarrow> int \<Rightarrow> world \<Rightarrow> 'g \<Rightarrow> (int \<times> int \<times> err option) \<times> world \<times> 'g" where
  "drain_from del count bytes w g =
     (case drain_turn del count bytes w g of
        (Return e, count', bytes', w', g') \<Rightarrow> ((count', bytes', e), w', g')
      | (Again, count', bytes', w', g') \<Rightarrow> drain_from del count' bytes' w' g')"
  by pat_completeness auto

termination
  by (relation "measures [\<lambda>(_, _, _, w, _). length (w_script w),
      \<lambda>(_, _, _, w, _). length (filter withdrawn (db_thumbs (w_db w)))]")
    (auto dest: drain_turn_progress [OF sym])

declare drain_from.simps [simp del]

definition drainPending :: "'g deleter \<Rightarrow> world \<Rightarrow> 'g \<Rightarrow> (int \<times> int \<times> err option) \<times> world \<times> 'g" where
  "drainPending del = drain_from del 0 0"

section \<open>Invalidation\<close>

definition InvalidateThumbnails_Work ::
  "'g deleter \<Rightarrow> int \<Rightarrow> world \<Rightarrow> 'g \<Rightarrow> err option \<times> world \<times> 'g" where
  "InvalidateThumbnails_Work del versionID w g =
     (case stmt (q_MarkThumbnailsPendingDeleteForStaleContentVersion versionID) w of
        (Inl e, w1) \<Rightarrow> (Some e, w1, g)
      | (Inr _, w1) \<Rightarrow> (case drainPending del w1 g of ((_, _, e), w2, g2) \<Rightarrow> (e, w2, g2)))"

section \<open>Eviction\<close>

record EvictionWorker =
  ew_max_age :: int
  ew_max_bytes :: int

definition mark :: "int list \<Rightarrow> int m" where
  "mark ids = stmt (q_MarkThumbnailsPendingDelete ids)"

definition age_turn :: "int \<Rightarrow> int \<Rightarrow> int \<Rightarrow> world \<Rightarrow> turn \<times> int \<times> int \<times> world" where
  "age_turn older count bytes w =
     (case stmt (q_ThumbnailEvictionCandidatesByAge older evictionBatch) w of
        (Inl e, w1) \<Rightarrow> (Return (Some e), count, bytes, w1)
      | (Inr candidates, w1) \<Rightarrow>
          if candidates = [] then (Return None, count, bytes, w1)
          else (let bytes' = bytes + total_bytes candidates in
            case mark (map th_id candidates) w1 of
              (Inl e, w2) \<Rightarrow> (Return (Some e), count, bytes', w2)
            | (Inr _, w2) \<Rightarrow>
                (if length candidates < evictionBatch then Return None else Again,
                 count + int (length candidates), bytes', w2)))"

definition expired :: "int \<Rightarrow> th_row \<Rightarrow> bool" where
  "expired older r \<longleftrightarrow> th_created_at r < older \<and> \<not> withdrawn r"

lemma mark_shrinks:
  assumes "r \<in> set rows" "expired older r" "th_id r \<in> set ids"
  shows "length (filter (expired older) (update_where (\<lambda>r. th_id r \<in> set ids) (withdraw t) rows)) <
    length (filter (expired older) rows)"
proof -
  have len: "length (filter (expired older) (update_where (\<lambda>r. th_id r \<in> set ids) (withdraw t) rows)) =
      length (filter (\<lambda>r. th_id r \<notin> set ids) (filter (expired older) rows))"
    by (induction rows) (auto simp: update_where_def expired_def)
  show ?thesis
    unfolding len by (rule length_filter_less [of r]) (use assms in auto)
qed

lemma age_turn_progress:
  assumes "age_turn older count bytes w = (Again, count', bytes', w')"
  shows "length (w_script w') < length (w_script w) \<or>
    length (w_script w') = length (w_script w) \<and>
    length (filter (expired older) (db_thumbs (w_db w'))) <
      length (filter (expired older) (db_thumbs (w_db w)))"
proof -
  from assms obtain cs w1 n where
    list: "stmt (q_ThumbnailEvictionCandidatesByAge older evictionBatch) w = (Inr cs, w1)"
    and cs: "cs \<noteq> []" and st: "mark (map th_id cs) w1 = (Inr n, w')"
    by (auto simp: age_turn_def Let_def split: prod.splits sum.splits if_splits)
  note st = st [unfolded mark_def]
  show ?thesis
  proof (cases "w_script w = []")
    case False
    then show ?thesis
      using stmt_script_less [OF list] stmt_script_le [OF st] by simp
  next
    case True
    then have nil: "w_script w1 = []" "w_script w' = []"
      using stmt_script [OF list] stmt_script [OF st] by simp_all
    note run = stmt_script_Nil [OF list True] stmt_script_Nil [OF st nil(1)]
    have db: "w_db w1 = w_db w" and listed: "cs = take evictionBatch (sort_key th_created_at
        (filter (expired older) (db_thumbs (w_db w))))"
      using run(1) by (auto simp: q_ThumbnailEvictionCandidatesByAge_def select_def expired_def [abs_def])
    obtain r where r: "r \<in> set cs" using cs by (cases cs) auto
    then have "r \<in> set (filter (expired older) (db_thumbs (w_db w)))"
      using listed by (metis in_set_takeD set_sort)
    moreover have "db_thumbs (w_db w') = update_where (\<lambda>r. th_id r \<in> set (map th_id cs))
        (withdraw (db_now (w_db w))) (db_thumbs (w_db w))"
      using run(2) db by (auto simp: q_MarkThumbnailsPendingDelete_def marking_def mark_where_def
          dest: arg_cong [of _ _ db_thumbs])
    ultimately show ?thesis
      using mark_shrinks [of r "db_thumbs (w_db w)" older "map th_id cs"] r True nil by simp
  qed
qed

function age_from :: "int \<Rightarrow> int \<Rightarrow> int \<Rightarrow> world \<Rightarrow> (int \<times> int \<times> err option) \<times> world" where
  "age_from older count bytes w =
     (case age_turn older count bytes w of
        (Return e, count', bytes', w') \<Rightarrow> ((count', bytes', e), w')
      | (Again, count', bytes', w') \<Rightarrow> age_from older count' bytes' w')"
  by pat_completeness auto

termination
  by (relation "measures [\<lambda>(_, _, _, w). length (w_script w),
      \<lambda>(older, _, _, w). length (filter (expired older) (db_thumbs (w_db w)))]")
    (auto dest: age_turn_progress [OF sym])

declare age_from.simps [simp del]

definition markByAge :: "EvictionWorker \<Rightarrow> world \<Rightarrow> (int \<times> int \<times> err option) \<times> world" where
  "markByAge ew w =
     (if ew_max_age ew \<le> 0 then ((0, 0, None), w)
      else age_from (w_clock w - ew_max_age ew) 0 0 w)"

definition markByQuota :: "EvictionWorker \<Rightarrow> world \<Rightarrow> (int \<times> int \<times> err option) \<times> world" where
  "markByQuota ew w =
     (if ew_max_bytes ew \<le> 0 then ((0, 0, None), w)
      else case stmt (q_ThumbnailEvictionCandidatesByQuota (ew_max_bytes ew)) w of
             (Inl e, w1) \<Rightarrow> ((0, 0, Some e), w1)
           | (Inr candidates, w1) \<Rightarrow>
               if candidates = [] then ((0, 0, None), w1)
               else (case mark (map (th_id \<circ> fst) candidates) w1 of
                   (Inl e, w2) \<Rightarrow> ((0, 0, Some e), w2)
                 | (Inr _, w2) \<Rightarrow>
                     ((int (length candidates), total_bytes (map fst candidates), None), w2)))"

definition Eviction_Work :: "EvictionWorker \<Rightarrow> 'g deleter \<Rightarrow> world \<Rightarrow> 'g \<Rightarrow> err option \<times> world \<times> 'g" where
  "Eviction_Work ew del w g =
     (case markByAge ew w of
        ((_, _, Some e), w1) \<Rightarrow> (Some e, w1, g)
      | ((_, _, None), w1) \<Rightarrow>
          (case markByQuota ew w1 of
             ((_, _, Some e), w2) \<Rightarrow> (Some e, w2, g)
           | ((_, _, None), w2) \<Rightarrow>
               (case drainPending del w2 g of
                  ((_, _, drainErr), w3, g3) \<Rightarrow>
                    (case stmt q_TotalThumbnailBytes w3 of
                       (Inl e, w4) \<Rightarrow> (Some (case drainErr of Some d \<Rightarrow> d | None \<Rightarrow> e), w4, g3)
                     | (Inr _, w4) \<Rightarrow> (drainErr, w4, g3)))))"

section \<open>The sweep\<close>

fun remove_orphans :: "'g deleter \<Rightarrow> string list \<Rightarrow> string list \<Rightarrow> int \<Rightarrow> 'g \<Rightarrow> err option \<times> int \<times> 'g" where
  "remove_orphans del known [] n g = (None, n, g)"
| "remove_orphans del known (k # ks) n g =
     (if k \<in> set known then remove_orphans del known ks n g
      else case del k g of
             (Some e, g') \<Rightarrow> (Some e, n, g')
           | (None, g') \<Rightarrow> remove_orphans del known ks (n + 1) g')"

definition orphan_candidates :: "int \<Rightarrow> Object list \<Rightarrow> string list" where
  "orphan_candidates cutoff page = map obj_key (filter (\<lambda>o'. \<not> obj_modified o' > cutoff) page)"

definition sweep_page :: "'g deleter \<Rightarrow> int \<Rightarrow> Object list \<Rightarrow> world \<times> int \<times> 'g \<Rightarrow>
    err option \<times> world \<times> int \<times> 'g" where
  "sweep_page del cutoff page s = (case s of (w, n, g) \<Rightarrow>
     let candidates = orphan_candidates cutoff page in
     if candidates = [] then (None, w, n, g)
     else (case stmt (q_ReferencedThumbnailObjectKeys candidates) w of
            (Inl e, w1) \<Rightarrow> (Some e, w1, n, g)
          | (Inr known, w1) \<Rightarrow>
              (case remove_orphans del known candidates n g of (e, n', g') \<Rightarrow> (e, w1, n', g'))))"

type_synonym listing = "(s3_error + s3_item list) list"

definition sweepOrphans :: "Store \<Rightarrow> listing \<Rightarrow> 'g deleter \<Rightarrow> world \<Rightarrow> 'g \<Rightarrow>
    err option \<times> world \<times> int \<times> 'g" where
  "sweepOrphans st pages del w g =
     Store_List st pages (sweep_page del (w_clock w - orphanGrace)) (w, 0, g)"

definition CacheSweep_Work :: "Store \<Rightarrow> listing \<Rightarrow> 'g deleter \<Rightarrow> world \<Rightarrow> 'g \<Rightarrow>
    err option \<times> world \<times> 'g" where
  "CacheSweep_Work st pages del w g =
     (case stmt q_MarkStaleThumbnailsPendingDelete w of
        (Inl e, w1) \<Rightarrow> (Some e, w1, g)
      | (Inr _, w1) \<Rightarrow>
          (case drainPending del w1 g of
             ((_, _, Some e), w2, g2) \<Rightarrow> (Some e, w2, g2)
           | ((_, _, None), w2, g2) \<Rightarrow>
               (case sweepOrphans st pages del w2 g2 of (e, w3, _, g3) \<Rightarrow> (e, w3, g3))))"

end
