(* ===== verification/Cache_Effects.thy ===== *)
theory Cache_Effects
  imports Cache_Workers "HOL-Library.Multiset"
begin

text \<open>
  What the cache workers do to the accounting rows and to the bucket.  The lemmas about
  deletions are proved once from the contract of the object store (\<open>object_deleter\<close>), so
  they hold for every gateway that has the documented behaviour.
\<close>

section \<open>Statements in a calm world\<close>

lemma stmt_calm_cases:
  assumes "calm w" "stmt f w = (r, w')"
  shows "calm w'" "w_clock w' = w_clock w"
    and "r = Inl ErrConn \<and> w_db w' = w_db w \<or> f (w_db w) (w_seqs w) = (r, w_db w', w_seqs w')"
  using assms
  by (auto simp: stmt.simps exec_sql_def calm_def split: list.splits step.splits prod.splits)

lemma stmt_calm_select:
  assumes "calm w" "stmt (select f) w = (r, w')"
  shows "calm w'" "w_clock w' = w_clock w" "w_db w' = w_db w" "\<And>x. r = Inr x \<Longrightarrow> f (w_db w) = Inr x"
  using stmt_calm_cases [OF assms] by (auto simp: select_def)

definition put_thumbs :: "database \<Rightarrow> th_row list \<Rightarrow> database" where
  "put_thumbs d rows = d\<lparr>db_thumbs := rows\<rparr>"

lemma put_thumbs_simps [simp]:
  "db_thumbs (put_thumbs d rows) = rows" "put_thumbs (put_thumbs d xs) ys = put_thumbs d ys"
  "put_thumbs d (db_thumbs d) = d" "db_docs (put_thumbs d rows) = db_docs d"
  "db_now (put_thumbs d rows) = db_now d" "db_cvs (put_thumbs d rows) = db_cvs d"
  by (simp_all add: put_thumbs_def)

lemma mark_where_eq:
  "mark_where P d = put_thumbs d (update_where P (withdraw (db_now d)) (db_thumbs d))"
  by (simp add: mark_where_def put_thumbs_def)

lemma held_put_thumbs [simp]: "held (put_thumbs d rows) cv = held d cv"
  by (simp add: held_def)

text \<open>A statement that withdraws rows succeeds on the rows it found, or changes nothing.\<close>

lemma marking_calm:
  assumes "calm w" "stmt (marking P) w = (r, w')"
  shows "calm w'" "w_clock w' = w_clock w"
    and "r = Inl ErrConn \<and> w_db w' = w_db w \<or> (\<exists>n. r = Inr n) \<and> w_db w' = mark_where (P (w_db w)) (w_db w)"
  using stmt_calm_cases [OF assms] by (auto simp: marking_def)

section \<open>What one drain can do\<close>

definition withdrawn_keys :: "th_row list \<Rightarrow> string set" where
  "withdrawn_keys rows = th_object_key ` set (filter withdrawn rows)"

text \<open>
  Rows and objects only go: a row that went was withdrawn and its object is gone, an object
  that went belonged to a withdrawn row, and nothing else changed.
\<close>

definition removal :: "('g \<Rightarrow> string \<Rightarrow> string option) \<Rightarrow> database \<Rightarrow> 'g \<Rightarrow> database \<Rightarrow> 'g \<Rightarrow> bool" where
  "removal contents d g d' g' \<longleftrightarrow>
     (\<exists>P. d' = put_thumbs d (filter P (db_thumbs d)) \<and>
        (\<forall>r \<in> set (db_thumbs d). \<not> P r \<longrightarrow> withdrawn r \<and> contents g' (th_object_key r) = None)) \<and>
     (\<forall>k. contents g' k = contents g k \<or> contents g' k = None \<and> k \<in> withdrawn_keys (db_thumbs d))"

lemma removal_refl: "removal contents d g d g"
  unfolding removal_def by (intro conjI exI [of _ "\<lambda>_. True"]) auto

lemma removal_trans:
  assumes "removal contents d g d1 g1" "removal contents d1 g1 d' g'"
  shows "removal contents d g d' g'"
proof -
  from assms(1) obtain P where P: "d1 = put_thumbs d (filter P (db_thumbs d))"
    "\<And>r. r \<in> set (db_thumbs d) \<Longrightarrow> \<not> P r \<Longrightarrow> withdrawn r \<and> contents g1 (th_object_key r) = None"
    and k1: "\<And>k. contents g1 k = contents g k \<or> contents g1 k = None \<and> k \<in> withdrawn_keys (db_thumbs d)"
    unfolding removal_def by blast
  from assms(2) obtain Q where Q: "d' = put_thumbs d1 (filter Q (db_thumbs d1))"
    "\<And>r. r \<in> set (db_thumbs d1) \<Longrightarrow> \<not> Q r \<Longrightarrow> withdrawn r \<and> contents g' (th_object_key r) = None"
    and k2: "\<And>k. contents g' k = contents g1 k \<or> contents g' k = None \<and> k \<in> withdrawn_keys (db_thumbs d1)"
    unfolding removal_def by blast
  have d': "d' = put_thumbs d (filter (\<lambda>r. P r \<and> Q r) (db_thumbs d))"
    by (simp add: P(1) Q(1) conj_commute)
  have gone: "withdrawn r \<and> contents g' (th_object_key r) = None"
    if "r \<in> set (db_thumbs d)" "\<not> (P r \<and> Q r)" for r
  proof (cases "P r")
    case True
    with that Q(2) [of r] show ?thesis by (simp add: P(1))
  next
    case False
    with P(2) [OF that(1)] k2 [of "th_object_key r"] show ?thesis by auto
  qed
  have "withdrawn_keys (db_thumbs d1) \<subseteq> withdrawn_keys (db_thumbs d)"
    by (auto simp: withdrawn_keys_def P(1))
  then have "contents g' k = contents g k \<or> contents g' k = None \<and> k \<in> withdrawn_keys (db_thumbs d)" for k
    using k1 [of k] k2 [of k] by auto
  with d' gone show ?thesis unfolding removal_def by blast
qed

lemma removal_thumbs_ok:
  "removal contents d g d' g' \<Longrightarrow> distinct (map th_id (db_thumbs d)) \<Longrightarrow> distinct (map th_id (db_thumbs d'))"
  by (auto simp: removal_def distinct_map_filter)

context object_deleter
begin

lemma delete_rows_keys:
  "delete_rows del rows acc g = (acc', g') \<Longrightarrow>
     contents g' k = contents g k \<or> contents g' k = None \<and> k \<in> fst ` snd ` set rows"
proof (induction rows arbitrary: acc g)
  case Nil
  then show ?case by simp
next
  case (Cons row rows)
  obtain i key n where row: "row = (i, key, n)" by (cases row)
  obtain r g1 where d: "del key g = (r, g1)" by (cases "del key g")
  then obtain acc1 where rest: "delete_rows del rows acc1 g1 = (acc', g')"
    using Cons.prems row by (cases r) auto
  have "contents g1 k = contents g k \<or> contents g1 k = None \<and> k = key"
    using del_others [OF d, of k] del_shrinks [OF d, of k] by auto
  with Cons.IH [OF rest] row show ?case by auto
qed

lemma delete_rows_purge:
  "delete_rows del rows acc g = (acc', g') \<Longrightarrow> i \<in> set (da_purge acc') \<Longrightarrow>
     i \<in> set (da_purge acc) \<or> (\<exists>k n. (i, k, n) \<in> set rows \<and> contents g' k = None)"
proof (induction rows arbitrary: acc g)
  case Nil
  then show ?case by simp
next
  case (Cons row rows)
  obtain j key n where row: "row = (j, key, n)" by (cases row)
  obtain r g1 where d: "del key g = (r, g1)" by (cases "del key g")
  show ?case
  proof (cases r)
    case None
    then have rest: "delete_rows del rows (note_deleted j n acc) g1 = (acc', g')"
      using Cons.prems(1) row d by simp
    have "contents g' key = None"
      using del_done d None delete_rows_keys [OF rest, of key] by auto
    with Cons.IH [OF rest Cons.prems(2)] row show ?thesis
      by (auto simp: note_deleted_def)
  next
    case (Some e)
    then have rest: "delete_rows del rows (note_failure e acc) g1 = (acc', g')"
      using Cons.prems(1) row d by simp
    with Cons.IH [OF rest Cons.prems(2)] row show ?thesis
      by (auto simp: note_failure_def split: if_splits)
  qed
qed

lemma delete_rows_clean:
  "delete_rows del rows acc g = (acc', g') \<Longrightarrow> da_failed acc' = None \<Longrightarrow>
     contents g' = (\<lambda>k. if k \<in> fst ` snd ` set rows then None else contents g k) \<and>
     da_count acc' = da_count acc + int (length rows) \<and>
     da_bytes acc' = da_bytes acc + sum_list (map (snd \<circ> snd) rows)"
proof (induction rows arbitrary: acc g)
  case Nil
  then show ?case by simp
next
  case (Cons row rows)
  obtain j key n where row: "row = (j, key, n)" by (cases row)
  obtain r g1 where d: "del key g = (r, g1)" by (cases "del key g")
  have "r = None"
  proof (rule ccontr)
    assume "r \<noteq> None"
    then obtain e where "delete_rows del rows (note_failure e acc) g1 = (acc', g')"
      using Cons.prems(1) row d by (cases r) auto
    from delete_rows_all [OF this Cons.prems(2)] show False
      by (simp add: note_failure_def split: if_splits)
  qed
  with d have done_: "contents g1 = (contents g)(key := None)" using del_done by simp
  have rest: "delete_rows del rows (note_deleted j n acc) g1 = (acc', g')"
    using Cons.prems(1) row d \<open>r = None\<close> by simp
  from Cons.IH [OF rest Cons.prems(2)] done_ row show ?case
    by (auto simp: note_deleted_def fun_eq_iff)
qed

text \<open>Nothing fails when the store refuses nothing.\<close>

lemma delete_rows_healthy:
  "(\<And>k g. fst (del k g) = None) \<Longrightarrow> delete_rows del rows acc g = (acc', g') \<Longrightarrow>
     da_failed acc' = da_failed acc"
proof (induction rows arbitrary: acc g)
  case Nil
  then show ?case by simp
next
  case (Cons row rows)
  obtain j key n where row: "row = (j, key, n)" by (cases row)
  obtain g1 where d: "del key g = (None, g1)"
    using Cons.prems(1) [of key g] by (cases "del key g") auto
  then have rest: "delete_rows del rows (note_deleted j n acc) g1 = (acc', g')"
    using Cons.prems(2) row by simp
  from Cons.IH [OF Cons.prems(1) rest] show ?case by (simp add: note_deleted_def)
qed

end

section \<open>The work list\<close>

definition work_list :: "nat \<Rightarrow> th_row list \<Rightarrow> th_row list" where
  "work_list n rows = take n (sort_key withdrawal_order (filter withdrawn rows))"

definition drain_row_of :: "th_row \<Rightarrow> drain_row" where
  "drain_row_of r = (th_id r, th_object_key r, th_size_bytes r)"

lemma PendingDelete_eq:
  "q_PendingDeleteThumbnails n = select (\<lambda>d. Inr (map drain_row_of (work_list n (db_thumbs d))))"
  by (simp add: q_PendingDeleteThumbnails_def work_list_def drain_row_of_def [abs_def])

lemma work_list_set: "r \<in> set (work_list n rows) \<Longrightarrow> r \<in> set rows \<and> withdrawn r"
  unfolding work_list_def using in_set_takeD [of r n] by fastforce

lemma work_list_whole: "length (work_list n rows) < n \<Longrightarrow> set (work_list n rows) = set (filter withdrawn rows)"
  by (auto simp: work_list_def min_def split: if_splits)

lemma work_list_mset:
  assumes "distinct (map th_id rows)"
  shows "mset (filter (\<lambda>r. th_id r \<in> th_id ` set (work_list n rows)) (filter withdrawn rows)) =
    mset (work_list n rows)"
proof -
  have d: "distinct rows" "distinct (work_list n rows)"
    using assms by (auto simp: work_list_def distinct_map intro: distinct_take)
  have "set (filter (\<lambda>r. th_id r \<in> th_id ` set (work_list n rows)) (filter withdrawn rows)) =
      set (work_list n rows)"
    using assms by (auto dest: work_list_set simp: distinct_map inj_on_def)
  with d show ?thesis by (intro set_eq_iff_mset_eq_distinct [THEN iffD1]) simp_all
qed

lemma work_list_empty: "work_list n rows = [] \<Longrightarrow> 0 < n \<Longrightarrow> filter withdrawn rows = []"
  by (simp add: work_list_def) (metis length_0_conv length_sort)

section \<open>One turn of the drain\<close>

lemma purge_rows_calm:
  assumes "calm w" "purge_rows ids w = (r, w')"
  shows "calm w'" "w_clock w' = w_clock w"
    and "w_db w' = w_db w \<and> (\<exists>e. r = Inl e) \<or>
      (\<exists>n. r = Inr n) \<and>
      w_db w' = put_thumbs (w_db w) (filter (\<lambda>r. \<not> (th_id r \<in> set ids \<and> withdrawn r)) (db_thumbs (w_db w)))"
proof -
  show "calm w'" "w_clock w' = w_clock w"
    using assms stmt_calm_cases(1,2) [of w "q_PurgeThumbnails ids" r w']
    by (auto simp: purge_rows_def ret_def split: if_splits)
  show "w_db w' = w_db w \<and> (\<exists>e. r = Inl e) \<or> (\<exists>n. r = Inr n) \<and>
      w_db w' = put_thumbs (w_db w) (filter (\<lambda>r. \<not> (th_id r \<in> set ids \<and> withdrawn r)) (db_thumbs (w_db w)))"
  proof (cases "ids = []")
    case True
    then show ?thesis using assms(2) by (auto simp: purge_rows_def ret_def)
  next
    case False
    then have "stmt (q_PurgeThumbnails ids) w = (r, w')"
      using assms(2) by (simp add: purge_rows_def)
    from stmt_calm_cases(3) [OF assms(1) this] show ?thesis
      by (auto simp: q_PurgeThumbnails_def Let_def put_thumbs_def)
  qed
qed

lemma drain_turn_cases:
  assumes turn: "drain_turn del cnt bytes w g = (t, cnt', bytes', w', g')" and calm: "calm w"
  obtains e where "t = Return (Some e)" "calm w'" "w_db w' = w_db w" "w_clock w' = w_clock w" "g' = g"
  | "t = Return None" "calm w'" "w_db w' = w_db w" "w_clock w' = w_clock w" "g' = g"
    "work_list drainBatch (db_thumbs (w_db w)) = []" "cnt' = cnt" "bytes' = bytes"
  | rows acc w1 r where "rows = map drain_row_of (work_list drainBatch (db_thumbs (w_db w)))" "rows \<noteq> []"
    "delete_rows del rows \<lparr>da_purge = [], da_count = cnt, da_bytes = bytes, da_failed = None\<rparr> g = (acc, g')"
    "calm w1" "w_db w1 = w_db w" "w_clock w1 = w_clock w" "purge_rows (da_purge acc) w1 = (r, w')"
    "t = (case r of Inl e \<Rightarrow> Return (Some e) | Inr _ \<Rightarrow>
       if da_failed acc \<noteq> None then Return (da_failed acc)
       else if length rows < drainBatch then Return None else Again)"
    "cnt' = da_count acc" "bytes' = da_bytes acc"
proof -
  obtain r1 w1 where list: "stmt (q_PendingDeleteThumbnails drainBatch) w = (r1, w1)"
    by (cases "stmt (q_PendingDeleteThumbnails drainBatch) w")
  note c = stmt_calm_select [OF calm list [unfolded PendingDelete_eq]]
  show thesis
  proof (cases r1)
    case (Inl e)
    have "t = Return (Some e)" "w' = w1" "g' = g"
      using turn by (simp_all add: drain_turn_def list Inl)
    with c(1-3) show thesis by (intro that(1) [of e]) simp_all
  next
    case (Inr rows)
    then have rows: "rows = map drain_row_of (work_list drainBatch (db_thumbs (w_db w)))"
      using c(4) [of rows] by simp
    show thesis
    proof (cases "rows = []")
      case True
      have "t = Return None" "cnt' = cnt" "bytes' = bytes" "w' = w1" "g' = g"
        using turn by (simp_all add: drain_turn_def list Inr True)
      moreover have "work_list drainBatch (db_thumbs (w_db w)) = []"
        using rows True by simp
      ultimately show thesis using c(1-3) by (intro that(2)) simp_all
    next
      case False
      obtain acc g1 where del: "delete_rows del rows
          \<lparr>da_purge = [], da_count = cnt, da_bytes = bytes, da_failed = None\<rparr> g = (acc, g1)"
        by fastforce
      obtain r w2 where purge: "purge_rows (da_purge acc) w1 = (r, w2)"
        by (cases "purge_rows (da_purge acc) w1")
      have "drain_turn del cnt bytes w g =
          (case r of Inl e \<Rightarrow> Return (Some e) | Inr _ \<Rightarrow>
             if da_failed acc \<noteq> None then Return (da_failed acc)
             else if length rows < drainBatch then Return None else Again,
           da_count acc, da_bytes acc, w2, g1)"
        by (cases r) (simp_all add: drain_turn_def list Inr False del purge)
      with turn have eqs: "t = (case r of Inl e \<Rightarrow> Return (Some e) | Inr _ \<Rightarrow>
             if da_failed acc \<noteq> None then Return (da_failed acc)
             else if length rows < drainBatch then Return None else Again)"
        "cnt' = da_count acc" "bytes' = da_bytes acc" "w2 = w'" "g1 = g'"
        by simp_all
      show thesis
        by (rule that(3) [OF rows False _ c(1,3,2) _ eqs(1-3)]) (use del purge eqs in simp_all)
    qed
  qed
qed

context object_deleter
begin

lemma drain_turn_removal:
  assumes turn: "drain_turn del cnt bytes w g = (t, cnt', bytes', w', g')" and calm: "calm w"
    and ids: "distinct (map th_id (db_thumbs (w_db w)))"
  shows "calm w' \<and> w_clock w' = w_clock w \<and> removal contents (w_db w) g (w_db w') g'"
  using turn calm
proof (cases rule: drain_turn_cases)
  case (3 rows acc w1 r)
  let ?d = "w_db w"
  note c = purge_rows_calm [OF 3(4,7)]
  have keys: "contents g' k = contents g k \<or> contents g' k = None \<and> k \<in> withdrawn_keys (db_thumbs ?d)" for k
    using delete_rows_keys [OF 3(3), of k] 3(1)
    by (auto simp: withdrawn_keys_def drain_row_of_def dest!: work_list_set)
  have gone: "contents g' (th_object_key s) = None"
    if "s \<in> set (db_thumbs ?d)" "th_id s \<in> set (da_purge acc)" for s
  proof -
    from delete_rows_purge [OF 3(3) that(2)] obtain k n where
      "(th_id s, k, n) \<in> set rows" "contents g' k = None" by auto
    then obtain s' where s': "s' \<in> set (work_list drainBatch (db_thumbs ?d))" "th_id s' = th_id s"
      "k = th_object_key s'" using 3(1) by (auto simp: drain_row_of_def)
    then have "s' = s" using ids that(1) work_list_set [OF s'(1)]
      by (metis distinct_map_inj)
    with s' \<open>contents g' k = None\<close> show ?thesis by simp
  qed
  have "removal contents ?d g (w_db w') g'"
    using c(3)
  proof
    assume "w_db w' = w_db w1 \<and> (\<exists>e. r = Inl e)"
    then have "w_db w' = put_thumbs ?d (filter (\<lambda>_. True) (db_thumbs ?d))" using 3(5) by simp
    with keys show ?thesis
      unfolding removal_def by (intro conjI exI [of _ "\<lambda>_. True"]) simp_all
  next
    assume "(\<exists>n. r = Inr n) \<and> w_db w' = put_thumbs (w_db w1)
      (filter (\<lambda>r. \<not> (th_id r \<in> set (da_purge acc) \<and> withdrawn r)) (db_thumbs (w_db w1)))"
    with keys gone 3(5) show ?thesis
      unfolding removal_def
      by (intro conjI exI [of _ "\<lambda>r. \<not> (th_id r \<in> set (da_purge acc) \<and> withdrawn r)"]) simp_all
  qed
  with c(1,2) 3(6) show ?thesis by simp
qed (simp_all add: removal_refl)

lemma drain_from_removal:
  "drain_from d cnt bytes w g = (res, w', g') \<Longrightarrow> d = del \<Longrightarrow> calm w \<Longrightarrow>
     distinct (map th_id (db_thumbs (w_db w))) \<Longrightarrow>
     calm w' \<and> w_clock w' = w_clock w \<and> removal contents (w_db w) g (w_db w') g'"
proof (induction d cnt bytes w g arbitrary: res rule: drain_from.induct)
  case (1 d cnt bytes w g)
  obtain t c1 b1 w1 g1 where turn: "drain_turn d cnt bytes w g = (t, c1, b1, w1, g1)"
    by (metis prod_cases5)
  note eff = drain_turn_removal [OF turn [unfolded 1(3)] 1(4,5)]
  show ?case
  proof (cases t)
    case (Return e)
    with 1(2) turn eff show ?thesis by (simp add: drain_from.simps)
  next
    case Again
    then have rest: "drain_from d c1 b1 w1 g1 = (res, w', g')"
      using 1(2) turn by (subst (asm) drain_from.simps) simp
    have "distinct (map th_id (db_thumbs (w_db w1)))"
      using removal_thumbs_ok [OF eff [THEN conjunct2, THEN conjunct2] 1(5)] .
    from 1(1) [OF turn [symmetric] Again refl refl refl rest 1(3) _ this] eff
    show ?thesis using removal_trans [of contents "w_db w" g "w_db w1" g1] by simp
  qed
qed

lemma drain_removal:
  "drainPending del w g = (res, w', g') \<Longrightarrow> calm w \<Longrightarrow> distinct (map th_id (db_thumbs (w_db w))) \<Longrightarrow>
     calm w' \<and> w_clock w' = w_clock w \<and> removal contents (w_db w) g (w_db w') g'"
  unfolding drainPending_def by (rule drain_from_removal [OF _ refl])

end

section \<open>A drain that reports no error\<close>

text \<open>It left nothing withdrawn: the rows are gone and so are their objects.\<close>

definition drained :: "('g \<Rightarrow> string \<Rightarrow> string option) \<Rightarrow> database \<Rightarrow> 'g \<Rightarrow> database \<Rightarrow> 'g \<Rightarrow> bool" where
  "drained contents d g d' g' \<longleftrightarrow>
     d' = put_thumbs d (filter (\<lambda>r. \<not> withdrawn r) (db_thumbs d)) \<and>
     contents g' = (\<lambda>k. if k \<in> withdrawn_keys (db_thumbs d) then None else contents g k)"

text \<open>The rows of one turn's work list are gone, and their objects.\<close>

definition turned :: "('g \<Rightarrow> string \<Rightarrow> string option) \<Rightarrow> nat \<Rightarrow> database \<Rightarrow> 'g \<Rightarrow> database \<Rightarrow> 'g \<Rightarrow> bool" where
  "turned contents n d g d' g' \<longleftrightarrow>
     d' = put_thumbs d (filter (\<lambda>r. \<not> (th_id r \<in> th_id ` set (work_list n (db_thumbs d)) \<and> withdrawn r))
            (db_thumbs d)) \<and>
     contents g' = (\<lambda>k. if k \<in> th_object_key ` set (work_list n (db_thumbs d)) then None else contents g k)"

lemma in_work_list:
  assumes "distinct (map th_id rows)" "r \<in> set rows" "th_id r \<in> th_id ` set (work_list n rows)"
  shows "r \<in> set (work_list n rows)"
proof -
  from assms(3) obtain s where s: "s \<in> set (work_list n rows)" "th_id s = th_id r" by auto
  with distinct_map_inj [OF assms(1)] work_list_set [OF s(1)] assms(2) show ?thesis by metis
qed

lemma turned_drained:
  assumes ids: "distinct (map th_id (db_thumbs d))" and t: "turned contents n d g d1 g1"
    and dr: "drained contents d1 g1 d' g'"
  shows "drained contents d g d' g'"
proof -
  let ?L = "work_list n (db_thumbs d)"
  have rows: "db_thumbs d1 = filter (\<lambda>r. \<not> (th_id r \<in> th_id ` set ?L \<and> withdrawn r)) (db_thumbs d)"
    using t by (simp add: turned_def)
  have live: "filter (\<lambda>r. \<not> withdrawn r) (db_thumbs d1) = filter (\<lambda>r. \<not> withdrawn r) (db_thumbs d)"
    unfolding rows filter_filter by (rule filter_cong) auto
  have keys: "k \<in> withdrawn_keys (db_thumbs d) \<longleftrightarrow>
      k \<in> withdrawn_keys (db_thumbs d1) \<or> k \<in> th_object_key ` set ?L" for k
  proof
    assume "k \<in> withdrawn_keys (db_thumbs d)"
    then obtain r where r: "r \<in> set (db_thumbs d)" "withdrawn r" "k = th_object_key r"
      by (auto simp: withdrawn_keys_def)
    show "k \<in> withdrawn_keys (db_thumbs d1) \<or> k \<in> th_object_key ` set ?L"
    proof (cases "th_id r \<in> th_id ` set ?L")
      case True
      with in_work_list [OF ids r(1)] r(3) show ?thesis by blast
    next
      case False
      with r rows have "r \<in> set (filter withdrawn (db_thumbs d1))" by simp
      with r(3) show ?thesis unfolding withdrawn_keys_def by blast
    qed
  qed (auto simp: withdrawn_keys_def rows dest!: work_list_set)
  have "d' = put_thumbs d (filter (\<lambda>r. \<not> withdrawn r) (db_thumbs d))"
    using t dr live by (simp add: turned_def drained_def)
  moreover have "contents g' = (\<lambda>k. if k \<in> withdrawn_keys (db_thumbs d) then None else contents g k)"
    using t dr keys by (simp add: turned_def drained_def fun_eq_iff)
  ultimately show ?thesis by (simp add: drained_def)
qed

lemma turned_last:
  assumes "length (work_list n (db_thumbs d)) < n" "turned contents n d g d' g'"
  shows "drained contents d g d' g'"
proof -
  note set = work_list_whole [OF assms(1)]
  have "filter (\<lambda>r. \<not> (th_id r \<in> th_id ` set (work_list n (db_thumbs d)) \<and> withdrawn r)) (db_thumbs d) =
      filter (\<lambda>r. \<not> withdrawn r) (db_thumbs d)"
    by (rule filter_cong) (auto simp: set)
  with assms(2) show ?thesis
    by (simp add: turned_def drained_def withdrawn_keys_def set)
qed

lemma total_bytes_mset: "total_bytes rs = (\<Sum>r \<in># mset rs. th_size_bytes r)"
  by (induction rs) (simp_all add: total_bytes_def)

lemma total_bytes_append [simp]: "total_bytes (xs @ ys) = total_bytes xs + total_bytes ys"
  by (simp add: total_bytes_def)

text \<open>The work list and what is left after it make up the withdrawn rows.\<close>

lemma turned_counts:
  assumes ids: "distinct (map th_id (db_thumbs d))" and t: "turned contents n d g d1 g1"
  shows "length (filter withdrawn (db_thumbs d)) =
      length (work_list n (db_thumbs d)) + length (filter withdrawn (db_thumbs d1))"
    and "total_bytes (filter withdrawn (db_thumbs d)) =
      total_bytes (work_list n (db_thumbs d)) + total_bytes (filter withdrawn (db_thumbs d1))"
proof -
  let ?L = "work_list n (db_thumbs d)" and ?W = "filter withdrawn (db_thumbs d)"
  let ?in = "\<lambda>r. th_id r \<in> th_id ` set ?L"
  have rest: "filter withdrawn (db_thumbs d1) = filter (\<lambda>r. \<not> ?in r) ?W"
  proof -
    have "filter withdrawn (db_thumbs d1) =
        filter (\<lambda>r. \<not> (?in r \<and> withdrawn r) \<and> withdrawn r) (db_thumbs d)"
      using t by (simp add: turned_def)
    also have "\<dots> = filter (\<lambda>r. withdrawn r \<and> \<not> ?in r) (db_thumbs d)"
      by (rule filter_cong) auto
    finally show ?thesis by simp
  qed
  have "mset ?W = mset (filter ?in ?W) + mset (filter (\<lambda>r. \<not> ?in r) ?W)"
    by (simp only: mset_filter) (rule multiset_partition)
  then have split: "mset ?W = mset ?L + mset (filter withdrawn (db_thumbs d1))"
    by (simp only: work_list_mset [OF ids] rest)
  show "length ?W = length ?L + length (filter withdrawn (db_thumbs d1))"
    using arg_cong [OF split, of size] by (simp only: size_mset size_union)
  show "total_bytes ?W = total_bytes ?L + total_bytes (filter withdrawn (db_thumbs d1))"
    unfolding total_bytes_mset split by simp
qed

lemma drained_counts: "drained contents d g d' g' \<Longrightarrow> filter withdrawn (db_thumbs d') = []"
  by (simp add: drained_def)

context object_deleter
begin

lemma drain_turn_clean:
  assumes turn: "drain_turn del cnt bytes w g = (t, cnt', bytes', w', g')" and calm: "calm w"
    and ids: "distinct (map th_id (db_thumbs (w_db w)))" and t: "t = Return None \<or> t = Again"
  shows "turned contents drainBatch (w_db w) g (w_db w') g'"
    and "cnt' = cnt + int (length (work_list drainBatch (db_thumbs (w_db w))))"
    and "bytes' = bytes + total_bytes (work_list drainBatch (db_thumbs (w_db w)))"
    and "t = Return None \<Longrightarrow> length (work_list drainBatch (db_thumbs (w_db w))) < drainBatch"
proof -
  let ?L = "work_list drainBatch (db_thumbs (w_db w))"
  have "turned contents drainBatch (w_db w) g (w_db w') g' \<and> cnt' = cnt + int (length ?L) \<and>
      bytes' = bytes + total_bytes ?L \<and> (t = Return None \<longrightarrow> length ?L < drainBatch)"
    using turn calm
  proof (cases rule: drain_turn_cases)
    case 2
    then show ?thesis by (simp add: turned_def total_bytes_def drainBatch_def fun_eq_iff)
  next
    case (3 rows acc w1 r)
    from t 3(8) obtain n where r: "r = Inr n" by (cases r) auto
    have clean: "da_failed acc = None"
      using t 3(8) r by (auto split: if_splits)
    have ids': "da_purge acc = map th_id ?L"
      using delete_rows_all [OF 3(3) clean] 3(1) by (simp add: drain_row_of_def comp_def)
    have keys: "fst ` snd ` set rows = th_object_key ` set ?L"
      using 3(1) by (force simp: drain_row_of_def)
    have bytes: "sum_list (map (snd \<circ> snd) rows) = total_bytes ?L"
      using 3(1) by (simp add: drain_row_of_def comp_def total_bytes_def)
    note effect = delete_rows_clean [OF 3(3) clean, unfolded keys bytes]
    have rows: "w_db w' = put_thumbs (w_db w)
        (filter (\<lambda>r. \<not> (th_id r \<in> th_id ` set ?L \<and> withdrawn r)) (db_thumbs (w_db w)))"
      using purge_rows_calm(3) [OF 3(4,7)] r 3(5) ids' by simp
    have len: "length rows = length ?L" using 3(1) by simp
    show ?thesis
      using effect rows len 3(8-10) r clean by (auto simp: turned_def)
  qed (use t in auto)
  then show "turned contents drainBatch (w_db w) g (w_db w') g'"
    "cnt' = cnt + int (length ?L)" "bytes' = bytes + total_bytes ?L"
    "t = Return None \<Longrightarrow> length ?L < drainBatch" by auto
qed

lemma drain_from_clean:
  "drain_from d cnt bytes w g = ((n, b, None), w', g') \<Longrightarrow> d = del \<Longrightarrow> calm w \<Longrightarrow>
     distinct (map th_id (db_thumbs (w_db w))) \<Longrightarrow>
     drained contents (w_db w) g (w_db w') g' \<and>
     n = cnt + int (length (filter withdrawn (db_thumbs (w_db w)))) \<and>
     b = bytes + total_bytes (filter withdrawn (db_thumbs (w_db w)))"
proof (induction d cnt bytes w g rule: drain_from.induct)
  case (1 d cnt bytes w g)
  obtain t c1 b1 w1 g1 where turn: "drain_turn d cnt bytes w g = (t, c1, b1, w1, g1)"
    by (metis prod_cases5)
  note turn' = turn [unfolded 1(3)]
  note eff = drain_turn_removal [OF turn' 1(4,5)]
  show ?case
  proof (cases t)
    case (Return e)
    then have res: "e = None" "c1 = n" "b1 = b" "w1 = w'" "g1 = g'"
      using 1(2) turn by (simp_all add: drain_from.simps)
    then have clean: "t = Return None \<or> t = Again" using Return by simp
    note facts = drain_turn_clean [OF turn' 1(4,5) clean]
    have dr: "drained contents (w_db w) g (w_db w1) g1"
      using turned_last [OF facts(4) facts(1)] Return res by simp
    with facts turned_counts [OF 1(5) facts(1)] drained_counts [OF dr] res show ?thesis
      by (simp add: total_bytes_def)
  next
    case Again
    then have rest: "drain_from d c1 b1 w1 g1 = ((n, b, None), w', g')"
      using 1(2) turn by (subst (asm) drain_from.simps) simp
    note facts = drain_turn_clean [OF turn' 1(4,5) disjI2 [OF Again]]
    have "distinct (map th_id (db_thumbs (w_db w1)))"
      using removal_thumbs_ok [OF eff [THEN conjunct2, THEN conjunct2] 1(5)] .
    from 1(1) [OF turn [symmetric] Again refl refl refl rest 1(3) _ this] eff
    have IH: "drained contents (w_db w1) g1 (w_db w') g'"
      "n = c1 + int (length (filter withdrawn (db_thumbs (w_db w1))))"
      "b = b1 + total_bytes (filter withdrawn (db_thumbs (w_db w1)))" by simp_all
    with turned_drained [OF 1(5) facts(1) IH(1)] facts(2,3) turned_counts [OF 1(5) facts(1)]
    show ?thesis by simp
  qed
qed

lemma drain_clean:
  "drainPending del w g = ((n, b, None), w', g') \<Longrightarrow> calm w \<Longrightarrow> distinct (map th_id (db_thumbs (w_db w))) \<Longrightarrow>
     drained contents (w_db w) g (w_db w') g' \<and>
     n = int (length (filter withdrawn (db_thumbs (w_db w)))) \<and>
     b = total_bytes (filter withdrawn (db_thumbs (w_db w)))"
  unfolding drainPending_def using drain_from_clean [OF _ refl, of 0 0] by simp

text \<open>With a store that refuses nothing and no fault left, the drain reports no error.\<close>

lemma drain_turn_healthy:
  assumes healthy: "\<And>k g. fst (del k g) = None" and quiet: "quiet w"
    and turn: "drain_turn del cnt bytes w g = (t, cnt', bytes', w', g')"
  shows "t = Return None \<or> t = Again" and "quiet w'"
proof -
  obtain rows w1 where list: "stmt (q_PendingDeleteThumbnails drainBatch) w = (Inr rows, w1)"
    and w1: "quiet w1"
    using quiet by (auto simp: stmt_quiet exec_sql_def PendingDelete_eq select_def)
  obtain acc g1 where del: "delete_rows del rows
      \<lparr>da_purge = [], da_count = cnt, da_bytes = bytes, da_failed = None\<rparr> g = (acc, g1)"
    by fastforce
  have clean: "da_failed acc = None"
    using delete_rows_healthy [OF healthy del] by simp
  obtain n w2 where purge: "purge_rows (da_purge acc) w1 = (Inr n, w2)" and w2: "quiet w2"
    using w1 by (cases "da_purge acc = []")
      (auto simp: purge_rows_def ret_def stmt_quiet exec_sql_def q_PurgeThumbnails_def Let_def)
  have "(t = Return None \<or> t = Again) \<and> quiet w'"
  proof (cases "rows = []")
    case True
    with turn list w1 show ?thesis by (simp add: drain_turn_def)
  next
    case False
    with turn list del purge w2 clean show ?thesis
      by (auto simp: drain_turn_def split: if_splits)
  qed
  then show "t = Return None \<or> t = Again" "quiet w'" by auto
qed

lemma drain_from_healthy:
  "drain_from d cnt bytes w g = ((n, b, e), w', g') \<Longrightarrow> d = del \<Longrightarrow>
     (\<And>k g. fst (del k g) = None) \<Longrightarrow> quiet w \<Longrightarrow> e = None"
proof (induction d cnt bytes w g rule: drain_from.induct)
  case (1 d cnt bytes w g)
  obtain t c1 b1 w1 g1 where turn: "drain_turn d cnt bytes w g = (t, c1, b1, w1, g1)"
    by (metis prod_cases5)
  note facts = drain_turn_healthy [OF 1(4,5) turn [unfolded 1(3)]]
  show ?case
  proof (cases t)
    case (Return e)
    with 1(2) turn facts(1) show ?thesis by (simp add: drain_from.simps)
  next
    case Again
    then have "drain_from d c1 b1 w1 g1 = ((n, b, e), w', g')"
      using 1(2) turn by (subst (asm) drain_from.simps) simp
    from 1(1) [OF turn [symmetric] Again refl refl refl this 1(3,4) facts(2)] show ?thesis .
  qed
qed

lemma drain_healthy:
  "drainPending del w g = ((n, b, e), w', g') \<Longrightarrow> (\<And>k g. fst (del k g) = None) \<Longrightarrow> quiet w \<Longrightarrow> e = None"
  unfolding drainPending_def by (rule drain_from_healthy [OF _ refl])

end

end
