(* ===== verification/Thumbnail_Service.thy ===== *)
theory Thumbnail_Service
  imports Render_Service Cache_Effects
begin

text \<open>
  Cached page previews (\<open>internal/service/thumbnail.go\<close>): the handler, the read through the
  accounting row, and the render that stores the object before the row.  The object store is a
  pair of functions over a state of its own, as in \<open>Object_Store\<close>.  This theory is the code of
  one caller; how callers share a render is \<open>Render_Party\<close>.
\<close>

record 'g objects =
  ob_get :: "string \<Rightarrow> 'g \<Rightarrow> (err + string) \<times> 'g"
  ob_put :: "string \<Rightarrow> string \<Rightarrow> string \<Rightarrow> 'g \<Rightarrow> err option \<times> 'g"

type_synonym ('g, 'a) cached = "world \<Rightarrow> 'g \<Rightarrow> (code + 'a) \<times> world \<times> 'g"

text \<open>Go's \<open>int32(v)\<close> of a \<open>uint32\<close>.\<close>

definition int32 :: "u32 \<Rightarrow> int" where "int32 v = sint v"

section \<open>Reading the cache\<close>

definition entry_row :: "entry \<Rightarrow> th_row sql" where
  "entry_row key = q_GetThumbnail (en_contentVersionID key) (int32 (en_page key))
     (int32 (ib_width (en_bounds key))) (int32 (ib_height (en_bounds key))) (if_name (en_format key))"

definition fromCache :: "'g objects \<Rightarrow> entry \<Rightarrow> ('g, string option) cached" where
  "fromCache ob key w g =
     (case stmt (entry_row key) w of
        (Inl e, w1) \<Rightarrow> if e = ErrNoRows then (Inr None, w1, g) else (Inl CodeInternal, w1, g)
      | (Inr row, w1) \<Rightarrow>
          (case ob_get ob (th_object_key row) g of
             (Inl e, g1) \<Rightarrow>
               if e = ErrNoSuchKey then (Inr None, w1, g1) else (Inl CodeUnavailable, w1, g1)
           | (Inr img, g1) \<Rightarrow>
               (case stmt (q_TouchThumbnail (th_id row)) w1 of (_, w2) \<Rightarrow> (Inr (Some img), w2, g1))))"

section \<open>Rendering into the cache\<close>

definition collect :: "string chunk_fn" where "collect body buf = (None, buf @ body)"

definition publish_row :: "entry \<Rightarrow> string \<Rightarrow> th_row sql" where
  "publish_row key img = q_UpsertThumbnail (en_contentVersionID key) (int32 (en_page key))
     (int32 (ib_width (en_bounds key))) (int32 (ib_height (en_bounds key))) (if_name (en_format key))
     (objectKey key) (int (length img))"

definition render_bytes :: "render_env \<Rightarrow> entry \<Rightarrow> string \<Rightarrow> code + string" where
  "render_bytes env key source =
     (let pr = page_request source (en_page key) (en_format key) (en_bounds key) in
      case RenderPage_client (re_configured env) (re_renderer env pr) pr collect [] of
        (Some e, _, _) \<Rightarrow> Inl (renderError e)
      | (None, img, _) \<Rightarrow> if img = [] then Inl CodeInternal else Inr img)"

definition publish :: "'g objects \<Rightarrow> entry \<Rightarrow> string \<Rightarrow> ('g, string) cached" where
  "publish ob key img w g =
     (case ob_put ob (objectKey key) img (if_mediaType (en_format key)) g of
        (Some _, g1) \<Rightarrow> (Inl CodeUnavailable, w, g1)
      | (None, g1) \<Rightarrow>
          (case stmt (publish_row key img) w of
             (Inl _, w1) \<Rightarrow> (Inl CodeUnavailable, w1, g1)
           | (Inr _, w1) \<Rightarrow> (Inr img, w1, g1)))"

definition render :: "'g objects \<Rightarrow> render_env \<Rightarrow> GetDocumentRow \<Rightarrow> entry \<Rightarrow> ('g, string) cached" where
  "render ob env row key w g =
     (case limit_acquire (re_slot env) of
        Some c \<Rightarrow> (Inl c, w, g)
      | None \<Rightarrow>
          (case sourcePath row w of
             (Inl c, w1) \<Rightarrow> (Inl c, w1, g)
           | (Inr source, w1) \<Rightarrow>
               (case render_bytes env key source of
                  Inl c \<Rightarrow> (Inl c, w1, g)
                | Inr img \<Rightarrow> publish ob key img w1 g)))"

text \<open>The function the callers of one entry share: the cache again, then the render.\<close>

definition flight :: "'g objects \<Rightarrow> render_env \<Rightarrow> GetDocumentRow \<Rightarrow> entry \<Rightarrow> ('g, string) cached" where
  "flight ob env row key w g =
     (case fromCache ob key w g of
        (Inl c, w1, g1) \<Rightarrow> (Inl c, w1, g1)
      | (Inr (Some img), w1, g1) \<Rightarrow> (Inr img, w1, g1)
      | (Inr None, w1, g1) \<Rightarrow> render ob env row key w1 g1)"

text \<open>A caller that leads its own flight and stays for the result.\<close>

definition load :: "'g objects \<Rightarrow> render_env \<Rightarrow> GetDocumentRow \<Rightarrow> entry \<Rightarrow> ('g, string) cached" where
  "load ob env row key w g =
     (case fromCache ob key w g of
        (Inl c, w1, g1) \<Rightarrow> (Inl c, w1, g1)
      | (Inr (Some img), w1, g1) \<Rightarrow> (Inr img, w1, g1)
      | (Inr None, w1, g1) \<Rightarrow> flight ob env row key w1 g1)"

section \<open>The handler\<close>

record GetThumbnailRequest =
  tq_ref :: DocumentRef
  tq_page :: u32
  tq_format :: ImageFormat
  tq_max_size :: "ImageSize option"

record GetThumbnailResponse =
  tr_ref :: DocumentRef
  tr_page :: u32
  tr_format :: ImageFormat
  tr_size :: ImageSize
  tr_image :: string

text \<open>The two pointers the handler follows: a resolved row has a version and its hash.\<close>

definition entry_of :: "GetThumbnailRequest \<Rightarrow> GetDocumentRow \<Rightarrow> imageFormat \<Rightarrow> entry" where
  "entry_of req row format =
     \<lparr>en_contentVersionID = the (gd_current_cv row), en_contentHash = the (gd_content_hash row),
      en_page = tq_page req, en_bounds = thumbnailBounds (tq_max_size req), en_format = format\<rparr>"

definition thumbnail_prelude ::
  "render_env \<Rightarrow> GetThumbnailRequest \<Rightarrow> (GetDocumentRow \<times> imageFormat) handler" where
  "thumbnail_prelude env req =
     hbind (resolveRef (tq_ref req)) (\<lambda>row.
     hbind (hlift (checkPage (re_decode env) (tq_page req) row)) (\<lambda>_.
     hbind (hlift (resolveFormat (tq_format req) defaultThumbnailFormat)) (\<lambda>format.
     hret (row, format))))"

definition thumbnail_response ::
  "GetThumbnailRequest \<Rightarrow> GetDocumentRow \<Rightarrow> imageFormat \<Rightarrow> string \<Rightarrow> GetThumbnailResponse" where
  "thumbnail_response req row format img =
     \<lparr>tr_ref = currentRef row, tr_page = tq_page req, tr_format = if_proto format,
      tr_size = bounds_message (thumbnailBounds (tq_max_size req)), tr_image = img\<rparr>"

definition GetThumbnail ::
  "'g objects \<Rightarrow> render_env \<Rightarrow> GetThumbnailRequest \<Rightarrow> ('g, GetThumbnailResponse) cached" where
  "GetThumbnail ob env req w g =
     (case thumbnail_prelude env req w of
        (Inl c, w1) \<Rightarrow> (Inl c, w1, g)
      | (Inr (row, format), w1) \<Rightarrow>
          (case load ob env row (entry_of req row format) w1 g of
             (Inl c, w2, g2) \<Rightarrow> (Inl c, w2, g2)
           | (Inr img, w2, g2) \<Rightarrow> (Inr (thumbnail_response req row format img), w2, g2)))"

end
