(* ===== verification/Cache_Limits.thy ===== *)
theory Cache_Limits
  imports Cache_Effects
begin

text \<open>
  What eviction and the orphan sweep do: withdrawing by age ends with every expired row
  withdrawn, withdrawing by quota ends with the least recently used overflow withdrawn, and
  the sweep removes objects no row reaches.
\<close>

section \<open>Withdrawing is cumulative\<close>

lemma withdraw_idem [simp]: "withdraw t (withdraw s r) = withdraw s r"
  by (simp add: withdraw_def)

lemma mark_where_now [simp]: "db_now (mark_where P d) = db_now d" "db_docs (mark_where P d) = db_docs d"
  by (simp_all add: mark_where_def)

lemma mark_where_twice: "mark_where Q (mark_where P d) = mark_where (\<lambda>r. P r \<or> Q r) d"
proof -
  have "update_where Q (withdraw t) (update_where P (withdraw t) rows) =
      update_where (\<lambda>r. P r \<or> Q r) (withdraw t) rows" for t rows
    by (induction rows) (auto simp: update_where_def)
  then show ?thesis by (simp add: mark_where_eq)
qed

lemma mark_where_cong:
  "(\<And>r. r \<in> set (db_thumbs d) \<Longrightarrow> P r = Q r) \<Longrightarrow> mark_where P d = mark_where Q d"
  by (simp add: mark_where_def update_where_def cong: map_cong)

lemma mark_where_none: "(\<And>r. r \<in> set (db_thumbs d) \<Longrightarrow> \<not> P r) \<Longrightarrow> mark_where P d = d"
  by (simp add: mark_where_eq update_where_none)

lemma mark_where_ids [simp]: "map th_id (db_thumbs (mark_where P d)) = map th_id (db_thumbs d)"
  by (simp add: mark_where_eq map_update_where_same)

lemma live_after_mark:
  "filter (\<lambda>r. \<not> withdrawn r) (db_thumbs (mark_where P d)) =
     filter (\<lambda>r. \<not> withdrawn r \<and> \<not> P r) (db_thumbs d)"
proof -
  have "filter (\<lambda>r. \<not> withdrawn r) (update_where P (withdraw t) rows) =
      filter (\<lambda>r. \<not> withdrawn r \<and> \<not> P r) rows" for t rows
    by (induction rows) (auto simp: update_where_def)
  then show ?thesis by (simp add: mark_where_eq)
qed

lemma withdrawn_keys_mark:
  "withdrawn_keys (db_thumbs (mark_where P d)) =
     th_object_key ` {r \<in> set (db_thumbs d). withdrawn r \<or> P r}"
proof -
  have "set (filter withdrawn (update_where P (withdraw t) rows)) =
      withdraw t ` {r \<in> set rows. P r} \<union> {r \<in> set rows. withdrawn r \<and> \<not> P r}" for t rows
    by (auto simp: set_update_where)
  then have "withdrawn_keys (db_thumbs (mark_where P d)) =
      th_object_key ` ({r \<in> set (db_thumbs d). P r} \<union> {r \<in> set (db_thumbs d). withdrawn r \<and> \<not> P r})"
    by (simp add: withdrawn_keys_def mark_where_eq image_Un image_image)
  also have "{r \<in> set (db_thumbs d). P r} \<union> {r \<in> set (db_thumbs d). withdrawn r \<and> \<not> P r} =
      {r \<in> set (db_thumbs d). withdrawn r \<or> P r}" by auto
  finally show ?thesis .
qed

text \<open>The rows a statement that withdraws by id reaches.\<close>

lemma mark_ids:
  assumes "distinct (map th_id (db_thumbs d))" "set L \<subseteq> set (db_thumbs d)"
  shows "mark_where (\<lambda>r. th_id r \<in> set (map th_id L)) d = mark_where (\<lambda>r. r \<in> set L) d"
proof (rule mark_where_cong)
  fix r assume r: "r \<in> set (db_thumbs d)"
  show "(th_id r \<in> set (map th_id L)) = (r \<in> set L)"
    using distinct_map_inj [OF assms(1) r] assms(2) by auto
qed

lemma mark_calm:
  assumes "calm w" "mark ids w = (r, w')"
  shows "calm w'" "w_clock w' = w_clock w"
    and "(\<exists>e. r = Inl e) \<and> w_db w' = w_db w \<or>
      (\<exists>n. r = Inr n) \<and> w_db w' = mark_where (\<lambda>r. th_id r \<in> set ids) (w_db w)"
  using marking_calm [OF assms(1) assms(2) [unfolded mark_def q_MarkThumbnailsPendingDelete_def]]
  by auto

section \<open>Age\<close>

definition age_list :: "int \<Rightarrow> nat \<Rightarrow> th_row list \<Rightarrow> th_row list" where
  "age_list older n rows = take n (sort_key th_created_at (filter (expired older) rows))"

lemma CandidatesByAge_eq:
  "q_ThumbnailEvictionCandidatesByAge older n = select (\<lambda>d. Inr (age_list older n (db_thumbs d)))"
  by (simp add: q_ThumbnailEvictionCandidatesByAge_def age_list_def expired_def [abs_def])

lemma age_list_set: "set (age_list older n rows) \<subseteq> set (filter (expired older) rows)"
  unfolding age_list_def using set_take_subset by fastforce

lemma age_list_whole:
  "length (age_list older n rows) < n \<Longrightarrow> set (age_list older n rows) = set (filter (expired older) rows)"
  by (auto simp: age_list_def min_def split: if_splits)

text \<open>One turn withdraws the rows it listed, or leaves the table as it was.\<close>

lemma age_turn_calm:
  assumes turn: "age_turn older cnt bytes w = (t, cnt', bytes', w')" and calm: "calm w"
    and ids: "distinct (map th_id (db_thumbs (w_db w)))"
  shows "calm w' \<and> w_clock w' = w_clock w"
    and "(\<exists>e. t = Return (Some e)) \<and> w_db w' = w_db w \<or>
      (t = Again \<or> t = Return None \<and> length (age_list older evictionBatch (db_thumbs (w_db w))) < evictionBatch) \<and>
      w_db w' = mark_where (\<lambda>r. r \<in> set (age_list older evictionBatch (db_thumbs (w_db w)))) (w_db w)"
proof -
  let ?L = "age_list older evictionBatch (db_thumbs (w_db w))"
  obtain r1 w1 where list: "stmt (q_ThumbnailEvictionCandidatesByAge older evictionBatch) w = (r1, w1)"
    by fastforce
  note c = stmt_calm_select [OF calm list [unfolded CandidatesByAge_eq]]
  have "(calm w' \<and> w_clock w' = w_clock w) \<and> ((\<exists>e. t = Return (Some e)) \<and> w_db w' = w_db w \<or>
      (t = Again \<or> t = Return None \<and> length ?L < evictionBatch) \<and> w_db w' = mark_where (\<lambda>r. r \<in> set ?L) (w_db w))"
  proof (cases r1)
    case (Inl e)
    have "t = Return (Some e)" "w' = w1" using turn by (simp_all add: age_turn_def list Inl)
    with c(1-3) show ?thesis by simp
  next
    case (Inr L)
    with c(4) [OF Inr] have L: "L = ?L" by simp
    show ?thesis
    proof (cases "?L = []")
      case True
      have "t = Return None" "w' = w1" using turn by (simp_all add: age_turn_def list Inr L True)
      with c(1-3) True show ?thesis by (simp add: mark_where_none evictionBatch_def)
    next
      case False
      obtain r2 w2 where mk: "mark (map th_id ?L) w1 = (r2, w2)" by fastforce
      note m = mark_calm [OF c(1) mk]
      have "set ?L \<subseteq> set (db_thumbs (w_db w))" using age_list_set by fastforce
      note marked = mark_ids [OF ids this]
      show ?thesis
      proof (cases r2)
        case (Inl e)
        have "t = Return (Some e)" "w' = w2"
          using turn by (simp_all add: age_turn_def list Inr L False mk Inl Let_def)
        with c(1-3) m Inl show ?thesis by auto
      next
        case (Inr n)
        have "t = (if length ?L < evictionBatch then Return None else Again)" "w' = w2"
          using turn \<open>r1 = Inr L\<close> by (simp_all add: age_turn_def list L False mk Inr Let_def)
        with c(1-3) m Inr marked show ?thesis by (auto split: if_splits)
      qed
    qed
  qed
  then show "calm w' \<and> w_clock w' = w_clock w"
    "(\<exists>e. t = Return (Some e)) \<and> w_db w' = w_db w \<or>
      (t = Again \<or> t = Return None \<and> length ?L < evictionBatch) \<and>
      w_db w' = mark_where (\<lambda>r. r \<in> set ?L) (w_db w)" by blast+
qed

lemma age_from_calm:
  "age_from older cnt bytes w = ((n, b, e), w') \<Longrightarrow> calm w \<Longrightarrow> distinct (map th_id (db_thumbs (w_db w))) \<Longrightarrow>
     calm w' \<and> w_clock w' = w_clock w \<and> (\<exists>P. w_db w' = mark_where P (w_db w)) \<and>
     (e = None \<longrightarrow> w_db w' = mark_where (expired older) (w_db w))"
proof (induction older cnt bytes w rule: age_from.induct)
  case (1 older cnt bytes w)
  let ?L = "age_list older evictionBatch (db_thumbs (w_db w))"
  obtain t c1 b1 w1 where turn: "age_turn older cnt bytes w = (t, c1, b1, w1)"
    by (metis prod_cases4)
  note eff = age_turn_calm [OF turn 1(3,4)]
  show ?case
  proof (cases t)
    case (Return e1)
    then have res: "e1 = e" "w1 = w'" using 1(2) turn by (simp_all add: age_from.simps)
    show ?thesis
    proof (cases e)
      case None
      with eff(2) Return res have short: "length ?L < evictionBatch"
        and db: "w_db w' = mark_where (\<lambda>r. r \<in> set ?L) (w_db w)" by auto
      have "mark_where (\<lambda>r. r \<in> set ?L) (w_db w) = mark_where (expired older) (w_db w)"
        by (rule mark_where_cong) (simp add: age_list_whole [OF short])
      with db eff(1) res show ?thesis by auto
    next
      case (Some x)
      with eff(2) Return res have "w_db w' = mark_where (\<lambda>_. False) (w_db w)"
        by (auto simp: mark_where_none)
      with eff(1) res Some show ?thesis by blast
    qed
  next
    case Again
    then have rest: "age_from older c1 b1 w1 = ((n, b, e), w')"
      using 1(2) turn by (subst (asm) age_from.simps) simp
    from Again eff(2) have db: "w_db w1 = mark_where (\<lambda>r. r \<in> set ?L) (w_db w)" by auto
    have "distinct (map th_id (db_thumbs (w_db w1)))" using 1(4) by (simp add: db)
    from 1(1) [OF turn [symmetric] Again refl refl rest _ this] eff(1)
    have IH: "calm w'" "w_clock w' = w_clock w" "\<exists>P. w_db w' = mark_where P (w_db w1)"
      "e = None \<longrightarrow> w_db w' = mark_where (expired older) (w_db w1)" by auto
    have union: "mark_where (\<lambda>r. r \<in> set ?L \<or> expired older r) (w_db w) = mark_where (expired older) (w_db w)"
      by (rule mark_where_cong) (use age_list_set in fastforce)
    from IH(3,4) have "\<exists>P. w_db w' = mark_where P (w_db w)"
      "e = None \<longrightarrow> w_db w' = mark_where (expired older) (w_db w)"
      unfolding db mark_where_twice union by blast+
    with IH(1,2) show ?thesis by blast
  qed
qed

lemma markByAge_calm:
  assumes "markByAge ew w = ((n, b, e), w')" "calm w" "distinct (map th_id (db_thumbs (w_db w)))"
  shows "calm w' \<and> w_clock w' = w_clock w \<and> (\<exists>P. w_db w' = mark_where P (w_db w))"
    and "e = None \<Longrightarrow> 0 < ew_max_age ew \<Longrightarrow>
      w_db w' = mark_where (expired (w_clock w - ew_max_age ew)) (w_db w)"
proof -
  have "(calm w' \<and> w_clock w' = w_clock w \<and> (\<exists>P. w_db w' = mark_where P (w_db w))) \<and>
      (e = None \<longrightarrow> 0 < ew_max_age ew \<longrightarrow>
        w_db w' = mark_where (expired (w_clock w - ew_max_age ew)) (w_db w))"
  proof (cases "ew_max_age ew \<le> 0")
    case True
    then have "w_db w' = mark_where (\<lambda>_. False) (w_db w)" "w' = w"
      using assms(1) by (auto simp: markByAge_def mark_where_none)
    with True assms(2) show ?thesis by auto
  next
    case False
    with age_from_calm [OF _ assms(2,3)] assms(1) show ?thesis
      by (simp add: markByAge_def)
  qed
  then show "calm w' \<and> w_clock w' = w_clock w \<and> (\<exists>P. w_db w' = mark_where P (w_db w))"
    "e = None \<Longrightarrow> 0 < ew_max_age ew \<Longrightarrow>
      w_db w' = mark_where (expired (w_clock w - ew_max_age ew)) (w_db w)" by blast+
qed

section \<open>Quota\<close>

lemma markByQuota_calm:
  assumes run: "markByQuota ew w = ((n, b, e), w')" and calm: "calm w"
    and ids: "distinct (map th_id (db_thumbs (w_db w)))"
  shows "calm w' \<and> w_clock w' = w_clock w \<and> (\<exists>P. w_db w' = mark_where P (w_db w))"
    and "e = None \<Longrightarrow> 0 < ew_max_bytes ew \<Longrightarrow>
      w_db w' = mark_where (over_quota (ew_max_bytes ew) (w_db w)) (w_db w)"
proof -
  let ?d = "w_db w"
  let ?over = "over_quota (ew_max_bytes ew) ?d"
  let ?L = "sort_key lru_order (filter ?over (db_thumbs ?d))"
  have none: "mark_where (\<lambda>_. False) ?d = ?d" by (simp add: mark_where_none)
  have "(calm w' \<and> w_clock w' = w_clock w) \<and> (w_db w' = ?d \<and> (e = None \<longrightarrow> ew_max_bytes ew \<le> 0) \<or>
      w_db w' = mark_where ?over ?d)"
  proof (cases "ew_max_bytes ew \<le> 0")
    case True
    with run calm show ?thesis by (simp add: markByQuota_def)
  next
    case False
    obtain r1 w1 where list: "stmt (q_ThumbnailEvictionCandidatesByQuota (ew_max_bytes ew)) w = (r1, w1)"
      by fastforce
    note c = stmt_calm_select [OF calm list [unfolded q_ThumbnailEvictionCandidatesByQuota_def]]
    show ?thesis
    proof (cases r1)
      case (Inl x)
      have "w' = w1" "e = Some x" using run False by (simp_all add: markByQuota_def list Inl)
      with c(1-3) show ?thesis by simp
    next
      case (Inr cs)
      then have cs: "cs = map (\<lambda>r. (r, running_bytes ?d r)) ?L" using c(4) [OF Inr] by simp
      show ?thesis
      proof (cases "cs = []")
        case True
        then have "filter ?over (db_thumbs ?d) = []"
          using cs by (metis length_0_conv length_map length_sort)
        then have "mark_where ?over ?d = ?d"
          by (intro mark_where_none) (simp add: filter_empty_conv)
        moreover have "w' = w1" using run False by (simp add: markByQuota_def list Inr True)
        ultimately show ?thesis using c(1-3) by simp
      next
        case cs': False
        obtain r2 w2 where mk: "mark (map (th_id \<circ> fst) cs) w1 = (r2, w2)" by fastforce
        note m = mark_calm [OF c(1) mk]
        have ids_eq: "map (th_id \<circ> fst) cs = map th_id ?L" by (simp add: cs)
        have "set ?L \<subseteq> set (db_thumbs ?d)" by auto
        from mark_ids [OF ids this]
        have marked: "mark_where (\<lambda>r. th_id r \<in> set (map th_id ?L)) ?d = mark_where ?over ?d"
          by (simp only:, intro mark_where_cong) simp
        show ?thesis
        proof (cases r2)
          case (Inl x)
          have "w' = w2" "e = Some x"
            using run False \<open>r1 = Inr cs\<close> cs' by (simp_all add: markByQuota_def list mk Inl)
          with c(1-3) m Inl show ?thesis by auto
        next
          case (Inr k)
          have "w' = w2" using run False \<open>r1 = Inr cs\<close> cs' by (simp add: markByQuota_def list mk Inr)
          with c(1-3) m Inr marked ids_eq show ?thesis by auto
        qed
      qed
    qed
  qed
  with none show "calm w' \<and> w_clock w' = w_clock w \<and> (\<exists>P. w_db w' = mark_where P ?d)"
    "e = None \<Longrightarrow> 0 < ew_max_bytes ew \<Longrightarrow> w_db w' = mark_where ?over ?d"
    by (metis, auto)
qed

lemma total_bytes_filter_mono:
  assumes "\<And>r. r \<in> set rows \<Longrightarrow> 0 \<le> th_size_bytes r" "\<And>r. r \<in> set rows \<Longrightarrow> P r \<Longrightarrow> Q r"
  shows "total_bytes (filter P rows) \<le> total_bytes (filter Q rows)"
  using assms
proof (induction rows)
  case Nil
  then show ?case by (simp add: total_bytes_def)
next
  case (Cons r rows)
  from Cons.IH Cons.prems have "total_bytes (filter P rows) \<le> total_bytes (filter Q rows)" by simp
  with Cons.prems [of r] show ?case by (auto simp: total_bytes_def)
qed

text \<open>What the quota keeps fits the quota.\<close>

lemma quota_fits:
  assumes sizes: "\<And>r. r \<in> set (db_thumbs d) \<Longrightarrow> 0 \<le> th_size_bytes r" and "0 \<le> mx"
  shows "total_bytes (filter (\<lambda>r. \<not> withdrawn r \<and> \<not> over_quota mx d r) (db_thumbs d)) \<le> mx"
proof -
  let ?keep = "\<lambda>r. \<not> withdrawn r \<and> \<not> over_quota mx d r"
  show ?thesis
  proof (cases "filter ?keep (db_thumbs d) = []")
    case True
    with \<open>0 \<le> mx\<close> show ?thesis by (simp only: total_bytes_def) simp
  next
    case False
    then obtain r where r: "first_by lru_order ?keep (db_thumbs d) = Some r"
      by (metis first_by_None filter_empty_conv option.exhaust)
    note r = first_by_Some [OF r]
    have "total_bytes (filter ?keep (db_thumbs d)) \<le> running_bytes d r"
      unfolding running_bytes_def by (rule total_bytes_filter_mono) (use sizes r(3) in auto)
    also have "\<dots> \<le> mx" using r(2) by (auto simp: over_quota_def)
    finally show ?thesis .
  qed
qed

section \<open>The quota query and the window function it stands for\<close>

text \<open>
  \<open>sum(size_bytes) OVER (ORDER BY last_access_at DESC, id DESC)\<close>: the reference the comment
  on the query gives.
\<close>

fun window_sums :: "int \<Rightarrow> th_row list \<Rightarrow> (th_row \<times> int) list" where
  "window_sums acc [] = []"
| "window_sums acc (r # rs) = (r, acc + th_size_bytes r) # window_sums (acc + th_size_bytes r) rs"

definition most_recent_first :: "th_row list \<Rightarrow> th_row list" where
  "most_recent_first rows = rev (sort_key lru_order (filter (\<lambda>r. \<not> withdrawn r) rows))"

definition quota_by_window :: "int \<Rightarrow> th_row list \<Rightarrow> (th_row \<times> int) list" where
  "quota_by_window mx rows =
     rev (filter (\<lambda>(r, s). s > mx) (window_sums 0 (most_recent_first rows)))"

lemma lru_order_inj:
  "distinct (map th_id rows) \<Longrightarrow> r \<in> set rows \<Longrightarrow> s \<in> set rows \<Longrightarrow> lru_order r = lru_order s \<Longrightarrow> r = s"
  using distinct_map_inj [of th_id rows r s] by (simp add: lru_order_def)

lemma window_sums_running:
  assumes "sorted_wrt (\<lambda>r s. lru_order s < lru_order r) (pre @ rs)"
  shows "window_sums (total_bytes pre) rs =
    map (\<lambda>r. (r, total_bytes (filter (\<lambda>s. lru_order r \<le> lru_order s) (pre @ rs)))) rs"
  using assms
proof (induction rs arbitrary: pre)
  case Nil
  then show ?case by simp
next
  case (Cons r rs)
  have pre: "filter (\<lambda>s. lru_order r \<le> lru_order s) pre = pre"
    using Cons.prems by (auto simp: filter_id_conv sorted_wrt_append less_imp_le)
  have rs: "filter (\<lambda>s. lru_order r \<le> lru_order s) rs = []"
    using Cons.prems by (auto simp: filter_empty_conv sorted_wrt_append not_le)
  have here: "total_bytes (filter (\<lambda>s. lru_order r \<le> lru_order s) (pre @ r # rs)) =
      total_bytes pre + th_size_bytes r"
    by (simp add: pre rs) (simp add: total_bytes_def)
  from Cons.IH [of "pre @ [r]"] Cons.prems
  have "window_sums (total_bytes pre + th_size_bytes r) rs =
      map (\<lambda>r'. (r', total_bytes (filter (\<lambda>s. lru_order r' \<le> lru_order s) (pre @ r # rs)))) rs"
    by (simp add: total_bytes_def add.assoc)
  with here show ?case by simp
qed

lemma running_bytes_recent:
  "running_bytes d r = total_bytes (filter (\<lambda>s. lru_order r \<le> lru_order s) (most_recent_first (db_thumbs d)))"
proof -
  have "mset (filter (\<lambda>s. lru_order r \<le> lru_order s \<and> \<not> withdrawn s) (db_thumbs d)) =
      mset (filter (\<lambda>s. lru_order r \<le> lru_order s) (most_recent_first (db_thumbs d)))"
    by (simp add: most_recent_first_def filter_filter_mset conj_commute)
  then show ?thesis by (simp only: running_bytes_def total_bytes_mset)
qed

lemma most_recent_first_sorted:
  assumes "distinct (map th_id rows)"
  shows "sorted_wrt (\<lambda>r s. lru_order s < lru_order r) (most_recent_first rows)"
proof -
  let ?xs = "sort_key lru_order (filter (\<lambda>r. \<not> withdrawn r) rows)"
  have "distinct rows" using assms by (simp add: distinct_map)
  then have "distinct ?xs" by simp
  moreover have "inj_on lru_order (set ?xs)"
    using lru_order_inj [OF assms] by (auto intro!: inj_onI)
  ultimately have "distinct (map lru_order ?xs)" by (simp add: distinct_map)
  then have "sorted_wrt (<) (map lru_order ?xs)"
    by (simp add: strict_sorted_iff)
  then show ?thesis by (simp add: most_recent_first_def sorted_wrt_rev sorted_wrt_map)
qed

lemma quota_candidates_window:
  assumes "distinct (map th_id (db_thumbs d))"
  shows "map (\<lambda>r. (r, running_bytes d r)) (sort_key lru_order (filter (over_quota mx d) (db_thumbs d))) =
    quota_by_window mx (db_thumbs d)"
proof -
  let ?ys = "most_recent_first (db_thumbs d)"
  have sums: "window_sums 0 ?ys = map (\<lambda>r. (r, running_bytes d r)) ?ys"
    using window_sums_running [of "[]" ?ys] most_recent_first_sorted [OF assms]
    by (simp add: running_bytes_recent total_bytes_def)
  have "filter (over_quota mx d) (db_thumbs d) =
      filter (\<lambda>r. running_bytes d r > mx) (filter (\<lambda>r. \<not> withdrawn r) (db_thumbs d))"
    by (simp add: over_quota_def [abs_def] conj_commute)
  then have "sort_key lru_order (filter (over_quota mx d) (db_thumbs d)) =
      filter (\<lambda>r. running_bytes d r > mx) (sort_key lru_order (filter (\<lambda>r. \<not> withdrawn r) (db_thumbs d)))"
    by (simp only: filter_sort)
  then have "map (\<lambda>r. (r, running_bytes d r)) (sort_key lru_order (filter (over_quota mx d) (db_thumbs d))) =
      filter (\<lambda>(r, s). s > mx) (map (\<lambda>r. (r, running_bytes d r)) (rev ?ys))"
    by (simp only: most_recent_first_def rev_rev_ident filter_map) (simp add: comp_def)
  also have "\<dots> = quota_by_window mx (db_thumbs d)"
    by (simp add: quota_by_window_def sums rev_filter flip: rev_map)
  finally show ?thesis .
qed

section \<open>The sweep\<close>

definition listed_old :: "int \<Rightarrow> listing \<Rightarrow> string \<Rightarrow> bool" where
  "listed_old cutoff pages k \<longleftrightarrow>
     (\<exists>items. Inr items \<in> set pages \<and> (\<exists>it \<in> set items.
        obj_key (object_of it) = k \<and> obj_modified (object_of it) \<le> cutoff))"

lemma orphan_candidates_iff:
  "k \<in> set (orphan_candidates cutoff (map object_of items)) \<longleftrightarrow>
     (\<exists>it \<in> set items. obj_key (object_of it) = k \<and> obj_modified (object_of it) \<le> cutoff)"
  by (induction items) (auto simp: orphan_candidates_def not_less)

lemma listed_old_simps [simp]:
  "listed_old cutoff [] k = False"
  "listed_old cutoff (Inl e # pages) k = listed_old cutoff pages k"
  "listed_old cutoff (Inr items # pages) k \<longleftrightarrow>
     k \<in> set (orphan_candidates cutoff (map object_of items)) \<or> listed_old cutoff pages k"
  unfolding listed_old_def orphan_candidates_iff by (simp_all del: split_paired_Ex) blast

context object_deleter
begin

lemma remove_orphans_effect:
  "remove_orphans del known ks n g = (e, n', g') \<Longrightarrow>
     (\<forall>k. contents g' k = contents g k \<or> contents g' k = None \<and> k \<in> set ks \<and> k \<notin> set known) \<and>
     (e = None \<longrightarrow> (\<forall>k \<in> set ks. k \<notin> set known \<longrightarrow> contents g' k = None))"
proof (induction ks arbitrary: n g)
  case Nil
  then show ?case by simp
next
  case (Cons k ks)
  show ?case
  proof (cases "k \<in> set known")
    case True
    then have "remove_orphans del known ks n g = (e, n', g')" using Cons.prems by simp
    from Cons.IH [OF this] True show ?thesis by auto
  next
    case False
    obtain r g1 where d: "del k g = (r, g1)" by (cases "del k g")
    have one: "contents g1 j = contents g j \<or> contents g1 j = None \<and> j = k" for j
      using del_others [OF d, of j] del_shrinks [OF d, of j] by auto
    show ?thesis
    proof (cases r)
      case None
      then have rest: "remove_orphans del known ks (n + 1) g1 = (e, n', g')"
        using Cons.prems False d by simp
      have "contents g1 k = None" using del_done d None by simp
      note IH = Cons.IH [OF rest]
      have "contents g' j = contents g j \<or> contents g' j = None \<and> j \<in> set (k # ks) \<and> j \<notin> set known" for j
        using IH [THEN conjunct1, rule_format, of j] one [of j] False by auto
      moreover have "contents g' k = None"
        using IH [THEN conjunct1, rule_format, of k] \<open>contents g1 k = None\<close> by auto
      ultimately show ?thesis using IH by auto
    next
      case (Some x)
      then have "g1 = g'" "e = Some x" using Cons.prems False d by auto
      with one False show ?thesis by auto
    qed
  qed
qed

definition swept_by :: "(string \<Rightarrow> bool) \<Rightarrow> 'g \<Rightarrow> 'g \<Rightarrow> bool" where
  "swept_by orphan g g' \<longleftrightarrow> (\<forall>k. contents g' k = contents g k \<or> contents g' k = None \<and> orphan k)"

lemma swept_by_trans:
  "swept_by P g g1 \<Longrightarrow> swept_by Q g1 g' \<Longrightarrow> swept_by (\<lambda>k. P k \<or> Q k) g g'"
  unfolding swept_by_def by metis

lemma sweep_page_effect:
  assumes "sweep_page del cutoff page (w, n, g) = (e, w', n', g')" "calm w"
  shows "calm w' \<and> w_db w' = w_db w"
    and "swept_by (\<lambda>k. k \<in> set (orphan_candidates cutoff page) \<and>
      k \<notin> th_object_key ` set (db_thumbs (w_db w))) g g'"
    and "e = None \<Longrightarrow> k \<in> set (orphan_candidates cutoff page) \<Longrightarrow>
      k \<notin> th_object_key ` set (db_thumbs (w_db w)) \<Longrightarrow> contents g' k = None"
proof -
  let ?ks = "orphan_candidates cutoff page" and ?refs = "th_object_key ` set (db_thumbs (w_db w))"
  have "(calm w' \<and> w_db w' = w_db w) \<and> swept_by (\<lambda>k. k \<in> set ?ks \<and> k \<notin> ?refs) g g' \<and>
      (e = None \<longrightarrow> (\<forall>k \<in> set ?ks. k \<notin> ?refs \<longrightarrow> contents g' k = None))"
  proof (cases "?ks = []")
    case True
    with assms show ?thesis by (simp add: sweep_page_def swept_by_def)
  next
    case False
    obtain r1 w1 where list: "stmt (q_ReferencedThumbnailObjectKeys ?ks) w = (r1, w1)" by fastforce
    note c = stmt_calm_select [OF assms(2) list [unfolded q_ReferencedThumbnailObjectKeys_def]]
    show ?thesis
    proof (cases r1)
      case (Inl x)
      have "e = Some x" "w' = w1" "g' = g"
        using assms(1) False by (simp_all add: sweep_page_def list Inl)
      with c(1,3) show ?thesis by (simp add: swept_by_def)
    next
      case (Inr known)
      have known: "k \<in> set known \<longleftrightarrow> k \<in> ?refs" if "k \<in> set ?ks" for k
        using c(4) [OF Inr] that by auto
      obtain e2 n2 g2 where rm: "remove_orphans del known ?ks n g = (e2, n2, g2)"
        by (metis prod_cases3)
      have "e = e2" "w' = w1" "g' = g2"
        using assms(1) False by (simp_all add: sweep_page_def list Inr rm)
      with remove_orphans_effect [OF rm] c(1,3) known show ?thesis
        unfolding swept_by_def by metis
    qed
  qed
  then show "calm w' \<and> w_db w' = w_db w" "swept_by (\<lambda>k. k \<in> set ?ks \<and> k \<notin> ?refs) g g'"
    "e = None \<Longrightarrow> k \<in> set ?ks \<Longrightarrow> k \<notin> ?refs \<Longrightarrow> contents g' k = None" by blast+
qed

lemma walk_pages_sweep:
  "walk_pages pages (sweep_page del cutoff) (w, n, g) = (e, w', n', g') \<Longrightarrow> calm w \<Longrightarrow>
     (calm w' \<and> w_db w' = w_db w) \<and>
     swept_by (\<lambda>k. listed_old cutoff pages k \<and> k \<notin> th_object_key ` set (db_thumbs (w_db w))) g g' \<and>
     (e = None \<longrightarrow> (\<forall>k. listed_old cutoff pages k \<longrightarrow>
        k \<notin> th_object_key ` set (db_thumbs (w_db w)) \<longrightarrow> contents g' k = None))"
proof (induction pages arbitrary: w n g)
  case Nil
  then show ?case by (simp add: swept_by_def)
next
  case (Cons page pages)
  show ?case
  proof (cases page)
    case (Inl x)
    with Cons.prems show ?thesis by (auto simp: swept_by_def)
  next
    case (Inr items)
    obtain e1 w1 n1 g1 where pg: "sweep_page del cutoff (map object_of items) (w, n, g) = (e1, w1, n1, g1)"
      by (metis prod_cases4)
    note eff = sweep_page_effect [OF pg Cons.prems(2)]
    show ?thesis
    proof (cases e1)
      case (Some x)
      with Cons.prems(1) Inr pg have "e = Some x" "w' = w1" "g' = g1" by simp_all
      with eff(1,2) Inr show ?thesis unfolding swept_by_def by auto
    next
      case None
      with Cons.prems(1) Inr pg have rest: "walk_pages pages (sweep_page del cutoff) (w1, n1, g1) = (e, w', n', g')"
        by simp
      note IH = Cons.IH [OF rest eff(1) [THEN conjunct1], unfolded eff(1) [THEN conjunct2]]
      show ?thesis
      proof (intro conjI)
        show "calm w'" "w_db w' = w_db w" using IH eff(1) by simp_all
        show "swept_by (\<lambda>k. listed_old cutoff (page # pages) k \<and> k \<notin> th_object_key ` set (db_thumbs (w_db w))) g g'"
          using eff(2) IH [THEN conjunct2, THEN conjunct1] Inr unfolding swept_by_def
          by (metis listed_old_simps(3))
        show "e = None \<longrightarrow> (\<forall>k. listed_old cutoff (page # pages) k \<longrightarrow>
            k \<notin> th_object_key ` set (db_thumbs (w_db w)) \<longrightarrow> contents g' k = None)"
          using eff(3) [OF None] IH Inr unfolding swept_by_def by (metis listed_old_simps(3))
      qed
    qed
  qed
qed

end

end
