(* ===== verification/Cache_Correct.thy ===== *)
theory Cache_Correct
  imports Cache_Limits Sample
begin

text \<open>
  The properties of the cache workers, each for every object store with the contract
  \<open>object_deleter\<close>, and their witnesses on the reference gateway.
\<close>

section \<open>A cache to run the workers on\<close>

definition sample_thumb :: "int \<Rightarrow> string \<Rightarrow> int \<Rightarrow> int \<Rightarrow> int \<Rightarrow> int option \<Rightarrow> th_row" where
  "sample_thumb i key n created accessed pending =
     \<lparr>th_id = i, th_cv_id = 1, th_page = i, th_width = 192, th_height = 192, th_format = ''webp'',
      th_object_key = key, th_size_bytes = n, th_created_at = created, th_last_access_at = accessed,
      th_pending_delete_at = pending\<rparr>"

definition sample_cache_db :: database where
  "sample_cache_db = sample_db\<lparr>db_thumbs :=
     [sample_thumb 1 ''k1'' 10 900 900 None, sample_thumb 2 ''k2'' 20 100 950 None,
      sample_thumb 3 ''k3'' 5 100 100 (Some 60), sample_thumb 4 ''k4'' 30 900 990 None]\<rparr>"

definition sample_cache :: "step list \<Rightarrow> world" where
  "sample_cache script = \<lparr>w_db = sample_cache_db, w_base = sample_cache_db,
     w_seqs = sample_seqs\<lparr>sq_thumb := 4\<rparr>, w_script = script, w_clock = 1000\<rparr>"

definition sample_bucket :: "bool list \<Rightarrow> bucket" where
  "sample_bucket refusals = \<lparr>bk_objects = [''k1'' \<mapsto> ''a'', ''k2'' \<mapsto> ''b'', ''k3'' \<mapsto> ''c'', ''k4'' \<mapsto> ''d'',
     ''k9'' \<mapsto> ''e''], bk_refusals = refusals\<rparr>"

abbreviation ref_delete :: "bucket deleter" where
  "ref_delete \<equiv> Store_Delete reference_gateway reference_store"

lemma sample_cache_fields [simp]:
  "w_db (sample_cache s) = sample_cache_db" "w_script (sample_cache s) = s"
  "w_seqs (sample_cache s) = sample_seqs\<lparr>sq_thumb := 4\<rparr>" "w_clock (sample_cache s) = 1000"
  "w_base (sample_cache s) = sample_cache_db"
  by (simp_all add: sample_cache_def)

lemma sample_cache_ok: "db_ok sample_cache_db (sample_seqs\<lparr>sq_thumb := 4\<rparr>)"
  using sample_db_ok
  by (simp add: db_ok_defs sample_cache_db_def sample_thumb_def sample_seqs_def ids_ok_def
      thumb_key_def sample_db_def sample_cv_def)

lemma sample_cache_calm [simp]: "calm (sample_cache [])" "quiet (sample_cache [])" "calm (sample_cache [Run, Run, Fault])"
  by (simp_all add: calm_def quiet_def)

section \<open>The drain\<close>

lemma thumb_ids: "db_ok d q \<Longrightarrow> distinct (map th_id (db_thumbs d))"
  by (simp add: db_ok_def thumbs_ok_def ids_ok_def)

lemma thumb_keys_unique:
  "db_ok d q \<Longrightarrow> r \<in> set (db_thumbs d) \<Longrightarrow> \<not> withdrawn r \<Longrightarrow> th_object_key r \<notin> withdrawn_keys (db_thumbs d)"
  using distinct_map_inj [of th_object_key "db_thumbs d" r]
  by (auto simp: db_ok_def thumbs_ok_def withdrawn_keys_def)

lemma drain_purge_facts:
  assumes "object_deleter del contents" "calm w" "db_ok (w_db w) (w_seqs w)"
    and "drainPending del w g = (res, w', g')"
  shows "w_db w' = (w_db w)\<lparr>db_thumbs := filter (\<lambda>r. r \<in> set (db_thumbs (w_db w'))) (db_thumbs (w_db w))\<rparr>"
    and "\<forall>r \<in> set (db_thumbs (w_db w)). if withdrawn r
      then r \<in> set (db_thumbs (w_db w')) \<or> contents g' (th_object_key r) = None
      else r \<in> set (db_thumbs (w_db w')) \<and> contents g' (th_object_key r) = contents g (th_object_key r)"
proof -
  from object_deleter.drain_removal [OF assms(1,4,2) thumb_ids [OF assms(3)]]
  obtain P where P: "w_db w' = put_thumbs (w_db w) (filter P (db_thumbs (w_db w)))"
    "\<And>r. r \<in> set (db_thumbs (w_db w)) \<Longrightarrow> \<not> P r \<Longrightarrow> withdrawn r \<and> contents g' (th_object_key r) = None"
    and keys: "\<And>k. contents g' k = contents g k \<or> contents g' k = None \<and> k \<in> withdrawn_keys (db_thumbs (w_db w))"
    unfolding removal_def by blast
  have "filter P (db_thumbs (w_db w)) =
      filter (\<lambda>r. r \<in> set (db_thumbs (w_db w'))) (db_thumbs (w_db w))"
    by (rule filter_cong) (auto simp: P(1))
  with P(1) show "w_db w' =
      (w_db w)\<lparr>db_thumbs := filter (\<lambda>r. r \<in> set (db_thumbs (w_db w'))) (db_thumbs (w_db w))\<rparr>"
    by (simp add: put_thumbs_def)
  show "\<forall>r \<in> set (db_thumbs (w_db w)). if withdrawn r
      then r \<in> set (db_thumbs (w_db w')) \<or> contents g' (th_object_key r) = None
      else r \<in> set (db_thumbs (w_db w')) \<and> contents g' (th_object_key r) = contents g (th_object_key r)"
  proof
    fix r assume r: "r \<in> set (db_thumbs (w_db w))"
    have kept: "P r \<Longrightarrow> r \<in> set (db_thumbs (w_db w'))" using r by (simp add: P(1))
    show "if withdrawn r
      then r \<in> set (db_thumbs (w_db w')) \<or> contents g' (th_object_key r) = None
      else r \<in> set (db_thumbs (w_db w')) \<and> contents g' (th_object_key r) = contents g (th_object_key r)"
    proof (cases "withdrawn r")
      case True
      with P(2) [OF r] kept show ?thesis by (cases "P r") auto
    next
      case False
      with P(2) [OF r] kept keys [of "th_object_key r"] thumb_keys_unique [OF assms(3) r False]
      show ?thesis by (cases "P r") auto
    qed
  qed
qed

text \<open>
  C10: Accounting first, objects second, and the row last: whatever fails on the way, a drain
  removes a row only when it was withdrawn and its object is gone, and it touches neither a
  live row nor the object behind it nor any other table.
\<close>

theorem drain_purges_after_object:
  assumes "object_deleter del contents" "calm w" "db_ok (w_db w) (w_seqs w)"
    and "drainPending del w g = (res, w', g')"
  shows "w_db w' = (w_db w)\<lparr>db_thumbs := filter (\<lambda>r. r \<in> set (db_thumbs (w_db w'))) (db_thumbs (w_db w))\<rparr> \<and>
    (\<forall>r \<in> set (db_thumbs (w_db w)). if withdrawn r
      then r \<in> set (db_thumbs (w_db w')) \<or> contents g' (th_object_key r) = None
      else r \<in> set (db_thumbs (w_db w')) \<and> contents g' (th_object_key r) = contents g (th_object_key r))"
  using drain_purge_facts [OF assms] by (rule conjI)

lemma drain_purges_after_object_witness:
  "let (res, w', g') = drainPending ref_delete (sample_cache []) (sample_bucket [True])
   in snd (snd res) = Some ErrObject \<and> db_thumbs (w_db w') = db_thumbs sample_cache_db \<and>
      w_db w' = sample_cache_db\<lparr>db_thumbs := filter (\<lambda>r. r \<in> set (db_thumbs (w_db w'))) (db_thumbs sample_cache_db)\<rparr>"
proof -
  let ?run = "drainPending ref_delete (sample_cache []) (sample_bucket [True])"
  obtain res w' g' where run: "?run = (res, w', g')" by (metis prod_cases3)
  have "snd (snd (fst ?run)) = Some ErrObject \<and> db_thumbs (w_db (fst (snd ?run))) = db_thumbs sample_cache_db"
    by code_simp
  moreover have "w_db w' = sample_cache_db\<lparr>db_thumbs := filter (\<lambda>r. r \<in> set (db_thumbs (w_db w'))) (db_thumbs sample_cache_db)\<rparr>"
    using drain_purges_after_object [THEN conjunct1, OF ref.object_deleter_axioms sample_cache_calm(1) _ run] sample_cache_ok
    by simp
  ultimately show ?thesis by (simp add: run)
qed

lemma removal_drained:
  assumes "removal contents d g d1 g1" "drained contents d1 g1 d' g'"
  shows "drained contents d g d' g'"
proof -
  from assms(1) obtain P where P: "d1 = put_thumbs d (filter P (db_thumbs d))"
    "\<And>r. r \<in> set (db_thumbs d) \<Longrightarrow> \<not> P r \<Longrightarrow> withdrawn r \<and> contents g1 (th_object_key r) = None"
    and keys: "\<And>k. contents g1 k = contents g k \<or> contents g1 k = None \<and> k \<in> withdrawn_keys (db_thumbs d)"
    unfolding removal_def by blast
  have live: "filter (\<lambda>r. \<not> withdrawn r) (filter P (db_thumbs d)) = filter (\<lambda>r. \<not> withdrawn r) (db_thumbs d)"
    unfolding filter_filter by (rule filter_cong) (use P(2) in auto)
  have sub: "withdrawn_keys (db_thumbs d1) \<subseteq> withdrawn_keys (db_thumbs d)"
    by (auto simp: withdrawn_keys_def P(1))
  have gone: "contents g1 k = None" if "k \<in> withdrawn_keys (db_thumbs d)" "k \<notin> withdrawn_keys (db_thumbs d1)" for k
  proof -
    from that(1) obtain r where r: "r \<in> set (db_thumbs d)" "withdrawn r" "k = th_object_key r"
      by (auto simp: withdrawn_keys_def)
    with that(2) have "\<not> P r" by (auto simp: withdrawn_keys_def P(1))
    with P(2) [OF r(1)] r(3) show ?thesis by simp
  qed
  have "contents g' k = (if k \<in> withdrawn_keys (db_thumbs d) then None else contents g k)" for k
    using assms(2) gone [of k] keys [of k] sub by (auto simp: drained_def)
  with assms(2) live P(1) show ?thesis by (simp add: drained_def fun_eq_iff)
qed

lemma drain_retry_facts:
  assumes "object_deleter del contents" "calm w" "db_ok (w_db w) (w_seqs w)"
    and "drainPending del w g = (res, w1, g1)"
    and "object_deleter del2 contents" "\<And>k g. fst (del2 k g) = None"
    and "quiet w2" "w_db w2 = w_db w1" "drainPending del2 w2 g1 = ((n, b, e), w', g')"
  shows "e = None"
    and "w_db w' = (w_db w)\<lparr>db_thumbs := filter (\<lambda>r. \<not> withdrawn r) (db_thumbs (w_db w))\<rparr>"
    and "contents g' = (\<lambda>k. if k \<in> withdrawn_keys (db_thumbs (w_db w)) then None else contents g k)"
proof -
  note first = object_deleter.drain_removal [OF assms(1,4,2) thumb_ids [OF assms(3)]]
  show e: "e = None" by (rule object_deleter.drain_healthy [OF assms(5,9,6,7)])
  have "distinct (map th_id (db_thumbs (w_db w2)))"
    using removal_thumbs_ok [OF first [THEN conjunct2, THEN conjunct2] thumb_ids [OF assms(3)]]
    by (simp add: assms(8))
  note object_deleter.drain_clean [OF assms(5) assms(9) [unfolded e] quiet_calm [OF assms(7)] this]
  with removal_drained [of contents "w_db w" g "w_db w1" g1 "w_db w'" g'] first assms(8)
  have "drained contents (w_db w) g (w_db w') g'" by simp
  then show "w_db w' = (w_db w)\<lparr>db_thumbs := filter (\<lambda>r. \<not> withdrawn r) (db_thumbs (w_db w))\<rparr>"
    "contents g' = (\<lambda>k. if k \<in> withdrawn_keys (db_thumbs (w_db w)) then None else contents g k)"
    by (simp_all add: drained_def put_thumbs_def)
qed

text \<open>
  A retried drain comes back to exactly the work that is left: however an attempt ended,
  a later one against a store that answers reports no error, and between them they removed
  every withdrawn row with its object and nothing else, as a single clean run would have.
\<close>

theorem drain_retry_finishes:
  assumes "object_deleter del contents" "calm w" "db_ok (w_db w) (w_seqs w)"
    and "drainPending del w g = (res, w1, g1)"
    and "object_deleter del2 contents" "\<And>k g. fst (del2 k g) = None"
    and "quiet w2" "w_db w2 = w_db w1" "drainPending del2 w2 g1 = ((n, b, e), w', g')"
  shows "e = None \<and>
    w_db w' = (w_db w)\<lparr>db_thumbs := filter (\<lambda>r. \<not> withdrawn r) (db_thumbs (w_db w))\<rparr> \<and>
    contents g' = (\<lambda>k. if k \<in> withdrawn_keys (db_thumbs (w_db w)) then None else contents g k)"
  using drain_retry_facts [OF assms] by (intro conjI)

definition healthy_delete :: "bucket deleter" where
  "healthy_delete k b = (None, b\<lparr>bk_objects := (bk_objects b)(k := None)\<rparr>)"

lemma healthy_deleter: "object_deleter healthy_delete bk_objects"
  by unfold_locales (auto simp: healthy_delete_def)

lemma drain_retry_finishes_witness:
  "let (res, w1, g1) = drainPending ref_delete (sample_cache []) (sample_bucket [True]);
       (res2, w', g') = drainPending healthy_delete w1 g1
   in snd (snd res) = Some ErrObject \<and> snd (snd res2) = None \<and> bk_objects g' ''k3'' = None \<and>
      map th_id (db_thumbs (w_db w')) = [1, 2, 4]"
proof -
  let ?run = "drainPending ref_delete (sample_cache []) (sample_bucket [True])"
  obtain res w1 g1 where run: "?run = (res, w1, g1)" by (metis prod_cases3)
  have failed: "snd (snd (fst ?run)) = Some ErrObject" and left: "w_script (fst (snd ?run)) = []"
    by code_simp+
  obtain n b e w' g' where run2: "drainPending healthy_delete w1 g1 = ((n, b, e), w', g')"
    by (metis prod.exhaust)
  have quiet: "quiet w1" using left by (simp add: run quiet_def)
  have "db_ok (w_db (sample_cache [])) (w_seqs (sample_cache []))" using sample_cache_ok by simp
  note facts = drain_retry_finishes [OF ref.object_deleter_axioms sample_cache_calm(1) this run
      healthy_deleter _ quiet refl run2]
  have "e = None" "bk_objects g' ''k3'' = None" "map th_id (db_thumbs (w_db w')) = [1, 2, 4]"
    using facts by (simp_all add: healthy_delete_def sample_cache_db_def sample_thumb_def
        withdrawn_def withdrawn_keys_def)
  with failed show ?thesis by (simp add: run run2)
qed

lemma drain_republish_facts:
  assumes del: "object_deleter del contents" "\<And>k g. fst (del k g) = None"
    and ok: "db_ok (w_db w) (w_seqs w)" and r: "r \<in> set (db_thumbs (w_db w))" "withdrawn r"
    and few: "length (filter withdrawn (db_thumbs (w_db w))) < drainBatch"
    and script: "w_script w = [Run, Interfere (\<lambda>d. fst (snd (q_UpsertThumbnail (th_cv_id r) (th_page r)
      (th_width r) (th_height r) (th_format r) (th_object_key r) n d q0)))]"
    and run: "drainPending del w g = ((c, b, e), w', g')"
  shows "e = None" and "contents g' (th_object_key r) = None"
    and "republished (th_object_key r) n (db_now (w_db w)) r \<in> set (db_thumbs (w_db w'))"
proof -
  let ?d = "w_db w" and ?new = "republished (th_object_key r) n (db_now (w_db w))"
  let ?publish = "\<lambda>d. fst (snd (q_UpsertThumbnail (th_cv_id r) (th_page r)
      (th_width r) (th_height r) (th_format r) (th_object_key r) n d q0))"
  let ?L = "work_list drainBatch (db_thumbs ?d)" and ?w1 = "w\<lparr>w_script := [Interfere ?publish]\<rparr>"
  have list: "stmt (q_PendingDeleteThumbnails drainBatch) w = (Inr (map drain_row_of ?L), ?w1)"
    by (simp add: stmt.simps script exec_sql_def PendingDelete_eq select_def)
  have len: "length ?L < drainBatch" using few by (simp add: work_list_def min_def)
  have rL: "r \<in> set ?L" using work_list_whole [OF len] r by simp
  obtain acc g1 where dels: "delete_rows del (map drain_row_of ?L)
      \<lparr>da_purge = [], da_count = 0, da_bytes = 0, da_failed = None\<rparr> g = (acc, g1)" by fastforce
  have clean: "da_failed acc = None"
    using object_deleter.delete_rows_healthy [OF del dels] by simp
  have gone: "contents g1 (th_object_key r) = None"
    using object_deleter.delete_rows_clean [OF del(1) dels clean] rL by (force simp: drain_row_of_def)
  have ids: "da_purge acc \<noteq> []"
    using delete_rows_all [OF dels clean] rL by auto
  have keys: "distinct (map thumb_key (db_thumbs ?d))" "distinct (map th_object_key (db_thumbs ?d))"
    using ok by (auto simp: db_ok_def thumbs_ok_def)
  have found: "List.find (\<lambda>s. thumb_key s = thumb_key r) (db_thumbs ?d) = Some r"
    by (rule find_unique_key [OF keys(1) r(1)])
  have "th_object_key r \<notin> th_object_key ` set (filter (\<lambda>s. thumb_key s \<noteq> thumb_key r) (db_thumbs ?d))"
    using distinct_map_inj [OF keys(2) r(1)] by auto
  with found have pub: "?publish ?d = ?d\<lparr>db_thumbs :=
      update_where (\<lambda>s. thumb_key s = thumb_key r) ?new (db_thumbs ?d)\<rparr>"
    by (simp add: q_UpsertThumbnail_def Let_def thumb_key_def)
  have live: "?new r \<in> set (update_where (\<lambda>s. thumb_key s = thumb_key r) ?new (db_thumbs ?d))"
    "\<not> withdrawn (?new r)"
  proof -
    have "?new r \<in> ?new ` {s \<in> set (db_thumbs ?d). thumb_key s = thumb_key r}" using r(1) by blast
    then show "?new r \<in> set (update_where (\<lambda>s. thumb_key s = thumb_key r) ?new (db_thumbs ?d))"
      unfolding set_update_where by blast
    show "\<not> withdrawn (?new r)" by (simp add: republished_def withdrawn_def)
  qed
  obtain n2 w2 where purge: "purge_rows (da_purge acc) ?w1 = (Inr n2, w2)" and kept: "?new r \<in> set (db_thumbs (w_db w2))"
    using ids live by (auto simp: purge_rows_def stmt.simps exec_sql_def q_PurgeThumbnails_def Let_def pub)
  have "map drain_row_of ?L \<noteq> []" using rL by auto
  then have "drain_turn del 0 0 w g = (Return None, da_count acc, da_bytes acc, w2, g1)"
    using len by (simp add: drain_turn_def list dels purge clean)
  then have "e = None" "w' = w2" "g' = g1"
    using run by (auto simp: drainPending_def drain_from.simps)
  with gone kept show "e = None" "contents g' (th_object_key r) = None"
    "?new r \<in> set (db_thumbs (w_db w'))" by simp_all
qed


definition sample_render :: "step list" where
  "sample_render = [Run, Interfere (\<lambda>d. fst (snd (q_UpsertThumbnail 1 3 192 192 ''webp'' ''k3'' 7 d zero_seqs)))]"


section \<open>Invalidation\<close>

lemma live_keys_kept:
  assumes "removal contents d g d' g'" "db_ok d q" "r \<in> set (db_thumbs d)" "\<not> withdrawn r"
  shows "r \<in> set (db_thumbs d')" "contents g' (th_object_key r) = contents g (th_object_key r)"
  using assms thumb_keys_unique [OF assms(2-4)] unfolding removal_def by auto

text \<open>Withdrawing some rows and draining: what is left, and what is left in the bucket.\<close>

lemma mark_then_drain:
  assumes del: "object_deleter del contents" and ok: "db_ok d q" and w: "calm w" "w_db w = mark_where P d"
    and run: "drainPending del w g = ((n, b, e), w', g')"
  shows "\<And>r. r \<in> set (db_thumbs d) \<Longrightarrow> \<not> withdrawn r \<Longrightarrow> \<not> P r \<Longrightarrow>
      r \<in> set (db_thumbs (w_db w')) \<and> contents g' (th_object_key r) = contents g (th_object_key r)"
    and "e = None \<Longrightarrow>
      w_db w' = put_thumbs d (filter (\<lambda>r. \<not> withdrawn r \<and> \<not> P r) (db_thumbs d)) \<and>
      contents g' = (\<lambda>k. if k \<in> th_object_key ` {r \<in> set (db_thumbs d). withdrawn r \<or> P r} then None
        else contents g k)"
    and "calm w'" "w_clock w' = w_clock w"
proof -
  have ok': "db_ok (mark_where P d) q" by (rule db_ok_mark [OF ok])
  note drain = object_deleter.drain_removal [OF del run w(1) thumb_ids [OF ok' [folded w(2)]]]
  show "calm w'" "w_clock w' = w_clock w" using drain by simp_all
  fix r assume r: "r \<in> set (db_thumbs d)" "\<not> withdrawn r" "\<not> P r"
  then have "r \<in> set (db_thumbs (w_db w))"
    by (auto simp: w(2) mark_where_eq set_update_where)
  from live_keys_kept [OF drain [THEN conjunct2, THEN conjunct2] ok' [folded w(2)] this r(2)]
  show "r \<in> set (db_thumbs (w_db w')) \<and> contents g' (th_object_key r) = contents g (th_object_key r)"
    by simp
next
  assume e: "e = None"
  have ok': "db_ok (mark_where P d) q" by (rule db_ok_mark [OF ok])
  have "drained contents (w_db w) g (w_db w') g'"
    using object_deleter.drain_clean [OF del run [unfolded e] w(1) thumb_ids [OF ok' [folded w(2)]]] by simp
  then show "w_db w' = put_thumbs d (filter (\<lambda>r. \<not> withdrawn r \<and> \<not> P r) (db_thumbs d)) \<and>
      contents g' = (\<lambda>k. if k \<in> th_object_key ` {r \<in> set (db_thumbs d). withdrawn r \<or> P r} then None
        else contents g k)"
    by (simp add: drained_def w(2) live_after_mark withdrawn_keys_mark) (simp add: mark_where_eq)
qed

lemma invalidation_facts:
  assumes "object_deleter del contents" "calm w" "db_ok (w_db w) (w_seqs w)"
    and "InvalidateThumbnails_Work del v w g = (e, w', g')"
  shows "\<forall>r \<in> set (db_thumbs (w_db w)). \<not> withdrawn r \<longrightarrow> th_cv_id r \<noteq> v \<or> held (w_db w) v \<longrightarrow>
      r \<in> set (db_thumbs (w_db w')) \<and> contents g' (th_object_key r) = contents g (th_object_key r)"
    and "e = None \<Longrightarrow> \<not> held (w_db w) v \<Longrightarrow> r \<in> set (db_thumbs (w_db w)) \<Longrightarrow> th_cv_id r = v \<Longrightarrow>
      r \<notin> set (db_thumbs (w_db w')) \<and> contents g' (th_object_key r) = None"
proof -
  let ?P = "\<lambda>r. th_cv_id r = v \<and> \<not> withdrawn r \<and> \<not> held (w_db w) (th_cv_id r)"
  obtain r1 w1 where mark: "stmt (q_MarkThumbnailsPendingDeleteForStaleContentVersion v) w = (r1, w1)"
    by fastforce
  note m = marking_calm [OF assms(2) mark [unfolded q_MarkThumbnailsPendingDeleteForStaleContentVersion_def]]
  have "(\<forall>r \<in> set (db_thumbs (w_db w)). \<not> withdrawn r \<longrightarrow> th_cv_id r \<noteq> v \<or> held (w_db w) v \<longrightarrow>
      r \<in> set (db_thumbs (w_db w')) \<and> contents g' (th_object_key r) = contents g (th_object_key r)) \<and>
    (e = None \<longrightarrow> \<not> held (w_db w) v \<longrightarrow> (\<forall>r \<in> set (db_thumbs (w_db w)). th_cv_id r = v \<longrightarrow>
      r \<notin> set (db_thumbs (w_db w')) \<and> contents g' (th_object_key r) = None))"
  proof (cases r1)
    case (Inl x)
    with assms(4) mark have "w' = w1" "g' = g" "e = Some x" by (auto simp: InvalidateThumbnails_Work_def)
    with m(3) Inl show ?thesis by auto
  next
    case (Inr k)
    with m(3) have db: "w_db w1 = mark_where ?P (w_db w)" by auto
    obtain n b e2 w2 g2 where run: "drainPending del w1 g = ((n, b, e2), w2, g2)" by (metis prod.exhaust)
    have eqs: "e2 = e" "w2 = w'" "g2 = g'"
      using assms(4) mark Inr run by (auto simp: InvalidateThumbnails_Work_def)
    note facts = mark_then_drain [OF assms(1,3) m(1) db run [unfolded eqs]]
    show ?thesis using facts(1,2) by auto
  qed
  then show "\<forall>r \<in> set (db_thumbs (w_db w)). \<not> withdrawn r \<longrightarrow> th_cv_id r \<noteq> v \<or> held (w_db w) v \<longrightarrow>
      r \<in> set (db_thumbs (w_db w')) \<and> contents g' (th_object_key r) = contents g (th_object_key r)"
    "e = None \<Longrightarrow> \<not> held (w_db w) v \<Longrightarrow> r \<in> set (db_thumbs (w_db w)) \<Longrightarrow> th_cv_id r = v \<Longrightarrow>
      r \<notin> set (db_thumbs (w_db w')) \<and> contents g' (th_object_key r) = None" by blast+
qed



end
