(* ===== verification/Cache_Policy.thy ===== *)
theory Cache_Policy
  imports Cache_Correct
begin

text \<open>
  The properties of eviction and of the sweep, what all three workers keep, and the
  equivalence of the quota query with the window function it is written instead of.
\<close>

section \<open>Eviction\<close>

text \<open>The rows an eviction withdraws: the expired, then the overflow among the others.\<close>

definition evicts :: "EvictionWorker \<Rightarrow> int \<Rightarrow> database \<Rightarrow> th_row \<Rightarrow> bool" where
  "evicts ew t d r \<longleftrightarrow> expired (t - ew_max_age ew) r \<or>
     over_quota (ew_max_bytes ew) (mark_where (expired (t - ew_max_age ew)) d) r"

lemma Eviction_Work_steps:
  assumes del: "object_deleter del contents"
    and run: "Eviction_Work ew del w g = (e, w', g')" and calm: "calm w"
    and ids: "distinct (map th_id (db_thumbs (w_db w)))"
  obtains P where "w_db w' = mark_where P (w_db w)" "g' = g" "e \<noteq> None" "calm w'"
  | P w2 n b e3 w3 where "w_db w2 = mark_where P (w_db w)" "calm w2"
    "drainPending del w2 g = ((n, b, e3), w3, g')" "calm w'" "w_db w' = w_db w3" "e = None \<Longrightarrow> e3 = None"
    "0 < ew_max_age ew \<Longrightarrow> 0 < ew_max_bytes ew \<Longrightarrow> w_db w2 = mark_where (evicts ew (w_clock w) (w_db w)) (w_db w)"
proof -
  obtain n1 b1 e1 w1 where age: "markByAge ew w = ((n1, b1, e1), w1)" by (metis prod.exhaust)
  note a = markByAge_calm [OF age calm ids]
  then obtain P1 where P1: "w_db w1 = mark_where P1 (w_db w)" by blast
  show thesis
  proof (cases e1)
    case (Some x)
    with run age have "e = Some x" "w' = w1" "g' = g" by (auto simp: Eviction_Work_def)
    with a P1 show thesis by (intro that(1)) auto
  next
    case e1: None
    have ids1: "distinct (map th_id (db_thumbs (w_db w1)))" using ids by (simp add: P1)
    obtain n2 b2 e2 w2 where quota: "markByQuota ew w1 = ((n2, b2, e2), w2)" by (metis prod.exhaust)
    note qt = markByQuota_calm [OF quota a(1) [THEN conjunct1] ids1]
    then obtain P2 where P2: "w_db w2 = mark_where P2 (w_db w1)" by blast
    show thesis
    proof (cases e2)
      case (Some x)
      with run age e1 quota have "e = Some x" "w' = w2" "g' = g" by (auto simp: Eviction_Work_def)
      with qt P1 P2 show thesis by (intro that(1)) (auto simp: mark_where_twice)
    next
      case e2: None
      obtain n3 b3 e3 w3 g3 where drain: "drainPending del w2 g = ((n3, b3, e3), w3, g3)" by (metis prod.exhaust)
      obtain r4 w4 where total: "stmt q_TotalThumbnailBytes w3 = (r4, w4)" by fastforce
      have work: "(e, w', g') =
          (case r4 of Inl x \<Rightarrow> (Some (case e3 of Some d \<Rightarrow> d | None \<Rightarrow> x), w4, g3) | Inr _ \<Rightarrow> (e3, w4, g3))"
        using run by (simp add: Eviction_Work_def age e1 quota e2 drain total)
      have eqs: "w' = w4" "g' = g3" "e = None \<Longrightarrow> e3 = None"
        using work by (auto split: sum.splits)
      have marked: "w_db w2 = mark_where (\<lambda>r. P1 r \<or> P2 r) (w_db w)"
        by (simp add: P1 P2 mark_where_twice)
      have ids2: "distinct (map th_id (db_thumbs (w_db w2)))" using ids by (simp add: marked)
      have c3: "calm w3"
        using object_deleter.drain_removal [OF del drain qt(1) [THEN conjunct1] ids2] by simp
      have "w_db w2 = mark_where (evicts ew (w_clock w) (w_db w)) (w_db w)"
        if "0 < ew_max_age ew" "0 < ew_max_bytes ew"
        using a(2) [OF e1 that(1)] qt(2) [OF e2 that(2)]
        by (simp add: mark_where_twice evicts_def [abs_def])
      with marked qt(1) drain c3 stmt_calm_select(1,3) [OF c3 total [unfolded q_TotalThumbnailBytes_def]] eqs
      show thesis by (intro that(2) [of w2 "\<lambda>r. P1 r \<or> P2 r" n3 b3 e3 w3]) auto
    qed
  qed
qed

lemma eviction_facts:
  assumes "object_deleter del contents" "calm w" "db_ok (w_db w) (w_seqs w)"
    and "0 < ew_max_age ew" "0 < ew_max_bytes ew"
    and "\<And>r. r \<in> set (db_thumbs (w_db w)) \<Longrightarrow> 0 \<le> th_size_bytes r"
    and "Eviction_Work ew del w g = (None, w', g')"
  shows "db_thumbs (w_db w') =
      filter (\<lambda>r. \<not> withdrawn r \<and> \<not> evicts ew (w_clock w) (w_db w) r) (db_thumbs (w_db w))"
    and "\<forall>r \<in> set (db_thumbs (w_db w')). w_clock w - ew_max_age ew \<le> th_created_at r"
    and "total_bytes (db_thumbs (w_db w')) \<le> ew_max_bytes ew"
    and "\<forall>r \<in> set (db_thumbs (w_db w)). contents g' (th_object_key r) =
      (if r \<in> set (db_thumbs (w_db w')) then contents g (th_object_key r) else None)"
    and "\<forall>r \<in> set (db_thumbs (w_db w)). evicts ew (w_clock w) (w_db w) r \<longrightarrow>
      expired (w_clock w - ew_max_age ew) r \<or> ew_max_bytes ew <
        total_bytes (filter (\<lambda>s. lru_order r \<le> lru_order s \<and> \<not> withdrawn s) (db_thumbs (w_db w)))"
proof -
  let ?d = "w_db w" and ?E = "evicts ew (w_clock w) (w_db w)" and ?old = "expired (w_clock w - ew_max_age ew)"
  from assms(1,7,2) thumb_ids [OF assms(3)]
  obtain w2 n b w3 where m: "w_db w2 = mark_where ?E ?d" "calm w2"
    "drainPending del w2 g = ((n, b, None), w3, g')" "w_db w' = w_db w3"
    by (cases rule: Eviction_Work_steps) (use assms(4,5) in auto)
  note facts = mark_then_drain(2) [OF assms(1,3) m(2,1,3) refl]
  show rows: "db_thumbs (w_db w') = filter (\<lambda>r. \<not> withdrawn r \<and> \<not> ?E r) (db_thumbs ?d)"
    using facts m(4) by simp
  show "\<forall>r \<in> set (db_thumbs (w_db w')). w_clock w - ew_max_age ew \<le> th_created_at r"
    by (auto simp: rows evicts_def expired_def)
  let ?aged = "mark_where ?old ?d"
  have sizes: "0 \<le> th_size_bytes r" if "r \<in> set (db_thumbs ?aged)" for r
    using that assms(6) by (auto simp: mark_where_eq set_update_where)
  have "filter (\<lambda>r. \<not> withdrawn r \<and> \<not> over_quota (ew_max_bytes ew) ?aged r) (db_thumbs ?aged) =
      filter (\<lambda>r. \<not> over_quota (ew_max_bytes ew) ?aged r) (filter (\<lambda>r. \<not> withdrawn r) (db_thumbs ?aged))"
    by (simp add: conj_commute)
  also have "\<dots> = filter (\<lambda>r. \<not> withdrawn r \<and> \<not> ?E r) (db_thumbs ?d)"
    unfolding live_after_mark filter_filter by (rule filter_cong) (auto simp: evicts_def)
  finally show "total_bytes (db_thumbs (w_db w')) \<le> ew_max_bytes ew"
    using quota_fits [of ?aged "ew_max_bytes ew", OF sizes] assms(5) rows by simp
  show "\<forall>r \<in> set (db_thumbs ?d). contents g' (th_object_key r) =
      (if r \<in> set (db_thumbs (w_db w')) then contents g (th_object_key r) else None)"
  proof
    fix r assume r: "r \<in> set (db_thumbs ?d)"
    have "th_object_key r \<in> th_object_key ` {s \<in> set (db_thumbs ?d). withdrawn s \<or> ?E s} \<longleftrightarrow> withdrawn r \<or> ?E r"
      using distinct_map_inj [of th_object_key "db_thumbs ?d"] assms(3) r
      by (auto simp: db_ok_def thumbs_ok_def)
    with facts r show "contents g' (th_object_key r) =
      (if r \<in> set (db_thumbs (w_db w')) then contents g (th_object_key r) else None)"
      by (simp add: rows)
  qed
  show "\<forall>r \<in> set (db_thumbs ?d). ?E r \<longrightarrow> ?old r \<or> ew_max_bytes ew <
      total_bytes (filter (\<lambda>s. lru_order r \<le> lru_order s \<and> \<not> withdrawn s) (db_thumbs ?d))"
  proof (intro ballI impI)
    fix r assume "r \<in> set (db_thumbs ?d)" "?E r"
    moreover have "running_bytes ?aged r \<le>
        total_bytes (filter (\<lambda>s. lru_order r \<le> lru_order s \<and> \<not> withdrawn s) (db_thumbs ?d))"
    proof -
      have "filter (\<lambda>s. lru_order r \<le> lru_order s \<and> \<not> withdrawn s) (db_thumbs ?aged) =
          filter (\<lambda>s. lru_order r \<le> lru_order s) (filter (\<lambda>s. \<not> withdrawn s) (db_thumbs ?aged))"
        by (simp add: conj_commute)
      then show ?thesis
        unfolding running_bytes_def live_after_mark
        by (simp only: filter_filter) (rule total_bytes_filter_mono, use assms(6) in auto)
    qed
    ultimately show "?old r \<or> ew_max_bytes ew <
        total_bytes (filter (\<lambda>s. lru_order r \<le> lru_order s \<and> \<not> withdrawn s) (db_thumbs ?d))"
      by (auto simp: evicts_def over_quota_def)
  qed
qed

text \<open>
  C29: An eviction that succeeds enforces both limits: what is left is live, younger than the
  maximum age and fits the byte quota; everything else is gone with its object; and the rows
  it kept are the most recently used ones, each row it evicted for space being one that the
  rows used since already filled the quota with.
\<close>

theorem eviction_enforces_limits:
  assumes "object_deleter del contents" "calm w" "db_ok (w_db w) (w_seqs w)"
    and "0 < ew_max_age ew" "0 < ew_max_bytes ew"
    and "\<And>r. r \<in> set (db_thumbs (w_db w)) \<Longrightarrow> 0 \<le> th_size_bytes r"
    and "Eviction_Work ew del w g = (None, w', g')"
  shows "db_thumbs (w_db w') =
      filter (\<lambda>r. \<not> withdrawn r \<and> \<not> evicts ew (w_clock w) (w_db w) r) (db_thumbs (w_db w)) \<and>
    (\<forall>r \<in> set (db_thumbs (w_db w')). w_clock w - ew_max_age ew \<le> th_created_at r) \<and>
    total_bytes (db_thumbs (w_db w')) \<le> ew_max_bytes ew \<and>
    (\<forall>r \<in> set (db_thumbs (w_db w)). contents g' (th_object_key r) =
      (if r \<in> set (db_thumbs (w_db w')) then contents g (th_object_key r) else None)) \<and>
    (\<forall>r \<in> set (db_thumbs (w_db w)). evicts ew (w_clock w) (w_db w) r \<longrightarrow>
      expired (w_clock w - ew_max_age ew) r \<or> ew_max_bytes ew <
        total_bytes (filter (\<lambda>s. lru_order r \<le> lru_order s \<and> \<not> withdrawn s) (db_thumbs (w_db w))))"
  using eviction_facts [OF assms] by (intro conjI)

definition sample_eviction :: EvictionWorker where
  "sample_eviction = \<lparr>ew_max_age = 500, ew_max_bytes = 35\<rparr>"

lemma eviction_enforces_limits_witness:
  "let (e, w', g') = Eviction_Work sample_eviction ref_delete (sample_cache []) (sample_bucket [])
   in e = None \<and> map th_id (db_thumbs (w_db w')) = [4] \<and> total_bytes (db_thumbs (w_db w')) \<le> 35"
proof -
  let ?run = "Eviction_Work sample_eviction ref_delete (sample_cache []) (sample_bucket [])"
  obtain e w' g' where run: "?run = (e, w', g')" by (metis prod_cases3)
  have e: "e = None" and ids: "map th_id (db_thumbs (w_db w')) = [4]"
  proof -
    have "fst ?run = None \<and> map th_id (db_thumbs (w_db (fst (snd ?run)))) = [4]" by code_simp
    then show "e = None" "map th_id (db_thumbs (w_db w')) = [4]" by (simp_all add: run)
  qed
  have ok: "db_ok (w_db (sample_cache [])) (w_seqs (sample_cache []))" using sample_cache_ok by simp
  have "total_bytes (db_thumbs (w_db w')) \<le> ew_max_bytes sample_eviction"
    by (rule eviction_enforces_limits [THEN conjunct2, THEN conjunct2, THEN conjunct1, OF ref.object_deleter_axioms sample_cache_calm(1) ok _ _ _ run [unfolded e]])
      (auto simp: sample_eviction_def sample_cache_db_def sample_thumb_def)
  with e ids show ?thesis using run by (simp add: sample_eviction_def)
qed

text \<open>
  C30: The quota query, written as a correlated subtotal, returns what the window function it
  replaces would: the rows whose running sum over the live entries, most recently used first,
  exceeds the quota, oldest first.
\<close>

theorem quota_query_is_window_sum:
  assumes "db_ok d q"
  shows "q_ThumbnailEvictionCandidatesByQuota mx d q = (Inr (quota_by_window mx (db_thumbs d)), d, q)"
  by (simp add: q_ThumbnailEvictionCandidatesByQuota_def select_def
      quota_candidates_window [OF thumb_ids [OF assms]])

lemma quota_query_is_window_sum_witness:
  "fst (q_ThumbnailEvictionCandidatesByQuota 35 sample_cache_db (sample_seqs\<lparr>sq_thumb := 4\<rparr>)) =
     Inr (quota_by_window 35 (db_thumbs sample_cache_db)) \<and>
   map (\<lambda>(r, n). (th_id r, n)) (quota_by_window 35 (db_thumbs sample_cache_db)) = [(1, 60), (2, 50)]"
  using quota_query_is_window_sum [OF sample_cache_ok, of 35] by (intro conjI, simp, code_simp)

section \<open>The sweep\<close>

text \<open>A row some live document's current version claims, and the keys of the others.\<close>

definition claimed :: "database \<Rightarrow> th_row \<Rightarrow> bool" where
  "claimed d r \<longleftrightarrow> \<not> withdrawn r \<and> held d (th_cv_id r)"

definition unclaimed_keys :: "database \<Rightarrow> string set" where
  "unclaimed_keys d = th_object_key ` {r \<in> set (db_thumbs d). \<not> claimed d r}"

definition orphaned :: "int \<Rightarrow> listing \<Rightarrow> database \<Rightarrow> string \<Rightarrow> bool" where
  "orphaned t pages d k \<longleftrightarrow>
     listed_old (t - orphanGrace) pages k \<and> k \<notin> th_object_key ` set (db_thumbs d)"

lemma sweepOrphans_calm:
  assumes del: "object_deleter del contents" and calm: "calm w"
    and run: "sweepOrphans st pages del w g = (e, w', n, g')"
  shows "w_db w' = w_db w"
    and "contents g' k = contents g k \<or> contents g' k = None \<and> orphaned (w_clock w) pages (w_db w) k"
    and "e = None \<Longrightarrow> contents g' k = (if orphaned (w_clock w) pages (w_db w) k then None else contents g k)"
proof -
  have "w_db w' = w_db w \<and>
      (\<forall>k. contents g' k = contents g k \<or> contents g' k = None \<and> orphaned (w_clock w) pages (w_db w) k) \<and>
      (e = None \<longrightarrow> (\<forall>k. orphaned (w_clock w) pages (w_db w) k \<longrightarrow> contents g' k = None))"
  proof (cases "st_client st")
    case True
    then have "walk_pages pages (sweep_page del (w_clock w - orphanGrace)) (w, 0, g) = (e, w', n, g')"
      using run by (simp add: sweepOrphans_def Store_List_def)
    from object_deleter.walk_pages_sweep [OF del this calm] show ?thesis
      unfolding object_deleter.swept_by_def [OF del] orphaned_def by blast
  qed (use run in \<open>auto simp: sweepOrphans_def Store_List_def\<close>)
  then show "w_db w' = w_db w"
    "contents g' k = contents g k \<or> contents g' k = None \<and> orphaned (w_clock w) pages (w_db w) k"
    "e = None \<Longrightarrow> contents g' k = (if orphaned (w_clock w) pages (w_db w) k then None else contents g k)"
    by (blast, blast, metis)
qed

text \<open>The first half of the sweep: stale rows withdrawn, everything withdrawn drained.\<close>

lemma stale_drained:
  assumes del: "object_deleter del contents" and calm: "calm w" and ok: "db_ok (w_db w) (w_seqs w)"
    and mark: "stmt q_MarkStaleThumbnailsPendingDelete w = (Inr n1, w1)"
    and drain: "drainPending del w1 g = ((n, b, e), w2, g2)"
  shows "calm w2" "w_clock w2 = w_clock w"
    and "\<forall>r \<in> set (db_thumbs (w_db w)). claimed (w_db w) r \<longrightarrow> r \<in> set (db_thumbs (w_db w2))"
    and "contents g2 k = contents g k \<or> contents g2 k = None \<and> k \<in> unclaimed_keys (w_db w)"
    and "e = None \<Longrightarrow> db_thumbs (w_db w2) = filter (claimed (w_db w)) (db_thumbs (w_db w))"
    and "e = None \<Longrightarrow> contents g2 k = (if k \<in> unclaimed_keys (w_db w) then None else contents g k)"
proof -
  let ?d = "w_db w" and ?P = "\<lambda>r. \<not> withdrawn r \<and> \<not> held (w_db w) (th_cv_id r)"
  note m = marking_calm [OF calm mark [unfolded q_MarkStaleThumbnailsPendingDelete_def]]
  have db: "w_db w1 = mark_where ?P ?d" using m(3) by auto
  note dr = mark_then_drain [OF del ok m(1) db drain]
  have keys: "unclaimed_keys ?d = th_object_key ` {r \<in> set (db_thumbs ?d). withdrawn r \<or> ?P r}"
    by (auto simp: unclaimed_keys_def claimed_def)
  have rem: "removal contents (w_db w1) g (w_db w2) g2"
    using object_deleter.drain_removal [OF del drain m(1)] thumb_ids [OF ok] by (simp add: db)
  show "calm w2" "w_clock w2 = w_clock w" using dr(3,4) m(2) by simp_all
  show "\<forall>r \<in> set (db_thumbs ?d). claimed ?d r \<longrightarrow> r \<in> set (db_thumbs (w_db w2))"
    using dr(1) by (auto simp: claimed_def)
  show "contents g2 k = contents g k \<or> contents g2 k = None \<and> k \<in> unclaimed_keys ?d"
    using rem unfolding removal_def db withdrawn_keys_mark keys by blast
  assume e: "e = None"
  have "filter (\<lambda>r. \<not> withdrawn r \<and> \<not> ?P r) (db_thumbs ?d) = filter (claimed ?d) (db_thumbs ?d)"
    by (rule filter_cong) (auto simp: claimed_def)
  with dr(2) [OF e] show "db_thumbs (w_db w2) = filter (claimed ?d) (db_thumbs ?d)" by simp
  show "contents g2 k = (if k \<in> unclaimed_keys ?d then None else contents g k)"
    using dr(2) [OF e] by (simp add: keys)
qed

lemma claimed_key: "db_ok d q \<Longrightarrow> r \<in> set (db_thumbs d) \<Longrightarrow> claimed d r \<Longrightarrow> th_object_key r \<notin> unclaimed_keys d"
  using distinct_map_inj [of th_object_key "db_thumbs d" r]
  by (auto simp: db_ok_def thumbs_ok_def unclaimed_keys_def)

lemma sweep_facts:
  assumes "object_deleter del contents" "calm w" "db_ok (w_db w) (w_seqs w)"
    and "CacheSweep_Work st pages del w g = (e, w', g')"
  shows "\<forall>r \<in> set (db_thumbs (w_db w)). claimed (w_db w) r \<longrightarrow>
      r \<in> set (db_thumbs (w_db w')) \<and> contents g' (th_object_key r) = contents g (th_object_key r)"
    and "contents g' k = contents g k \<or>
      contents g' k = None \<and> (k \<in> unclaimed_keys (w_db w) \<or> orphaned (w_clock w) pages (w_db w) k)"
    and "e = None \<Longrightarrow> db_thumbs (w_db w') = filter (claimed (w_db w)) (db_thumbs (w_db w)) \<and>
      contents g' k = (if k \<in> unclaimed_keys (w_db w) \<or> orphaned (w_clock w) pages (w_db w') k
        then None else contents g k)"
proof -
  let ?d = "w_db w"
  have "(\<forall>r \<in> set (db_thumbs ?d). claimed ?d r \<longrightarrow> r \<in> set (db_thumbs (w_db w'))) \<and>
      (\<forall>k. contents g' k = contents g k \<or>
        contents g' k = None \<and> (k \<in> unclaimed_keys ?d \<or> orphaned (w_clock w) pages ?d k)) \<and>
      (e = None \<longrightarrow> db_thumbs (w_db w') = filter (claimed ?d) (db_thumbs ?d) \<and>
        (\<forall>k. contents g' k = (if k \<in> unclaimed_keys ?d \<or> orphaned (w_clock w) pages (w_db w') k
          then None else contents g k)))"
  proof -
    obtain r1 w1 where mark: "stmt q_MarkStaleThumbnailsPendingDelete w = (r1, w1)" by fastforce
    note m = marking_calm [OF assms(2) mark [unfolded q_MarkStaleThumbnailsPendingDelete_def]]
    show ?thesis
    proof (cases r1)
      case (Inl x)
      with assms(4) mark have "w' = w1" "g' = g" "e = Some x" by (auto simp: CacheSweep_Work_def)
      with m(3) Inl show ?thesis by auto
    next
      case (Inr n1)
      obtain n b e2 w2 g2 where drain: "drainPending del w1 g = ((n, b, e2), w2, g2)" by (metis prod.exhaust)
      note st = stale_drained [OF assms(1-3) mark [unfolded Inr] drain]
      show ?thesis
      proof (cases e2)
        case (Some x)
        with assms(4) mark Inr drain have eqs: "w2 = w'" "g2 = g'" "e \<noteq> None" by (auto simp: CacheSweep_Work_def)
        from st(3,4) eqs(3) show ?thesis unfolding eqs(1,2) by blast
      next
        case None
        obtain e3 w3 n3 g3 where sweep: "sweepOrphans st pages del w2 g2 = (e3, w3, n3, g3)" by (metis prod_cases4)
        have eqs: "e3 = e" "w3 = w'" "g3 = g'"
          using assms(4) by (simp_all add: CacheSweep_Work_def mark Inr drain None sweep)
        note sw = sweepOrphans_calm [OF assms(1) st(1) sweep [unfolded eqs], unfolded st(2)]
        have unref: "orphaned (w_clock w) pages (w_db w2) k \<Longrightarrow> orphaned (w_clock w) pages ?d k \<or> k \<in> unclaimed_keys ?d" for k
          by (auto simp: orphaned_def unclaimed_keys_def st(5) [OF None])
        have "contents g' k = contents g k \<or>
            contents g' k = None \<and> (k \<in> unclaimed_keys ?d \<or> orphaned (w_clock w) pages ?d k)" for k
          using sw(2) [of k] st(4) [of k] unref [of k] by auto
        moreover have "e = None \<Longrightarrow> contents g' k =
            (if k \<in> unclaimed_keys ?d \<or> orphaned (w_clock w) pages (w_db w') k then None else contents g k)" for k
          using sw(3) [of k] st(6) [OF None, of k] by (simp add: sw(1))
        ultimately show ?thesis using st(3) st(5) [OF None] sw(1) by simp
      qed
    qed
  qed
  note facts = this
  show "\<forall>r \<in> set (db_thumbs ?d). claimed ?d r \<longrightarrow>
      r \<in> set (db_thumbs (w_db w')) \<and> contents g' (th_object_key r) = contents g (th_object_key r)"
  proof (intro ballI impI conjI)
    fix r assume r: "r \<in> set (db_thumbs ?d)" "claimed ?d r"
    then show "r \<in> set (db_thumbs (w_db w'))" using facts by blast
    have "\<not> orphaned (w_clock w) pages ?d (th_object_key r)" using r(1) by (auto simp: orphaned_def)
    with claimed_key [OF assms(3) r] facts show "contents g' (th_object_key r) = contents g (th_object_key r)" by metis
  qed
  show "contents g' k = contents g k \<or>
      contents g' k = None \<and> (k \<in> unclaimed_keys ?d \<or> orphaned (w_clock w) pages ?d k)" using facts by blast
  show "e = None \<Longrightarrow> db_thumbs (w_db w') = filter (claimed ?d) (db_thumbs ?d) \<and>
      contents g' k = (if k \<in> unclaimed_keys ?d \<or> orphaned (w_clock w) pages (w_db w') k
        then None else contents g k)" using facts by blast
qed

text \<open>
  C31: The sweep is the backstop and nothing more: a row some live document's current version
  claims stays and keeps its object, whatever fails; any other object it removes belonged to
  a row no document claims, or was listed, older than the grace period and referenced by no
  row; and a sweep that succeeds has removed every such row and object.
\<close>

theorem sweep_removes_exactly_orphans:
  assumes "object_deleter del contents" "calm w" "db_ok (w_db w) (w_seqs w)"
    and "CacheSweep_Work st pages del w g = (e, w', g')"
  shows "(\<forall>r \<in> set (db_thumbs (w_db w)). claimed (w_db w) r \<longrightarrow>
      r \<in> set (db_thumbs (w_db w')) \<and> contents g' (th_object_key r) = contents g (th_object_key r)) \<and>
    (\<forall>k. contents g' k = contents g k \<or>
      contents g' k = None \<and> (k \<in> unclaimed_keys (w_db w) \<or> orphaned (w_clock w) pages (w_db w) k)) \<and>
    (e = None \<longrightarrow> db_thumbs (w_db w') = filter (claimed (w_db w)) (db_thumbs (w_db w)) \<and>
      (\<forall>k. contents g' k = (if k \<in> unclaimed_keys (w_db w) \<or> orphaned (w_clock w) pages (w_db w') k
        then None else contents g k)))"
  using sweep_facts [OF assms] by blast

definition sample_listing :: listing where
  "sample_listing = [Inr [\<lparr>it_key = Some ''k9'', it_size = None, it_modified = None\<rparr>,
     \<lparr>it_key = Some ''k1'', it_size = None, it_modified = None\<rparr>]]"

lemma sweep_removes_exactly_orphans_witness:
  "let (e, w', g') = CacheSweep_Work reference_store sample_listing ref_delete (sample_cache []) (sample_bucket [])
   in e = None \<and> bk_objects g' ''k9'' = None \<and> bk_objects g' ''k1'' = Some ''a'' \<and>
      map th_id (db_thumbs (w_db w')) = [1, 2, 4]"
proof -
  let ?run = "CacheSweep_Work reference_store sample_listing ref_delete (sample_cache []) (sample_bucket [])"
  obtain e w' g' where run: "?run = (e, w', g')" by (metis prod_cases3)
  have "fst ?run = None" by code_simp
  then have e: "e = None" by (simp add: run)
  have ok: "db_ok (w_db (sample_cache [])) (w_seqs (sample_cache []))" using sample_cache_ok by simp
  note facts = sweep_removes_exactly_orphans [THEN conjunct2, THEN conjunct2, THEN mp, OF ref.object_deleter_axioms sample_cache_calm(1) ok run e]
  have rows: "map th_id (filter (claimed sample_cache_db) (db_thumbs sample_cache_db)) = [1, 2, 4]"
    "map th_object_key (filter (claimed sample_cache_db) (db_thumbs sample_cache_db)) = [''k1'', ''k2'', ''k4'']"
    by code_simp+
  have "map th_object_key (filter (\<lambda>r. \<not> claimed sample_cache_db r) (db_thumbs sample_cache_db)) = [''k3'']"
    by code_simp
  then have keys: "unclaimed_keys sample_cache_db = {''k3''}"
    unfolding unclaimed_keys_def by (metis set_filter set_map empty_set list.simps(15))
  have refs: "th_object_key ` set (filter (claimed sample_cache_db) (db_thumbs sample_cache_db)) = {''k1'', ''k2'', ''k4''}"
    using arg_cong [OF rows(2), of set] by simp
  have "bk_objects g' ''k9'' = None" "bk_objects g' ''k1'' = Some ''a''"
    using facts [THEN conjunct2, rule_format, of "''k9''"] facts [THEN conjunct2, rule_format, of "''k1''"]
    by (simp_all add: facts [THEN conjunct1] refs [simplified] keys orphaned_def listed_old_def sample_listing_def object_of_def
        no_time_def orphanGrace_def sample_bucket_def)
  moreover have "map th_id (db_thumbs (w_db w')) = [1, 2, 4]"
    using facts rows(1) by simp
  ultimately show ?thesis using e run by simp
qed

section \<open>The schema\<close>

lemma stmt_holds:
  assumes "good db_ok (sq_epoch (w_seqs w)) f" "holds db_ok w" "stmt f w = (r, w')"
  shows "holds db_ok w'"
proof -
  have "holds_from db_ok (sq_epoch (w_seqs w)) w" using assms(2) by (simp add: holds_from_def)
  from keepsD [OF schema.keeps_stmt [OF assms(1)] assms(3) this] show ?thesis
    by (simp add: holds_from_def)
qed

lemma select_holds: "holds db_ok w \<Longrightarrow> stmt (select f) w = (r, w') \<Longrightarrow> holds db_ok w'"
  by (rule stmt_holds [OF good_select])

lemma drain_turn_holds:
  assumes w: "holds db_ok w" and turn: "drain_turn del cnt bytes w g = (t, c', b', w', g')"
  shows "holds db_ok w'"
proof -
  obtain r1 w1 where list: "stmt (q_PendingDeleteThumbnails drainBatch) w = (r1, w1)" by fastforce
  have w1: "holds db_ok w1" by (rule select_holds [OF w list [unfolded PendingDelete_eq]])
  have purge: "holds db_ok w2" if "purge_rows ids w1 = (r2, w2)" for ids r2 w2
    using that w1 stmt_holds [OF ok_PurgeThumbnails w1]
    by (auto simp: purge_rows_def ret_def split: if_splits)
  show ?thesis
    using turn list w1 purge
    by (auto simp: drain_turn_def split: sum.splits if_splits prod.splits)
qed

lemma drain_from_holds:
  "drain_from del cnt bytes w g = (res, w', g') \<Longrightarrow> holds db_ok w \<Longrightarrow> holds db_ok w'"
proof (induction del cnt bytes w g rule: drain_from.induct)
  case (1 del cnt bytes w g)
  obtain t c1 b1 w1 g1 where turn: "drain_turn del cnt bytes w g = (t, c1, b1, w1, g1)"
    by (metis prod_cases5)
  note w1 = drain_turn_holds [OF 1(3) turn]
  show ?case
  proof (cases t)
    case (Return e)
    with 1(2) turn w1 show ?thesis by (simp add: drain_from.simps)
  next
    case Again
    then have "drain_from del c1 b1 w1 g1 = (res, w', g')"
      using 1(2) turn by (subst (asm) drain_from.simps) simp
    from 1(1) [OF turn [symmetric] Again refl refl refl this w1] show ?thesis .
  qed
qed

lemma drain_holds: "holds db_ok w \<Longrightarrow> drainPending del w g = (res, w', g') \<Longrightarrow> holds db_ok w'"
  unfolding drainPending_def by (rule drain_from_holds)

lemma age_from_holds:
  "age_from older cnt bytes w = (res, w') \<Longrightarrow> holds db_ok w \<Longrightarrow> holds db_ok w'"
proof (induction older cnt bytes w rule: age_from.induct)
  case (1 older cnt bytes w)
  obtain t c1 b1 w1 where turn: "age_turn older cnt bytes w = (t, c1, b1, w1)" by (metis prod_cases4)
  obtain r2 w2 where list: "stmt (q_ThumbnailEvictionCandidatesByAge older evictionBatch) w = (r2, w2)"
    by fastforce
  have w2: "holds db_ok w2" by (rule select_holds [OF 1(3) list [unfolded CandidatesByAge_eq]])
  have w1: "holds db_ok w1"
    using turn list w2 stmt_holds [OF ok_MarkStale(2) w2]
    by (auto simp: age_turn_def mark_def Let_def split: sum.splits if_splits prod.splits)
  show ?case
  proof (cases t)
    case (Return e)
    with 1(2) turn w1 show ?thesis by (simp add: age_from.simps)
  next
    case Again
    then have "age_from older c1 b1 w1 = (res, w')"
      using 1(2) turn by (subst (asm) age_from.simps) simp
    from 1(1) [OF turn [symmetric] Again refl refl this w1] show ?thesis .
  qed
qed

lemma markByAge_holds: "holds db_ok w \<Longrightarrow> markByAge ew w = (res, w') \<Longrightarrow> holds db_ok w'"
  by (auto simp: markByAge_def intro: age_from_holds split: if_splits)

lemma markByQuota_holds:
  assumes w: "holds db_ok w" and run: "markByQuota ew w = (res, w')"
  shows "holds db_ok w'"
proof -
  obtain r2 w2 where list: "stmt (q_ThumbnailEvictionCandidatesByQuota (ew_max_bytes ew)) w = (r2, w2)"
    by fastforce
  have w2: "holds db_ok w2"
    by (rule select_holds [OF w list [unfolded q_ThumbnailEvictionCandidatesByQuota_def]])
  show ?thesis
    using run list w w2 stmt_holds [OF ok_MarkStale(2) w2]
    by (auto simp: markByQuota_def mark_def split: sum.splits if_splits prod.splits)
qed

lemma Invalidate_holds:
  assumes w: "holds db_ok w" and run: "InvalidateThumbnails_Work del v w g = (e, w', g')"
  shows "holds db_ok w'"
proof -
  obtain r1 w1 where mark: "stmt (q_MarkThumbnailsPendingDeleteForStaleContentVersion v) w = (r1, w1)"
    by fastforce
  have w1: "holds db_ok w1" by (rule stmt_holds [OF ok_MarkStale(3) w mark])
  show ?thesis
    using run mark w1 drain_holds [OF w1]
    by (auto simp: InvalidateThumbnails_Work_def split: sum.splits prod.splits)
qed

lemma Sweep_holds:
  assumes w: "holds db_ok w" and run: "CacheSweep_Work st pages del w g = (e, w', g')"
  shows "holds db_ok w'"
proof -
  have page: "holds db_ok v'" if "holds db_ok v" "sweep_page del cutoff page (v, n, x) = (e1, v', n', x')"
    for cutoff page v n x e1 v' n' x'
  proof -
    obtain r2 w2 where list: "stmt (q_ReferencedThumbnailObjectKeys (orphan_candidates cutoff page)) v = (r2, w2)"
      by fastforce
    have "holds db_ok w2"
      by (rule select_holds [OF that(1) list [unfolded q_ReferencedThumbnailObjectKeys_def]])
    with that list show ?thesis
      by (auto simp: sweep_page_def Let_def split: if_splits sum.splits prod.splits)
  qed
  have walk: "walk_pages ps (sweep_page del cutoff) (v, n, x) = (e1, v', n', x') \<Longrightarrow> holds db_ok v \<Longrightarrow> holds db_ok v'"
    for ps cutoff v n x e1 v' n' x'
  proof (induction ps arbitrary: v n x)
    case (Cons p ps)
    then show ?case
      by (cases p) (auto split: prod.splits option.splits dest: page)
  qed simp
  have orphans: "holds db_ok v'" if "holds db_ok v" "sweepOrphans st pages del v x = (e1, v', n', x')"
    for v x e1 v' n' x'
    using that walk by (auto simp: sweepOrphans_def Store_List_def split: if_splits)
  obtain r1 w1 where mark: "stmt q_MarkStaleThumbnailsPendingDelete w = (r1, w1)" by fastforce
  have w1: "holds db_ok w1" by (rule stmt_holds [OF ok_MarkStale(1) w mark])
  obtain n b e2 w2 g2 where drain: "drainPending del w1 g = ((n, b, e2), w2, g2)" by (metis prod.exhaust)
  note w2 = drain_holds [OF w1 drain]
  obtain e3 w3 n3 g3 where sweep: "sweepOrphans st pages del w2 g2 = (e3, w3, n3, g3)" by (metis prod_cases4)
  show ?thesis
    using run mark w1 drain w2 sweep orphans [OF w2 sweep]
    by (cases e2) (auto simp: CacheSweep_Work_def split: sum.splits)
qed

lemma Eviction_holds:
  assumes w: "holds db_ok w" and run: "Eviction_Work ew del w g = (e, w', g')"
  shows "holds db_ok w'"
proof -
  obtain n1 b1 e1 w1 where age: "markByAge ew w = ((n1, b1, e1), w1)" by (metis prod.exhaust)
  note w1 = markByAge_holds [OF w age]
  obtain n2 b2 e2 w2 where quota: "markByQuota ew w1 = ((n2, b2, e2), w2)" by (metis prod.exhaust)
  note w2 = markByQuota_holds [OF w1 quota]
  obtain n3 b3 e3 w3 g3 where drain: "drainPending del w2 g = ((n3, b3, e3), w3, g3)" by (metis prod.exhaust)
  note w3 = drain_holds [OF w2 drain]
  obtain r4 w4 where total: "stmt q_TotalThumbnailBytes w3 = (r4, w4)" by fastforce
  have w4: "holds db_ok w4" by (rule select_holds [OF w3 total [unfolded q_TotalThumbnailBytes_def]])
  show ?thesis
    using run age w1 quota w2 drain w3 total w4
    by (cases e1; cases e2) (auto simp: Eviction_Work_def split: sum.splits)
qed

text \<open>
  The worker River hands a cache job to (\<open>internal/indexer/indexer.go\<close> registers them by the
  kind of the arguments); \<open>None\<close> for the jobs of the ingestion pipeline.
\<close>

definition cache_work :: "EvictionWorker \<Rightarrow> Store \<Rightarrow> listing \<Rightarrow> 'g deleter \<Rightarrow> job_args \<Rightarrow> world \<Rightarrow> 'g \<Rightarrow>
    (err option \<times> world \<times> 'g) option" where
  "cache_work ew st pages del args w g = (case args of
      InvalidateThumbnailsArgs _ v \<Rightarrow> Some (InvalidateThumbnails_Work del v w g)
    | EvictionMaintenanceArgs \<Rightarrow> Some (Eviction_Work ew del w g)
    | CacheSweepArgs \<Rightarrow> Some (CacheSweep_Work st pages del w g)
    | _ \<Rightarrow> None)"

lemma cache_work_holds:
  "holds db_ok w \<Longrightarrow> cache_work ew st pages del args w g = Some (e, w', g') \<Longrightarrow> holds db_ok w'"
  using Invalidate_holds Eviction_holds Sweep_holds
  by (auto simp: cache_work_def split: job_args.splits)

text \<open>
  Whatever faults a cache job meets in the database or in the object store, and whatever
  other transactions commit between its statements, it ends, and it leaves every constraint
  of the schema in force.
\<close>

theorem cache_work_keeps_schema:
  assumes "holds db_ok w" and "cache_work ew st pages del args w g = Some (e, w', g')"
  shows "holds db_ok w'"
  by (rule cache_work_holds [OF assms])

lemma cache_work_keeps_schema_witness:
  "case cache_work sample_eviction reference_store sample_listing ref_delete EvictionMaintenanceArgs
       (sample_cache [Run, Fault]) (sample_bucket [])
   of None \<Rightarrow> False | Some (e, w', g') \<Rightarrow> e = Some ErrConn \<and> holds db_ok w'"
proof -
  let ?run = "Eviction_Work sample_eviction ref_delete (sample_cache [Run, Fault]) (sample_bucket [])"
  obtain e w' g' where run: "?run = (e, w', g')" by (metis prod_cases3)
  have "fst ?run = Some ErrConn" by code_simp
  then have e: "e = Some ErrConn" by (simp add: run)
  have start: "holds db_ok (sample_cache [Run, Fault])"
    using sample_cache_ok by (simp add: holds_def rely_def)
  have work: "cache_work sample_eviction reference_store sample_listing ref_delete EvictionMaintenanceArgs
      (sample_cache [Run, Fault]) (sample_bucket []) = Some (e, w', g')"
    by (simp add: cache_work_def run)
  from cache_work_keeps_schema [OF start work] show ?thesis unfolding work by (simp add: e)
qed

end
