(* ===== verification/Thumbnail_Effects.thy ===== *)
theory Thumbnail_Effects
  imports Thumbnail_Service Cache_Policy
begin

text \<open>
  What the thumbnail handler does to the rows and the objects of the cache, step by step, and
  the state of the cache it relies on: every row's object key is the one its entry computes,
  and every live row's object is there with the size the row records.
\<close>

section \<open>The cache's state\<close>

text \<open>Content hashes are hex digits; what matters is that they hold no separator.\<close>

definition slashless :: "database \<Rightarrow> bool" where
  "slashless d \<longleftrightarrow> (\<forall>c \<in> set (db_cvs d). CHR ''/'' \<notin> set (cv_content_hash c))"

definition keyed_row :: "database \<Rightarrow> th_row \<Rightarrow> bool" where
  "keyed_row d r \<longleftrightarrow> (\<exists>c \<in> set (db_cvs d). \<exists>p x y. cv_id c = th_cv_id r \<and> th_page r = int32 p \<and>
     th_width r = int32 x \<and> th_height r = int32 y \<and>
     th_object_key r = key_text (cv_content_hash c) p x y (th_format r))"

definition accounted :: "('g \<Rightarrow> string \<Rightarrow> string option) \<Rightarrow> database \<Rightarrow> 'g \<Rightarrow> bool" where
  "accounted contents d g \<longleftrightarrow> (\<forall>r \<in> set (db_thumbs d). \<not> withdrawn r \<longrightarrow>
     (\<exists>body. contents g (th_object_key r) = Some body \<and> th_size_bytes r = int (length body)))"

definition cache_sound :: "('g \<Rightarrow> string \<Rightarrow> string option) \<Rightarrow> database \<Rightarrow> 'g \<Rightarrow> bool" where
  "cache_sound contents d g \<longleftrightarrow>
     slashless d \<and> (\<forall>r \<in> set (db_thumbs d). keyed_row d r) \<and> accounted contents d g"

text \<open>An entry of a version that exists, under its own hash.\<close>

definition entry_ok :: "database \<Rightarrow> entry \<Rightarrow> bool" where
  "entry_ok d key \<longleftrightarrow>
     (\<exists>c \<in> set (db_cvs d). cv_id c = en_contentVersionID key \<and> cv_content_hash c = en_contentHash key)"

definition entry_key :: "entry \<Rightarrow> int \<times> int \<times> int \<times> int \<times> string" where
  "entry_key key = (en_contentVersionID key, int32 (en_page key), int32 (ib_width (en_bounds key)),
     int32 (ib_height (en_bounds key)), if_name (en_format key))"

lemma int32_inj: "int32 x = int32 y \<longleftrightarrow> x = y"
  using signed_word_eqI [of x y] by (auto simp: int32_def)

text \<open>Two rows, or a row and an entry, share an object key only when they are the same entry.\<close>

lemma keyed_row_entry:
  assumes ok: "db_ok d q" and sl: "slashless d" and r: "keyed_row d r" and e: "entry_ok d key"
  shows "th_object_key r = objectKey key \<longleftrightarrow> thumb_key r = entry_key key"
proof -
  from r obtain c p x y where c: "c \<in> set (db_cvs d)" "cv_id c = th_cv_id r" "th_page r = int32 p"
    "th_width r = int32 x" "th_height r = int32 y"
    "th_object_key r = key_text (cv_content_hash c) p x y (th_format r)"
    unfolding keyed_row_def by blast
  from e obtain c' where c': "c' \<in> set (db_cvs d)" "cv_id c' = en_contentVersionID key"
    "cv_content_hash c' = en_contentHash key" unfolding entry_ok_def by blast
  have hash: "CHR ''/'' \<notin> set (cv_content_hash c)" "CHR ''/'' \<notin> set (en_contentHash key)"
    using sl c(1) c'(1,3) by (auto simp: slashless_def)
  have "distinct (map cv_id (db_cvs d))" "distinct (map cv_content_hash (db_cvs d))"
    using ok by (auto simp: db_ok_def cvs_ok_def ids_ok_def)
  then have same: "cv_content_hash c = en_contentHash key \<longleftrightarrow> th_cv_id r = en_contentVersionID key"
    using c(1,2) c' by (metis distinct_map_inj)
  show ?thesis
  proof
    assume "th_object_key r = objectKey key"
    with c(6) have "key_text (cv_content_hash c) p x y (th_format r) = key_text (en_contentHash key)
        (en_page key) (ib_width (en_bounds key)) (ib_height (en_bounds key)) (if_name (en_format key))"
      by (simp add: objectKey_def)
    from key_text_inj [OF this hash] same c(3-5) show "thumb_key r = entry_key key"
      by (simp add: thumb_key_def entry_key_def)
  next
    assume "thumb_key r = entry_key key"
    with c same show "th_object_key r = objectKey key"
      by (auto simp: thumb_key_def entry_key_def objectKey_def int32_inj)
  qed
qed

section \<open>Reading through the row\<close>

lemma entry_row_select:
  "entry_row key = select (\<lambda>d. row_or_none (List.find (\<lambda>r. thumb_key r = entry_key key \<and> \<not> withdrawn r) (db_thumbs d)))"
  by (auto simp: entry_row_def q_GetThumbnail_def thumb_key_def entry_key_def
      intro!: arg_cong [of _ _ select] ext arg_cong [of _ _ row_or_none] find_cong_set)

text \<open>The touch moves an access time, nothing the cache's state is about.\<close>

definition touched :: "int \<Rightarrow> int \<Rightarrow> th_row \<Rightarrow> th_row" where
  "touched i t r = (if th_id r = i then r\<lparr>th_last_access_at := t\<rparr> else r)"

lemma touched_simps [simp]:
  "th_id (touched i t r) = th_id r" "thumb_key (touched i t r) = thumb_key r"
  "th_object_key (touched i t r) = th_object_key r" "th_cv_id (touched i t r) = th_cv_id r"
  "th_size_bytes (touched i t r) = th_size_bytes r" "withdrawn (touched i t r) = withdrawn r"
  "th_page (touched i t r) = th_page r" "th_width (touched i t r) = th_width r"
  "th_height (touched i t r) = th_height r" "th_format (touched i t r) = th_format r"
  by (simp_all add: touched_def thumb_key_def withdrawn_def)

lemma touch_calm:
  assumes "calm w" "stmt (q_TouchThumbnail i) w = (r, w')"
  shows "calm w'" "w_clock w' = w_clock w"
    and "w_db w' = w_db w \<or> w_db w' = put_thumbs (w_db w) (map (touched i (db_now (w_db w))) (db_thumbs (w_db w)))"
  using stmt_calm_cases [OF assms]
  by (auto simp: q_TouchThumbnail_def put_thumbs_def update_where_def touched_def [abs_def])

lemma cache_sound_touched:
  "cache_sound contents (put_thumbs d (map (touched i t) (db_thumbs d))) g = cache_sound contents d g"
  by (simp add: cache_sound_def accounted_def slashless_def keyed_row_def)

definition touches :: "database \<Rightarrow> database \<Rightarrow> bool" where
  "touches d d' \<longleftrightarrow> d' = d \<or> (\<exists>i t. d' = put_thumbs d (map (touched i t) (db_thumbs d)))"

lemma cache_sound_touches: "touches d d' \<Longrightarrow> cache_sound contents d' g = cache_sound contents d g"
  by (auto simp: touches_def cache_sound_touched)

text \<open>
  What an answer of the cache says: a hit is the object of the entry's live row, a miss that
  no live row of the entry has an object.
\<close>

definition answers ::
  "('g \<Rightarrow> string \<Rightarrow> string option) \<Rightarrow> entry \<Rightarrow> database \<Rightarrow> 'g \<Rightarrow> code + string option \<Rightarrow> bool" where
  "answers contents key d g r = (case r of
      Inl _ \<Rightarrow> True
    | Inr None \<Rightarrow> \<forall>row \<in> set (db_thumbs d). thumb_key row = entry_key key \<longrightarrow>
        withdrawn row \<or> contents g (th_object_key row) = None
    | Inr (Some img) \<Rightarrow> \<exists>row \<in> set (db_thumbs d). thumb_key row = entry_key key \<and> \<not> withdrawn row \<and>
        contents g (th_object_key row) = Some img)"

context object_store
begin

lemma fromCache_calm:
  assumes run: "fromCache \<lparr>ob_get = get, ob_put = put\<rparr> key w g = (r, w', g')" and "calm w"
    and keys: "distinct (map thumb_key (db_thumbs (w_db w)))"
  shows "calm w' \<and> contents g' = contents g \<and> touches (w_db w) (w_db w') \<and>
    (r = Inr None \<longrightarrow> w_db w' = w_db w) \<and> answers contents key (w_db w) g r"
proof -
  obtain r1 w1 where find: "stmt (entry_row key) w = (r1, w1)" by fastforce
  note sel = stmt_calm_select [OF assms(2) find [unfolded entry_row_select]]
  show ?thesis
  proof (cases r1)
    case (Inl e)
    with run find have eqs: "r = (if e = ErrNoRows then Inr None else Inl CodeInternal)" "w' = w1" "g' = g"
      by (auto simp: fromCache_def split: if_splits)
    have "List.find (\<lambda>r. thumb_key r = entry_key key \<and> \<not> withdrawn r) (db_thumbs (w_db w)) = None"
      if "e = ErrNoRows"
      using stmt_calm_cases(3) [OF assms(2) find [unfolded entry_row_select]] Inl that
      by (auto simp: select_def row_or_none_def split: option.splits)
    with eqs sel(1,3) show ?thesis by (auto simp: find_None_set answers_def touches_def)
  next
    case (Inr row)
    from sel(4) [OF Inr] have row: "row \<in> set (db_thumbs (w_db w))" "thumb_key row = entry_key key" "\<not> withdrawn row"
      by (auto simp: row_or_none_def split: option.splits dest: find_SomeD)
    have only: "s = row" if "s \<in> set (db_thumbs (w_db w))" "thumb_key s = entry_key key" for s
      using distinct_map_inj [OF keys that(1) row(1)] that(2) row(2) by simp
    obtain o1 g1 where got: "get (th_object_key row) g = (o1, g1)" by fastforce
    note still = get_still [OF got]
    show ?thesis
    proof (cases o1)
      case o1: (Inl e)
      with run find Inr got have eqs: "w' = w1" "g' = g1"
        "r = (if e = ErrNoSuchKey then Inr None else Inl CodeUnavailable)"
        by (auto simp: fromCache_def split: if_splits)
      have "contents g (th_object_key row) = None" if "e = ErrNoSuchKey"
        using get_missing got o1 that by blast
      with eqs sel(1,3) still only show ?thesis by (auto simp: answers_def touches_def)
    next
      case o1: (Inr img)
      obtain r2 w2 where touch: "stmt (q_TouchThumbnail (th_id row)) w1 = (r2, w2)" by fastforce
      note t = touch_calm [OF sel(1) touch, unfolded sel(3)]
      from run find Inr got o1 touch have eqs: "w' = w2" "g' = g1" "r = Inr (Some img)"
        by (auto simp: fromCache_def)
      have "contents g (th_object_key row) = Some img" using get_body got o1 by blast
      with eqs t(1,3) still row show ?thesis by (auto simp: answers_def touches_def)
    qed
  qed
qed

end

section \<open>Publishing an entry\<close>

definition published ::
  "int \<times> int \<times> int \<times> int \<times> string \<Rightarrow> string \<Rightarrow> int \<Rightarrow> th_row list \<Rightarrow> th_row list \<Rightarrow> bool" where
  "published k okey n old rows \<longleftrightarrow> k \<in> thumb_key ` set rows \<and>
     (\<forall>s \<in> set rows. thumb_key s = k \<longrightarrow> th_object_key s = okey \<and> th_size_bytes s = n \<and> \<not> withdrawn s) \<and>
     {s \<in> set rows. thumb_key s \<noteq> k} = {s \<in> set old. thumb_key s \<noteq> k}"

lemma published_append:
  "k \<notin> thumb_key ` set old \<Longrightarrow> thumb_key r = k \<Longrightarrow> th_object_key r = okey \<Longrightarrow> th_size_bytes r = n \<Longrightarrow>
     \<not> withdrawn r \<Longrightarrow> published k okey n old (old @ [r])"
  by (auto simp: published_def) (metis image_eqI)+

lemma published_update:
  assumes "r0 \<in> set old" "thumb_key r0 = k"
  shows "published k okey n old (update_where (\<lambda>r. thumb_key r = k) (republished okey n t) old)"
proof -
  have key: "thumb_key (republished okey n t s) = thumb_key s" for s
    by (simp add: republished_def thumb_key_def)
  have "republished okey n t r0 \<in> set (update_where (\<lambda>r. thumb_key r = k) (republished okey n t) old)"
    using assms by (auto simp: set_update_where)
  then have "k \<in> thumb_key ` set (update_where (\<lambda>r. thumb_key r = k) (republished okey n t) old)"
    using key [of r0] assms(2) by (metis image_eqI)
  moreover have "th_object_key s = okey \<and> th_size_bytes s = n \<and> \<not> withdrawn s"
    if "s \<in> set (update_where (\<lambda>r. thumb_key r = k) (republished okey n t) old)" "thumb_key s = k" for s
  proof -
    from that obtain r where "s = republished okey n t r" unfolding set_update_where by blast
    then show ?thesis by (simp add: republished_def withdrawn_def)
  qed
  moreover have "{s \<in> set (update_where (\<lambda>r. thumb_key r = k) (republished okey n t) old). thumb_key s \<noteq> k} =
      {s \<in> set old. thumb_key s \<noteq> k}"
    unfolding set_update_where using key by fastforce
  ultimately show ?thesis unfolding published_def by blast
qed

lemma upsert_effect:
  assumes "q_UpsertThumbnail cv p x y f okey n d q = (r, d', q')" "k = (cv, p, x, y, f)"
  shows "(\<exists>e. r = Inl e) \<and> d' = d \<or>
    (\<exists>row rows. r = Inr row \<and> d' = put_thumbs d rows \<and> published k okey n (db_thumbs d) rows)"
proof (cases "List.find (\<lambda>r. thumb_key r = k) (db_thumbs d)")
  case None
  let ?r = "\<lparr>th_id = sq_thumb q + 1, th_cv_id = cv, th_page = p, th_width = x, th_height = y,
    th_format = f, th_object_key = okey, th_size_bytes = n, th_created_at = db_now d,
    th_last_access_at = db_now d, th_pending_delete_at = None\<rparr>"
  from None have "k \<notin> thumb_key ` set (db_thumbs d)" by (auto simp: find_None_set)
  then have pub: "published k okey n (db_thumbs d) (db_thumbs d @ [?r])"
    by (rule published_append) (simp_all add: thumb_key_def withdrawn_def assms(2))
  from assms(1) None assms(2) have "(\<exists>e. r = Inl e) \<and> d' = d \<or> r = Inr ?r \<and> d' = put_thumbs d (db_thumbs d @ [?r])"
    by (auto simp: q_UpsertThumbnail_def Let_def put_thumbs_def split: if_splits)
  with pub show ?thesis by blast
next
  case (Some r0)
  let ?rows = "update_where (\<lambda>r. thumb_key r = k) (republished okey n (db_now d)) (db_thumbs d)"
  have pub: "published k okey n (db_thumbs d) ?rows" using published_update find_SomeD [OF Some] by blast
  from assms(1) Some assms(2) have "(\<exists>e. r = Inl e) \<and> d' = d \<or> (\<exists>row. r = Inr row) \<and> d' = put_thumbs d ?rows"
    by (auto simp: q_UpsertThumbnail_def Let_def put_thumbs_def split: if_splits)
  with pub show ?thesis by blast
qed

text \<open>No live row of the entry: the state a render starts from.\<close>

definition vacant :: "entry \<Rightarrow> database \<Rightarrow> bool" where
  "vacant key d \<longleftrightarrow> (\<forall>row \<in> set (db_thumbs d). thumb_key row = entry_key key \<longrightarrow> withdrawn row)"

text \<open>A miss in a sound cache.\<close>

lemma vacant_miss: "cache_sound contents d g \<Longrightarrow> answers contents key d g (Inr None) \<Longrightarrow> vacant key d"
  by (auto simp: vacant_def answers_def cache_sound_def accounted_def) force

lemma cache_sound_object:
  assumes "cache_sound contents d g" "db_ok d q" "entry_ok d key" "vacant key d"
    and "contents g' = contents g \<or> contents g' = (contents g)(objectKey key := x)"
  shows "cache_sound contents d g'"
proof -
  have "th_object_key r \<noteq> objectKey key" if "r \<in> set (db_thumbs d)" "\<not> withdrawn r" for r
    using assms(1,3,4) keyed_row_entry [OF assms(2)] that by (auto simp: cache_sound_def vacant_def)
  with assms(1,5) show ?thesis by (auto simp: cache_sound_def accounted_def)
qed

lemma cache_sound_row:
  assumes sound: "cache_sound contents d g" and e: "entry_ok d key"
    and pub: "published (entry_key key) (objectKey key) (int (length img)) (db_thumbs d) rows"
    and stored: "contents g (objectKey key) = Some img"
  shows "cache_sound contents (put_thumbs d rows) g"
proof -
  have row: "keyed_row d s \<and> (\<not> withdrawn s \<longrightarrow>
      (\<exists>body. contents g (th_object_key s) = Some body \<and> th_size_bytes s = int (length body)))"
    if "s \<in> set rows" for s
  proof (cases "thumb_key s = entry_key key")
    case True
    with pub that have s: "th_object_key s = objectKey key" "th_size_bytes s = int (length img)" by (auto simp: published_def)
    from e obtain c where "c \<in> set (db_cvs d)" "cv_id c = en_contentVersionID key"
      "cv_content_hash c = en_contentHash key" unfolding entry_ok_def by blast
    with True s have "keyed_row d s"
      unfolding keyed_row_def thumb_key_def entry_key_def objectKey_def
      by (intro bexI [of _ c] exI [of _ "en_page key"] exI [of _ "ib_width (en_bounds key)"]
          exI [of _ "ib_height (en_bounds key)"]) simp_all
    with s stored show ?thesis by simp
  next
    case False
    with pub that have "s \<in> set (db_thumbs d)" by (auto simp: published_def)
    with sound show ?thesis by (auto simp: cache_sound_def accounted_def)
  qed
  with sound show ?thesis
    by (auto simp: cache_sound_def accounted_def slashless_def keyed_row_def)
qed

text \<open>The entry has a live row, under its key, whose object is these bytes.\<close>

definition serves :: "('g \<Rightarrow> string \<Rightarrow> string option) \<Rightarrow> entry \<Rightarrow> string \<Rightarrow> database \<Rightarrow> 'g \<Rightarrow> bool" where
  "serves contents key img d g \<longleftrightarrow> (\<exists>row \<in> set (db_thumbs d). thumb_key row = entry_key key \<and>
     \<not> withdrawn row \<and> contents g (th_object_key row) = Some img)"

context object_store
begin

lemma publish_calm:
  assumes run: "publish \<lparr>ob_get = get, ob_put = put\<rparr> key img w g = (r, w', g')" and calm: "calm w"
    and ok: "db_ok (w_db w) (w_seqs w)" and sound: "cache_sound contents (w_db w) g"
    and e: "entry_ok (w_db w) key" and v: "vacant key (w_db w)"
  shows "calm w' \<and> cache_sound contents (w_db w') g' \<and> (\<exists>rows. w_db w' = put_thumbs (w_db w) rows) \<and>
    (\<forall>x. r = Inr x \<longrightarrow> x = img \<and> serves contents key img (w_db w') g')"
proof -
  obtain p g1 where stored: "put (objectKey key) img (if_mediaType (en_format key)) g = (p, g1)" by fastforce
  have "contents g1 = contents g \<or> contents g1 = (contents g)(objectKey key := Some img)"
    using put_done put_failed stored by (cases p) blast+
  from cache_sound_object [OF sound ok e v this] have s1: "cache_sound contents (w_db w) g1" .
  have same: "\<exists>rows. w_db w = put_thumbs (w_db w) rows" by (metis put_thumbs_simps(3))
  show ?thesis
  proof (cases p)
    case (Some x)
    with run stored have "r = Inl CodeUnavailable" "w' = w" "g' = g1" by (auto simp: publish_def)
    with calm s1 same show ?thesis by simp
  next
    case None
    obtain r1 w1 where up: "stmt (publish_row key img) w = (r1, w1)" by fastforce
    note c = stmt_calm_cases [OF calm up]
    have eqs: "w' = w1" "g' = g1" "r = (case r1 of Inl _ \<Rightarrow> Inl CodeUnavailable | Inr _ \<Rightarrow> Inr img)"
      using run stored None up by (auto simp: publish_def split: sum.splits)
    have body: "contents g1 (objectKey key) = Some img" using put_done stored None by simp
    from c(3) have "w_db w1 = w_db w \<and> (\<exists>e. r1 = Inl e) \<or> (\<exists>row rows. r1 = Inr row \<and>
        w_db w1 = put_thumbs (w_db w) rows \<and>
        published (entry_key key) (objectKey key) (int (length img)) (db_thumbs (w_db w)) rows)"
      using upsert_effect [OF _ entry_key_def] unfolding publish_row_def by blast
    then consider "w_db w1 = w_db w" "\<exists>e. r1 = Inl e" | row rows where "r1 = Inr row"
      "w_db w1 = put_thumbs (w_db w) rows"
      "published (entry_key key) (objectKey key) (int (length img)) (db_thumbs (w_db w)) rows" by blast
    then show ?thesis
    proof cases
      case 1
      with eqs c(1) s1 same show ?thesis by auto
    next
      case 2
      have "serves contents key img (put_thumbs (w_db w) rows) g1"
        using 2(3) body by (auto simp: serves_def published_def)
      with cache_sound_row [OF s1 e 2(3) body] 2(1,2) eqs c(1) show ?thesis by auto
    qed
  qed
qed

end

end
