(* ===== verification/Thumbnail_Correct.thy ===== *)
theory Thumbnail_Correct
  imports Thumbnail_Effects
begin

text \<open>
  The thumbnail handler as a whole: it keeps the cache sound, what it answers is the object of
  the entry's live row, and what it rendered once it serves from then on.
\<close>

section \<open>The checks before the cache\<close>

lemma hbind_step:
  "hbind h f w = (r, w') \<Longrightarrow>
     (\<exists>c. r = Inl c \<and> h w = (Inl c, w')) \<or> (\<exists>x w1. h w = (Inr x, w1) \<and> f x w1 = (r, w'))"
  by (auto simp: hbind_def split: prod.splits sum.splits)

text \<open>Code that only reads: calm stays calm, the database stays as it is.\<close>

definition reads_only :: "'a handler \<Rightarrow> bool" where
  "reads_only h \<longleftrightarrow> (\<forall>w r w'. h w = (r, w') \<longrightarrow>
     (calm w \<longrightarrow> calm w' \<and> w_db w' = w_db w \<and> w_clock w' = w_clock w) \<and> (holds db_ok w \<longrightarrow> holds db_ok w'))"

lemma reads_onlyD:
  assumes "reads_only h" "h w = (r, w')"
  shows "calm w \<Longrightarrow> calm w'" "calm w \<Longrightarrow> w_db w' = w_db w" "holds db_ok w \<Longrightarrow> holds db_ok w'"
  using assms unfolding reads_only_def by blast+

lemma reads_only_hret [keeps_intros]: "reads_only (hret x)"
  by (auto simp: reads_only_def hret_def)

lemma reads_only_hfail [keeps_intros]: "reads_only (hfail c)"
  by (auto simp: reads_only_def hfail_def)

lemma reads_only_hlift [keeps_intros]: "reads_only (hlift x)"
  by (auto simp: reads_only_def hlift_def)

lemma reads_only_hbind [keeps_intros]:
  assumes h: "reads_only h" and f: "\<And>x. reads_only (f x)"
  shows "reads_only (hbind h f)"
  unfolding reads_only_def
proof (intro allI impI)
  fix w r w' assume run: "hbind h f w = (r, w')"
  from hbind_step [OF run]
  show "(calm w \<longrightarrow> calm w' \<and> w_db w' = w_db w \<and> w_clock w' = w_clock w) \<and> (holds db_ok w \<longrightarrow> holds db_ok w')"
  proof (elim disjE exE conjE)
    fix c assume "h w = (Inl c, w')"
    with h show ?thesis unfolding reads_only_def by blast
  next
    fix x w1 assume "h w = (Inr x, w1)" "f x w1 = (r, w')"
    with h f [of x] show ?thesis unfolding reads_only_def by metis
  qed
qed

lemma reads_only_select:
  assumes "stmt (select f) w = (r, w')"
  shows "(calm w \<longrightarrow> calm w' \<and> w_db w' = w_db w \<and> w_clock w' = w_clock w) \<and> (holds db_ok w \<longrightarrow> holds db_ok w')"
  using stmt_calm_select(1-3) [OF _ assms] select_holds [OF _ assms] by blast

lemma reads_only_loadDocument [keeps_intros]: "reads_only (loadDocument i)"
  unfolding reads_only_def loadDocument_def q_GetDocument_def
  using reads_only_select by (fastforce split: option.splits prod.splits sum.splits)

lemma reads_only_sourcePath [keeps_intros]: "reads_only (sourcePath row)"
  unfolding reads_only_def sourcePath_def q_FindDocumentSourcePath_def
  using reads_only_select by (fastforce split: option.splits prod.splits sum.splits)

lemma reads_only_resolveRef [keeps_intros]: "reads_only (resolveRef r)"
  unfolding resolveRef_def by (auto intro: keeps_intros)

lemma reads_only_thumbnail_prelude: "reads_only (thumbnail_prelude env req)"
  unfolding thumbnail_prelude_def by (intro keeps_intros)

text \<open>The row a reference resolves to is that of a live document with a current version.\<close>

lemma resolveRef_entry:
  assumes "resolveRef r w = (Inr row, w')" "calm w"
  shows "\<exists>c \<in> set (db_cvs (w_db w)). gd_current_cv row = Some (cv_id c) \<and>
    gd_content_hash row = Some (cv_content_hash c) \<and> cv_content_hash c = ref_content_version_id r"
proof -
  from resolveRef_Inr(1) [OF assms(1)] obtain i where "stmt (q_GetDocument i) w = (Inr row, w')" by blast
  from stmt_calm_select(4) [OF assms(2) this [unfolded q_GetDocument_def] refl]
  obtain r0 m where row: "row = detail_row (w_db w) r0 m" by (auto split: option.splits)
  with resolveRef_Inr(2) [OF assms(1)] show ?thesis
    by (auto simp: detail_row_def version_row_def split: option.splits dest!: find_SomeD)
qed

lemma thumbnail_prelude_entry:
  assumes "thumbnail_prelude env req w = (Inr (row, format), w')" "calm w"
  shows "entry_ok (w_db w) (entry_of req row format)"
proof -
  from assms(1) obtain w1 where "resolveRef (tq_ref req) w = (Inr row, w1)"
    by (auto simp: thumbnail_prelude_def h_inv)
  from resolveRef_entry [OF this assms(2)] show ?thesis
    by (auto simp: entry_ok_def entry_of_def)
qed

section \<open>The handler's steps\<close>

definition sound_world :: "('g \<Rightarrow> string \<Rightarrow> string option) \<Rightarrow> world \<Rightarrow> 'g \<Rightarrow> bool" where
  "sound_world contents w g \<longleftrightarrow> calm w \<and> holds db_ok w \<and> cache_sound contents (w_db w) g"

lemma touches_keys: "touches d d' \<Longrightarrow> entry_ok d' key = entry_ok d key"
  by (auto simp: touches_def entry_ok_def)

lemma fromCache_holds:
  assumes "fromCache ob key w g = (r, w', g')" "holds db_ok w"
  shows "holds db_ok w'"
proof -
  obtain r1 w1 where find: "stmt (entry_row key) w = (r1, w1)" by fastforce
  have w1: "holds db_ok w1" by (rule select_holds [OF assms(2) find [unfolded entry_row_select]])
  with assms(1) find stmt_holds [OF ok_TouchThumbnail w1] show ?thesis
    by (auto simp: fromCache_def split: sum.splits if_splits prod.splits)
qed

lemma publish_holds:
  assumes "publish ob key img w g = (r, w', g')" "holds db_ok w"
  shows "holds db_ok w'"
  using assms stmt_holds [OF ok_UpsertThumbnail assms(2)]
  by (auto simp: publish_def publish_row_def split: option.splits sum.splits prod.splits)

context object_store
begin

abbreviation store :: "'g objects" where "store \<equiv> \<lparr>ob_get = get, ob_put = put\<rparr>"

lemma fromCache_sound:
  assumes run: "fromCache store key w g = (r, w', g')" and w: "sound_world contents w g"
  shows "sound_world contents w' g' \<and> touches (w_db w) (w_db w') \<and> contents g' = contents g \<and>
    (r = Inr None \<longrightarrow> vacant key (w_db w')) \<and>
    (\<forall>img. r = Inr (Some img) \<longrightarrow> serves contents key img (w_db w') g')"
proof -
  from w have calm: "calm w" and h: "holds db_ok w" and s: "cache_sound contents (w_db w) g"
    by (simp_all add: sound_world_def)
  have "distinct (map thumb_key (db_thumbs (w_db w)))"
    using holds_db [OF h] by (simp add: db_ok_def thumbs_ok_def)
  note f = fromCache_calm [OF run calm this]
  have sound: "cache_sound contents (w_db w') g'"
    using s f cache_sound_touches [of "w_db w" "w_db w'" contents g] by (auto simp: cache_sound_def accounted_def)
  have miss: "vacant key (w_db w')" if "r = Inr None"
    using vacant_miss [OF s] f that by auto
  have hit: "serves contents key img (w_db w') g'" if r: "r = Inr (Some img)" for img
  proof -
    have "serves contents key img (w_db w) g"
      using f [THEN conjunct2, THEN conjunct2, THEN conjunct2, THEN conjunct2] r
      by (simp add: answers_def serves_def)
    moreover have "touches (w_db w) (w_db w')" "contents g' = contents g" using f by simp_all
    ultimately show ?thesis by (auto simp: touches_def serves_def)
  qed
  from f sound miss hit fromCache_holds [OF run h] show ?thesis by (simp add: sound_world_def)
qed

lemma render_sound:
  assumes run: "render store env row key w g = (r, w', g')" and w: "sound_world contents w g"
    and e: "entry_ok (w_db w) key" and v: "vacant key (w_db w)"
  shows "sound_world contents w' g' \<and> (\<exists>rows. w_db w' = put_thumbs (w_db w) rows) \<and>
    (\<forall>img. r = Inr img \<longrightarrow> serves contents key img (w_db w') g')"
proof -
  obtain s w1 where src: "sourcePath row w = (s, w1)" by fastforce
  note ro = reads_onlyD [OF reads_only_sourcePath src]
  have w1: "sound_world contents w1 g" "w_db w1 = w_db w"
    using w ro by (simp_all add: sound_world_def)
  have same: "\<exists>rows. w_db w1 = put_thumbs (w_db w) rows" "\<exists>rows. w_db w = put_thumbs (w_db w) rows"
    using w1(2) by (metis put_thumbs_simps(3))+
  consider "w' = w" "g' = g" "\<exists>c. r = Inl c" | "w' = w1" "g' = g" "\<exists>c. r = Inl c"
    | img where "publish store key img w1 g = (r, w', g')"
    using run src
    by (auto simp: render_def eq_commute [of "Inl _" "render_bytes _ _ _"] split: option.splits sum.splits)
  then show ?thesis
  proof cases
    case 3
    from w1 have s1: "calm w1" "holds db_ok w1" "cache_sound contents (w_db w1) g"
      by (simp_all add: sound_world_def)
    note p = publish_calm [OF 3 s1(1) holds_db [OF s1(2)] s1(3), unfolded w1(2), OF e v]
    with publish_holds [OF 3 s1(2)] show ?thesis by (auto simp: sound_world_def)
  qed (use w w1 same in auto)
qed

text \<open>A step changes nothing but the accounting rows.\<close>

lemma touches_rows: "touches d d' \<Longrightarrow> \<exists>rows. d' = put_thumbs d rows"
  unfolding touches_def by (metis put_thumbs_simps(3))

lemma rows_trans: "\<exists>rows. d1 = put_thumbs d rows \<Longrightarrow> \<exists>rows. d2 = put_thumbs d1 rows \<Longrightarrow> \<exists>rows. d2 = put_thumbs d rows"
  by (auto simp: put_thumbs_def)

lemma load_sound:
  assumes run: "load store env row key w g = (r, w', g')" and w: "sound_world contents w g"
    and e: "entry_ok (w_db w) key"
  shows "sound_world contents w' g' \<and> (\<exists>rows. w_db w' = put_thumbs (w_db w) rows) \<and>
    (\<forall>img. r = Inr img \<longrightarrow> serves contents key img (w_db w') g')"
proof -
  obtain r1 w1 g1 where first: "fromCache store key w g = (r1, w1, g1)" by (metis prod_cases3)
  note f1 = fromCache_sound [OF first w]
  have e1: "entry_ok (w_db w1) key" using e f1 touches_keys by blast
  have t1: "\<exists>rows. w_db w1 = put_thumbs (w_db w) rows" using f1 touches_rows by blast
  consider c where "r1 = Inl c" | img where "r1 = Inr (Some img)" | "r1 = Inr None"
    by (cases r1) (auto split: option.splits)
  then show ?thesis
  proof cases
    case 3
    with run first have flight: "flight store env row key w1 g1 = (r, w', g')" by (simp add: load_def)
    obtain r2 w2 g2 where second: "fromCache store key w1 g1 = (r2, w2, g2)" by (metis prod_cases3)
    note f2 = fromCache_sound [OF second f1 [THEN conjunct1]]
    have e2: "entry_ok (w_db w2) key" using e1 f2 touches_keys by blast
    have t2: "\<exists>rows. w_db w2 = put_thumbs (w_db w) rows" using f2 touches_rows rows_trans [OF t1] by blast
    consider c where "r2 = Inl c" | img where "r2 = Inr (Some img)" | "r2 = Inr None"
      by (cases r2) (auto split: option.splits)
    then show ?thesis
    proof cases
      case 3
      with flight second have "render store env row key w2 g2 = (r, w', g')" by (simp add: flight_def)
      note rs = render_sound [OF this f2 [THEN conjunct1] e2]
      from rs f2 3 rows_trans [OF t2] show ?thesis by blast
    qed (use flight second f2 t2 in \<open>auto simp: flight_def\<close>)
  qed (use run first f1 t1 in \<open>auto simp: load_def\<close>)
qed

text \<open>An answer names a live document's current version and is the entry's object.\<close>

lemma GetThumbnail_sound:
  assumes run: "GetThumbnail store env req w g = (r, w', g')" and w: "sound_world contents w g"
  shows "sound_world contents w' g'" "\<exists>rows. w_db w' = put_thumbs (w_db w) rows"
    and "r = Inr resp \<Longrightarrow> \<exists>row format w1. thumbnail_prelude env req w = (Inr (row, format), w1) \<and>
      resp = thumbnail_response req row format (tr_image resp) \<and>
      serves contents (entry_of req row format) (tr_image resp) (w_db w') g'"
proof -
  obtain p w1 where pre: "thumbnail_prelude env req w = (p, w1)" by fastforce
  note ro = reads_onlyD [OF reads_only_thumbnail_prelude pre]
  have w1: "sound_world contents w1 g" "w_db w1 = w_db w"
    using w ro by (simp_all add: sound_world_def)
  have same: "\<exists>rows. w_db w1 = put_thumbs (w_db w) rows" using w1(2) by (metis put_thumbs_simps(3))
  have "sound_world contents w' g' \<and> (\<exists>rows. w_db w' = put_thumbs (w_db w) rows) \<and> (\<forall>resp. r = Inr resp \<longrightarrow> (\<exists>row format w1.
      thumbnail_prelude env req w = (Inr (row, format), w1) \<and>
      resp = thumbnail_response req row format (tr_image resp) \<and>
      serves contents (entry_of req row format) (tr_image resp) (w_db w') g'))"
  proof (cases p)
    case (Inl c)
    with run pre w1 same show ?thesis by (auto simp: GetThumbnail_def)
  next
    case (Inr x)
    obtain row format where x: "x = (row, format)" by (cases x)
    have e: "entry_ok (w_db w1) (entry_of req row format)"
      using thumbnail_prelude_entry pre Inr x w w1(2) by (metis sound_world_def)
    obtain r2 w2 g2 where load: "load store env row (entry_of req row format) w1 g = (r2, w2, g2)"
      by (metis prod_cases3)
    note l = load_sound [OF load w1(1) e]
    from run pre Inr x load l w1(2) show ?thesis
      by (cases r2) (auto simp: GetThumbnail_def thumbnail_response_def)
  qed
  then show "sound_world contents w' g'" "\<exists>rows. w_db w' = put_thumbs (w_db w) rows"
    "r = Inr resp \<Longrightarrow> \<exists>row format w1. thumbnail_prelude env req w = (Inr (row, format), w1) \<and>
      resp = thumbnail_response req row format (tr_image resp) \<and>
      serves contents (entry_of req row format) (tr_image resp) (w_db w') g'" by blast+
qed

end

section \<open>What was answered is served again\<close>

text \<open>The checks read nothing of the cache: what passed them passes again.\<close>

lemma q_GetDocument_thumbs:
  "fst (q_GetDocument i (put_thumbs d rows) q) = fst (q_GetDocument i d q')"
  by (simp add: q_GetDocument_def select_def put_thumbs_def detail_row_def version_row_def extraction_of_def
      split: option.splits)

lemma resolveRef_again:
  assumes run: "resolveRef r w = (Inr row, w1)" and calm: "calm w"
    and v: "quiet v" "w_db v = put_thumbs (w_db w) rows"
  shows "\<exists>v1. resolveRef r v = (Inr row, v1) \<and> quiet v1 \<and> w_db v1 = w_db v"
proof -
  from resolveRef_Inr(1) [OF run] obtain i where i: "ParseInt (ref_document_id r) = Some i"
    and get: "stmt (q_GetDocument i) w = (Inr row, w1)" by blast
  have "fst (q_GetDocument i (w_db w) (w_seqs w)) = Inr row"
    using stmt_calm(1) [OF get calm] by simp
  then have "fst (q_GetDocument i (w_db v) (w_seqs v)) = Inr row"
    using q_GetDocument_thumbs v(2) by metis
  then obtain v1 where "stmt (q_GetDocument i) v = (Inr row, v1)" "quiet v1" "w_db v1 = w_db v"
    using v(1) by (auto simp: stmt_quiet exec_sql_def q_GetDocument_def select_def quiet_def)
  with run i resolveRef_Inr(2,3) [OF run] show ?thesis
    by (auto simp: resolveRef_def hbind_def hfail_def hlift_def loadDocument_def current_content_def
        split: if_splits)
qed

lemma thumbnail_prelude_again:
  assumes run: "thumbnail_prelude env req w = (Inr (row, format), w1)" and calm: "calm w"
    and v: "quiet v" "w_db v = put_thumbs (w_db w) rows" and "re_decode env' = re_decode env"
  shows "\<exists>v1. thumbnail_prelude env' req v = (Inr (row, format), v1) \<and> quiet v1 \<and> w_db v1 = w_db v"
proof -
  from run have "resolveRef (tq_ref req) w = (Inr row, w1)"
    by (auto simp: thumbnail_prelude_def h_inv)
  from resolveRef_again [OF this calm v] run assms(5) show ?thesis
    by (auto simp: thumbnail_prelude_def h_inv)
qed

context object_store
begin

lemma fromCache_serves:
  assumes s: "serves contents key img (w_db w) g" and q: "quiet w"
    and ok: "distinct (map thumb_key (db_thumbs (w_db w)))"
    and up: "\<And>k. contents g k \<noteq> None \<Longrightarrow> \<exists>body g1. get k g = (Inr body, g1)"
  shows "\<exists>w' g'. fromCache store key w g = (Inr (Some img), w', g')"
proof -
  from s obtain row where row: "row \<in> set (db_thumbs (w_db w))" "thumb_key row = entry_key key"
    "\<not> withdrawn row" "contents g (th_object_key row) = Some img" unfolding serves_def by blast
  have "List.find (\<lambda>r. thumb_key r = entry_key key \<and> \<not> withdrawn r) (db_thumbs (w_db w)) = Some row"
  proof (cases "List.find (\<lambda>r. thumb_key r = entry_key key \<and> \<not> withdrawn r) (db_thumbs (w_db w))")
    case None
    with row show ?thesis by (auto simp: find_None_set)
  next
    case (Some r)
    with find_SomeD [OF Some] row distinct_map_inj [OF ok, of r row] show ?thesis by auto
  qed
  then obtain w1 where find: "stmt (entry_row key) w = (Inr row, w1)"
    using q by (auto simp: entry_row_select stmt_quiet exec_sql_def select_def row_or_none_def)
  obtain body g1 where got: "get (th_object_key row) g = (Inr body, g1)" using up row(4) by fastforce
  then have "body = img" using get_body row(4) by fastforce
  with find got show ?thesis by (auto simp: fromCache_def split: prod.splits)
qed

end

text \<open>
  C7: A thumbnail that was answered, from the cache or from a render, is in the cache: asked
  for again, with the database undisturbed and the object store answering reads, it is
  answered identically, whatever the renderer would do and with no render slot free.
\<close>

theorem thumbnail_served_again:
  assumes "object_store del contents get put"
    and run: "GetThumbnail \<lparr>ob_get = get, ob_put = put\<rparr> env req w g = (Inr resp, w', g')"
    and w: "sound_world contents w g"
    and up: "\<And>k. contents g' k \<noteq> None \<Longrightarrow> \<exists>body g1. get k g' = (Inr body, g1)"
    and env: "re_decode env' = re_decode env"
  shows "fst (GetThumbnail \<lparr>ob_get = get, ob_put = put\<rparr> env' req (w'\<lparr>w_script := []\<rparr>) g') = Inr resp"
proof -
  note sound = object_store.GetThumbnail_sound [OF assms(1) run w]
  from sound(3) obtain row format w1 where pre: "thumbnail_prelude env req w = (Inr (row, format), w1)"
    and resp: "resp = thumbnail_response req row format (tr_image resp)"
    and s: "serves contents (entry_of req row format) (tr_image resp) (w_db w') g'" by blast
  let ?v = "w'\<lparr>w_script := []\<rparr>"
  obtain rows where rows: "w_db ?v = put_thumbs (w_db w) rows" using sound(2) by auto
  have "calm w" using w by (simp add: sound_world_def)
  from thumbnail_prelude_again [OF pre this _ rows env]
  obtain v1 where v1: "thumbnail_prelude env' req ?v = (Inr (row, format), v1)" "quiet v1" "w_db v1 = w_db w'"
    by auto
  have "db_ok (w_db w') (w_seqs w')" using sound(1) holds_db by (auto simp: sound_world_def)
  then have "distinct (map thumb_key (db_thumbs (w_db v1)))" by (simp add: v1(3) db_ok_def thumbs_ok_def)
  from object_store.fromCache_serves [OF assms(1) _ v1(2) this up, unfolded v1(3), OF s]
  obtain v2 g2 where "fromCache \<lparr>ob_get = get, ob_put = put\<rparr> (entry_of req row format) v1 g' =
    (Inr (Some (tr_image resp)), v2, g2)" by blast
  with v1(1) resp show ?thesis by (simp add: GetThumbnail_def load_def)
qed

definition empty_bucket :: bucket where "empty_bucket = \<lparr>bk_objects = (\<lambda>_. None), bk_refusals = []\<rparr>"

definition reference_objects :: "bucket objects" where
  "reference_objects = \<lparr>ob_get = Store_Get reference_gateway reference_store,
     ob_put = Store_Put reference_gateway reference_store\<rparr>"

definition sample_thumbnail_request :: GetThumbnailRequest where
  "sample_thumbnail_request = \<lparr>tq_ref = \<lparr>ref_document_id = ''1'', ref_content_version_id = ''aa''\<rparr>,
     tq_page = 1, tq_format = IMAGE_FORMAT_UNSPECIFIED,
     tq_max_size = Some \<lparr>is_width = 100, is_height = 64\<rparr>\<rparr>"

definition no_renderer :: render_env where
  "no_renderer = sample_render_env\<lparr>re_configured := False, re_slot := False\<rparr>"

lemma sample_sound: "sound_world bk_objects (sample_world []) empty_bucket"
  using sample_holds [of "[]"]
  by (simp add: sound_world_def cache_sound_def slashless_def accounted_def sample_db_def sample_cv_def)

lemma thumbnail_served_again_witness:
  "let run = GetThumbnail reference_objects sample_render_env sample_thumbnail_request (sample_world []) empty_bucket
   in map_option tr_image (case fst run of Inl _ \<Rightarrow> None | Inr resp \<Rightarrow> Some resp) = Some ''ABC'' \<and>
      fst (GetThumbnail reference_objects no_renderer sample_thumbnail_request
        ((fst (snd run))\<lparr>w_script := []\<rparr>) (snd (snd run))) = fst run"
proof -
  let ?run = "GetThumbnail reference_objects sample_render_env sample_thumbnail_request (sample_world []) empty_bucket"
  have e: "map_option tr_image (case fst ?run of Inl _ \<Rightarrow> None | Inr resp \<Rightarrow> Some resp) = Some ''ABC'' \<and>
      bk_refusals (snd (snd ?run)) = []" by code_simp
  then obtain resp w' g' where run: "?run = (Inr resp, w', g')" by (cases ?run) (auto split: sum.splits)
  with e have g': "bk_refusals g' = []" by simp
  have "\<exists>body g1. Store_Get reference_gateway reference_store k g' = (Inr body, g1)" if "bk_objects g' k \<noteq> None" for k
    using that g'
    by (auto simp: Store_Get_def reference_gateway_def reference_store_def refuses_def)
  from thumbnail_served_again [OF ref.object_store_axioms run [unfolded reference_objects_def] sample_sound this,
      of no_renderer, folded reference_objects_def] e run
  show ?thesis by (simp add: Let_def no_renderer_def)
qed

section \<open>References that no longer hold\<close>

definition stale_for :: "database \<Rightarrow> DocumentRef \<Rightarrow> doc_row \<Rightarrow> bool" where
  "stale_for d rf r \<longleftrightarrow> d_deleted_at r \<noteq> None \<or>
     map_option cv_content_hash (version_row d r) \<noteq> Some (ref_content_version_id rf)"

lemma resolveRef_stale:
  assumes q: "quiet w" and ok: "db_ok (w_db w) (w_seqs w)" and r: "r \<in> set (db_docs (w_db w))"
    and i: "ParseInt (ref_document_id rf) = Some (d_id r)" "ref_content_version_id rf \<noteq> []"
    and stale: "stale_for (w_db w) rf r"
  shows "\<exists>w'. resolveRef rf w = (Inl CodeFailedPrecondition, w') \<and> w_db w' = w_db w"
proof -
  let ?d = "w_db w"
  have "distinct (map d_id (db_docs ?d))" using ok by (simp add: db_ok_def docs_ok_def ids_ok_def)
  from find_unique_key [OF this r] have doc: "List.find (\<lambda>s. d_id s = d_id r) (db_docs ?d) = Some r" .
  have "d_mountpoint_id r \<in> m_id ` set (db_mountpoints ?d)" using ok r by (simp add: db_ok_def docs_ok_def)
  then obtain m where mp: "List.find (\<lambda>m. m_id m = d_mountpoint_id r) (db_mountpoints ?d) = Some m"
    by (cases "List.find (\<lambda>m. m_id m = d_mountpoint_id r) (db_mountpoints ?d)") (auto simp: find_None_set)
  from doc mp q obtain w1 where get: "stmt (q_GetDocument (d_id r)) w = (Inr (detail_row ?d r m), w1)" "w_db w1 = ?d"
    by (auto simp: stmt_quiet exec_sql_def q_GetDocument_def select_def)
  have "current_content rf (detail_row ?d r m) = Inl CodeFailedPrecondition"
    using stale by (auto simp: current_content_def detail_row_def stale_for_def split: option.splits)
  moreover have "ref_document_id rf \<noteq> []" using i(1) by (auto simp: ParseInt_def parse_digits_def has_prefix_def)
  ultimately show ?thesis
    using get i by (simp add: resolveRef_def hbind_def hlift_def loadDocument_def)
qed

text \<open>
  C34: A reference to a document that is deleted, has no content yet, or has moved on to other
  content is refused as a failed precondition by both services: nothing is rendered, read from
  the cache or sent, even when an image of the old content is still cached.
\<close>

theorem stale_reference_refused:
  assumes "quiet w" "db_ok (w_db w) (w_seqs w)" "r \<in> set (db_docs (w_db w))"
    and "ParseInt (ref_document_id rf) = Some (d_id r)" "ref_content_version_id rf \<noteq> []"
    and "stale_for (w_db w) rf r" "tq_ref treq = rf" "rp_ref rreq = rf"
  shows "\<exists>w'. GetThumbnail ob env treq w g = (Inl CodeFailedPrecondition, w', g) \<and>
    RenderPage env rreq w s = (Some CodeFailedPrecondition, s, w') \<and> w_db w' = w_db w"
proof -
  from resolveRef_stale [OF assms(1-6)] obtain w' where
    "resolveRef rf w = (Inl CodeFailedPrecondition, w')" "w_db w' = w_db w" by blast
  with assms(7,8) show ?thesis
    by (simp add: GetThumbnail_def thumbnail_prelude_def RenderPage_def render_prelude_def hbind_def)
qed

lemma stale_reference_refused_witness:
  "let rf = \<lparr>ref_document_id = ''1'', ref_content_version_id = ''bb''\<rparr> in
   fst (RenderPage sample_render_env (sample_render_request\<lparr>rp_ref := rf\<rparr>) (sample_world []) \<lparr>rs_answers = [], rs_frames = []\<rparr>) =
     Some CodeFailedPrecondition \<and>
   fst (GetThumbnail reference_objects sample_render_env (sample_thumbnail_request\<lparr>tq_ref := rf\<rparr>)
     (sample_world []) empty_bucket) = Inl CodeFailedPrecondition"
proof -
  let ?rf = "\<lparr>ref_document_id = ''1'', ref_content_version_id = ''bb''\<rparr>"
  have "ParseInt ''1'' = Some 1" by code_simp
  then have "\<exists>w'. GetThumbnail reference_objects sample_render_env (sample_thumbnail_request\<lparr>tq_ref := ?rf\<rparr>)
      (sample_world []) empty_bucket = (Inl CodeFailedPrecondition, w', empty_bucket) \<and>
    RenderPage sample_render_env (sample_render_request\<lparr>rp_ref := ?rf\<rparr>) (sample_world []) \<lparr>rs_answers = [], rs_frames = []\<rparr> =
      (Some CodeFailedPrecondition, \<lparr>rs_answers = [], rs_frames = []\<rparr>, w') \<and> w_db w' = w_db (sample_world [])"
    by (intro stale_reference_refused [where r = "sample_doc 1 ''/d/a.pdf'' 11 (Some 1)" and rf = ?rf])
      (use sample_db_ok in \<open>simp_all add: stale_for_def version_row_def sample_db_def sample_doc_def sample_cv_def\<close>)
  then show ?thesis by (auto simp: Let_def)
qed

section \<open>Publishing never collides\<close>

text \<open>
  In a sound cache the accounting row of an entry of an existing content version can
  always be written: the object key an entry computes is that of no other entry's row, so the
  unique object key refuses nothing, and the row that results is live, under the entry's key.
\<close>

theorem entry_row_published:
  assumes ok: "db_ok d q" and sound: "cache_sound contents d g" and e: "entry_ok d key"
  shows "\<exists>row d' q'. publish_row key img d q = (Inr row, d', q') \<and> row \<in> set (db_thumbs d') \<and>
    \<not> withdrawn row \<and> thumb_key row = entry_key key \<and> th_object_key row = objectKey key \<and> db_ok d' q'"
proof -
  have free: "objectKey key \<notin> th_object_key ` set (filter (\<lambda>r. thumb_key r \<noteq> entry_key key) (db_thumbs d))"
  proof
    assume "objectKey key \<in> th_object_key ` set (filter (\<lambda>r. thumb_key r \<noteq> entry_key key) (db_thumbs d))"
    then obtain s where "s \<in> set (db_thumbs d)" "thumb_key s \<noteq> entry_key key" "th_object_key s = objectKey key" by auto
    with keyed_row_entry [OF ok _ _ e] sound show False by (auto simp: cache_sound_def)
  qed
  have cv: "en_contentVersionID key \<in> cv_id ` set (db_cvs d)" using e unfolding entry_ok_def by (metis image_eqI)
  obtain r d' q' where run: "publish_row key img d q = (r, d', q')" by (metis prod_cases3)
  have "\<exists>row. r = Inr row \<and> row \<in> set (db_thumbs d') \<and> \<not> withdrawn row \<and>
      thumb_key row = entry_key key \<and> th_object_key row = objectKey key"
  proof (cases "List.find (\<lambda>r. thumb_key r = entry_key key) (db_thumbs d)")
    case None
    with run free cv show ?thesis
      by (auto simp: publish_row_def q_UpsertThumbnail_def Let_def entry_key_def withdrawn_def thumb_key_def)
  next
    case (Some r0)
    note r0 = find_SomeD [OF Some]
    with run free Some show ?thesis
      by (auto simp: publish_row_def q_UpsertThumbnail_def Let_def entry_key_def withdrawn_def
          republished_def thumb_key_def set_update_where)
  qed
  moreover have "db_ok d' q'"
    using ok_UpsertThumbnail run ok unfolding publish_row_def good_def by (metis fst_conv snd_conv order_refl)
  ultimately show ?thesis using run by blast
qed

definition sample_entry :: entry where
  "sample_entry = \<lparr>en_contentVersionID = 1, en_contentHash = ''aa'', en_page = 1,
     en_bounds = thumbnailBounds None, en_format = snd (imageFormats ! 2)\<rparr>"

lemma entry_row_published_witness:
  "\<exists>row d' q'. publish_row sample_entry ''ABC'' sample_db sample_seqs = (Inr row, d', q') \<and>
     th_object_key row = ''thumbnails/aa/p1/192x192.webp''"
proof -
  have "objectKey sample_entry = ''thumbnails/aa/p1/192x192.webp''" by code_simp
  moreover have "cache_sound bk_objects sample_db empty_bucket"
    using sample_sound by (simp add: sound_world_def)
  moreover have "entry_ok sample_db sample_entry"
    by (simp add: entry_ok_def sample_entry_def sample_db_def sample_cv_def)
  ultimately show ?thesis using entry_row_published [OF sample_db_ok, of bk_objects empty_bucket sample_entry "''ABC''"] by auto
qed

end
