(* ===== verification/Cache_System.thy ===== *)
theory Cache_System
  imports Thumbnail_Correct
begin

text \<open>
  The cache as a system: thumbnail requests, the three cache jobs and the rest of the program
  take turns on one database and one bucket.  Each turn is a whole run of the code, any of
  whose statements may fail and any of whose object-store requests may be refused, with or
  without having taken effect.  Turns do not overlap: what overlap can do is the subject of
  \<open>Cache_Correct.drain_deletes_republished_object\<close>.
\<close>

section \<open>The step relation\<close>

type_synonym 'g cache_state = "database \<times> seqs \<times> 'g"

definition at_state :: "world \<Rightarrow> database \<Rightarrow> seqs \<Rightarrow> bool" where
  "at_state w d q \<longleftrightarrow> calm w \<and> w_db w = d \<and> w_base w = d \<and> w_seqs w = q"

text \<open>
  The rest of the program never writes the accounting, and content versions are never changed
  or deleted: it moves to any other database that meets the schema.
\<close>

inductive cache_step :: "'g deleter \<Rightarrow> 'g objects \<Rightarrow> 'g cache_state \<Rightarrow> 'g cache_state \<Rightarrow> bool"
  for del ob where
  request: "at_state w d q \<Longrightarrow> GetThumbnail ob env req w g = (r, w', g') \<Longrightarrow>
    cache_step del ob (d, q, g) (w_db w', w_seqs w', g')"
| job: "at_state w d q \<Longrightarrow> cache_work ew st pages del args w g = Some (e, w', g') \<Longrightarrow>
    cache_step del ob (d, q, g) (w_db w', w_seqs w', g')"
| elsewhere: "db_ok d' q' \<Longrightarrow> slashless d' \<Longrightarrow> db_thumbs d' = db_thumbs d \<Longrightarrow>
    set (db_cvs d) \<subseteq> set (db_cvs d') \<Longrightarrow> cache_step del ob (d, q, g) (d', q', g)"

inductive_cases cache_stepE: "cache_step del ob s s'"

definition cache_inv :: "('g \<Rightarrow> string \<Rightarrow> string option) \<Rightarrow> 'g cache_state \<Rightarrow> bool" where
  "cache_inv contents s \<longleftrightarrow> (case s of (d, q, g) \<Rightarrow> db_ok d q \<and> cache_sound contents d g)"

section \<open>Each step keeps the cache sound\<close>

lemma at_state_holds: "at_state w d q \<Longrightarrow> db_ok d q \<Longrightarrow> holds db_ok w"
  by (simp add: at_state_def holds_def calm_rely)

lemma keyed_row_withdraw [simp]: "keyed_row d (withdraw t r) = keyed_row d r"
  by (simp add: keyed_row_def withdraw_def)

lemma keyed_row_put [simp]: "keyed_row (put_thumbs d rows) r = keyed_row d r"
  by (simp add: keyed_row_def)

lemma slashless_put [simp]: "slashless (put_thumbs d rows) = slashless d"
  by (simp add: slashless_def)

lemma cache_sound_mark: "cache_sound contents d g \<Longrightarrow> cache_sound contents (mark_where P d) g"
  by (auto simp: cache_sound_def accounted_def mark_where_eq set_update_where)

lemma cache_sound_removal:
  assumes s: "cache_sound contents d g" and rem: "removal contents d g d' g'" and ok: "db_ok d q"
  shows "cache_sound contents d' g'"
proof -
  from rem obtain P where d': "d' = put_thumbs d (filter P (db_thumbs d))"
    and keys: "\<And>k. contents g' k = contents g k \<or> contents g' k = None \<and> k \<in> withdrawn_keys (db_thumbs d)"
    unfolding removal_def by blast
  have "th_object_key r \<notin> withdrawn_keys (db_thumbs d)" if "r \<in> set (db_thumbs d)" "\<not> withdrawn r" for r
    using ok that distinct_map_inj [of th_object_key "db_thumbs d" r]
    by (auto simp: db_ok_def thumbs_ok_def withdrawn_keys_def)
  then have "contents g' (th_object_key r) = contents g (th_object_key r)"
    if "r \<in> set (db_thumbs d)" "\<not> withdrawn r" for r
    using keys that by metis
  with s d' show ?thesis by (auto simp: cache_sound_def accounted_def)
qed

lemma cache_sound_drain:
  assumes del: "object_deleter del contents" and run: "drainPending del w g = (res, w', g')"
    and calm: "calm w" and ok: "db_ok (w_db w) q" and s: "cache_sound contents (w_db w) g"
  shows "calm w' \<and> cache_sound contents (w_db w') g'"
proof -
  have "distinct (map th_id (db_thumbs (w_db w)))" using ok by (simp add: db_ok_def thumbs_ok_def ids_ok_def)
  from object_deleter.drain_removal [OF del run calm this] cache_sound_removal [OF s _ ok]
  show ?thesis by blast
qed

lemma marking_sound:
  assumes "calm w" "stmt (marking P) w = (r, w')" "db_ok (w_db w) q" "cache_sound contents (w_db w) g"
  shows "calm w' \<and> db_ok (w_db w') q \<and> cache_sound contents (w_db w') g"
  using marking_calm [OF assms(1,2)] assms(3,4) db_ok_mark cache_sound_mark by metis

lemma invalidate_sound:
  assumes del: "object_deleter del contents" and run: "InvalidateThumbnails_Work del v w g = (e, w', g')"
    and calm: "calm w" and ok: "db_ok (w_db w) q" and s: "cache_sound contents (w_db w) g"
  shows "cache_sound contents (w_db w') g'"
proof -
  obtain r1 w1 where mark: "stmt (q_MarkThumbnailsPendingDeleteForStaleContentVersion v) w = (r1, w1)" by fastforce
  note s1 = marking_sound [OF calm mark [unfolded q_MarkThumbnailsPendingDeleteForStaleContentVersion_def] ok s]
  obtain n b e1 w2 g2 where drain: "drainPending del w1 g = ((n, b, e1), w2, g2)" by (metis prod.exhaust)
  from cache_sound_drain [OF del drain s1 [THEN conjunct1] s1 [THEN conjunct2, THEN conjunct1] s1 [THEN conjunct2, THEN conjunct2]] s1 run mark drain
  show ?thesis by (auto simp: InvalidateThumbnails_Work_def split: sum.splits)
qed

lemma evict_sound:
  assumes del: "object_deleter del contents" and run: "Eviction_Work ew del w g = (e, w', g')"
    and calm: "calm w" and ok: "db_ok (w_db w) q" and s: "cache_sound contents (w_db w) g"
  shows "cache_sound contents (w_db w') g'"
proof -
  have ids: "distinct (map th_id (db_thumbs (w_db w)))" using ok by (simp add: db_ok_def thumbs_ok_def ids_ok_def)
  show ?thesis
  proof (rule Eviction_Work_steps [OF del run calm ids])
    fix P assume "w_db w' = mark_where P (w_db w)" "g' = g"
    with cache_sound_mark [OF s] show ?thesis by simp
  next
    fix P w2 n b e3 w3
    assume "w_db w2 = mark_where P (w_db w)" "calm w2" "drainPending del w2 g = ((n, b, e3), w3, g')"
      "w_db w' = w_db w3"
    with cache_sound_drain [OF del] cache_sound_mark [OF s] db_ok_mark [OF ok] show ?thesis by metis
  qed
qed

lemma sweep_sound:
  assumes del: "object_deleter del contents" and run: "CacheSweep_Work st pages del w g = (e, w', g')"
    and calm: "calm w" and ok: "db_ok (w_db w) q" and s: "cache_sound contents (w_db w) g"
  shows "cache_sound contents (w_db w') g'"
proof -
  obtain r1 w1 where mark: "stmt q_MarkStaleThumbnailsPendingDelete w = (r1, w1)" by fastforce
  note s1 = marking_sound [OF calm mark [unfolded q_MarkStaleThumbnailsPendingDelete_def] ok s]
  obtain n b e1 w2 g2 where drain: "drainPending del w1 g = ((n, b, e1), w2, g2)" by (metis prod.exhaust)
  note s2 = cache_sound_drain [OF del drain s1 [THEN conjunct1] s1 [THEN conjunct2, THEN conjunct1] s1 [THEN conjunct2, THEN conjunct2]]
  obtain e3 w3 k g3 where orphans: "sweepOrphans st pages del w2 g2 = (e3, w3, k, g3)" by (metis prod_cases4)
  note o = sweepOrphans_calm [OF del s2 [THEN conjunct1] orphans]
  have "contents g3 (th_object_key r) = contents g2 (th_object_key r)" if "r \<in> set (db_thumbs (w_db w2))" for r
    using o(2) [of "th_object_key r"] that by (auto simp: orphaned_def)
  with s2 o(1) have s3: "cache_sound contents (w_db w3) g3" by (auto simp: cache_sound_def accounted_def)
  from s1 s2 s3 run mark drain orphans show ?thesis
    by (cases e1) (auto simp: CacheSweep_Work_def split: sum.splits)
qed

lemma cache_step_inv:
  assumes del: "object_store del contents get put"
    and "cache_step del \<lparr>ob_get = get, ob_put = put\<rparr> s s'" and "cache_inv contents s"
  shows "cache_inv contents s'"
  using assms(2)
proof cases
  case (request w d q env req g r w' g')
  have w: "sound_world contents w g"
    using assms(3) request(1,3) at_state_holds [OF request(3)]
    by (simp add: cache_inv_def sound_world_def at_state_def)
  from object_store.GetThumbnail_sound(1) [OF del request(4) w] request(2) show ?thesis
    by (simp add: cache_inv_def sound_world_def holds_def)
next
  case (job w d q ew st pages args g e w' g')
  note dl = object_store.axioms(1) [OF del]
  from assms(3) job(1,3) have *: "calm w" "db_ok (w_db w) q" "cache_sound contents (w_db w) g" "holds db_ok w"
    using at_state_holds [OF job(3)] by (auto simp: cache_inv_def at_state_def)
  have "holds db_ok w'" by (rule cache_work_holds [OF *(4) job(4)])
  moreover have "cache_sound contents (w_db w') g'"
    using job(4) invalidate_sound [OF dl _ *(1-3)] evict_sound [OF dl _ *(1-3)] sweep_sound [OF dl _ *(1-3)]
    by (auto simp: cache_work_def split: job_args.splits)
  ultimately show ?thesis using job(2) by (simp add: cache_inv_def holds_def)
next
  case (elsewhere d' q' d q g)
  with assms(3) show ?thesis
    by (auto simp: cache_inv_def cache_sound_def accounted_def keyed_row_def) blast
qed

section \<open>Every reachable state\<close>

text \<open>
  C6: Starting from an empty cache, after any sequence of thumbnail requests, cache jobs and
  changes elsewhere, with statements failing and object-store requests refused at will, every
  live accounting row has its object in the bucket and records exactly its size, so the total
  the quota is enforced against is what the live objects take; and the schema holds.
\<close>

theorem cache_stays_accounted:
  assumes "object_store del contents get put"
    and reach: "(cache_step del \<lparr>ob_get = get, ob_put = put\<rparr>)\<^sup>*\<^sup>* (d0, q0, g0) (d, q, g)"
    and "db_ok d0 q0" "slashless d0" "db_thumbs d0 = []"
  shows "db_ok d q \<and> (\<forall>r \<in> set (filter (\<lambda>r. \<not> withdrawn r) (db_thumbs d)).
      \<exists>body. contents g (th_object_key r) = Some body \<and> th_size_bytes r = int (length body)) \<and>
    total_bytes (filter (\<lambda>r. \<not> withdrawn r) (db_thumbs d)) =
      (\<Sum>r \<leftarrow> filter (\<lambda>r. \<not> withdrawn r) (db_thumbs d). int (length (the (contents g (th_object_key r)))))"
proof -
  have "cache_inv contents (d0, q0, g0)"
    using assms(3-5) by (simp add: cache_inv_def cache_sound_def accounted_def)
  with reach have "cache_inv contents (d, q, g)"
    by (induction rule: rtranclp_induct) (auto intro: cache_step_inv [OF assms(1)])
  then have ok: "db_ok d q" and acc: "accounted contents d g" by (auto simp: cache_inv_def cache_sound_def)
  have "map th_size_bytes (filter (\<lambda>r. \<not> withdrawn r) (db_thumbs d)) =
      map (\<lambda>r. int (length (the (contents g (th_object_key r))))) (filter (\<lambda>r. \<not> withdrawn r) (db_thumbs d))"
    using acc by (fastforce simp: accounted_def)
  then have "total_bytes (filter (\<lambda>r. \<not> withdrawn r) (db_thumbs d)) =
      (\<Sum>r \<leftarrow> filter (\<lambda>r. \<not> withdrawn r) (db_thumbs d). int (length (the (contents g (th_object_key r)))))"
    unfolding total_bytes_def by (rule arg_cong)
  moreover have "\<forall>r \<in> set (filter (\<lambda>r. \<not> withdrawn r) (db_thumbs d)).
      \<exists>body. contents g (th_object_key r) = Some body \<and> th_size_bytes r = int (length body)"
    using acc by (simp add: accounted_def)
  ultimately show ?thesis using ok by blast
qed

lemma cache_stays_accounted_witness:
  "let run = GetThumbnail reference_objects sample_render_env sample_thumbnail_request (sample_world []) empty_bucket;
       d = w_db (fst (snd run)); g = snd (snd run)
   in map th_size_bytes (db_thumbs d) = [3] \<and> map withdrawn (db_thumbs d) = [False] \<and>
      total_bytes (filter (\<lambda>r. \<not> withdrawn r) (db_thumbs d)) =
        (\<Sum>r \<leftarrow> filter (\<lambda>r. \<not> withdrawn r) (db_thumbs d). int (length (the (bk_objects g (th_object_key r)))))"
proof -
  let ?run = "GetThumbnail reference_objects sample_render_env sample_thumbnail_request (sample_world []) empty_bucket"
  have e: "map th_size_bytes (db_thumbs (w_db (fst (snd ?run)))) = [3] \<and>
      map withdrawn (db_thumbs (w_db (fst (snd ?run)))) = [False]" by code_simp
  obtain r w' g' where run: "?run = (r, w', g')" by (metis prod_cases3)
  have "at_state (sample_world []) sample_db sample_seqs" by (simp add: at_state_def)
  from cache_step.request [OF this run]
  have "(cache_step (Store_Delete reference_gateway reference_store) reference_objects)\<^sup>*\<^sup>*
      (sample_db, sample_seqs, empty_bucket) (w_db w', w_seqs w', g')" by (rule r_into_rtranclp)
  from cache_stays_accounted [OF ref.object_store_axioms this [unfolded reference_objects_def] sample_db_ok] e run
  show ?thesis by (simp add: Let_def slashless_def sample_db_def sample_cv_def)
qed

end
