(* ===== verification/Processor_Effects.thy ===== *)
theory Processor_Effects
  imports Processor Reconciler_Effects
begin

text \<open>
  What the processor does to the tables: which document a path resolves to, and what the
  promotion of new bytes writes.
\<close>

lemma good_run: "good I e f \<Longrightarrow> I d q \<Longrightarrow> e \<le> sq_epoch q \<Longrightarrow> f d q = (r, d', q') \<Longrightarrow> I d' q'"
  by (fastforce simp: good_def)

section \<open>Resolving a path to a document\<close>

definition adopted :: "database \<Rightarrow> int \<Rightarrow> string \<Rightarrow> Observation \<Rightarrow> doc_row list" where
  "adopted d did path ob =
     update_where (\<lambda>s. d_id s = did) (relocated path (ob_dev ob) (ob_ino ob) (db_now d)) (db_docs d)"

lemma adopt_run:
  assumes w: "quiet w" and ok: "db_ok (w_db w) (w_seqs w)"
    and x: "x \<in> set (db_docs (w_db w))" "live x" "d_mountpoint_id x = mp"
    and sole: "\<And>y. y \<in> set (db_docs (w_db w)) \<Longrightarrow> doc_at mp path y \<Longrightarrow> d_id y = d_id x"
  shows "adopt (toDocument x) path ob w = (Inr (toDocument x), put_docs w (adopted (w_db w) (d_id x) path ob))"
    and "db_ok (w_db (put_docs w (adopted (w_db w) (d_id x) path ob))) (w_seqs w)"
    and "relocated path (ob_dev ob) (ob_ino ob) (db_now (w_db w)) x \<in> set (adopted (w_db w) (d_id x) path ob)"
proof -
  let ?f = "relocated path (ob_dev ob) (ob_ino ob) (db_now (w_db w))"
  have docs: "docs_ok (w_db w) (w_seqs w)" using ok by (simp add: db_ok_def)
  have key: "live_key (?f x) = Some (mp, path)"
    using x by (simp add: live_key_def live_def relocated_def)
  have free: "\<not> collides (?f x) (filter (\<lambda>s. d_id s \<noteq> d_id x) (db_docs (w_db w)))"
  proof
    assume "collides (?f x) (filter (\<lambda>s. d_id s \<noteq> d_id x) (db_docs (w_db w)))"
    then obtain s where s: "s \<in> set (db_docs (w_db w))" "d_id s \<noteq> d_id x" "Some (mp, path) = live_key s"
      unfolding collides_def key by auto
    from s(3) have "doc_at mp path s" by (simp add: live_key_Some doc_at_def eq_commute)
    with sole s show False by blast
  qed
  have id: "doc_id (toDocument x) = d_id x" by (simp add: toDocument_def)
  show "adopt (toDocument x) path ob w = (Inr (toDocument x), put_docs w (adopted (w_db w) (d_id x) path ob))"
    using MoveDocument_run [OF w find_doc_id [OF docs x(1)] free]
    by (simp add: adopt_def andThen_def bind_def id ret_def adopted_def)
  have "q_MoveDocument (d_id x) path (ob_dev ob) (ob_ino ob) (w_db w) (w_seqs w) =
      (Inr (?f x), (w_db w)\<lparr>db_docs := adopted (w_db w) (d_id x) path ob\<rparr>, w_seqs w)"
    using find_doc_id [OF docs x(1)] free by (simp add: q_MoveDocument_def adopted_def Let_def)
  from good_run [OF ok_MoveDocument ok order_refl this]
  show "db_ok (w_db (put_docs w (adopted (w_db w) (d_id x) path ob))) (w_seqs w)" by simp
  show "?f x \<in> set (adopted (w_db w) (d_id x) path ob)"
    using x(1) by (auto simp: adopted_def set_update_where)
qed

definition new_row :: "world \<Rightarrow> int \<Rightarrow> string \<Rightarrow> int \<Rightarrow> int \<Rightarrow> doc_row" where
  "new_row w mp path dev ino = fresh_doc (sq_doc (w_seqs w) + 1) mp path dev ino (db_now (w_db w))"

definition with_new_row :: "world \<Rightarrow> int \<Rightarrow> string \<Rightarrow> int \<Rightarrow> int \<Rightarrow> world" where
  "with_new_row w mp path dev ino = (put_docs w (db_docs (w_db w) @ [new_row w mp path dev ino]))
     \<lparr>w_seqs := (w_seqs w)\<lparr>sq_doc := sq_doc (w_seqs w) + 1\<rparr>\<rparr>"

lemma CreateDocument_run:
  assumes w: "quiet w" and ok: "db_ok (w_db w) (w_seqs w)" and mp: "mp \<in> m_id ` set (db_mountpoints (w_db w))"
    and free: "\<And>y. y \<in> set (db_docs (w_db w)) \<Longrightarrow> \<not> doc_at mp path y"
  shows "tx_CreateDocument mp path dev ino w = (Inr (toDocument (new_row w mp path dev ino)), with_new_row w mp path dev ino)"
    "db_ok (w_db (with_new_row w mp path dev ino)) (w_seqs (with_new_row w mp path dev ino))"
proof -
  let ?row = "new_row w mp path dev ino"
  have key: "live_key ?row = Some (mp, path)" by (simp add: new_row_def live_key_def live_def fresh_doc_def)
  have "\<not> collides ?row (db_docs (w_db w))"
  proof
    assume "collides ?row (db_docs (w_db w))"
    then obtain s where "s \<in> set (db_docs (w_db w))" "Some (mp, path) = live_key s"
      unfolding collides_def key by auto
    then have "s \<in> set (db_docs (w_db w))" "doc_at mp path s" by (simp_all add: live_key_Some doc_at_def eq_commute)
    with free show False by blast
  qed
  then have q: "q_CreateDocument mp path dev ino (w_db w) (w_seqs w) =
      (Inr ?row, (w_db w)\<lparr>db_docs := db_docs (w_db w) @ [?row]\<rparr>, (w_seqs w)\<lparr>sq_doc := sq_doc (w_seqs w) + 1\<rparr>)"
    using mp by (simp add: q_CreateDocument_def Let_def new_row_def)
  show "tx_CreateDocument mp path dev ino w = (Inr (toDocument ?row), with_new_row w mp path dev ino)"
    using w q by (simp add: tx_CreateDocument_def bind_def stmt_quiet exec_sql_def ret_def with_new_row_def put_docs_def)
  from good_run [OF ok_CreateDocument ok order_refl q]
  show "db_ok (w_db (with_new_row w mp path dev ino)) (w_seqs (with_new_row w mp path dev ino))"
    by (simp add: with_new_row_def)
qed

definition prior_version :: "database \<Rightarrow> int \<Rightarrow> int" where
  "prior_version d did =
     (case List.find (\<lambda>r. d_id r = did) (db_docs d) of None \<Rightarrow> 0 | Some r \<Rightarrow> derefID (d_current_cv r))"

lemma prior_version_of:
  "db_ok d q \<Longrightarrow> x \<in> set (db_docs d) \<Longrightarrow> prior_version d (d_id x) = derefID (d_current_cv x)"
  by (simp add: prior_version_def find_doc_id [of d q] db_ok_def)

lemma prior_version_fresh: "db_ok d q \<Longrightarrow> prior_version d (sq_doc q + 1) = 0"
proof -
  assume "db_ok d q"
  then have "List.find (\<lambda>r. d_id r = sq_doc q + 1) (db_docs d) = None"
    by (fastforce simp: find_None_set db_ok_def docs_ok_def ids_ok_def)
  then show ?thesis by (simp add: prior_version_def)
qed

text \<open>What a resolution leaves: the one live document at the path, as it was read.\<close>

definition resolves :: "world \<Rightarrow> int \<Rightarrow> string \<Rightarrow> int \<Rightarrow> Document \<Rightarrow> world \<Rightarrow> bool" where
  "resolves w mp path did doc w1 \<longleftrightarrow>
     quiet w1 \<and> db_ok (w_db w1) (w_seqs w1) \<and> w_clock w1 = w_clock w \<and> w_base w1 = w_base w \<and>
     w_db w1 = (w_db w)\<lparr>db_docs := db_docs (w_db w1)\<rparr> \<and>
     sq_epoch (w_seqs w1) = sq_epoch (w_seqs w) \<and> sq_cv (w_seqs w1) = sq_cv (w_seqs w) \<and>
     doc_id doc = did \<and> doc_cv doc = prior_version (w_db w) did \<and>
     (\<exists>row \<in> set (db_docs (w_db w1)). d_id row = did \<and> doc_at mp path row \<and> derefID (d_current_cv row) = doc_cv doc)"

lemma adopt_resolves:
  assumes w: "quiet w" and ok: "db_ok (w_db w) (w_seqs w)"
    and x: "x \<in> set (db_docs (w_db w))" "live x" "d_mountpoint_id x = mp"
    and sole: "\<And>y. y \<in> set (db_docs (w_db w)) \<Longrightarrow> doc_at mp path y \<Longrightarrow> d_id y = d_id x"
  shows "\<exists>w1. adopt (toDocument x) path ob w = (Inr (toDocument x), w1) \<and> resolves w mp path (d_id x) (toDocument x) w1"
proof -
  note run = adopt_run [OF w ok x sole]
  let ?row = "relocated path (ob_dev ob) (ob_ino ob) (db_now (w_db w)) x"
  have "d_id ?row = d_id x" "doc_at mp path ?row" "derefID (d_current_cv ?row) = doc_cv (toDocument x)"
    "doc_id (toDocument x) = d_id x"
    using x by (simp_all add: relocated_def doc_at_def live_def toDocument_def)
  then have "resolves w mp path (d_id x) (toDocument x) (put_docs w (adopted (w_db w) (d_id x) path ob))"
    unfolding resolves_def using run w prior_version_of [OF ok x(1)] by (auto simp: put_docs_def toDocument_def)
  with run(1) show ?thesis by blast
qed

text \<open>Path first, then inode, then content, then a new row.\<close>

definition identity_of :: "database \<Rightarrow> seqs \<Rightarrow> int \<Rightarrow> string \<Rightarrow> Observation \<Rightarrow> string \<Rightarrow> int" where
  "identity_of d q mp path ob digest =
     (case List.find (doc_at mp path) (db_docs d) of
        Some x \<Rightarrow> d_id x
      | None \<Rightarrow>
          (case (if ob_ino ob \<noteq> 0 then first_by d_id
              (\<lambda>r. d_mountpoint_id r = mp \<and> d_dev r = ob_dev ob \<and> d_ino r = ob_ino ob \<and> live r) (db_docs d) else None) of
             Some x \<Rightarrow> d_id x
           | None \<Rightarrow>
               (case first_by d_id (\<lambda>r. d_mountpoint_id r = mp \<and> has_hash d digest r \<and> live r \<and>
                   \<not> observed d (d_mountpoint_id r) (d_path r)) (db_docs d) of
                  Some x \<Rightarrow> d_id x | None \<Rightarrow> sq_doc q + 1)))"

lemma resolveByContent_resolves:
  assumes w: "quiet w" and ok: "db_ok (w_db w) (w_seqs w)" and mp: "mp \<in> m_id ` set (db_mountpoints (w_db w))"
    and free: "\<And>y. y \<in> set (db_docs (w_db w)) \<Longrightarrow> \<not> doc_at mp path y"
  shows "\<exists>doc w1. resolveByContent mp path ob digest w = (Inr doc, w1) \<and>
    resolves w mp path (case first_by d_id (\<lambda>r. d_mountpoint_id r = mp \<and> has_hash (w_db w) digest r \<and> live r \<and>
        \<not> observed (w_db w) (d_mountpoint_id r) (d_path r)) (db_docs (w_db w)) of
      Some x \<Rightarrow> d_id x | None \<Rightarrow> sq_doc (w_seqs w) + 1) doc w1"
proof (cases "first_by d_id (\<lambda>r. d_mountpoint_id r = mp \<and> has_hash (w_db w) digest r \<and> live r \<and>
    \<not> observed (w_db w) (d_mountpoint_id r) (d_path r)) (db_docs (w_db w))")
  case None
  let ?row = "new_row w mp path (ob_dev ob) (ob_ino ob)" and ?w1 = "with_new_row w mp path (ob_dev ob) (ob_ino ob)"
  note run = CreateDocument_run [OF w ok mp free, where dev = "ob_dev ob" and ino = "ob_ino ob"]
  have "resolveByContent mp path ob digest w = (Inr (toDocument ?row), ?w1)"
    using None w run(1) by (simp add: resolveByContent_def bind_def FindLiveDocumentByContent_run)
  moreover have "resolves w mp path (sq_doc (w_seqs w) + 1) (toDocument ?row) ?w1"
    unfolding resolves_def using run(2) w prior_version_fresh [OF ok]
    by (auto simp: derefID_def with_new_row_def new_row_def put_docs_def fresh_doc_def toDocument_def doc_at_def live_def)
  ultimately show ?thesis using None by auto
next
  case (Some x)
  from first_by_Some [OF Some] have x: "x \<in> set (db_docs (w_db w))" "live x" "d_mountpoint_id x = mp" by auto
  from adopt_resolves [OF w ok x, of path ob] free
  obtain w1 where "adopt (toDocument x) path ob w = (Inr (toDocument x), w1)"
    "resolves w mp path (d_id x) (toDocument x) w1" by blast
  with Some w show ?thesis by (auto simp: resolveByContent_def bind_def FindLiveDocumentByContent_run)
qed

lemma resolveDocument_resolves:
  assumes w: "quiet w" and ok: "db_ok (w_db w) (w_seqs w)" and mp: "mp \<in> m_id ` set (db_mountpoints (w_db w))"
  shows "\<exists>doc w1. resolveDocument mp path ob digest w = (Inr doc, w1) \<and>
    resolves w mp path (identity_of (w_db w) (w_seqs w) mp path ob digest) doc w1"
proof (cases "List.find (doc_at mp path) (db_docs (w_db w))")
  case (Some x)
  have x: "x \<in> set (db_docs (w_db w))" "doc_at mp path x" using find_SomeD [OF Some] by auto
  then have x': "live x" "d_mountpoint_id x = mp" by (auto simp: doc_at_def)
  have docs: "docs_ok (w_db w) (w_seqs w)" using ok by (simp add: db_ok_def)
  have sole: "d_id y = d_id x" if "y \<in> set (db_docs (w_db w))" "doc_at mp path y" for y
    using live_unique [OF docs Some that] by simp
  have id: "identity_of (w_db w) (w_seqs w) mp path ob digest = d_id x" using Some by (simp add: identity_of_def)
  show ?thesis
  proof (cases "d_dev x \<noteq> ob_dev ob \<or> d_ino x \<noteq> ob_ino ob")
    case True
    from adopt_resolves [OF w ok x(1) x' sole, of path ob]
    obtain w1 where "adopt (toDocument x) path ob w = (Inr (toDocument x), w1)"
      "resolves w mp path (d_id x) (toDocument x) w1" by blast
    with Some w id True show ?thesis
      by (auto simp: resolveDocument_def bind_def FindLiveDocumentByPath_run toDocument_def)
  next
    case False
    have "resolves w mp path (d_id x) (toDocument x) w"
      unfolding resolves_def using w ok x prior_version_of [OF ok x(1)] by (auto simp: toDocument_def)
    with Some w id False show ?thesis
      by (auto simp: resolveDocument_def bind_def FindLiveDocumentByPath_run toDocument_def ret_def)
  qed
next
  case None
  then have free: "\<not> doc_at mp path y" if "y \<in> set (db_docs (w_db w))" for y
    using that by (simp add: find_None_set)
  note content = resolveByContent_resolves [OF w ok mp free]
  show ?thesis
  proof (cases "ob_ino ob \<noteq> 0")
    case False
    with None w content [of ob digest] show ?thesis
      by (simp add: resolveDocument_def bind_def FindLiveDocumentByPath_run identity_of_def)
  next
    case ino: True
    show ?thesis
    proof (cases "first_by d_id (\<lambda>r. d_mountpoint_id r = mp \<and> d_dev r = ob_dev ob \<and> d_ino r = ob_ino ob \<and> live r) (db_docs (w_db w))")
      case N: None
      with None w ino content [of ob digest] show ?thesis
        by (simp add: resolveDocument_def bind_def FindLiveDocumentByPath_run FindLiveDocumentByInode_run identity_of_def)
    next
      case (Some x)
      from first_by_Some [OF Some] have x: "x \<in> set (db_docs (w_db w))" "live x" "d_mountpoint_id x = mp" by auto
      from adopt_resolves [OF w ok x, of path ob] free
      obtain w1 where "adopt (toDocument x) path ob w = (Inr (toDocument x), w1)"
        "resolves w mp path (d_id x) (toDocument x) w1" by blast
      with None Some w ino show ?thesis
        by (simp add: resolveDocument_def bind_def FindLiveDocumentByPath_run FindLiveDocumentByInode_run identity_of_def)
    qed
  qed
qed

section \<open>Content versions\<close>

definition version_of :: "database \<Rightarrow> seqs \<Rightarrow> string \<Rightarrow> int" where
  "version_of d q digest =
     (case List.find (\<lambda>c. cv_content_hash c = digest) (db_cvs d) of Some c \<Rightarrow> cv_id c | None \<Rightarrow> sq_cv q + 1)"

lemma UpsertContentVersion_run:
  assumes w: "quiet w" and ok: "db_ok (w_db w) (w_seqs w)"
  shows "\<exists>rows w1. tx_UpsertContentVersion digest n w = (Inr (version_of (w_db w) (w_seqs w) digest), w1) \<and>
    w1 = w\<lparr>w_db := (w_db w)\<lparr>db_cvs := rows\<rparr>, w_seqs := (w_seqs w)\<lparr>sq_cv := sq_cv (w_seqs w) + 1\<rparr>\<rparr> \<and>
    db_ok (w_db w1) (w_seqs w1) \<and>
    (\<exists>c \<in> set rows. cv_id c = version_of (w_db w) (w_seqs w) digest \<and> cv_content_hash c = digest \<and> cv_size_bytes c = n)"
proof -
  obtain r d' q' where q: "q_UpsertContentVersion digest n (w_db w) (w_seqs w) = (r, d', q')"
    by (cases "q_UpsertContentVersion digest n (w_db w) (w_seqs w)")
  have ok': "db_ok d' q'" by (rule good_run [OF ok_UpsertContentVersion ok order_refl q])
  show ?thesis
  proof (cases "List.find (\<lambda>c. cv_content_hash c = digest) (db_cvs (w_db w))")
    case None
    let ?c = "\<lparr>cv_id = sq_cv (w_seqs w) + 1, cv_content_hash = digest, cv_size_bytes = n, cv_created_at = db_now (w_db w)\<rparr>"
    have q2: "r = Inr ?c" "d' = (w_db w)\<lparr>db_cvs := db_cvs (w_db w) @ [?c]\<rparr>"
      "q' = (w_seqs w)\<lparr>sq_cv := sq_cv (w_seqs w) + 1\<rparr>"
      using q None by (simp_all add: q_UpsertContentVersion_def Let_def)
    show ?thesis
      using w q ok' None unfolding q2
      by (intro exI [of _ "db_cvs (w_db w) @ [?c]"])
        (simp add: tx_UpsertContentVersion_def bind_def stmt_quiet exec_sql_def ret_def version_of_def)
  next
    case (Some c)
    let ?c = "c\<lparr>cv_size_bytes := n\<rparr>"
    have c: "cv_content_hash c = digest" using find_SomeD [OF Some] by simp
    have q2: "r = Inr ?c" "d' = (w_db w)\<lparr>db_cvs := upsert_by cv_content_hash ?c (db_cvs (w_db w))\<rparr>"
      "q' = (w_seqs w)\<lparr>sq_cv := sq_cv (w_seqs w) + 1\<rparr>"
      using q Some by (simp_all add: q_UpsertContentVersion_def Let_def)
    have "\<exists>x \<in> set (upsert_by cv_content_hash ?c (db_cvs (w_db w))).
        cv_id x = cv_id c \<and> cv_content_hash x = digest \<and> cv_size_bytes x = n"
      by (rule bexI [of _ ?c]) (simp_all add: set_upsert_by c)
    with w q ok' Some show ?thesis unfolding q2
      by (intro exI [of _ "upsert_by cv_content_hash ?c (db_cvs (w_db w))"])
        (simp add: tx_UpsertContentVersion_def bind_def stmt_quiet exec_sql_def ret_def version_of_def)
  qed
qed

lemma version_ref_deref:
  assumes "db_ok d q" "r \<in> set (db_docs d)"
  shows "version_ref (derefID (d_current_cv r)) = d_current_cv r"
proof (cases "d_current_cv r")
  case None
  then show ?thesis by (simp add: derefID_def version_ref_def)
next
  case (Some v)
  have "v \<in> cv_id ` set (db_cvs d)" using assms Some by (auto simp: db_ok_def docs_ok_def)
  then have "0 < v" using assms(1) by (auto simp: db_ok_def cvs_ok_def ids_ok_def)
  with Some show ?thesis by (simp add: derefID_def version_ref_def)
qed

section \<open>The flip\<close>

definition pending_rows :: "database \<Rightarrow> int \<Rightarrow> ex_row list" where
  "pending_rows d v = (if v \<in> ex_cv_id ` set (db_extracted d) then db_extracted d
     else db_extracted d @ [marked_row v status_pending None (db_now d)])"

lemma pending_rows_has: "v \<in> ex_cv_id ` set (pending_rows d v)"
  by (auto simp: pending_rows_def marked_row_def)

definition flipped_docs :: "database \<Rightarrow> int \<Rightarrow> int \<Rightarrow> doc_row list" where
  "flipped_docs d did v =
     map (\<lambda>r. if d_id r = did then with_version (Some v) (db_now d) r else r) (db_docs d)"

definition flip_jobs :: "int \<Rightarrow> int \<Rightarrow> int \<Rightarrow> job_insert list" where
  "flip_jobs did old v = request (ExtractArgs v) None #
     (if old \<noteq> 0 then [request (InvalidateThumbnailsArgs did old) None] else [])"

lemma SetDocumentCurrentVersion_run:
  assumes w: "quiet w" and ok: "db_ok (w_db w) (w_seqs w)" and row: "row \<in> set (db_docs (w_db w))"
    and v: "v \<in> cv_id ` set (db_cvs (w_db w))"
  shows "tx_SetDocumentCurrentVersion (d_id row) (derefID (d_current_cv row)) v w =
    (Inr True, put_docs w (flipped_docs (w_db w) (d_id row) v))"
proof -
  let ?P = "\<lambda>r. d_id r = d_id row \<and> d_current_cv r = d_current_cv row"
  have only: "?P r \<longleftrightarrow> d_id r = d_id row" if "r \<in> set (db_docs (w_db w))" for r
    using ok row that by (auto simp: db_ok_def docs_ok_def ids_ok_def dest: distinct_map_inj)
  then have "List.find ?P (db_docs (w_db w)) = List.find (\<lambda>r. d_id r = d_id row) (db_docs (w_db w))"
    by (rule find_cong_set)
  with ok row have fnd: "List.find ?P (db_docs (w_db w)) = Some row"
    using find_doc_id [of "w_db w" "w_seqs w" row] by (simp add: db_ok_def)
  have "update_where ?P (with_version (Some v) (db_now (w_db w))) (db_docs (w_db w)) = flipped_docs (w_db w) (d_id row) v"
    using only by (auto simp: update_where_def flipped_docs_def)
  then have q: "q_SetDocumentCurrentVersion (Some v) (d_id row) (d_current_cv row) (w_db w) (w_seqs w) =
      (Inr (with_version (Some v) (db_now (w_db w)) row), (w_db w)\<lparr>db_docs := flipped_docs (w_db w) (d_id row) v\<rparr>, w_seqs w)"
    using fnd v by (simp add: q_SetDocumentCurrentVersion_def Let_def version_exists_def)
  show ?thesis
    unfolding tx_SetDocumentCurrentVersion_def version_ref_deref [OF ok row]
    using w by (simp add: bind_def or_missing_run q ret_def put_docs_def)
qed

lemma flip_run:
  assumes w: "quiet w" and ok: "db_ok (w_db w) (w_seqs w)" and bound: "eq_bound (pr_enqueuer p)"
    and row: "row \<in> set (db_docs (w_db w))" "d_id row = doc_id doc" "derefID (d_current_cv row) = doc_cv doc"
    and v: "v \<in> cv_id ` set (db_cvs (w_db w))"
  shows "\<exists>w1. flip p doc v w = (Inr (), w1) \<and> quiet w1 \<and> w_db w1 = (w_db w)
    \<lparr>db_docs := flipped_docs (w_db w) (doc_id doc) v, db_extracted := pending_rows (w_db w) v,
     db_outbox := db_outbox (w_db w) @ flip_jobs (doc_id doc) (doc_cv doc) v\<rparr>"
proof -
  let ?w1 = "put_docs w (flipped_docs (w_db w) (doc_id doc) v)"
  let ?w2 = "?w1\<lparr>w_db := (w_db ?w1)\<lparr>db_extracted := pending_rows (w_db w) v\<rparr>\<rparr>"
  have set_v: "tx_SetDocumentCurrentVersion (doc_id doc) (doc_cv doc) v w = (Inr True, ?w1)"
    using SetDocumentCurrentVersion_run [OF w ok row(1) v] row(2,3) by simp
  have mark: "tx_MarkExtractionPending v ?w1 = (Inr (), ?w2)"
    using w v by (auto simp: tx_MarkExtractionPending_def stmt_quiet exec_sql_def q_MarkExtractionPending_def
        pending_rows_def put_docs_def)
  have "quiet ?w2" using w by simp
  then have "flip p doc v w = (Inr (), put_jobs ?w2 (flip_jobs (doc_id doc) (doc_cv doc) v))"
    using bound by (simp add: flip_def Let_def bind_def andThen_def set_v mark EnqueueExtract_run
        EnqueueInvalidateThumbnails_run flip_jobs_def ret_def)
  with \<open>quiet ?w2\<close> show ?thesis by (auto simp: put_docs_def)
qed

section \<open>Promotion\<close>

text \<open>An observation that went away, became a directory or another file settles nothing.\<close>

definition stale :: "database \<Rightarrow> int \<Rightarrow> string \<Rightarrow> Observation \<Rightarrow> bool" where
  "stale d mp path seen =
     (case List.find (\<lambda>r. obs_key r = (mp, path)) (db_obs d) of
        None \<Rightarrow> True
      | Some o' \<Rightarrow> o_is_dir o' \<or> \<not> sameFile seen (to_observation o'))"

lemma to_observation_dir [simp]: "ob_is_dir (to_observation r) = o_is_dir r"
  by (simp add: to_observation_def)

lemma promote_body_stale_run:
  "quiet w \<Longrightarrow> stale (w_db w) mp path seen \<Longrightarrow> promote_body p mp path seen digest n w = (Inr (), w)"
  by (auto simp: promote_body_def bind_def GetObservation_run stale_def ret_def split: option.splits)

lemma promote_quiet:
  assumes w: "quiet w" and run: "promote_body p mp path seen digest n (w\<lparr>w_base := w_db w\<rparr>) = (Inr (), w1)" "quiet w1"
  shows "promote p mp path seen digest n w = (Inr True, w1\<lparr>w_base := w_db w1\<rparr>)"
  using InTx_quiet_commit [where fn = "promote_body p mp path seen digest n", OF w run]
  by (simp add: promote_def settled_def bind_def try_m_def ret_def)

text \<open>What a promotion leaves at the path.\<close>

definition promoted :: "database \<Rightarrow> seqs \<Rightarrow> int \<Rightarrow> string \<Rightarrow> Observation \<Rightarrow> string \<Rightarrow> int \<Rightarrow> database \<Rightarrow> bool" where
  "promoted d q mp path ob digest n d' \<longleftrightarrow>
     (let did = identity_of d q mp path ob digest; v = version_of d q digest; old = prior_version d did in
      (\<exists>x \<in> set (db_docs d'). d_id x = did \<and> doc_at mp path x \<and> d_current_cv x = Some v) \<and>
      (\<exists>c \<in> set (db_cvs d'). cv_id c = v \<and> cv_content_hash c = digest \<and> cv_size_bytes c = n) \<and>
      db_outbox d' = db_outbox d @ (if old = v then [] else flip_jobs did old v) \<and>
      (old \<noteq> v \<longrightarrow> v \<in> ex_cv_id ` set (db_extracted d')) \<and>
      db_obs d' = db_obs d \<and> db_watermark d' = db_watermark d \<and> db_thumbs d' = db_thumbs d)"

lemma promote_body_run:
  assumes w: "quiet w" and ok: "db_ok (w_db w) (w_seqs w)" and bound: "eq_bound (pr_enqueuer p)"
    and mp: "mp \<in> m_id ` set (db_mountpoints (w_db w))"
    and obs: "List.find (\<lambda>r. obs_key r = (mp, path)) (db_obs (w_db w)) = Some o'"
    and fresh: "\<not> o_is_dir o'" "sameFile seen (to_observation o')"
  shows "\<exists>w1. promote_body p mp path seen digest n w = (Inr (), w1) \<and> quiet w1 \<and>
    promoted (w_db w) (w_seqs w) mp path (to_observation o') digest n (w_db w1)"
proof -
  let ?ob = "to_observation o'"
  let ?did = "identity_of (w_db w) (w_seqs w) mp path ?ob digest"
  let ?v = "version_of (w_db w) (w_seqs w) digest"
  from resolveDocument_resolves [OF w ok mp] obtain doc w1 where
    res: "resolveDocument mp path ?ob digest w = (Inr doc, w1)" and R: "resolves w mp path ?did doc w1" by blast
  from R have w1: "quiet w1" "db_ok (w_db w1) (w_seqs w1)" "w_db w1 = (w_db w)\<lparr>db_docs := db_docs (w_db w1)\<rparr>"
    "sq_cv (w_seqs w1) = sq_cv (w_seqs w)" "doc_id doc = ?did" "doc_cv doc = prior_version (w_db w) ?did"
    by (auto simp: resolves_def)
  from R obtain row where row: "row \<in> set (db_docs (w_db w1))" "d_id row = ?did" "doc_at mp path row"
    "derefID (d_current_cv row) = doc_cv doc" by (auto simp: resolves_def)
  have tables: "db_cvs (w_db w1) = db_cvs (w_db w)" "db_outbox (w_db w1) = db_outbox (w_db w)"
    "db_obs (w_db w1) = db_obs (w_db w)" "db_watermark (w_db w1) = db_watermark (w_db w)"
    "db_thumbs (w_db w1) = db_thumbs (w_db w)"
    by (subst w1(3), simp)+
  have v: "version_of (w_db w1) (w_seqs w1) digest = ?v" unfolding version_of_def tables w1(4) ..
  from UpsertContentVersion_run [OF w1(1,2), of digest n] obtain rows w2 where
    up: "tx_UpsertContentVersion digest n w1 = (Inr ?v, w2)" and
    w2: "w2 = w1\<lparr>w_db := (w_db w1)\<lparr>db_cvs := rows\<rparr>, w_seqs := (w_seqs w1)\<lparr>sq_cv := sq_cv (w_seqs w1) + 1\<rparr>\<rparr>"
      "db_ok (w_db w2) (w_seqs w2)" and
    c: "\<exists>c \<in> set rows. cv_id c = ?v \<and> cv_content_hash c = digest \<and> cv_size_bytes c = n"
    unfolding v by blast
  have q2: "quiet w2" using w1(1) w2(1) by simp
  have row2: "row \<in> set (db_docs (w_db w2))" using row(1) w2(1) by simp
  have body: "promote_body p mp path seen digest n w =
      (if doc_cv doc = ?v then ret () else flip p doc ?v) w2"
    using w obs fresh by (simp add: promote_body_def bind_def GetObservation_run res up)
  show ?thesis
  proof (cases "doc_cv doc = ?v")
    case True
    have "0 < ?v" using c w2 by (auto simp: db_ok_def cvs_ok_def ids_ok_def)
    with True row(4) have "d_current_cv row = Some ?v" by (auto simp: derefID_def split: option.splits)
    with True row c have "promoted (w_db w) (w_seqs w) mp path ?ob digest n (w_db w2)"
      unfolding promoted_def Let_def w2(1) using w1(6) tables by auto
    with True q2 body show ?thesis by (auto simp: ret_def)
  next
    case False
    have vin: "?v \<in> cv_id ` set (db_cvs (w_db w2))" using c w2(1) by force
    from flip_run [OF q2 w2(2) bound row2 _ row(4) vin] row(2) w1(5) obtain w3 where
      f: "flip p doc ?v w2 = (Inr (), w3)" "quiet w3" and
      db3: "w_db w3 = (w_db w2)\<lparr>db_docs := flipped_docs (w_db w2) (doc_id doc) ?v,
        db_extracted := pending_rows (w_db w2) ?v,
        db_outbox := db_outbox (w_db w2) @ flip_jobs (doc_id doc) (doc_cv doc) ?v\<rparr>" by auto
    let ?x = "with_version (Some ?v) (db_now (w_db w2)) row"
    have "?x \<in> set (flipped_docs (w_db w2) ?did ?v)"
      using row2 row(2) by (force simp: flipped_docs_def)
    moreover have "d_id ?x = ?did" "doc_at mp path ?x" "d_current_cv ?x = Some ?v"
      using row by (simp_all add: with_version_def doc_at_def live_def)
    ultimately have at: "\<exists>x \<in> set (flipped_docs (w_db w2) ?did ?v). d_id x = ?did \<and> doc_at mp path x \<and> d_current_cv x = Some ?v"
      by blast
    have "promoted (w_db w) (w_seqs w) mp path ?ob digest n (w_db w3)"
      unfolding promoted_def Let_def db3
      using at c False w1(5,6) tables w2(1) pending_rows_has by simp
    with f False body show ?thesis by auto
  qed
qed

end
