(* ===== verification/Processor_Correct.thy ===== *)
theory Processor_Correct
  imports Processor_Effects Sample
begin

text \<open>
  The properties of the processor: hashing, identity, promotion, and what a lost race or a
  stale observation leaves.
\<close>

definition sample_proc :: Processor where
  "sample_proc = \<lparr>pr_enqueuer = Bind (NewEnqueuer 5), pr_filter = sample_filter,
     pr_sha256 = (\<lambda>s. take 2 s), pr_sniff = (\<lambda>_. ''application/pdf'')\<rparr>"

lemma sample_proc_bound [simp]: "eq_bound (pr_enqueuer sample_proc)"
  by (simp add: sample_proc_def Bind_def NewEnqueuer_def)

lemma sample_mp_known [simp]: "1 \<in> m_id ` set (db_mountpoints sample_db)"
  by (simp add: sample_db_def)

section \<open>Hashing\<close>

text \<open>
  The digest, size and sniffed head of a file depend on its bytes alone, not on how the
  reads split them: the digest is the hex form of the hash of all of them, the size their
  number, the head their first 512.
\<close>

theorem hash_independent_of_chunks:
  assumes "reads_through rs"
  shows "hash_file sha (Opened rs) = Inr (hex_encode (sha (read_bytes rs)),
    int (length (read_bytes rs)), take 512 (read_bytes rs))"
  using hash_loop_reads [OF assms, of "[]" 0] by (simp add: hash_file_def SniffLen_def)

lemma hash_independent_of_chunks_witness:
  "hash_file (\<lambda>s. s) (Opened [ReadOk ''a'', ReadOk [], ReadEOF ''bc'']) = Inr (''616263'', 3, ''abc'')"
  by (subst hash_independent_of_chunks) (simp, code_simp)

section \<open>Identity\<close>

text \<open>
  A path resolves to a document in the documented order: the live document at the path,
  else the one with the inode (when the observation has one), else one with the same bytes
  whose own path is gone, else a new row; afterwards that document, and no other, is live
  at the path.
\<close>

theorem resolveDocument_order:
  assumes "calm w" "db_ok (w_db w) (w_seqs w)" "mp \<in> m_id ` set (db_mountpoints (w_db w))"
    and "resolveDocument mp path ob digest w = (res, w')" "res \<noteq> Inl ErrConn"
  shows "(\<exists>doc. res = Inr doc \<and> doc_id doc = identity_of (w_db w) (w_seqs w) mp path ob digest) \<and>
    filter (doc_at mp path) (db_docs (w_db w')) \<noteq> [] \<and>
    d_id ` set (filter (doc_at mp path) (db_docs (w_db w'))) = {identity_of (w_db w) (w_seqs w) mp path ob digest}"
proof -
  let ?q = "w\<lparr>w_script := []\<rparr>" and ?did = "identity_of (w_db w) (w_seqs w) mp path ob digest"
  from resolveDocument_resolves [OF quiet_update(5), of w mp path ob digest] assms(2,3)
  obtain doc w1 where run: "resolveDocument mp path ob digest ?q = (Inr doc, w1)" and R: "resolves ?q mp path ?did doc w1"
    by auto
  from undisturbed [OF faithful_resolve assms(1,4,5) run] have eq: "res = Inr doc" "w_db w' = w_db w1" by auto
  from R obtain row where row: "row \<in> set (db_docs (w_db w1))" "d_id row = ?did" "doc_at mp path row"
    and ok: "docs_ok (w_db w1) (w_seqs w1)" and id: "doc_id doc = ?did"
    by (auto simp: resolves_def db_ok_def)
  have ix: "index_ok live_key (db_docs (w_db w1))" using ok by (simp add: docs_ok_def)
  have same: "y = row" if "y \<in> set (db_docs (w_db w1))" "doc_at mp path y" for y
    using index_ok_inj [OF ix that(1) row(1)] that(2) row(3) by (simp add: live_key_def doc_at_def)
  have ne: "filter (doc_at mp path) (db_docs (w_db w1)) \<noteq> []" using row by (auto simp: filter_empty_conv)
  have "x \<in> set (filter (doc_at mp path) (db_docs (w_db w1))) \<longleftrightarrow> x = row" for x
    unfolding set_filter mem_Collect_eq using row(1,3) same by blast
  then have "set (filter (doc_at mp path) (db_docs (w_db w1))) = {row}" by blast
  with row(2) have ids: "d_id ` set (filter (doc_at mp path) (db_docs (w_db w1))) = {?did}" by (simp only: image_insert image_empty)
  show ?thesis unfolding eq using id ne ids by simp
qed

definition new_obs :: "int \<Rightarrow> Observation" where
  "new_obs ino = \<lparr>ob_mp = 1, ob_path = ''/d/n.pdf'', ob_size = 10, ob_mode = 0, ob_mtime = 7000, ob_ino = ino,
     ob_dev = 1, ob_is_dir = False, ob_seen_epoch = 0\<rparr>"

lemma resolveDocument_order_witness:
  "d_id ` set (filter (doc_at 1 ''/d/n.pdf'') (db_docs (w_db
     (snd (resolveDocument 1 ''/d/n.pdf'' (new_obs 13) ''zz'' (sample_world [Run])))))) = {2}"
proof -
  let ?run = "resolveDocument 1 ''/d/n.pdf'' (new_obs 13) ''zz'' (sample_world [Run])"
  have "case fst ?run of Inl e \<Rightarrow> False | Inr d \<Rightarrow> True" by code_simp
  then have res: "fst ?run \<noteq> Inl ErrConn" by (auto split: sum.splits)
  have id: "identity_of sample_db sample_seqs 1 ''/d/n.pdf'' (new_obs 13) ''zz'' = 2" by code_simp
  have calm: "calm (sample_world [Run])" by (simp add: calm_def)
  from resolveDocument_order [OF calm _ _ prod.collapse [symmetric] res] show ?thesis
    by (simp add: sample_db_ok id)
qed

section \<open>Promotion\<close>

text \<open>
  C18: Promoting hashed bytes settles the path: afterwards the resolved document is live at
  the path and points at the version with exactly this digest and size; when it pointed
  elsewhere before, the version's extraction is on record and one extraction job is
  requested, with one invalidation job for the version left behind if there was one; when
  it pointed there already no job is requested.  Observations, watermark and thumbnails do
  not change.
\<close>

theorem promote_settles:
  assumes "calm w" "db_ok (w_db w) (w_seqs w)" "eq_bound (pr_enqueuer p)"
    and "mp \<in> m_id ` set (db_mountpoints (w_db w))"
    and "List.find (\<lambda>r. obs_key r = (mp, path)) (db_obs (w_db w)) = Some o'"
    and "\<not> o_is_dir o'" "sameFile seen (to_observation o')"
    and "promote p mp path seen digest n w = (res, w')" "res \<noteq> Inl ErrConn"
  shows "res = Inr True \<and>
    promoted (w_db w) (w_seqs w) mp path (to_observation o') digest n (w_db w')"
proof -
  let ?q = "w\<lparr>w_script := []\<rparr>"
  let ?b = "?q\<lparr>w_base := w_db ?q\<rparr>"
  have b: "quiet ?b" by (simp add: quiet_def)
  from promote_body_run [OF b, of p mp path o' seen digest n] assms(2-7)
  obtain w1 where w1: "promote_body p mp path seen digest n ?b = (Inr (), w1)" "quiet w1"
    "promoted (w_db w) (w_seqs w) mp path (to_observation o') digest n (w_db w1)" by auto
  from promote_quiet [OF quiet_update(5) w1(1,2)]
  have quiet: "promote p mp path seen digest n ?q = (Inr True, w1\<lparr>w_base := w_db w1\<rparr>)" .
  from undisturbed [OF faithful_promote assms(1,8,9) quiet] w1(3) show ?thesis by simp
qed

abbreviation sample_promote :: "(err + bool) \<times> world" where
  "sample_promote \<equiv> promote sample_proc 1 ''/d/a.pdf'' (to_observation (sample_obs ''/d/a.pdf'' 11 False)) ''bb'' 20
     (sample_world [Run])"

lemma promote_settles_witness:
  "db_outbox (w_db (snd sample_promote)) =
     [request (ExtractArgs 2) None, request (InvalidateThumbnailsArgs 1 1) None]"
proof -
  have "case fst sample_promote of Inl e \<Rightarrow> False | Inr b \<Rightarrow> b" by code_simp
  then have res: "fst sample_promote \<noteq> Inl ErrConn" by (auto split: sum.splits)
  have calm: "calm (sample_world [Run])" by (simp add: calm_def)
  have obs: "List.find (\<lambda>r. obs_key r = (1, ''/d/a.pdf'')) (db_obs (w_db (sample_world [Run]))) =
      Some (sample_obs ''/d/a.pdf'' 11 False)" by code_simp
  have same: "sameFile (to_observation (sample_obs ''/d/a.pdf'' 11 False)) (to_observation (sample_obs ''/d/a.pdf'' 11 False))"
    by (simp add: sameFile_def)
  have plain: "\<not> o_is_dir (sample_obs ''/d/a.pdf'' 11 False)" by (simp add: sample_obs_def)
  have vals: "identity_of sample_db sample_seqs 1 ''/d/a.pdf'' (to_observation (sample_obs ''/d/a.pdf'' 11 False)) ''bb'' = 1"
    "version_of sample_db sample_seqs ''bb'' = 2" "prior_version sample_db 1 = 1" by code_simp+
  have ok: "db_ok (w_db (sample_world [Run])) (w_seqs (sample_world [Run]))" using sample_db_ok by simp
  have mp: "1 \<in> m_id ` set (db_mountpoints (w_db (sample_world [Run])))" by simp
  from promote_settles [OF calm ok sample_proc_bound mp obs plain same prod.collapse [symmetric] res]
  show ?thesis by (simp add: promoted_def vals flip_jobs_def Let_def) (simp add: sample_db_def)
qed

text \<open>
  A stale observation mints nothing: when the path was deleted, became a directory or
  now names another file while its bytes were being hashed, promoting it changes no table.
\<close>

theorem promote_stale_mints_nothing:
  assumes "calm w" "stale (w_db w) mp path seen" "promote p mp path seen digest n w = (res, w')" "res \<noteq> Inl ErrConn"
  shows "res = Inr True \<and> w_db w' = w_db w"
proof -
  let ?q = "w\<lparr>w_script := []\<rparr>"
  have "quiet (?q\<lparr>w_base := w_db ?q\<rparr>)" "stale (w_db (?q\<lparr>w_base := w_db ?q\<rparr>)) mp path seen"
    using assms(2) by (simp_all add: quiet_def)
  note body = promote_body_stale_run [OF this] this(1)
  from undisturbed [OF faithful_promote assms(1,3,4) promote_quiet [OF quiet_update(5) body]]
  show ?thesis by simp
qed

lemma promote_stale_mints_nothing_witness:
  "w_db (snd (promote sample_proc 1 ''/d/gone.pdf'' (new_obs 3) ''bb'' 20 (sample_world [Run]))) = sample_db"
proof -
  let ?run = "promote sample_proc 1 ''/d/gone.pdf'' (new_obs 3) ''bb'' 20 (sample_world [Run])"
  have "case fst ?run of Inl e \<Rightarrow> False | Inr b \<Rightarrow> b" by code_simp
  then have res: "fst ?run \<noteq> Inl ErrConn" by (auto split: sum.splits)
  have stale: "stale (w_db (sample_world [Run])) 1 ''/d/gone.pdf'' (new_obs 3)" by code_simp
  have calm: "calm (sample_world [Run])" by (simp add: calm_def)
  from promote_stale_mints_nothing [OF calm stale prod.collapse [symmetric] res] show ?thesis by simp
qed

text \<open>
  A promotion that loses its compare-and-swap to another job is rolled back whole: it
  reports "try again" and the database is the one it found with the others' commits
  applied: no row, no version, no job of its own.
\<close>

theorem promote_lost_race_rolls_back:
  assumes "promote p mp path seen digest n w = (Inr False, w')"
  shows "\<exists>s. w_script w = s @ w_script w' \<and> w_db w' = interference s (w_db w)"
proof -
  obtain r w1 where tx: "InTx (promote_body p mp path seen digest n) w = (r, w1)"
    by (cases "InTx (promote_body p mp path seen digest n) w")
  with assms have "w1 = w'" "r = Inl ErrVersionRaced"
    by (auto simp: promote_def settled_def bind_def try_m_def ret_def fail_def split: sum.splits if_splits)
  with tx InTx_rollback [OF confined_promote_body] show ?thesis by blast
qed

definition rival :: "database \<Rightarrow> database" where
  "rival d = d\<lparr>db_docs := map (\<lambda>r. r\<lparr>d_current_cv := Some 1\<rparr>) (db_docs d)\<rparr>"

abbreviation sample_race :: "(err + bool) \<times> world" where
  "sample_race \<equiv> promote sample_proc 1 ''/d/s/b.pdf'' (to_observation (sample_obs ''/d/s/b.pdf'' 13 False)) ''bb'' 20
     (sample_world [Run, Run, Run, Run, Interfere rival])"

lemma promote_lost_race_rolls_back_witness:
  "\<exists>s. [Run, Run, Run, Run, Interfere rival] = s @ w_script (snd sample_race) \<and>
     w_db (snd sample_race) = interference s sample_db"
proof -
  have "case fst sample_race of Inl e \<Rightarrow> False | Inr b \<Rightarrow> \<not> b" by code_simp
  then have "fst sample_race = Inr False" by (auto split: sum.splits)
  then have run: "sample_race = (Inr False, snd sample_race)" by (metis prod.collapse)
  from promote_lost_race_rolls_back [OF run] show ?thesis by simp
qed

text \<open>
  Feeding the same bytes twice does nothing the second time: after a promotion has
  settled a path, promoting the same digest there again requests no job and leaves the same
  document live at the path with the same version.
\<close>

theorem promote_twice:
  assumes "calm w" "w_base w = w_db w" "db_ok (w_db w) (w_seqs w)" "eq_bound (pr_enqueuer p)"
    and "mp \<in> m_id ` set (db_mountpoints (w_db w))"
    and "List.find (\<lambda>r. obs_key r = (mp, path)) (db_obs (w_db w)) = Some o'"
    and "\<not> o_is_dir o'" "sameFile seen (to_observation o')"
    and "promote p mp path seen digest n w = (Inr b, w1)"
    and "calm w2" "w_db w2 = w_db w1" "w_seqs w2 = w_seqs w1"
    and "promote p mp path seen digest n w2 = (res, w3)" "res \<noteq> Inl ErrConn"
  shows "res = Inr True \<and> db_outbox (w_db w3) = db_outbox (w_db w1) \<and>
    (\<exists>x \<in> set (db_docs (w_db w1)). \<exists>y \<in> set (db_docs (w_db w3)).
       doc_at mp path x \<and> doc_at mp path y \<and> d_id x = d_id y \<and> d_current_cv x = d_current_cv y)"
proof -
  let ?d = "w_db w" and ?d1 = "w_db w1" and ?ob = "to_observation o'"
  let ?v = "version_of ?d (w_seqs w) digest" and ?did = "identity_of ?d (w_seqs w) mp path ?ob digest"
  from promote_settles [OF assms(1,3-9)] have p1: "promoted ?d (w_seqs w) mp path ?ob digest n ?d1" by simp
  have "holds_from db_ok (sq_epoch (w_seqs w)) w"
    using assms(1-3) calm_rely by (simp add: holds_from_def holds_def)
  from keepsD [OF schema.keeps_promote assms(9) this]
  have ok1: "db_ok ?d1 (w_seqs w1)" by (simp add: holds_from_def holds_def)
  have "holds_from (mountpoints_are (db_mountpoints ?d)) (sq_epoch (w_seqs w)) w"
    using assms(1,2) calm_rely by (simp add: holds_from_def holds_def mountpoints_are_def)
  from keepsD [OF mountpoints.keeps_promote assms(9) this]
  have mps: "db_mountpoints ?d1 = db_mountpoints ?d" by (simp add: holds_from_def holds_def mountpoints_are_def)
  from p1 obtain x c where x: "x \<in> set (db_docs ?d1)" "d_id x = ?did" "doc_at mp path x" "d_current_cv x = Some ?v"
    and c: "c \<in> set (db_cvs ?d1)" "cv_id c = ?v" "cv_content_hash c = digest"
    and obs: "db_obs ?d1 = db_obs ?d" by (auto simp: promoted_def Let_def)
  have docs1: "docs_ok ?d1 (w_seqs w1)" and cvs1: "distinct (map cv_content_hash (db_cvs ?d1))"
    using ok1 by (auto simp: db_ok_def cvs_ok_def)
  have "List.find (doc_at mp path) (db_docs ?d1) \<noteq> None" using x by (auto simp: find_None_set)
  then obtain y where "List.find (doc_at mp path) (db_docs ?d1) = Some y" by blast
  with live_unique [OF docs1 this x(1,3)] have at: "List.find (doc_at mp path) (db_docs ?d1) = Some x" by simp
  have id1: "identity_of ?d1 (w_seqs w1) mp path ?ob digest = ?did"
    by (simp add: identity_of_def at x(2))
  have v1: "version_of ?d1 (w_seqs w1) digest = ?v"
    using find_unique_key [OF cvs1 c(1)] c(2,3) by (simp add: version_of_def)
  have old1: "prior_version ?d1 ?did = ?v"
    using prior_version_of [OF ok1 x(1)] x(2,4) by (simp add: derefID_def)
  have p3: "promoted ?d1 (w_seqs w1) mp path ?ob digest n (w_db w3)" "res = Inr True"
    using promote_settles [OF assms(10) _ assms(4) _ _ assms(7,8,13,14)] assms(5,6,11,12) ok1 mps obs by simp_all
  from p3(1) obtain y where y: "y \<in> set (db_docs (w_db w3))" "d_id y = ?did" "doc_at mp path y" "d_current_cv y = Some ?v"
    by (auto simp: promoted_def Let_def id1 v1)
  from p3(1) have "db_outbox (w_db w3) = db_outbox ?d1" by (simp add: promoted_def Let_def id1 v1 old1)
  moreover have "doc_at mp path x \<and> doc_at mp path y \<and> d_id x = d_id y \<and> d_current_cv x = d_current_cv y"
    using x y by simp
  ultimately show ?thesis using p3(2) x(1) y(1) by blast
qed

lemma promote_twice_witness:
  "db_outbox (w_db (snd (promote sample_proc 1 ''/d/a.pdf'' (to_observation (sample_obs ''/d/a.pdf'' 11 False)) ''bb'' 20
     (snd sample_promote)))) = db_outbox (w_db (snd sample_promote))"
proof -
  let ?ob = "to_observation (sample_obs ''/d/a.pdf'' 11 False)"
  let ?again = "promote sample_proc 1 ''/d/a.pdf'' ?ob ''bb'' 20 (snd sample_promote)"
  have "case fst sample_promote of Inl e \<Rightarrow> False | Inr b \<Rightarrow> b" by code_simp
  then have "fst sample_promote = Inr True" by (auto split: sum.splits)
  then have run: "sample_promote = (Inr True, snd sample_promote)" by (metis prod.collapse)
  have "case fst ?again of Inl e \<Rightarrow> False | Inr b \<Rightarrow> b" by code_simp
  then have res: "fst ?again \<noteq> Inl ErrConn" by (auto split: sum.splits)
  have calm: "calm (sample_world [Run])" by (simp add: calm_def)
  have calm2: "calm (snd sample_promote)" using faithfulD [OF faithful_promote calm run] by simp
  have obs: "List.find (\<lambda>r. obs_key r = (1, ''/d/a.pdf'')) (db_obs (w_db (sample_world [Run]))) =
      Some (sample_obs ''/d/a.pdf'' 11 False)" by code_simp
  have same: "sameFile ?ob ?ob" by (simp add: sameFile_def)
  have plain: "\<not> o_is_dir (sample_obs ''/d/a.pdf'' 11 False)" by (simp add: sample_obs_def)
  have ok: "db_ok (w_db (sample_world [Run])) (w_seqs (sample_world [Run]))" using sample_db_ok by simp
  have mp: "1 \<in> m_id ` set (db_mountpoints (w_db (sample_world [Run])))" by simp
  have base: "w_base (sample_world [Run]) = w_db (sample_world [Run])" by simp
  from promote_twice [OF calm base ok sample_proc_bound mp obs plain same run calm2 refl refl prod.collapse [symmetric] res]
  show ?thesis by simp
qed

text \<open>
  Whatever an ingest job meets, a vanished file, a failing read, a lost race, a fault,
  concurrent commits, it leaves every constraint of the schema in force.
\<close>

theorem ProcessPath_keeps_schema:
  assumes "holds db_ok w"
  shows "holds db_ok (snd (ProcessPath p files mp path w))"
proof -
  have "holds_from db_ok (sq_epoch (w_seqs w)) w" using assms by (simp add: holds_from_def)
  with schema.keeps_ProcessPath [of "sq_epoch (w_seqs w)" p files mp path]
  show ?thesis by (simp add: keeps_def holds_from_def)
qed

lemma ProcessPath_keeps_schema_witness:
  "holds db_ok (snd (ProcessPath sample_proc (\<lambda>_. Opened [ReadOk ''ab'']) 1 ''/d/a.pdf'' (sample_world [Run, Run, Run, Run, Fault])))"
  by (rule ProcessPath_keeps_schema) (simp add: sample_holds)

section \<open>Hard links\<close>

text \<open>
  C26: The inode lookup does not ask whether the document's own path is gone: when two hard
  links of one file are both observed, processing the second takes the document away from
  the first, whose file is still there and is left without a live document.
\<close>

theorem hard_link_takes_document:
  assumes "calm w" "db_ok (w_db w) (w_seqs w)" "mp \<in> m_id ` set (db_mountpoints (w_db w))"
    and "x \<in> set (db_docs (w_db w))" "doc_at mp other x" "other \<noteq> path"
    and "\<And>y. y \<in> set (db_docs (w_db w)) \<Longrightarrow> \<not> doc_at mp path y"
    and "first_by d_id (\<lambda>r. d_mountpoint_id r = mp \<and> d_dev r = ob_dev ob \<and> d_ino r = ob_ino ob \<and> live r)
           (db_docs (w_db w)) = Some x" "ob_ino ob \<noteq> 0"
    and "resolveDocument mp path ob digest w = (res, w')" "res \<noteq> Inl ErrConn"
  shows "filter (doc_at mp other) (db_docs (w_db w')) = [] \<and>
    d_id ` set (filter (doc_at mp path) (db_docs (w_db w'))) = {d_id x} \<and> db_obs (w_db w') = db_obs (w_db w)"
proof -
  let ?q = "w\<lparr>w_script := []\<rparr>"
  have none: "List.find (doc_at mp path) (db_docs (w_db w)) = None" using assms(7) by (simp add: find_None_set)
  have live: "live x" "d_mountpoint_id x = mp" using assms(5) by (auto simp: doc_at_def)
  have id: "identity_of (w_db w) (w_seqs w) mp path ob digest = d_id x"
    using none assms(8,9) by (simp add: identity_of_def)
  have "d_id y = d_id x" if "y \<in> set (db_docs (w_db ?q))" "doc_at mp path y" for y using that assms(7) by simp
  from adopt_run [where w = ?q and path = path and ob = ob, OF quiet_update(5) _ _ live this] assms(2,4)
  have ad: "adopt (toDocument x) path ob ?q = (Inr (toDocument x), put_docs ?q (adopted (w_db w) (d_id x) path ob))"
    by simp
  have "resolveDocument mp path ob digest ?q = (Inr (toDocument x), put_docs ?q (adopted (w_db w) (d_id x) path ob))"
    using none assms(8,9) ad
    by (simp add: resolveDocument_def bind_def FindLiveDocumentByPath_run FindLiveDocumentByInode_run)
  from undisturbed [OF faithful_resolve assms(1,10,11) this]
  have db: "w_db w' = (w_db w)\<lparr>db_docs := adopted (w_db w) (d_id x) path ob\<rparr>" by simp
  have docs: "docs_ok (w_db w) (w_seqs w)" using assms(2) by (simp add: db_ok_def)
  have ix: "index_ok live_key (db_docs (w_db w))" using docs by (simp add: docs_ok_def)
  have only: "y = x" if "y \<in> set (db_docs (w_db w))" "doc_at mp other y" for y
    using index_ok_inj [OF ix that(1) assms(4)] that(2) assms(5) by (simp add: live_key_def doc_at_def)
  have gone: "\<not> doc_at mp other y" if "y \<in> set (adopted (w_db w) (d_id x) path ob)" for y
  proof -
    from that consider z where "y = relocated path (ob_dev ob) (ob_ino ob) (db_now (w_db w)) z"
      | "y \<in> set (db_docs (w_db w))" "d_id y \<noteq> d_id x"
      unfolding adopted_def set_update_where by blast
    then show ?thesis
    proof cases
      case 1
      then show ?thesis using assms(6) by (simp add: relocated_def doc_at_def)
    next
      case 2
      with only show ?thesis by blast
    qed
  qed
  from resolveDocument_order [OF assms(1,2,3,10,11)] id
  have "d_id ` set (filter (doc_at mp path) (db_docs (w_db w'))) = {d_id x}" by simp
  with gone show ?thesis unfolding db by (simp add: filter_empty_conv)
qed

lemma hard_link_takes_document_witness:
  "filter (doc_at 1 ''/d/a.pdf'') (db_docs (w_db
     (snd (resolveDocument 1 ''/d/n.pdf'' (new_obs 11) ''aa'' (sample_world [Run]))))) = []"
proof -
  let ?run = "resolveDocument 1 ''/d/n.pdf'' (new_obs 11) ''aa'' (sample_world [Run])"
  let ?x = "sample_doc 1 ''/d/a.pdf'' 11 (Some 1)"
  have "case fst ?run of Inl e \<Rightarrow> False | Inr d \<Rightarrow> True" by code_simp
  then have res: "fst ?run \<noteq> Inl ErrConn" by (auto split: sum.splits)
  have calm: "calm (sample_world [Run])" by (simp add: calm_def)
  have ok: "db_ok (w_db (sample_world [Run])) (w_seqs (sample_world [Run]))" using sample_db_ok by simp
  have mp: "1 \<in> m_id ` set (db_mountpoints (w_db (sample_world [Run])))" by simp
  have x: "?x \<in> set (db_docs (w_db (sample_world [Run])))" by (simp add: sample_db_def)
  have at: "doc_at 1 ''/d/a.pdf'' ?x" by (simp add: doc_at_def sample_doc_def live_def)
  have ne: "''/d/a.pdf'' \<noteq> ''/d/n.pdf''" by simp
  have free: "\<not> doc_at 1 ''/d/n.pdf'' y" if "y \<in> set (db_docs (w_db (sample_world [Run])))" for y
    using that by (auto simp: sample_db_def sample_doc_def doc_at_def)
  have first: "first_by d_id (\<lambda>r. d_mountpoint_id r = 1 \<and> d_dev r = ob_dev (new_obs 11) \<and>
      d_ino r = ob_ino (new_obs 11) \<and> live r) (db_docs (w_db (sample_world [Run]))) = Some ?x"
    by (simp add: sample_db_def sample_doc_def new_obs_def live_def first_by_def)
  have ino: "ob_ino (new_obs 11) \<noteq> 0" by (simp add: new_obs_def)
  from hard_link_takes_document [OF calm ok mp x at ne free first ino prod.collapse [symmetric] res]
  show ?thesis by simp
qed

end
