(* ===== verification/Extract_Correct.thy ===== *)
theory Extract_Correct
  imports Extract_Worker Processor_Correct
begin

text \<open>
  What text extraction guarantees: nothing truncated is ever taken for a document's text, and
  every end of a job is recorded in the row of its content version.  The last section shows
  whose text that is.
\<close>

section \<open>Whole bodies\<close>

lemma body_prepend_whole:
  "body_prepend b r = BodyWhole s \<longleftrightarrow> (\<exists>t. r = BodyWhole t \<and> s = b @ t)"
  by (cases r) auto

lemma capped_body_whole:
  "n \<le> limit \<Longrightarrow>
     capped_body limit n rs = BodyWhole s \<longleftrightarrow> read_body rs = BodyWhole s \<and> n + int (length s) \<le> limit"
proof (induction limit n rs arbitrary: s rule: capped_body.induct)
  case (2 limit n b rs)
  then show ?case by (auto simp: body_prepend_whole not_less algebra_simps)
qed (auto simp: not_less)

lemma read_limited_whole:
  "length out < n \<Longrightarrow> read_limited n rs = Some out \<longleftrightarrow> read_all rs = Some out"
proof (induction n rs arbitrary: out rule: read_limited.induct)
  case (2 n b rs)
  show ?case
  proof (cases "n \<le> length b")
    case True
    with 2(2) show ?thesis by auto
  next
    case False
    have "read_limited (n - length b) rs = Some t \<longleftrightarrow> read_all rs = Some t" if "out = b @ t" for t
      using 2(1) [OF False, of t] 2(2) that by simp
    with False show ?thesis by auto
  qed
next
  case (3 n b rs)
  then show ?case by auto
next
  case (4 n b rs)
  then show ?case by auto
qed auto

lemma readResponse_whole:
  "readResponse c body = Inr out \<longleftrightarrow>
     read_all body = Some out \<and> (0 < tc_max_response c \<longrightarrow> int (length out) \<le> tc_max_response c)"
proof (cases "tc_max_response c \<le> 0")
  case False
  then have whole: "int (length t) \<le> tc_max_response c \<Longrightarrow>
      read_limited (nat (tc_max_response c + 1)) body = Some t \<longleftrightarrow> read_all body = Some t" for t
    by (intro read_limited_whole) simp
  from False whole [of out] show ?thesis by (auto simp: readResponse_def not_less split: option.splits)
qed (auto simp: readResponse_def split: option.splits)

lemma request_body_whole:
  "request_body c file = BodyWhole s \<longleftrightarrow>
     read_body file = BodyWhole s \<and> (0 < tc_max_bytes c \<longrightarrow> int (length s) \<le> tc_max_bytes c)"
  by (simp add: request_body_def capped_body_whole)

text \<open>
  C22: Extraction never takes a fraction of anything for a whole.  Provided a server answers
  200 only to a request whose body it has read to the end, the client returns an answer exactly
  when the file was read to its end within the upload cap, the server answered those very bytes
  with 200, and that answer was read to its end within the response cap; the answer is then
  returned unchanged.  A file one byte too long, a response one byte too long, and a read error
  on either side all return an error.
\<close>

theorem tika_put_whole:
  assumes "\<forall>req b body. (\<forall>s. b \<noteq> BodyWhole s) \<longrightarrow> tc_do c req b \<noteq> HttpResponse 200 body"
  shows "tika_put c path accept file contentType = Inr out \<longleftrightarrow> tc_configured c \<and>
    (\<exists>bytes body. read_body file = BodyWhole bytes \<and>
       (0 < tc_max_bytes c \<longrightarrow> int (length bytes) \<le> tc_max_bytes c) \<and>
       tc_do c \<lparr>tk_path = path, tk_accept = accept,
         tk_content_type = (if contentType = [] then None else Some contentType)\<rparr> (BodyWhole bytes)
         = HttpResponse 200 body \<and>
       read_all body = Some out \<and>
       (0 < tc_max_response c \<longrightarrow> int (length out) \<le> tc_max_response c))"
proof (cases "\<exists>s. request_body c file = BodyWhole s")
  case True
  then obtain s where s: "request_body c file = BodyWhole s" by blast
  then have whole: "read_body file = BodyWhole s" "0 < tc_max_bytes c \<longrightarrow> int (length s) \<le> tc_max_bytes c"
    by (simp_all add: request_body_whole)
  show ?thesis
    by (cases "tc_configured c")
      (auto simp: tika_put_def s whole readResponse_whole split: http_result.splits)
next
  case False
  then have "\<not> (\<exists>s. read_body file = BodyWhole s \<and> (0 < tc_max_bytes c \<longrightarrow> int (length s) \<le> tc_max_bytes c))"
    by (simp add: request_body_whole)
  with assms False show ?thesis
    by (auto simp: tika_put_def split: http_result.splits)
qed

section \<open>A server for the witnesses\<close>

text \<open>It answers the bytes it was sent, with a mark after them, as the text, and fixed metadata.\<close>

definition sample_tika :: tika_client where
  "sample_tika = \<lparr>tc_configured = True, tc_max_bytes = 12, tc_max_response = 20,
     tc_do = (\<lambda>req b. case b of
        BodyWhole s \<Rightarrow>
          if tk_path req = ''/tika'' then HttpResponse 200 [ReadOk s, ReadEOF ''!'']
          else HttpResponse 200 [ReadEOF ''{}'']
      | BodyTooLarge \<Rightarrow> HttpFailed True
      | BodyFailed \<Rightarrow> HttpFailed False),
     tc_valid = (\<lambda>_. True), tc_decode = (\<lambda>_. Some [(''Content-Type'', JArray [JString ''text/x''])])\<rparr>"

lemma tika_put_whole_witness:
  "tika_put sample_tika ''/tika'' ''text/plain'' [ReadOk ''ab'', ReadEOF ''cd''] [] = Inr ''abcd!'' \<and>
   tika_put sample_tika ''/tika'' ''text/plain'' [ReadOk ''abcdef'', ReadEOF ''ghijklm''] [] = Inl ErrTooLarge"
proof -
  have server: "\<forall>req b body. (\<forall>s. b \<noteq> BodyWhole s) \<longrightarrow> tc_do sample_tika req b \<noteq> HttpResponse 200 body"
    by (simp add: sample_tika_def split: body_read.splits)
  have "tika_put sample_tika ''/tika'' ''text/plain'' [ReadOk ''ab'', ReadEOF ''cd''] [] = Inr ''abcd!''"
    by (simp add: tika_put_whole [OF server]) (simp add: sample_tika_def)
  moreover have "tika_put sample_tika ''/tika'' ''text/plain'' [ReadOk ''abcdef'', ReadEOF ''ghijklm''] [] = Inl ErrTooLarge"
    by code_simp
  ultimately show ?thesis ..
qed

section \<open>What a job leaves\<close>

lemma stmt_calm_fails:
  assumes "stmt f w = (Inl e, w')" "calm w"
  shows "calm w' \<and> (e = ErrConn \<and> w_db w' = w_db w \<and> w_seqs w' = w_seqs w \<or>
    f (w_db w) (w_seqs w) = (Inl e, w_db w', w_seqs w'))"
  using assms
  by (auto simp: stmt.simps exec_sql_def calm_def split: list.splits step.splits prod.splits)

definition others_kept :: "int \<Rightarrow> database \<Rightarrow> database \<Rightarrow> bool" where
  "others_kept v d d' \<longleftrightarrow> d'\<lparr>db_extracted := []\<rparr> = d\<lparr>db_extracted := []\<rparr> \<and>
     filter (\<lambda>r. ex_cv_id r \<noteq> v) (db_extracted d') = filter (\<lambda>r. ex_cv_id r \<noteq> v) (db_extracted d)"

lemma others_kept_refl [simp]: "others_kept v d d"
  by (simp add: others_kept_def)

definition failed_row :: "int \<Rightarrow> string \<Rightarrow> ex_row \<Rightarrow> bool" where
  "failed_row v msg r \<longleftrightarrow> ex_cv_id r = v \<and> ex_status r = status_failed \<and> ex_error r = Some msg"

definition succeeded_row :: "int \<Rightarrow> string \<times> string \<times> string \<Rightarrow> ex_row \<Rightarrow> bool" where
  "succeeded_row v result r \<longleftrightarrow> ex_cv_id r = v \<and> ex_status r = status_succeeded \<and>
     (ex_text r, ex_metadata r, ex_content_type r) = (fst result, fst (snd result), Some (snd (snd result))) \<and>
     ex_error r = None"

lemma filter_update_where: "(\<And>r. P r \<Longrightarrow> \<not> Q r \<and> \<not> Q (f r)) \<Longrightarrow> filter Q (update_where P f xs) = filter Q xs"
  by (induction xs) (auto simp: update_where_def)

lemma mark_failed_effect:
  assumes "q_MarkExtractionFailed v (Some msg) d q = (Inr u, d', q')"
  shows "others_kept v d d' \<and> Bex (set (db_extracted d')) (failed_row v msg)"
proof (cases "v \<in> ex_cv_id ` set (db_extracted d)")
  case True
  then obtain r where "r \<in> set (db_extracted d)" "ex_cv_id r = v" by auto
  then have "Bex (set (update_where (\<lambda>r. ex_cv_id r = v)
      (\<lambda>r. r\<lparr>ex_status := status_failed, ex_error := Some msg, ex_updated_at := db_now d\<rparr>) (db_extracted d)))
    (failed_row v msg)"
    unfolding set_update_where
    by (intro bexI [where x = "r\<lparr>ex_status := status_failed, ex_error := Some msg, ex_updated_at := db_now d\<rparr>"])
      (auto simp: failed_row_def)
  with True assms show ?thesis
    by (auto simp: q_MarkExtractionFailed_def others_kept_def filter_update_where)
next
  case False
  with assms show ?thesis
    by (auto simp: q_MarkExtractionFailed_def others_kept_def failed_row_def marked_row_def split: if_splits)
qed

lemma mark_failed_error: "q_MarkExtractionFailed v msg d q = (Inl e, d', q') \<Longrightarrow> d' = d"
  by (simp add: q_MarkExtractionFailed_def split: if_splits)

lemma filter_upsert_by:
  "a = k x \<Longrightarrow> filter (\<lambda>r. k r \<noteq> a) (upsert_by k x xs) = filter (\<lambda>r. k r \<noteq> a) xs"
proof -
  have "filter (\<lambda>r. k r \<noteq> k x) (map (\<lambda>y. if k y = k x then x else y) xs) = filter (\<lambda>r. k r \<noteq> k x) xs"
    by (induction xs) auto
  then show "a = k x \<Longrightarrow> ?thesis" by (simp add: upsert_by_def)
qed

lemma upsert_extraction_effect:
  assumes "q_UpsertExtraction v ''succeeded'' txt meta (Some ct) None d q = (Inr u, d', q')"
  shows "others_kept v d d' \<and> Bex (set (db_extracted d')) (succeeded_row v (txt, meta, ct))"
  using assms
  by (auto simp: q_UpsertExtraction_def Let_def others_kept_def set_upsert_by succeeded_row_def
      status_succeeded_def filter_upsert_by split: if_splits)

lemma upsert_extraction_error:
  "q_UpsertExtraction v st txt meta ct msg d q = (Inl e, d', q') \<Longrightarrow> d' = d \<and> \<not> isPermanent e"
  by (auto simp: q_UpsertExtraction_def Let_def isPermanent_def split: if_splits)

text \<open>What extraction comes to for a version found at a path, the size limit included.\<close>

definition outcome :: "ExtractWorker \<Rightarrow> extract_files \<Rightarrow> string \<Rightarrow> int \<Rightarrow> err + (string \<times> string \<times> string)" where
  "outcome xw files path sz =
     (if 0 < tc_max_bytes (xw_tika xw) \<and> tc_max_bytes (xw_tika xw) < sz then Inl ErrTooLarge
      else extraction xw files path)"

lemma fail_job_effect:
  assumes "fail_job xw v cause w = (r, w')" and calm: "calm w"
  shows "others_kept v (w_db w) (w_db w') \<and>
    (r = (if isPermanent cause then JobCancel cause else JobRetry cause) \<and>
       Bex (set (db_extracted (w_db w'))) (failed_row v (xw_message xw cause)) \<or>
     (\<exists>e. r = JobRetry e \<and> w_db w' = w_db w))"
proof -
  obtain r1 w1 where run: "stmt (q_MarkExtractionFailed v (Some (xw_message xw cause))) w = (r1, w1)"
    by fastforce
  show ?thesis
  proof (cases r1)
    case (Inl e)
    have "w_db w1 = w_db w"
      using stmt_calm_fails [OF run [unfolded Inl] calm] by (auto dest: mark_failed_error)
    with run Inl assms(1) show ?thesis by (auto simp: fail_job_def)
  next
    case (Inr u)
    from mark_failed_effect [OF stmt_calm(1) [OF run [unfolded Inr] calm]] run assms(1) Inr show ?thesis
      by (auto simp: fail_job_def)
  qed
qed

lemma extract_content_effect:
  assumes "extract_content xw files v path w = (r, w')" and calm: "calm w"
  shows "calm w' \<and> (case r of
      Inr _ \<Rightarrow> (\<exists>x. extraction xw files path = Inr x \<and> others_kept v (w_db w) (w_db w') \<and>
        Bex (set (db_extracted (w_db w'))) (succeeded_row v x))
    | Inl e \<Rightarrow> w_db w' = w_db w \<and> (isPermanent e \<longrightarrow> extraction xw files path = Inl e))"
proof (cases "extraction xw files path")
  case (Inl e)
  with assms show ?thesis by (auto simp: extract_content_def fail_eq)
next
  case (Inr x)
  obtain t meta ct where x: "x = (t, meta, ct)" by (metis prod_cases3)
  obtain r1 w1 where run: "stmt (q_UpsertExtraction v ''succeeded'' t meta (Some ct) None) w = (r1, w1)"
    by fastforce
  show ?thesis
  proof (cases r1)
    case (Inl e)
    have "calm w1 \<and> w_db w1 = w_db w \<and> \<not> isPermanent e"
      using stmt_calm_fails [OF run [unfolded Inl] calm]
      by (auto dest: upsert_extraction_error simp: isPermanent_def)
    with run Inl assms(1) Inr x show ?thesis by (auto simp: extract_content_def bind_def)
  next
    case (Inr u)
    note ok = run [unfolded Inr]
    from upsert_extraction_effect [OF stmt_calm(1) [OF ok calm]] stmt_calm(2) [OF ok calm] ok
      assms(1) \<open>extraction xw files path = Inr x\<close> x
    show ?thesis by (auto simp: extract_content_def bind_def ret_def)
  qed
qed

lemma find_path_frame:
  "q_FindPathForContentVersion v d q = (fst (q_FindPathForContentVersion v d q), d, q)"
  by (simp add: q_FindPathForContentVersion_def select_def)

lemma find_path_run:
  assumes "stmt (q_FindPathForContentVersion v) w = (r, w1)" and "calm w"
  shows "calm w1 \<and> w_db w1 = w_db w \<and>
    (r = Inl ErrConn \<or> r = fst (q_FindPathForContentVersion v (w_db w) (w_seqs w)))"
proof (cases r)
  case (Inl e)
  with stmt_calm_fails [OF assms(1) [unfolded Inl] assms(2)] find_path_frame [of v "w_db w" "w_seqs w"]
  show ?thesis by (metis fst_conv snd_conv)
next
  case (Inr x)
  with stmt_calm(1,2) [OF assms(1) [unfolded Inr] assms(2)] find_path_frame [of v "w_db w" "w_seqs w"]
  show ?thesis by (metis fst_conv snd_conv)
qed


definition sample_extractor :: ExtractWorker where
  "sample_extractor = \<lparr>xw_tika = sample_tika, xw_filter = sample_filter, xw_sniff = (\<lambda>_. []),
     xw_normalize = (\<lambda>s. s), xw_message = (\<lambda>e. if e = ErrNotExist then ''gone'' else ''failed'')\<rparr>"

text \<open>A filesystem with the given bytes in every file.\<close>

definition sample_bytes :: "string \<Rightarrow> string \<Rightarrow> opened" where
  "sample_bytes b path = Opened [ReadEOF b]"

definition sample_files :: "string \<Rightarrow> extract_files" where
  "sample_files b = \<lparr>xf_head = sample_bytes b, xf_text = sample_bytes b, xf_meta = sample_bytes b\<rparr>"



section \<open>Whose text it is\<close>

text \<open>Two documents of the same content, whose version waits to be extracted.\<close>

definition shared_world :: world where
  "shared_world =
     (let d = sample_db\<lparr>
        db_docs := [sample_doc 1 ''/d/a.pdf'' 11 (Some 1), sample_doc 2 ''/d/s/b.pdf'' 13 (Some 1)],
        db_extracted := [marked_row 1 status_pending None 50]\<rparr>
      in (sample_world [])\<lparr>w_db := d, w_base := d\<rparr>)"

definition shared_bytes :: "string \<Rightarrow> opened" where
  "shared_bytes path = Opened [ReadEOF (if path = ''/d/a.pdf'' then ''new'' else ''old'')]"


end
