(* ===== verification/Search_Service.thy ===== *)
theory Search_Service
  imports Service_Refs Processor
begin

text \<open>
  Search: the page tokens (\<open>internal/service/token.go\<close>), the handler and its snippets
  (\<open>internal/service/search.go\<close>) and the two statements behind it
  (\<open>internal/store/sqlcgen/search.sql.go\<close>).  SHA-256, the JSON decoder of a token, NFKC and the
  operators of the pg_search extension are parameters; a score is a finite \<open>float32\<close>, so a
  rational.
\<close>

section \<open>base64.RawURLEncoding\<close>

definition b64_char :: "int \<Rightarrow> char" where
  "b64_char n =
     (if n < 26 then char_of (65 + n) else if n < 52 then char_of (71 + n)
      else if n < 62 then char_of (n - 4) else if n = 62 then CHR ''-'' else CHR ''_'')"

definition b64_value :: "char \<Rightarrow> int option" where
  "b64_value c =
     (let n = of_char c :: int in
      if 65 \<le> n \<and> n \<le> 90 then Some (n - 65) else if 97 \<le> n \<and> n \<le> 122 then Some (n - 71)
      else if 48 \<le> n \<and> n \<le> 57 then Some (n + 4) else if n = 45 then Some 62
      else if n = 95 then Some 63 else None)"

text \<open>The 6-bit groups of the bytes, and the bytes of the groups; a lone group is an error.\<close>

fun b64_groups :: "int list \<Rightarrow> int list" where
  "b64_groups [] = []"
| "b64_groups [a] = [a div 4, (a mod 4) * 16]"
| "b64_groups [a, b] = [a div 4, (a mod 4) * 16 + b div 16, (b mod 16) * 4]"
| "b64_groups (a # b # c # r) =
     [a div 4, (a mod 4) * 16 + b div 16, (b mod 16) * 4 + c div 64, c mod 64] @ b64_groups r"

fun b64_bytes :: "int list \<Rightarrow> int list option" where
  "b64_bytes [] = Some []"
| "b64_bytes [a] = None"
| "b64_bytes [a, b] = Some [a * 4 + b div 16]"
| "b64_bytes [a, b, c] = Some [a * 4 + b div 16, (b mod 16) * 16 + c div 4]"
| "b64_bytes (a # b # c # d # r) =
     map_option (append [a * 4 + b div 16, (b mod 16) * 16 + c div 4, (c mod 4) * 64 + d]) (b64_bytes r)"

fun b64_values :: "string \<Rightarrow> int list option" where
  "b64_values [] = Some []"
| "b64_values (c # cs) =
     (if c = CHR 10 \<or> c = CHR 13 then b64_values cs
      else case b64_value c of None \<Rightarrow> None | Some n \<Rightarrow> map_option (Cons n) (b64_values cs))"

definition b64_encode :: "string \<Rightarrow> string" where
  "b64_encode s = map b64_char (b64_groups (map of_char s))"

definition b64_decode :: "string \<Rightarrow> string option" where
  "b64_decode s = map_option (map char_of) (Option.bind (b64_values s) b64_bytes)"

section \<open>Page tokens\<close>

record token_codec =
  tc_sha256 :: "string \<Rightarrow> string"
  tc_unmarshal :: "string \<Rightarrow> (string \<times> int) option"   \<comment> \<open>\<open>json.Unmarshal\<close> into a \<open>pageToken\<close>\<close>

definition queryDigest :: "token_codec \<Rightarrow> string \<Rightarrow> string" where
  "queryDigest tc query = hex_encode (take 8 (tc_sha256 tc query))"

text \<open>\<open>json.Marshal\<close> of a \<open>pageToken\<close>: the digest is hexadecimal and needs no escaping.\<close>

definition marshal_token :: "string \<Rightarrow> int \<Rightarrow> string" where
  "marshal_token q offset =
     [CHR ''{'', CHR 34, CHR ''q'', CHR 34, CHR '':'', CHR 34] @ q @
     [CHR 34, CHR '','', CHR 34, CHR ''o'', CHR 34, CHR '':''] @ FormatInt offset @ ''}''"

definition maxPageOffset :: int where "maxPageOffset = 1073741824"

definition encodePageToken :: "token_codec \<Rightarrow> string \<Rightarrow> int \<Rightarrow> string" where
  "encodePageToken tc query offset = b64_encode (marshal_token (queryDigest tc query) offset)"

definition decodePageToken :: "token_codec \<Rightarrow> string \<Rightarrow> string \<Rightarrow> code + int" where
  "decodePageToken tc token query =
     (if token = [] then Inr 0
      else case b64_decode token of
             None \<Rightarrow> Inl CodeInvalidArgument
           | Some body \<Rightarrow>
               (case tc_unmarshal tc body of
                  None \<Rightarrow> Inl CodeInvalidArgument
                | Some (q, offset) \<Rightarrow>
                    if q \<noteq> queryDigest tc query then Inl CodeInvalidArgument
                    else if offset < 0 \<or> maxPageOffset < offset then Inl CodeInvalidArgument
                    else Inr offset))"

section \<open>The statements\<close>

text \<open>
  What pg_search decides of a query and an extracted text, in the corpus the database holds:
  the boosted dictionary match of \<open>SearchDocuments\<close>, the plain one of
  \<open>CountSearchDocuments\<close>, the ngram match of both, the score and the snippet.
\<close>

record search_index =
  ix_boosted :: "database \<Rightarrow> string \<Rightarrow> ex_row \<Rightarrow> bool"
  ix_plain :: "database \<Rightarrow> string \<Rightarrow> ex_row \<Rightarrow> bool"
  ix_ngram :: "database \<Rightarrow> string \<Rightarrow> ex_row \<Rightarrow> bool"
  ix_score :: "database \<Rightarrow> string \<Rightarrow> ex_row \<Rightarrow> rat"
  ix_snippet :: "database \<Rightarrow> string \<Rightarrow> ex_row \<Rightarrow> string option"

record SearchDocumentsRow =
  sd_document_id :: int
  sd_mountpoint_id :: int
  sd_root_path :: string
  sd_path :: string
  sd_content_version_id :: int
  sd_content_hash :: string
  sd_size_bytes :: int
  sd_content_type :: "string option"
  sd_score :: rat
  sd_snippet :: string

text \<open>SQL's \<open>left\<close> counts characters, and a character is a byte and its UTF-8 continuations.\<close>

definition is_continuation :: "char \<Rightarrow> bool" where
  "is_continuation c \<longleftrightarrow> (128::int) \<le> of_char c \<and> of_char c < (192::int)"

fun sql_left :: "string \<Rightarrow> int \<Rightarrow> string" where
  "sql_left [] n = []"
| "sql_left (c # cs) n =
     (if is_continuation c then c # sql_left cs n
      else if n \<le> 0 then [] else c # sql_left cs (n - 1))"

definition search_row ::
  "search_index \<Rightarrow> database \<Rightarrow> string \<Rightarrow> ex_row \<Rightarrow> doc_row \<Rightarrow> cv_row \<Rightarrow> mountpoint_row \<Rightarrow> SearchDocumentsRow" where
  "search_row ix d query x r c m =
     \<lparr>sd_document_id = d_id r, sd_mountpoint_id = d_mountpoint_id r, sd_root_path = m_root_path m,
      sd_path = d_path r, sd_content_version_id = ex_cv_id x, sd_content_hash = cv_content_hash c,
      sd_size_bytes = cv_size_bytes c, sd_content_type = ex_content_type x,
      sd_score = ix_score ix d query x,
      sd_snippet = (case ix_snippet ix d query x of Some s \<Rightarrow> s | None \<Rightarrow> sql_left (ex_text x) 200)\<rparr>"

definition searchable :: "ex_row \<Rightarrow> doc_row \<Rightarrow> bool" where
  "searchable x r \<longleftrightarrow> d_current_cv r = Some (ex_cv_id x) \<and> ex_status x = status_succeeded \<and> live r"

definition search_rows :: "search_index \<Rightarrow> database \<Rightarrow> string \<Rightarrow> SearchDocumentsRow list" where
  "search_rows ix d query =
     [search_row ix d query x r c m.
        x \<leftarrow> db_extracted d, ix_boosted ix d query x \<or> ix_ngram ix d query x,
        r \<leftarrow> db_docs d, searchable x r,
        c \<leftarrow> db_cvs d, cv_id c = ex_cv_id x,
        m \<leftarrow> db_mountpoints d, m_id m = d_mountpoint_id r]"

text \<open>\<open>ORDER BY score DESC, document_id ASC\<close>.\<close>

definition ranked :: "search_index \<Rightarrow> database \<Rightarrow> string \<Rightarrow> SearchDocumentsRow list" where
  "ranked ix d query = sort_key (\<lambda>r. - sd_score r) (sort_key sd_document_id (search_rows ix d query))"

definition q_SearchDocuments :: "search_index \<Rightarrow> string \<Rightarrow> int \<Rightarrow> int \<Rightarrow> SearchDocumentsRow list sql" where
  "q_SearchDocuments ix query offset limit = select (\<lambda>d.
     if offset < 0 \<or> limit < 0 then Inl ErrCheck
     else Inr (take (nat limit) (drop (nat offset) (ranked ix d query))))"

definition q_CountSearchDocuments :: "search_index \<Rightarrow> string \<Rightarrow> int sql" where
  "q_CountSearchDocuments ix query = select (\<lambda>d.
     Inr (int (length [(x, r).
        x \<leftarrow> db_extracted d, ix_plain ix d query x \<or> ix_ngram ix d query x,
        r \<leftarrow> db_docs d, searchable x r])))"

text \<open>The two statements that isolate one field, for comparing their quality.\<close>

record SearchFieldRow =
  sf_document_id :: int
  sf_path :: string
  sf_score :: rat
  sf_snippet :: string

definition field_rows :: "(ex_row \<Rightarrow> bool) \<Rightarrow> search_index \<Rightarrow> database \<Rightarrow> string \<Rightarrow> SearchFieldRow list" where
  "field_rows hit ix d query = sort_key (\<lambda>r. - sf_score r) (sort_key sf_document_id
     [\<lparr>sf_document_id = d_id r, sf_path = d_path r, sf_score = ix_score ix d query x,
       sf_snippet = (case ix_snippet ix d query x of Some s \<Rightarrow> s | None \<Rightarrow> sql_left (ex_text x) 200)\<rparr>.
        x \<leftarrow> db_extracted d, hit x, r \<leftarrow> db_docs d, searchable x r])"

definition q_SearchDocumentsLindera :: "search_index \<Rightarrow> string \<Rightarrow> int \<Rightarrow> int \<Rightarrow> SearchFieldRow list sql" where
  "q_SearchDocumentsLindera ix query offset limit = select (\<lambda>d.
     if offset < 0 \<or> limit < 0 then Inl ErrCheck
     else Inr (take (nat limit) (drop (nat offset) (field_rows (ix_plain ix d query) ix d query))))"

definition q_SearchDocumentsNgram :: "search_index \<Rightarrow> string \<Rightarrow> int \<Rightarrow> int \<Rightarrow> SearchFieldRow list sql" where
  "q_SearchDocumentsNgram ix query offset limit = select (\<lambda>d.
     if offset < 0 \<or> limit < 0 then Inl ErrCheck
     else Inr (take (nat limit) (drop (nat offset) (field_rows (ix_ngram ix d query) ix d query))))"

section \<open>The handler\<close>

definition defaultPageSize :: int where "defaultPageSize = 20"
definition maxPageSize :: int where "maxPageSize = 100"
definition defaultMaxSnippets :: int where "defaultMaxSnippets = 1"
definition highlightOpen :: string where "highlightOpen = ''<b>''"
definition highlightClose :: string where "highlightClose = ''</b>''"

definition resolvePageSize :: "u32 \<Rightarrow> int" where
  "resolvePageSize wanted = (if wanted = 0 then defaultPageSize else min (uint wanted) maxPageSize)"

definition snippetBudget :: "u32 \<Rightarrow> int" where
  "snippetBudget wanted =
     (if wanted = 0 then defaultMaxSnippets else min (uint wanted) defaultMaxSnippets)"

record SnippetSegment =
  sg_text :: string
  sg_highlighted :: bool

definition appendText :: "string \<Rightarrow> bool \<Rightarrow> SnippetSegment list" where
  "appendText txt highlighted = (if txt = [] then [] else [\<lparr>sg_text = txt, sg_highlighted = highlighted\<rparr>])"

lemma str_index_bound: "str_index s sub = Some i \<Longrightarrow> i + length sub \<le> length s"
proof (induction s arbitrary: i)
  case Nil
  then show ?case by (auto simp: str_index.simps [of "[]"] has_prefix_def split: if_splits)
next
  case (Cons c cs)
  then show ?case
    using has_prefix_length [of "c # cs" sub]
    by (auto simp: str_index.simps [of "c # cs"] split: if_splits)
qed

text \<open>The loop, on what is left of the snippet.\<close>

function segment_loop :: "string \<Rightarrow> SnippetSegment list" where
  "segment_loop rest =
     (case str_index rest highlightOpen of
        None \<Rightarrow> appendText rest False
      | Some opening \<Rightarrow>
          (case str_index (drop opening rest) highlightClose of
             None \<Rightarrow> appendText rest False
           | Some closing \<Rightarrow>
               appendText (take opening rest) False @
               appendText (drop (opening + length highlightOpen) (take (opening + closing) rest)) True @
               segment_loop (drop (opening + closing + length highlightClose) rest)))"
  by pat_completeness auto

termination
proof (relation "measure length", simp)
  fix rest :: string and i j
  assume "str_index rest highlightOpen = Some i"
  then have "length rest \<ge> 3"
    using str_index_bound [of rest highlightOpen i] by (simp add: highlightOpen_def)
  then show "(drop (i + j + length highlightClose) rest, rest) \<in> measure length"
    by (simp add: highlightClose_def)
qed

declare segment_loop.simps [simp del]

definition snippetSegments :: "string \<Rightarrow> SnippetSegment list" where
  "snippetSegments snippet =
     (let segments = segment_loop snippet in
      if segments = [] then [\<lparr>sg_text = snippet, sg_highlighted = False\<rparr>] else segments)"

record SearchHit =
  sh_ref :: DocumentRef
  sh_file_name :: string
  sh_relative_path :: string
  sh_media_type :: string
  sh_score :: rat
  sh_snippets :: "SnippetSegment list list"

definition searchHit :: "u32 \<Rightarrow> SearchDocumentsRow \<Rightarrow> SearchHit" where
  "searchHit maxSnippets row =
     \<lparr>sh_ref = \<lparr>ref_document_id = FormatInt (sd_document_id row), ref_content_version_id = sd_content_hash row\<rparr>,
      sh_file_name = path_base (sd_path row),
      sh_relative_path = relativePath (sd_root_path row) (sd_path row),
      sh_media_type = mediaTypeOf (sd_content_type row),
      sh_score = sd_score row,
      sh_snippets = (if 0 < snippetBudget maxSnippets \<and> sd_snippet row \<noteq> []
                     then [snippetSegments (sd_snippet row)] else [])\<rparr>"

record SearchRequest =
  sr_query :: string
  sr_page_token :: string
  sr_page_size :: u32
  sr_max_snippets :: u32

record SearchResponse =
  ss_hits :: "SearchHit list"
  ss_total :: int
  ss_next_page_token :: string

record search_env =
  se_codec :: token_codec
  se_index :: search_index
  se_normalize :: "string \<Rightarrow> string"

text \<open>Go's \<open>int32\<close> conversion.\<close>

definition narrow32 :: "int \<Rightarrow> int" where
  "narrow32 x = (x + 2147483648) mod 4294967296 - 2147483648"

definition search_response :: "search_env \<Rightarrow> SearchRequest \<Rightarrow> string \<Rightarrow> int \<Rightarrow> SearchDocumentsRow list \<Rightarrow> int \<Rightarrow> SearchResponse" where
  "search_response env req query offset rows totalHits =
     (let pageSize = resolvePageSize (sr_page_size req);
          hasMore = pageSize < int (length rows);
          rows = (if hasMore then take (nat pageSize) rows else rows)
      in \<lparr>ss_hits = map (searchHit (sr_max_snippets req)) rows, ss_total = max totalHits 0,
          ss_next_page_token =
            (if hasMore then encodePageToken (se_codec env) query (offset + int (length rows)) else [])\<rparr>)"

definition Search :: "search_env \<Rightarrow> SearchRequest \<Rightarrow> SearchResponse handler" where
  "Search env req w =
     (let query = se_normalize env (sr_query req) in
      if trim_space query = [] then (Inl CodeInvalidArgument, w)
      else case decodePageToken (se_codec env) (sr_page_token req) query of
             Inl c \<Rightarrow> (Inl c, w)
           | Inr offset \<Rightarrow>
               (case stmt (q_SearchDocuments (se_index env) query (narrow32 offset)
                        (narrow32 (narrow32 (resolvePageSize (sr_page_size req)) + 1))) w of
                  (Inl _, w1) \<Rightarrow> (Inl CodeInternal, w1)
                | (Inr rows, w1) \<Rightarrow>
                    (case stmt (q_CountSearchDocuments (se_index env) query) w1 of
                       (Inl _, w2) \<Rightarrow> (Inl CodeInternal, w2)
                     | (Inr totalHits, w2) \<Rightarrow> (Inr (search_response env req query offset rows totalHits), w2))))"

end
