(* ===== verification/Search_Correct.thy ===== *)
theory Search_Correct
  imports Search_Service Sample
begin

text \<open>
  What search guarantees: tokens come back as they were issued and only to their own query,
  following them lists every result once, the total is the number of results, and a snippet's
  segments are the ones the extension highlighted.
\<close>

section \<open>base64\<close>

lemma b64_value_char [simp]: "0 \<le> n \<Longrightarrow> n < 64 \<Longrightarrow> b64_value (b64_char n) = Some n"
  by (auto simp: b64_value_def b64_char_def Let_def)

lemma b64_char_plain: "0 \<le> n \<Longrightarrow> n < 64 \<Longrightarrow> b64_char n \<noteq> CHR 10 \<and> b64_char n \<noteq> CHR 13"
  using b64_value_char [of n] by (auto simp: b64_value_def)

lemma b64_values_map:
  "list_all (\<lambda>n. 0 \<le> n \<and> n < 64) ns \<Longrightarrow> b64_values (map b64_char ns) = Some ns"
  by (induction ns) (auto simp: b64_char_plain)

lemma b64_groups_range:
  "list_all (\<lambda>n. 0 \<le> n \<and> n < 256) bs \<Longrightarrow> list_all (\<lambda>n. 0 \<le> n \<and> n < 64) (b64_groups bs)"
  by (induction bs rule: b64_groups.induct) auto

lemma six_bits:
  fixes y k x :: int
  assumes "0 \<le> y" "y < k"
  shows "(x * k + y) div k = x \<and> (x * k + y) mod k = y"
  using assms by simp

lemma b64_bytes_groups:
  "list_all (\<lambda>n. 0 \<le> n \<and> n < 256) bs \<Longrightarrow> b64_bytes (b64_groups bs) = Some bs"
proof (induction bs rule: b64_groups.induct)
  case (4 a b c r)
  then have "b64_bytes (b64_groups r) = Some r" by simp
  moreover have "((a mod 4) * 16 + b div 16) div 16 = a mod 4 \<and> ((a mod 4) * 16 + b div 16) mod 16 = b div 16"
    using 4(2) by (intro six_bits) auto
  moreover have "((b mod 16) * 4 + c div 64) div 4 = b mod 16 \<and> ((b mod 16) * 4 + c div 64) mod 4 = c div 64"
    using 4(2) by (intro six_bits) auto
  ultimately show ?case
    by (simp only: b64_groups.simps append.simps b64_bytes.simps) (simp add: mult.commute)
next
  case (3 a b)
  then have "((a mod 4) * 16 + b div 16) div 16 = a mod 4 \<and> ((a mod 4) * 16 + b div 16) mod 16 = b div 16"
    by (intro six_bits) auto
  then show ?case by (simp add: mult.commute)
qed auto

lemma of_char_int: "0 \<le> (of_char c :: int) \<and> (of_char c :: int) < 256"
proof -
  have "(of_char c :: int) = int (of_char c)" by (simp only: of_nat_of_char)
  moreover have "(of_char c :: nat) < 256" by (rule nat_of_char_less_256)
  ultimately show ?thesis by simp
qed

lemma b64_decode_encode: "b64_decode (b64_encode s) = Some s"
proof -
  have range: "list_all (\<lambda>n::int. 0 \<le> n \<and> n < 256) (map of_char s)"
    by (auto simp: list_all_iff of_char_int)
  have "map char_of (map of_char s :: int list) = s"
    by (simp add: comp_def)
  then show ?thesis
    by (simp add: b64_decode_def b64_encode_def b64_values_map b64_groups_range [OF range]
        b64_bytes_groups [OF range])
qed

lemma b64_groups_Nil [simp]: "b64_groups bs = [] \<longleftrightarrow> bs = []"
  by (cases bs rule: b64_groups.cases) auto

section \<open>Page tokens\<close>

text \<open>\<open>json.Unmarshal\<close> reads back what \<open>json.Marshal\<close> wrote, for an offset that is an \<open>int64\<close>.\<close>

definition reads_tokens :: "token_codec \<Rightarrow> bool" where
  "reads_tokens tc \<longleftrightarrow> (\<forall>query offset. 0 \<le> offset \<longrightarrow> offset < int64_bound \<longrightarrow>
     tc_unmarshal tc (marshal_token (queryDigest tc query) offset) = Some (queryDigest tc query, offset))"

lemma encodePageToken_nonempty [simp]: "encodePageToken tc query offset \<noteq> []"
  by (simp add: encodePageToken_def b64_encode_def marshal_token_def)

lemma decode_encode_token:
  assumes "reads_tokens tc" "0 \<le> offset" "offset < int64_bound"
  shows "decodePageToken tc (encodePageToken tc issued offset) query =
    (if queryDigest tc issued \<noteq> queryDigest tc query \<or> maxPageOffset < offset then Inl CodeInvalidArgument
     else Inr offset)"
proof -
  have "tc_unmarshal tc (marshal_token (queryDigest tc issued) offset) = Some (queryDigest tc issued, offset)"
    using assms by (simp add: reads_tokens_def)
  with assms(2) show ?thesis
    using encodePageToken_nonempty [of tc issued offset]
    by (simp add: decodePageToken_def encodePageToken_def b64_decode_encode)
qed

text \<open>
  C38: A page token round-trips: what the server issued for a query and an offset decodes, for
  that query, to the same offset, through the base64 and JSON of the wire.  Presented with
  a query of another digest it is refused as an invalid argument, and so is one whose offset is
  past the searchable range.
\<close>

theorem page_token_roundtrip:
  assumes "reads_tokens tc" "0 \<le> offset" "offset < int64_bound"
  shows "decodePageToken tc (encodePageToken tc issued offset) query =
    (if queryDigest tc issued = queryDigest tc query \<and> offset \<le> maxPageOffset then Inr offset
     else Inl CodeInvalidArgument)"
  using decode_encode_token [OF assms] by auto

text \<open>A decoder for the witnesses: it reads exactly the documents \<open>Marshal\<close> writes.\<close>

definition sample_unmarshal :: "string \<Rightarrow> (string \<times> int) option" where
  "sample_unmarshal body =
     (case str_cut (drop 6 body) [CHR 34] of (q, rest, ok) \<Rightarrow>
        map_option (Pair q) (ParseInt (trim_suffix (drop 5 rest) ''}'')))"

definition sample_codec :: token_codec where
  "sample_codec = \<lparr>tc_sha256 = take 2, tc_unmarshal = sample_unmarshal\<rparr>"

lemma str_index_skip: "c \<notin> set t \<Longrightarrow> str_index (t @ c # r) [c] = Some (length t)"
  by (induction t) (auto simp: str_index.simps [of "_ # _"] has_prefix_def)

lemma hex_digit_not_quote: "n < 16 \<Longrightarrow> hex_digit n \<noteq> CHR 34"
proof
  assume "n < 16" "hex_digit n = CHR 34"
  then have "(of_char (hex_digit n) :: nat) = 34" by simp
  with \<open>n < 16\<close> show False by (simp add: hex_digit_def split: if_splits)
qed

lemma hex_encode_quote: "CHR 34 \<notin> set (hex_encode s)"
proof (induction s)
  case (Cons c s)
  have "(of_char c :: nat) div 16 < 16" by (simp add: less_mult_imp_div_less)
  moreover have "(of_char c :: nat) mod 16 < 16" by simp
  ultimately have "CHR 34 \<noteq> hex_digit (of_char c div 16) \<and> CHR 34 \<noteq> hex_digit (of_char c mod 16)"
    by (metis hex_digit_not_quote)
  with Cons show ?case by (simp add: hex_encode_def)
qed (simp add: hex_encode_def)

lemma sample_codec_reads: "reads_tokens sample_codec"
proof -
  have strip: "trim_suffix (s @ ''}'') ''}'' = s" for s
    by (simp add: trim_suffix_def has_suffix_def)
  have "sample_unmarshal (marshal_token q i) = Some (q, i)"
    if "CHR 34 \<notin> set q" "0 \<le> i" "i < int64_bound" for q i
  proof -
    let ?rest = "[CHR '','', CHR 34, CHR ''o'', CHR 34, CHR '':''] @ FormatInt i @ ''}''"
    have "drop 6 (marshal_token q i) = q @ CHR 34 # ?rest" by (simp add: marshal_token_def)
    then have "str_cut (drop 6 (marshal_token q i)) [CHR 34] = (q, ?rest, True)"
      by (simp add: str_cut_def str_index_skip [OF that(1)])
    moreover have "drop 5 ?rest = FormatInt i @ ''}''" by simp
    moreover have "ParseInt (FormatInt i) = Some i"
      using that by (intro ParseInt_FormatInt) (simp_all add: int64_bound_def)
    ultimately show ?thesis by (simp only: sample_unmarshal_def split_conv strip option.map)
  qed
  then show ?thesis
    by (simp add: reads_tokens_def sample_codec_def queryDigest_def hex_encode_quote)
qed

lemma page_token_roundtrip_witness:
  "decodePageToken sample_codec (encodePageToken sample_codec ''ab'' 20) ''ab'' = Inr 20 \<and>
   decodePageToken sample_codec (encodePageToken sample_codec ''ab'' 20) ''cd'' = Inl CodeInvalidArgument"
proof -
  have "queryDigest sample_codec ''ab'' \<noteq> queryDigest sample_codec ''cd''" by code_simp
  then show ?thesis
    by (simp add: page_token_roundtrip [OF sample_codec_reads] int64_bound_def maxPageOffset_def)
qed

section \<open>The total\<close>

lemma concat_map_lengths:
  "(\<And>x. x \<in> set xs \<Longrightarrow> length (f x) = length (g x)) \<Longrightarrow> length (concat (map f xs)) = length (concat (map g xs))"
  by (induction xs) auto

lemma filter_unique: "distinct (map k xs) \<Longrightarrow> x \<in> set xs \<Longrightarrow> filter (\<lambda>y. k y = k x) xs = [x]"
  by (induction xs) (auto simp: filter_empty_conv image_iff)

text \<open>A list comprehension that adds one row per match has as many rows as the matches.\<close>

lemma singleton_concat: "length (concat (map (\<lambda>x. [f x]) xs)) = length xs"
  by (induction xs) auto

lemma one_version_one_root:
  assumes "db_ok d q" "r \<in> set (db_docs d)" "searchable x r"
  obtains c m where "filter (\<lambda>c. cv_id c = ex_cv_id x) (db_cvs d) = [c]"
    and "filter (\<lambda>m. m_id m = d_mountpoint_id r) (db_mountpoints d) = [m]"
proof -
  have docs: "docs_ok d q" and cvs: "distinct (map cv_id (db_cvs d))"
    and mps: "distinct (map m_id (db_mountpoints d))"
    using assms(1) by (simp_all add: db_ok_def cvs_ok_def mountpoints_ok_def ids_ok_def)
  from docs assms(2,3) obtain c where c: "c \<in> set (db_cvs d)" "cv_id c = ex_cv_id x"
    by (fastforce simp: docs_ok_def searchable_def)
  from docs assms(2) obtain m where m: "m \<in> set (db_mountpoints d)" "m_id m = d_mountpoint_id r"
    by (fastforce simp: docs_ok_def)
  from filter_unique [OF cvs c(1)] filter_unique [OF mps m(1)] c(2) m(2) show ?thesis
    by (auto intro: that)
qed

text \<open>The rows of one extracted text and one document.\<close>

lemma joined_rows:
  "concat (map (\<lambda>c. if P c then concat (map (\<lambda>m. if Q m then [f c m] else []) ms) else []) cs) =
     concat (map (\<lambda>c. map (f c) (filter Q ms)) (filter P cs))"
proof -
  have "concat (map (\<lambda>m. if Q m then [f c m] else []) ms) = map (f c) (filter Q ms)" for c
    by (induction ms) auto
  then show ?thesis by (induction cs) auto
qed

lemma search_rows_length:
  assumes "db_ok d q"
  shows "length (search_rows ix d query) =
    length [(x, r). x \<leftarrow> db_extracted d, ix_boosted ix d query x \<or> ix_ngram ix d query x,
              r \<leftarrow> db_docs d, searchable x r]"
proof -
  have one: "length (concat (map (\<lambda>c. map (f c) (filter (\<lambda>m. m_id m = d_mountpoint_id r) (db_mountpoints d)))
      (filter (\<lambda>c. cv_id c = ex_cv_id x) (db_cvs d)))) = 1"
    if "r \<in> set (db_docs d)" "searchable x r" for r x and f :: "cv_row \<Rightarrow> mountpoint_row \<Rightarrow> SearchDocumentsRow"
    using one_version_one_root [OF assms that] by (metis concat.simps length_Cons length_map list.map list.size(3) One_nat_def append_Nil2)
  show ?thesis
    unfolding search_rows_def joined_rows
    by (intro concat_map_lengths) (auto intro!: concat_map_lengths simp: one)
qed

text \<open>
  The count and the result set agree: in a database that satisfies its constraints, and
  where a boost weights a match without admitting or refusing one, \<open>CountSearchDocuments\<close>
  answers the number of rows \<open>SearchDocuments\<close> ranks, although it joins neither the content
  versions nor the mountpoints and spells its predicate differently.
\<close>

theorem count_agrees_with_results:
  assumes "db_ok d q" and "\<forall>x. ix_boosted ix d query x = ix_plain ix d query x"
  shows "q_CountSearchDocuments ix query d q = (Inr (int (length (ranked ix d query))), d, q)"
  using assms(2) search_rows_length [OF assms(1), of ix query]
  by (simp add: q_CountSearchDocuments_def select_def ranked_def)

definition sample_index :: search_index where
  "sample_index =
     (let hit = (\<lambda>d query x. str_index (ex_text x) query \<noteq> None) in
      \<lparr>ix_boosted = hit, ix_plain = hit, ix_ngram = (\<lambda>d query x. False), ix_score = (\<lambda>d query x. 1),
       ix_snippet = (\<lambda>d query x. Some (''<b>'' @ query @ ''</b> ..''))\<rparr>)"

text \<open>The sample deployment with both documents on one extracted version.\<close>

definition indexed_db :: database where
  "indexed_db = sample_db\<lparr>
     db_docs := [sample_doc 2 ''/d/s/b.pdf'' 13 (Some 1), sample_doc 1 ''/d/a.pdf'' 11 (Some 1)],
     db_extracted := [\<lparr>ex_cv_id = 1, ex_status = ''succeeded'', ex_text = ''some text'', ex_metadata = ''{}'',
       ex_content_type = Some ''application/pdf; v=1'', ex_error = None, ex_extracted_at = Some 60, ex_updated_at = 60\<rparr>]\<rparr>"

lemma indexed_db_ok: "db_ok indexed_db sample_seqs"
  by (simp add: db_ok_defs indexed_db_def sample_db_def sample_seqs_def sample_row_defs obs_key_def live_key_def
      live_def ids_ok_def statuses_def status_succeeded_def)

lemma count_agrees_with_results_witness:
  "q_CountSearchDocuments sample_index ''text'' indexed_db sample_seqs = (Inr 2, indexed_db, sample_seqs)"
proof -
  have "length (ranked sample_index indexed_db ''text'') = 2" by code_simp
  with count_agrees_with_results [OF indexed_db_ok, of sample_index "''text''"] show ?thesis
    by (simp add: sample_index_def Let_def)
qed

section \<open>Paging\<close>

lemma resolvePageSize_range: "1 \<le> resolvePageSize n \<and> resolvePageSize n \<le> 100"
proof (cases "n = 0")
  case False
  then have "uint n \<noteq> 0" by (simp add: uint_0_iff)
  moreover have "0 \<le> uint n" by simp
  ultimately have "1 \<le> uint n" by linarith
  with False show ?thesis by (simp add: resolvePageSize_def maxPageSize_def)
qed (simp add: resolvePageSize_def defaultPageSize_def)

lemma narrow32_id: "0 \<le> x \<Longrightarrow> x \<le> maxPageOffset \<Longrightarrow> narrow32 x = x"
  by (simp add: narrow32_def maxPageOffset_def)

lemma stmt_quiet_select: "quiet w \<Longrightarrow> stmt (select f) w = (f (w_db w), w)"
  by (simp add: stmt_quiet exec_sql_def select_def)

text \<open>What one request answers, in a database nothing else changes.\<close>

lemma Search_page:
  assumes "quiet w" and "trim_space (se_normalize env (sr_query req)) \<noteq> []"
    and token: "decodePageToken (se_codec env) (sr_page_token req) (se_normalize env (sr_query req)) = Inr offset"
    and range: "0 \<le> offset" "offset \<le> maxPageOffset"
  defines "query \<equiv> se_normalize env (sr_query req)"
  defines "results \<equiv> ranked (se_index env) (w_db w) query"
  defines "n \<equiv> nat (resolvePageSize (sr_page_size req))"
  shows "\<exists>resp. Search env req w = (Inr resp, w) \<and>
    ss_hits resp = map (searchHit (sr_max_snippets req)) (take n (drop (nat offset) results)) \<and>
    ss_next_page_token resp =
      (if n < length results - nat offset then encodePageToken (se_codec env) query (offset + int n) else [])"
proof -
  note size = resolvePageSize_range [of "sr_page_size req"]
  have narrow: "narrow32 offset = offset"
    "narrow32 (narrow32 (resolvePageSize (sr_page_size req)) + 1) = resolvePageSize (sr_page_size req) + 1"
    using range size by (simp_all add: narrow32_id maxPageOffset_def)
  let ?rows = "take (Suc n) (drop (nat offset) results)"
  have rows: "stmt (q_SearchDocuments (se_index env) query offset (resolvePageSize (sr_page_size req) + 1)) w =
      (Inr ?rows, w)"
    using range size assms(1)
    by (simp add: q_SearchDocuments_def stmt_quiet_select results_def n_def nat_add_distrib)
  obtain k where k: "stmt (q_CountSearchDocuments (se_index env) query) w = (Inr k, w)"
    using assms(1) by (auto simp: q_CountSearchDocuments_def stmt_quiet_select)
  have run: "Search env req w = (Inr (search_response env req query offset ?rows k), w)"
    using assms(2) token by (simp add: Search_def Let_def narrow rows k query_def [symmetric])
  have more: "resolvePageSize (sr_page_size req) < int (length ?rows) \<longleftrightarrow> n < length results - nat offset"
    using size by (auto simp: n_def)
  have "take n ?rows = take n (drop (nat offset) results)" by (simp add: take_take min_def)
  with run more size show ?thesis
    by (auto simp: search_response_def Let_def n_def min_def)
qed

text \<open>A client that follows the tokens it is given, within a number of requests.\<close>

fun follow :: "nat \<Rightarrow> search_env \<Rightarrow> SearchRequest \<Rightarrow> world \<Rightarrow> SearchHit list option" where
  "follow 0 env req w = None"
| "follow (Suc k) env req w =
     (case Search env req w of
        (Inl _, _) \<Rightarrow> None
      | (Inr resp, w') \<Rightarrow>
          if ss_next_page_token resp = [] then Some (ss_hits resp)
          else map_option (append (ss_hits resp))
                 (follow k env (req\<lparr>sr_page_token := ss_next_page_token resp\<rparr>) w'))"

lemma follow_from:
  assumes "quiet w" "reads_tokens (se_codec env)" "trim_space (se_normalize env (sr_query req)) \<noteq> []"
    and "decodePageToken (se_codec env) (sr_page_token req) (se_normalize env (sr_query req)) = Inr offset"
    and "0 \<le> offset" "offset \<le> int (length (ranked (se_index env) (w_db w) (se_normalize env (sr_query req))))"
    and "int (length (ranked (se_index env) (w_db w) (se_normalize env (sr_query req)))) \<le> maxPageOffset"
    and "length (ranked (se_index env) (w_db w) (se_normalize env (sr_query req))) - nat offset < k"
  shows "follow k env req w = Some (map (searchHit (sr_max_snippets req))
    (drop (nat offset) (ranked (se_index env) (w_db w) (se_normalize env (sr_query req)))))"
  using assms
proof (induction k arbitrary: req offset)
  case (Suc k)
  let ?query = "se_normalize env (sr_query req)"
  let ?results = "ranked (se_index env) (w_db w) ?query"
  obtain n where size: "nat (resolvePageSize (sr_page_size req)) = n" and n: "1 \<le> n"
    using resolvePageSize_range [of "sr_page_size req"] by force
  obtain resp where resp: "Search env req w = (Inr resp, w)"
    "ss_hits resp = map (searchHit (sr_max_snippets req)) (take n (drop (nat offset) ?results))"
    "ss_next_page_token resp = (if n < length ?results - nat offset
       then encodePageToken (se_codec env) ?query (offset + int n) else [])"
    using Search_page [OF Suc.prems(1,3,4,5)] Suc.prems(6,7) by (auto simp: size)
  show ?case
  proof (cases "n < length ?results - nat offset")
    case False
    with resp show ?thesis by simp
  next
    case True
    let ?next = "req\<lparr>sr_page_token := encodePageToken (se_codec env) ?query (offset + int n)\<rparr>"
    have "offset + int n \<le> int (length ?results)" using True Suc.prems(5) by linarith
    then have decoded: "decodePageToken (se_codec env) (sr_page_token ?next) ?query = Inr (offset + int n)"
      using Suc.prems(2,5,7) by (simp add: decode_encode_token int64_bound_def maxPageOffset_def)
    have query: "sr_query ?next = sr_query req" "sr_max_snippets ?next = sr_max_snippets req" by simp_all
    have "follow k env ?next w = Some (map (searchHit (sr_max_snippets ?next))
        (drop (nat (offset + int n)) (ranked (se_index env) (w_db w) (se_normalize env (sr_query ?next)))))"
    proof (rule Suc.IH [OF Suc.prems(1,2)], unfold query)
      show "length ?results - nat (offset + int n) < k" using True Suc.prems(5,8) n by linarith
    qed (use Suc.prems decoded \<open>offset + int n \<le> int (length ?results)\<close> query in simp_all)
    moreover have "drop (nat offset) ?results = take n (drop (nat offset) ?results) @ drop (nat (offset + int n)) ?results"
      using Suc.prems(5) by (simp add: nat_add_distrib add.commute flip: drop_drop)
    ultimately show ?thesis
      using resp True by (simp add: query) (metis map_append)
  qed
qed simp

text \<open>
  C9: Paging lists every result exactly once.  While the database does not change, a client that
  starts without a token and follows each \<open>next_page_token\<close> gets, page after page, exactly the
  ranked result list in order, whatever page size it asks for, and stops after at most one
  request per result and one more; up to the searchable range of \<open>2 ^ 30\<close> results.
\<close>

theorem paging_lists_all_results:
  assumes "quiet w" "reads_tokens (se_codec env)" "trim_space (se_normalize env (sr_query req)) \<noteq> []"
    and "sr_page_token req = []"
    and "int (length (ranked (se_index env) (w_db w) (se_normalize env (sr_query req)))) \<le> maxPageOffset"
    and "length (ranked (se_index env) (w_db w) (se_normalize env (sr_query req))) < k"
  shows "follow k env req w = Some (map (searchHit (sr_max_snippets req))
    (ranked (se_index env) (w_db w) (se_normalize env (sr_query req))))"
  using follow_from [OF assms(1-3), where offset = 0] assms(4-) by (simp add: decodePageToken_def)

definition sample_search :: search_env where
  "sample_search = \<lparr>se_codec = sample_codec, se_index = sample_index, se_normalize = (\<lambda>s. s)\<rparr>"

definition sample_query :: SearchRequest where
  "sample_query = \<lparr>sr_query = ''text'', sr_page_token = [], sr_page_size = 1, sr_max_snippets = 0\<rparr>"

definition indexed_world :: world where
  "indexed_world = (sample_world [])\<lparr>w_db := indexed_db\<rparr>"

lemma paging_lists_all_results_witness:
  "map_option (map (ref_document_id \<circ> sh_ref)) (follow 3 sample_search sample_query indexed_world) =
     Some [''1'', ''2'']"
proof -
  let ?results = "ranked (se_index sample_search) (w_db indexed_world) (se_normalize sample_search (sr_query sample_query))"
  have len: "length ?results = 2" by code_simp
  have quiet: "quiet indexed_world" by (simp add: indexed_world_def)
  have codec: "reads_tokens (se_codec sample_search)" by (simp add: sample_search_def sample_codec_reads)
  have query: "trim_space (se_normalize sample_search (sr_query sample_query)) \<noteq> []" by code_simp
  have first: "sr_page_token sample_query = []" by (simp add: sample_query_def)
  have small: "int (length ?results) \<le> maxPageOffset" "length ?results < 3"
    by (simp_all add: len maxPageOffset_def)
  have "map (ref_document_id \<circ> sh_ref) (map (searchHit (sr_max_snippets sample_query)) ?results) = [''1'', ''2'']"
    by code_simp
  with paging_lists_all_results [OF quiet codec query first small] show ?thesis by simp
qed

section \<open>Snippets\<close>

text \<open>How a highlighted excerpt is written.\<close>

definition excerpt_text :: "SnippetSegment \<Rightarrow> string" where
  "excerpt_text sg = (if sg_highlighted sg then highlightOpen @ sg_text sg @ highlightClose else sg_text sg)"

lemmas marker_defs = highlightOpen_def highlightClose_def

lemma str_index_before:
  assumes "c \<notin> set t"
  shows "str_index (t @ (c # m) @ r) (c # m) = Some (length t)"
  using assms by (induction t) (auto simp: str_index.simps [of "_ # _"] has_prefix_def)

lemma str_index_absent: "c \<notin> set t \<Longrightarrow> str_index t (c # m) = None"
  by (induction t) (auto simp: str_index.simps has_prefix_def)

lemma segment_loop_plain: "CHR ''<'' \<notin> set t \<Longrightarrow> segment_loop t = appendText t False"
  by (simp add: segment_loop.simps [of t] highlightOpen_def str_index_absent)

lemma segment_loop_highlight:
  assumes "CHR ''<'' \<notin> set p" "CHR ''<'' \<notin> set t"
  shows "segment_loop (p @ highlightOpen @ t @ highlightClose @ rest) =
    appendText p False @ appendText t True @ segment_loop rest"
proof -
  have first: "str_index (p @ highlightOpen @ t @ highlightClose @ rest) highlightOpen = Some (length p)"
    using str_index_before [OF assms(1), of "''b>''" "t @ highlightClose @ rest"] by (simp add: highlightOpen_def)
  have "str_index ((highlightOpen @ t) @ highlightClose @ rest) highlightClose = Some (length (highlightOpen @ t))"
    using str_index_before [OF assms(2), of "''/b>''" rest]
    by (simp add: marker_defs str_index.simps [of "_ # _"] has_prefix_def)
  then have second: "str_index (highlightOpen @ t @ highlightClose @ rest) highlightClose = Some (3 + length t)"
    by (simp add: highlightOpen_def)
  show ?thesis
    by (subst segment_loop.simps) (simp add: first second, simp add: marker_defs)
qed

text \<open>No text holds the start of a marker or is empty, and no two plain segments are adjacent.\<close>

fun excerpt :: "SnippetSegment list \<Rightarrow> bool" where
  "excerpt [] = True"
| "excerpt [sg] = (sg_text sg \<noteq> [] \<and> CHR ''<'' \<notin> set (sg_text sg))"
| "excerpt (sg # sg' # sgs) = (sg_text sg \<noteq> [] \<and> CHR ''<'' \<notin> set (sg_text sg) \<and>
     (sg_highlighted sg \<or> sg_highlighted sg') \<and> excerpt (sg' # sgs))"

lemma excerpt_Cons:
  "excerpt (sg # sgs) \<Longrightarrow> sg_text sg \<noteq> [] \<and> CHR ''<'' \<notin> set (sg_text sg) \<and> excerpt sgs"
  by (cases sgs) auto

lemma appendText_segment:
  "sg_text sg \<noteq> [] \<Longrightarrow> appendText (sg_text sg) (sg_highlighted sg) = [sg]"
  "sg_text sg \<noteq> [] \<Longrightarrow> sg_highlighted sg \<Longrightarrow> appendText (sg_text sg) True = [sg]"
  "sg_text sg \<noteq> [] \<Longrightarrow> \<not> sg_highlighted sg \<Longrightarrow> appendText (sg_text sg) False = [sg]"
  by (simp_all add: appendText_def)

lemma excerpt_text_cases:
  "sg_highlighted sg \<Longrightarrow> excerpt_text sg = highlightOpen @ sg_text sg @ highlightClose"
  "\<not> sg_highlighted sg \<Longrightarrow> excerpt_text sg = sg_text sg"
  by (simp_all add: excerpt_text_def)

lemma segment_loop_highlighted:
  assumes "sg_highlighted sg" "sg_text sg \<noteq> []" "CHR ''<'' \<notin> set (sg_text sg)"
  shows "segment_loop (excerpt_text sg @ rest) = sg # segment_loop rest"
  using segment_loop_highlight [of "[]" "sg_text sg" rest] assms
  by (simp add: excerpt_text_cases appendText_segment) (simp add: appendText_def)

lemma segment_loop_Nil: "segment_loop [] = []"
  using segment_loop_plain [of "[]"] by (simp add: appendText_def)

lemma segment_loop_excerpt: "excerpt sgs \<Longrightarrow> segment_loop (concat (map excerpt_text sgs)) = sgs"
proof (induction sgs rule: excerpt.induct)
  case 1
  show ?case by (simp add: segment_loop_Nil)
next
  case (2 sg)
  then show ?case
    using segment_loop_highlighted [of sg "[]"] segment_loop_plain [of "sg_text sg"]
    by (cases "sg_highlighted sg") (simp_all add: segment_loop_Nil excerpt_text_cases appendText_segment)
next
  case (3 sg sg' sgs)
  let ?rest = "concat (map excerpt_text sgs)"
  from 3(2) have sg: "sg_text sg \<noteq> []" "CHR ''<'' \<notin> set (sg_text sg)" and tail: "excerpt (sg' # sgs)"
    and one: "sg_highlighted sg \<or> sg_highlighted sg'" by auto
  note sg' = excerpt_Cons [OF tail]
  have IH: "segment_loop (excerpt_text sg' @ ?rest) = sg' # sgs" using 3(1) tail by simp
  show ?case
  proof (cases "sg_highlighted sg")
    case True
    with segment_loop_highlighted [of sg] sg IH show ?thesis by simp
  next
    case False
    with one have high: "sg_highlighted sg'" by simp
    have "segment_loop ?rest = sgs" using segment_loop_highlighted [OF high] sg' IH by simp
    with segment_loop_highlight [of "sg_text sg" "sg_text sg'" ?rest] sg sg' high False show ?thesis
      by (simp add: excerpt_text_cases appendText_segment)
  qed
qed

text \<open>
  The segments of a snippet are the ones that were highlighted: writing any excerpt
  with \<open><b>\<close> and \<open></b>\<close> around its highlights and splitting it again gives back the same
  segments, so concatenating their texts reproduces the excerpt without its markers.
\<close>

theorem snippet_roundtrip:
  assumes "excerpt sgs" and "sgs \<noteq> []"
  shows "snippetSegments (concat (map excerpt_text sgs)) = sgs"
  using assms by (simp add: snippetSegments_def Let_def segment_loop_excerpt)

lemma snippet_roundtrip_witness:
  "snippetSegments ''a <b>bc</b><b>d</b> e'' =
     [\<lparr>sg_text = ''a '', sg_highlighted = False\<rparr>, \<lparr>sg_text = ''bc'', sg_highlighted = True\<rparr>,
      \<lparr>sg_text = ''d'', sg_highlighted = True\<rparr>, \<lparr>sg_text = '' e'', sg_highlighted = False\<rparr>]"
proof -
  let ?sgs = "[\<lparr>sg_text = ''a '', sg_highlighted = False\<rparr>, \<lparr>sg_text = ''bc'', sg_highlighted = True\<rparr>,
      \<lparr>sg_text = ''d'', sg_highlighted = True\<rparr>, \<lparr>sg_text = '' e'', sg_highlighted = False\<rparr>]"
  have "snippetSegments (concat (map excerpt_text ?sgs)) = ?sgs" by (rule snippet_roundtrip) simp_all
  then show ?thesis by (simp add: excerpt_text_def marker_defs)
qed

lemma sql_left_all: "int (length s) \<le> n \<Longrightarrow> sql_left s n = s"
  by (induction s n rule: sql_left.induct) auto

lemma snippetBudget_positive: "0 < snippetBudget n"
proof (cases "n = 0")
  case False
  then have "uint n \<noteq> 0" by (simp add: uint_0_iff)
  moreover have "0 \<le> uint n" by simp
  ultimately have "1 \<le> uint n" by linarith
  with False show ?thesis by (simp add: snippetBudget_def defaultMaxSnippets_def)
qed (simp add: snippetBudget_def defaultMaxSnippets_def)

lemma appendText_concat [simp]: "concat (map sg_text (appendText t h)) = t"
  by (simp add: appendText_def)

text \<open>
  The excerpt that replaces a missing snippet is not highlighted by the extension, but it is
  split at markers all the same: a hit found only through the ngram field, whose text contains a
  literal \<open><b>\<close> and \<open></b>\<close>, is answered without them, and what stood between them as a highlight.
  The concatenation of its segments is then not the excerpt.
\<close>

theorem plain_excerpt_loses_markup:
  fixes n :: u32 and doc :: doc_row and cv :: cv_row and mp :: mountpoint_row
  assumes "ix_snippet ix d query x = None" "ex_text x = p @ highlightOpen @ t @ highlightClose @ r"
    and "length (ex_text x) \<le> 200" "t \<noteq> []"
    and "CHR ''<'' \<notin> set p" "CHR ''<'' \<notin> set t" "CHR ''<'' \<notin> set r"
  defines "segments \<equiv> concat (sh_snippets (searchHit n (search_row ix d query x doc cv mp)))"
  shows "concat (map sg_text segments) = p @ t @ r \<and> \<lparr>sg_text = t, sg_highlighted = True\<rparr> \<in> set segments \<and>
    concat (map sg_text segments) \<noteq> sd_snippet (search_row ix d query x doc cv mp)"
proof -
  let ?s = "p @ highlightOpen @ t @ highlightClose @ r"
  have snippet: "sd_snippet (search_row ix d query x doc cv mp) = ?s"
    using assms(1-3) sql_left_all [of "ex_text x" 200] by (simp add: search_row_def)
  have loop: "segment_loop ?s = appendText p False @ appendText t True @ appendText r False"
    using segment_loop_highlight [OF assms(5,6)] segment_loop_plain [OF assms(7)] by simp
  have "segments = appendText p False @ appendText t True @ appendText r False"
    using assms(4) snippetBudget_positive [of n] loop
    by (simp add: segments_def searchHit_def snippet snippetSegments_def Let_def) (simp add: marker_defs appendText_def)
  with assms(4) show ?thesis
    by (simp add: snippet) (simp add: appendText_def marker_defs)
qed

lemma plain_excerpt_loses_markup_witness:
  "concat (map sg_text (concat (sh_snippets (searchHit 0 (search_row
     (sample_index\<lparr>ix_snippet := \<lambda>d query x. None\<rparr>) indexed_db ''z''
     (hd (db_extracted indexed_db)\<lparr>ex_text := ''a <b>c</b> z''\<rparr>)
     (sample_doc 1 ''/d/a.pdf'' 11 (Some 1)) (sample_cv 1 ''aa'') (hd (db_mountpoints indexed_db))))))) = ''a c z''"
proof -
  let ?ix = "sample_index\<lparr>ix_snippet := \<lambda>d query x. None\<rparr>"
  let ?x = "hd (db_extracted indexed_db)\<lparr>ex_text := ''a <b>c</b> z''\<rparr>"
  have none: "ix_snippet ?ix indexed_db ''z'' ?x = None" by simp
  have body: "ex_text ?x = ''a '' @ highlightOpen @ ''c'' @ highlightClose @ '' z''" by (simp add: marker_defs)
  have "length (ex_text ?x) \<le> 200" by simp
  from plain_excerpt_loses_markup [OF none body this] show ?thesis by simp
qed

end
