(* ===== verification/Reconciler_Correct.thy ===== *)
theory Reconciler_Correct
  imports Sample
begin

text \<open>
  The properties of the reconciler: what it keeps under every script of faults and
  concurrent commits, and what each event and each rescan does to the tables.
\<close>

section \<open>Under faults and concurrent commits\<close>

text \<open>
  Every run of the reconciler, over any attempts, streams and scans, with any
  statements failing and any schema-keeping transactions committing in between, leaves a
  database that satisfies every constraint of the schema.
\<close>

theorem Run_keeps_schema:
  assumes "holds db_ok w"
  shows "holds db_ok (snd (Run_reconciler r wts w))"
proof -
  have "holds_from db_ok 0 w" using assms by (simp add: holds_from_def holds_def db_ok_def seqs_ok_def)
  with schema.keeps_Run [of 0 r wts] have "holds_from db_ok 0 (snd (Run_reconciler r wts w))"
    by (simp add: keeps_def)
  then show ?thesis by (simp add: holds_from_def)
qed

definition sample_watch :: "stream_item list \<Rightarrow> watch" where
  "sample_watch items =
     \<lparr>wt_roots = None, wt_head = Some 9, wt_scans = (\<lambda>_. Some []), wt_stream = (\<lambda>_. Some items)\<rparr>"

lemma Run_keeps_schema_witness:
  "holds db_ok (snd (Run_reconciler sample_rec
     [sample_watch [StreamEvent (sample_event 6 EvDelete ''/d/s'' [] True), StreamGap (Some 7) (\<lambda>_. Some [])]]
     (sample_world [Run, Run, Fault])))"
  by (rule Run_keeps_schema) (simp add: sample_holds)

text \<open>
  C24: The watermark never moves back: whatever the run does and whoever commits in between,
  it ends at least where it started.
\<close>

theorem Run_watermark_monotone:
  assumes "db_watermark (w_db w) = Some v" "db_watermark (w_base w) = Some u" "v \<le> u"
    and "rely (watermark_from v) w" "0 \<le> sq_epoch (w_seqs w)"
  shows "\<exists>v'. db_watermark (w_db (snd (Run_reconciler r wts w))) = Some v' \<and> v \<le> v'"
proof -
  have "holds_from (watermark_from v) 0 w"
    using assms by (simp add: holds_from_def holds_def watermark_from_def)
  with watermark.keeps_Run [of 0 v r wts]
  have "holds (watermark_from v) (snd (Run_reconciler r wts w))"
    by (simp add: keeps_def holds_from_def)
  then have "watermark_from v (w_db (snd (Run_reconciler r wts w))) (w_seqs (snd (Run_reconciler r wts w)))"
    by (rule holds_db)
  then show ?thesis by (simp add: watermark_from_def split: option.splits)
qed

lemma Run_watermark_monotone_witness:
  "\<exists>v'. db_watermark (w_db (snd (Run_reconciler sample_rec
      [sample_watch [StreamEvent (sample_event 6 EvModify ''/d/a.pdf'' [] False)]]
      (sample_world [Run, Run, Run, Fault])))) = Some v' \<and> 5 \<le> v'"
  by (rule Run_watermark_monotone [of _ 5 5])
    (simp_all add: rely_def sample_db_def sample_seqs_def)

text \<open>
  C25: No document row is ever deleted and a tombstone stays a tombstone: identity survives
  every run, whatever fails and whoever commits in between.
\<close>

theorem Run_keeps_documents:
  assumes "buried ids dead (w_db w) (w_seqs w)" "buried ids dead (w_base w) (w_seqs w)"
    and "rely (buried ids dead) w" "0 \<le> sq_epoch (w_seqs w)"
  shows "ids \<subseteq> d_id ` set (db_docs (w_db (snd (Run_reconciler r wts w)))) \<and>
    (\<forall>x \<in> set (db_docs (w_db (snd (Run_reconciler r wts w)))). \<not> (d_id x \<in> dead \<and> live x))"
proof -
  have "holds_from (buried ids dead) 0 w" using assms by (simp add: holds_from_def holds_def)
  with documents.keeps_Run [of 0 ids dead r wts]
  have "holds (buried ids dead) (snd (Run_reconciler r wts w))" by (simp add: keeps_def holds_from_def)
  then show ?thesis by (auto simp: holds_def buried_def)
qed

definition sample_grave :: world where
  "sample_grave = (let d = sample_db\<lparr>db_docs := [sample_doc 1 ''/d/a.pdf'' 11 (Some 1),
       tombstone 60 (sample_doc 2 ''/d/s/b.pdf'' 13 None)]\<rparr>
     in (sample_world [Run, Fault])\<lparr>w_db := d, w_base := d\<rparr>)"

lemma Run_keeps_documents_witness:
  "{1, 2} \<subseteq> d_id ` set (db_docs (w_db (snd (Run_reconciler sample_rec
     [sample_watch [StreamEvent (sample_event 6 EvCreate ''/d/s/b.pdf'' [] False)]] sample_grave)))) \<and>
   filter (\<lambda>x. d_id x \<in> {2} \<and> live x) (db_docs (w_db (snd (Run_reconciler sample_rec
     [sample_watch [StreamEvent (sample_event 6 EvCreate ''/d/s/b.pdf'' [] False)]] sample_grave)))) = []"
proof -
  have grave: "buried {1, 2} {2} (w_db sample_grave) (w_seqs sample_grave)" "w_base sample_grave = w_db sample_grave"
    "rely (buried {1, 2} {2}) sample_grave" "0 \<le> sq_epoch (w_seqs sample_grave)"
    by (simp_all add: sample_grave_def Let_def buried_def rely_def sample_db_def sample_seqs_def sample_doc_def
        tombstone_def live_def)
  from Run_keeps_documents [OF grave(1) _ grave(3,4)] grave(1,2) show ?thesis
    by (simp only: filter_empty_conv) blast
qed

text \<open>
  Applying an event is atomic: when it reports an error the database is the one it
  started from with the commits of other transactions applied, in order, and nothing of
  the event: no row, no job request, no watermark.
\<close>

theorem ApplyEvent_atomic:
  assumes "ApplyEvent r ev w = (Inl e, w')"
  shows "\<exists>s. w_script w = s @ w_script w' \<and> w_db w' = interference s (w_db w)"
  using assms unfolding ApplyEvent_def by (rule InTx_rollback [rotated]) (intro keeps_intros)

definition sample_delete :: FileEvent where
  "sample_delete = sample_event 6 EvDelete ''/d/a.pdf'' [] False"

lemma ApplyEvent_atomic_witness:
  "\<exists>s. [Run, Run, Run, Fault] =
       s @ w_script (snd (ApplyEvent sample_rec sample_delete (sample_world [Run, Run, Run, Fault]))) \<and>
     w_db (snd (ApplyEvent sample_rec sample_delete (sample_world [Run, Run, Run, Fault]))) =
       interference s sample_db"
proof -
  let ?w = "sample_world [Run, Run, Run, Fault]"
  have "fst (ApplyEvent sample_rec sample_delete ?w) = Inl ErrConn" by code_simp
  then have "ApplyEvent sample_rec sample_delete ?w =
      (Inl ErrConn, snd (ApplyEvent sample_rec sample_delete ?w))" by (metis prod.collapse)
  from ApplyEvent_atomic [OF this] show ?thesis by simp
qed

lemma tx_Watermark_calm:
  assumes "tx_Watermark w = (Inr v, w')" "calm w"
  shows "v = (case db_watermark (w_db w) of None \<Rightarrow> 0 | Some u \<Rightarrow> u)" "w_db w' = w_db w" "calm w'"
    "w_seqs w' = w_seqs w" "w_base w' = w_base w"
proof -
  from faithfulD [OF faithful_tx(1) assms(2,1)]
  have c: "calm w'" and q: "tx_Watermark (w\<lparr>w_script := []\<rparr>) = (Inr v, w'\<lparr>w_script := []\<rparr>)" by auto
  from q have v: "v = (case db_watermark (w_db w) of None \<Rightarrow> 0 | Some u \<Rightarrow> u)"
    and eq: "w'\<lparr>w_script := []\<rparr> = w\<lparr>w_script := []\<rparr>"
    by (simp_all add: Watermark_run split: option.splits)
  show "v = (case db_watermark (w_db w) of None \<Rightarrow> 0 | Some u \<Rightarrow> u)" by (rule v)
  show "calm w'" by (rule c)
  show "w_db w' = w_db w" "w_seqs w' = w_seqs w" "w_base w' = w_base w"
    using arg_cong [OF eq, of w_db] arg_cong [OF eq, of w_seqs] arg_cong [OF eq, of w_base] by simp_all
qed

lemma old_event_ignored:
  assumes calm: "calm w" and wm: "db_watermark (w_db w) = Some v" "event_seq ev \<le> v"
  shows "w_db (snd (ApplyEvent r ev w)) = w_db w"
proof -
  let ?fn = "bind tx_Watermark (\<lambda>watermark. if event_seq ev \<le> watermark then ret ()
     else andThen (applyKind r ev) (tx_SetWatermark (event_seq ev)))"
  obtain res w' where run: "InTx ?fn w = (res, w')" by (cases "InTx ?fn w")
  have "w_db w' = w_db w"
  proof (cases res)
    case (Inl e)
    have "confined ?fn" by (intro keeps_intros)
    from InTx_rollback_calm [OF this run [unfolded Inl] calm] show ?thesis .
  next
    case (Inr x)
    from InTx_commit_calm [OF run [unfolded Inr] calm] obtain u u' where
      u: "?fn u = (Inr x, u')" "w_db u = w_db w" "calm u" and
      commit: "calm u' \<Longrightarrow> w_db w' = w_db u'" by metis
    from u(1) obtain y t where y: "tx_Watermark u = (Inr y, t)" by (auto simp: bind_Inr)
    from tx_Watermark_calm [OF y u(3)] u(2) wm have "y = v" "w_db t = w_db w" "calm t" by auto
    with u(1) y wm(2) have "u' = t" by (simp add: bind_def ret_def)
    with commit \<open>calm t\<close> \<open>w_db t = w_db w\<close> show ?thesis by simp
  qed
  with run show ?thesis by (simp add: ApplyEvent_def)
qed

lemma applied_moves_watermark:
  assumes calm: "calm w" and wm: "db_watermark (w_db w) = Some v" "0 \<le> sq_epoch (w_seqs w)"
    and run: "ApplyEvent r ev w = (Inr x, w')"
  shows "\<exists>v'. db_watermark (w_db w') = Some v' \<and> v \<le> v' \<and> event_seq ev \<le> v'"
proof -
  from InTx_commit_calm [OF run [unfolded ApplyEvent_def] calm] obtain u u' where
    u: "bind tx_Watermark (\<lambda>watermark. if event_seq ev \<le> watermark then ret ()
      else andThen (applyKind r ev) (tx_SetWatermark (event_seq ev))) u = (Inr x, u')"
    "w_db u = w_db w" "w_seqs u = w_seqs w" "calm u" "w_base u = w_db u" and
    commit: "calm u' \<Longrightarrow> w_db w' = w_db u'" by metis
  from u(1) obtain y t where y: "tx_Watermark u = (Inr y, t)" and
    rest: "(if event_seq ev \<le> y then ret () else andThen (applyKind r ev) (tx_SetWatermark (event_seq ev))) t = (Inr x, u')"
    by (auto simp: bind_Inr)
  from tx_Watermark_calm [OF y u(4)] u wm
  have y': "y = v" "w_db t = w_db w" "calm t" "w_seqs t = w_seqs w" "w_base t = w_db t" by auto
  show ?thesis
  proof (cases "event_seq ev \<le> v")
    case True
    with rest y' commit wm show ?thesis by (auto simp: ret_def)
  next
    case False
    with rest y' obtain s where s: "applyKind r ev t = (Inr (), s)" and
      set_wm: "tx_SetWatermark (event_seq ev) s = (Inr x, u')" by (auto simp: andThen_Inr)
    have "calm s" using faithfulD [OF faithful_applyKind y'(3) s] by simp
    have "holds_from (watermark_from v) 0 t"
      using y' wm calm_rely [OF y'(3)] by (simp add: holds_from_def holds_def watermark_from_def)
    from keepsD [OF watermark.keeps_applyKind [OF order_refl] s this]
    obtain v1 where v1: "db_watermark (w_db s) = Some v1" "v \<le> v1"
      by (auto simp: holds_from_def holds_def watermark_from_def split: option.splits)
    have "w_db u' = (w_db s)\<lparr>db_watermark := Some (max v1 (event_seq ev))\<rparr>" "calm u'"
      using stmt_calm [OF set_wm [unfolded tx_SetWatermark_def] \<open>calm s\<close>] v1
      by (auto simp: q_SetWatermark_def)
    with commit v1 show ?thesis by auto
  qed
qed

lemma drive_events:
  assumes "drive r (map StreamEvent evs) w = (Inr (), w')" "calm w" "db_watermark (w_db w) = Some v"
    "0 \<le> sq_epoch (w_seqs w)" "w_base w = w_db w"
  shows "\<exists>v'. db_watermark (w_db w') = Some v' \<and> v \<le> v' \<and> (\<forall>ev \<in> set evs. event_seq ev \<le> v') \<and> calm w'"
  using assms
proof (induction evs arbitrary: w v)
  case Nil
  then show ?case by (auto simp: ret_def)
next
  case (Cons e evs)
  then obtain t where t: "ApplyEvent r e w = (Inr (), t)" and rest: "drive r (map StreamEvent evs) t = (Inr (), w')"
    by (auto simp: andThen_Inr)
  from applied_moves_watermark [OF Cons.prems(2,3,4) t] obtain v1 where
    v1: "db_watermark (w_db t) = Some v1" "v \<le> v1" "event_seq e \<le> v1" by blast
  have "calm t" using faithfulD [OF faithful_ApplyEvent Cons.prems(2) t] by simp
  have "holds_from (watermark_from v) 0 w"
    using Cons.prems calm_rely [OF Cons.prems(2)] by (simp add: holds_from_def holds_def watermark_from_def)
  from keepsD [OF watermark.keeps_ApplyEvent [OF order_refl] t this]
  have "0 \<le> sq_epoch (w_seqs t)" by (simp add: holds_from_def)
  moreover have "w_base t = w_db t"
    using t by (auto simp: ApplyEvent_def InTx_def split: prod.splits sum.splits)
  ultimately show ?case
    using Cons.IH [OF rest \<open>calm t\<close> v1(1)] v1 by fastforce
qed

text \<open>
  C1: An event is applied exactly once.  After a stream of events has been applied,
  delivering any of them again, in any attempt and with any statement failing, changes no
  table: a resumed subscription may replay what it likes.
\<close>

theorem ApplyEvent_replay:
  assumes "calm w" "w_base w = w_db w" "db_watermark (w_db w) \<noteq> None" "0 \<le> sq_epoch (w_seqs w)"
    and "drive r (map StreamEvent evs) w = (Inr (), w')"
    and "ev \<in> set evs" "calm w2" "w_db w2 = w_db w'"
  shows "w_db (snd (ApplyEvent r ev w2)) = w_db w'"
proof -
  from assms(3) obtain v where "db_watermark (w_db w) = Some v" by blast
  from drive_events [OF assms(5,1) this assms(4,2)] assms(6) obtain v' where
    "db_watermark (w_db w') = Some v'" "event_seq ev \<le> v'" by blast
  with old_event_ignored [OF assms(7)] assms(8) show ?thesis by simp
qed

definition sample_stream :: "FileEvent list" where
  "sample_stream = [sample_event 6 EvModify ''/d/a.pdf'' [] False, sample_event 7 EvDelete ''/d/s'' [] True]"

lemma ApplyEvent_replay_witness:
  "w_db (snd (ApplyEvent sample_rec (sample_event 7 EvDelete ''/d/s'' [] True)
      ((snd (drive sample_rec (map StreamEvent sample_stream) (sample_world [])))\<lparr>w_script := [Run, Run, Fault]\<rparr>))) =
   w_db (snd (drive sample_rec (map StreamEvent sample_stream) (sample_world [])))"
proof (rule ApplyEvent_replay)
  have "fst (drive sample_rec (map StreamEvent sample_stream) (sample_world [])) = Inr ()" by code_simp
  then show "drive sample_rec (map StreamEvent sample_stream) (sample_world []) =
      (Inr (), snd (drive sample_rec (map StreamEvent sample_stream) (sample_world [])))"
    by (metis prod.collapse)
qed (simp_all add: sample_db_def sample_seqs_def sample_stream_def calm_def)

section \<open>Resolving a path to its root\<close>

lemma deepest_spec:
  "deepest path mps best = Some mp \<Longrightarrow>
     ((mp \<in> set mps \<and> contains (mp_root mp) path) \<or> best = Some mp) \<and>
     (\<forall>x \<in> set mps. contains (mp_root x) path \<longrightarrow> length (mp_root x) \<le> length (mp_root mp)) \<and>
     (\<forall>b. best = Some b \<longrightarrow> length (mp_root b) \<le> length (mp_root mp))"
proof (induction mps arbitrary: best)
  case Nil
  then show ?case by simp
next
  case (Cons x mps)
  let ?next = "if contains (mp_root x) path \<and>
      (case best of None \<Rightarrow> True | Some b \<Rightarrow> length (mp_root b) < length (mp_root x)) then Some x else best"
  have "deepest path (x # mps) best = deepest path mps ?next" by (simp split: option.splits)
  with Cons.prems Cons.IH [of ?next] have ih:
    "mp \<in> set mps \<and> contains (mp_root mp) path \<or> ?next = Some mp"
    "\<And>y. y \<in> set mps \<Longrightarrow> contains (mp_root y) path \<Longrightarrow> length (mp_root y) \<le> length (mp_root mp)"
    "\<And>b. ?next = Some b \<Longrightarrow> length (mp_root b) \<le> length (mp_root mp)" by auto
  have "mp \<in> set (x # mps) \<and> contains (mp_root mp) path \<or> best = Some mp"
    using ih(1) by (auto split: if_splits)
  moreover have "length (mp_root x) \<le> length (mp_root mp)" if "contains (mp_root x) path"
  proof (cases best)
    case None
    with ih(3) [of x] that show ?thesis by simp
  next
    case (Some a)
    with ih(3) [of x] ih(3) [of a] that show ?thesis
      by (cases "length (mp_root a) < length (mp_root x)") auto
  qed
  moreover have "length (mp_root b) \<le> length (mp_root mp)" if "best = Some b" for b
    using ih(3) [of x] ih(3) [of b] that
    by (cases "contains (mp_root x) path \<and> length (mp_root b) < length (mp_root x)") auto
  ultimately show ?case using ih(2) by auto
qed

lemma deepest_None: "deepest path mps best = None \<longleftrightarrow> best = None \<and> (\<forall>x \<in> set mps. \<not> contains (mp_root x) path)"
  by (induction path mps best rule: deepest.induct) (auto split: option.splits)

text \<open>
  \<open>mountpointFor\<close> resolves a path to the deepest watched root containing it: it finds one
  exactly when some root contains the path, the one it finds contains it, and every other
  root that does is contained in no deeper one, so nested roots resolve to the inner one.
\<close>

theorem mountpointFor_deepest:
  "(mountpointFor r path = None \<longleftrightarrow> (\<forall>x \<in> set (rc_mountpoints r). \<not> contains (mp_root x) path)) \<and>
   (\<forall>mp. mountpointFor r path = Some mp \<longrightarrow> mp \<in> set (rc_mountpoints r) \<and> contains (mp_root mp) path \<and>
     (\<forall>x \<in> set (rc_mountpoints r). contains (mp_root x) path \<longrightarrow>
        length (mp_root x) \<le> length (mp_root mp)))"
  unfolding mountpointFor_def using deepest_spec [of path "rc_mountpoints r" None] deepest_None
  by fastforce

lemma mountpointFor_deepest_witness:
  "(mountpointFor (New (NewEnqueuer 5) sample_filter [sample_mp, \<lparr>mp_id = 2, mp_root = ''/d/s''\<rparr>] 0) ''/d/s/b.pdf'' = None \<longleftrightarrow>
     (\<forall>x \<in> set (rc_mountpoints (New (NewEnqueuer 5) sample_filter [sample_mp, \<lparr>mp_id = 2, mp_root = ''/d/s''\<rparr>] 0)).
        \<not> contains (mp_root x) ''/d/s/b.pdf'')) \<and>
   mountpointFor (New (NewEnqueuer 5) sample_filter [sample_mp, \<lparr>mp_id = 2, mp_root = ''/d/s''\<rparr>] 0) ''/d/s/b.pdf'' =
     Some \<lparr>mp_id = 2, mp_root = ''/d/s''\<rparr>"
  by (rule conjI [OF conjunct1 [OF mountpointFor_deepest]]) code_simp

section \<open>Deletions\<close>

text \<open>
  Deleting a directory removes its observation and every observation beneath it, turns
  every live document beneath it into a tombstone, queues the invalidation of the version
  each of them pointed at, and changes nothing else; only a connection fault can stop it.
\<close>

theorem applyDelete_directory:
  assumes "calm w" "eq_bound (rc_enqueuer r)" "mountpointFor r path = Some mp"
    and "applyDelete r path True w = (res, w')" "res \<noteq> Inl ErrConn"
  shows "res = Inr () \<and> w_db w' = (w_db w)
    \<lparr>db_obs := filter (\<lambda>x. \<not> (o_mountpoint_id x = mp_id mp \<and> contains path (o_path x))) (db_obs (w_db w)),
     db_docs := map (\<lambda>x. if doc_under (mp_id mp) (subtree_prefix path) x
                        then tombstone (db_now (w_db w)) x else x) (db_docs (w_db w)),
     db_outbox := db_outbox (w_db w) @ concat (map invalidation_of
        (filter (doc_under (mp_id mp) (subtree_prefix path)) (db_docs (w_db w))))\<rparr>"
proof -
  have jobs: "invalidations (versions_of m rows) = concat (map invalidation_of rows)" for m rows
    by (induction rows) (simp_all add: versions_of_def invalidation_of_def subtree_document_def)
  note quiet = applyDelete_directory_run [OF quiet_update(5) assms(2,3)]
  from undisturbed [OF faithful_applyDelete assms(1,4,5) quiet [of w]]
  show ?thesis by (simp add: gone_obs_def update_where_def jobs)
qed

abbreviation sample_delete_dir :: "(err + unit) \<times> world" where
  "sample_delete_dir \<equiv> applyDelete sample_rec ''/d/s'' True (sample_world [Run, Run])"

lemma applyDelete_directory_witness:
  "map o_path (db_obs (w_db (snd sample_delete_dir))) = [''/d/a.pdf''] \<and>
   map live (db_docs (w_db (snd sample_delete_dir))) = [True, False]"
proof -
  have calm: "calm (sample_world [Run, Run])" by (simp add: calm_def)
  have mp: "mountpointFor sample_rec ''/d/s'' = Some sample_mp" by code_simp
  have "fst sample_delete_dir = Inr ()" by code_simp
  then have run: "sample_delete_dir = (Inr (), snd sample_delete_dir)" by (metis prod.collapse)
  from applyDelete_directory [THEN conjunct2, OF calm sample_rec_fields(1) mp run Inr_not_Inl]
  show ?thesis
    by (simp add: sample_db_def sample_row_defs contains_def subtree_prefix_def trim_suffix_def
        has_suffix_def has_prefix_def doc_under_def live_def tombstone_def)
qed

text \<open>
  Deleting a file removes its observation alone, turns the live document at exactly that
  path into a tombstone and queues the invalidation of its version, and changes nothing
  else; only a connection fault can stop it.
\<close>

theorem applyDelete_file:
  assumes "calm w" "eq_bound (rc_enqueuer r)" "mountpointFor r path = Some mp"
    and "applyDelete r path False w = (res, w')" "res \<noteq> Inl ErrConn"
  shows "res = Inr () \<and> w_db w' = (w_db w)
    \<lparr>db_obs := filter (\<lambda>x. obs_key x \<noteq> (mp_id mp, path)) (db_obs (w_db w)),
     db_docs := map (\<lambda>x. if doc_at (mp_id mp) path x then tombstone (db_now (w_db w)) x else x) (db_docs (w_db w)),
     db_outbox := db_outbox (w_db w) @
       (case List.find (doc_at (mp_id mp) path) (db_docs (w_db w)) of
          None \<Rightarrow> [] | Some d \<Rightarrow> invalidation_of d)\<rparr>"
proof -
  note quiet = applyDelete_file_run [OF quiet_update(5) assms(2,3)]
  from undisturbed [OF faithful_applyDelete assms(1,4,5) quiet [of w]]
  show ?thesis by (simp add: update_where_def)
qed

abbreviation sample_delete_file :: "(err + unit) \<times> world" where
  "sample_delete_file \<equiv> applyDelete sample_rec ''/d/a.pdf'' False (sample_world [Run, Run])"

lemma applyDelete_file_witness:
  "map live (db_docs (w_db (snd sample_delete_file))) = [False, True] \<and>
   db_outbox (w_db (snd sample_delete_file)) = [request (InvalidateThumbnailsArgs 1 1) None]"
proof -
  have calm: "calm (sample_world [Run, Run])" by (simp add: calm_def)
  have mp: "mountpointFor sample_rec ''/d/a.pdf'' = Some sample_mp" by code_simp
  have "fst sample_delete_file = Inr ()" by code_simp
  then have run: "sample_delete_file = (Inr (), snd sample_delete_file)" by (metis prod.collapse)
  from applyDelete_file [THEN conjunct2, OF calm sample_rec_fields(1) mp run Inr_not_Inl]
  show ?thesis
    by (simp add: sample_db_def sample_row_defs doc_at_def live_def tombstone_def invalidation_of_def derefID_def)
qed

section \<open>Renames\<close>

text \<open>
  C3: Renaming an indexed file to a path that is still indexed keeps its identity: the
  document keeps its id, version and first-seen time and takes the new path, device and
  inode; another live document that stood at the target becomes a tombstone and its
  version's thumbnails are queued for invalidation; every other row is as it was.  The
  unique index on live paths can never refuse it: only a connection fault stops it.
\<close>

theorem moveFile_keeps_identity:
  assumes "calm w" "eq_bound (rc_enqueuer r)" "docs_ok (w_db w) (w_seqs w)"
    and "mp \<in> m_id ` set (db_mountpoints (w_db w))"
    and "List.find (doc_at mp oldPath) (db_docs (w_db w)) = Some moved" "AllowPath (rc_filter r) newPath"
    and "moveFile r mp oldPath newPath stat w = (res, w')" "res \<noteq> Inl ErrConn"
  shows "res = Inr () \<and>
    db_docs (w_db w') = map (\<lambda>x.
      if d_id x = d_id moved
      then x\<lparr>d_path := newPath, d_dev := statDev stat, d_ino := statIno stat, d_updated_at := db_now (w_db w)\<rparr>
      else if doc_at mp newPath x then tombstone (db_now (w_db w)) x else x) (db_docs (w_db w)) \<and>
    db_outbox (w_db w') = db_outbox (w_db w) @
      (case List.find (\<lambda>x. doc_at mp newPath x \<and> d_id x \<noteq> d_id moved) (db_docs (w_db w)) of
         None \<Rightarrow> [] | Some x \<Rightarrow> invalidation_of x) @
      [request (IngestPathArgs mp newPath TriggerSettled) None] \<and>
    ((mp, newPath) \<in> obs_key ` set (db_obs (w_db w'))) \<and>
    (oldPath \<noteq> newPath \<longrightarrow> (mp, oldPath) \<notin> obs_key ` set (db_obs (w_db w')))"
proof -
  let ?q = "w\<lparr>w_script := []\<rparr>"
  have quiet: "moveFile r mp oldPath newPath stat ?q = (Inr (),
    put_jobs (put_docs (put_obs ?q (renamed_obs (w_db w) mp oldPath newPath stat)) (renamed_docs (w_db w) mp newPath stat moved))
      (retired_jobs (w_db w) mp newPath moved @ [ingest_request (w_clock w) (rc_enqueuer r) mp newPath Settled]))"
    using moveFile_moved_run [OF quiet_update(5), of r w mp oldPath moved newPath stat] assms by simp
  from undisturbed [OF faithful_moves(1) assms(1,7,8) quiet]
  have res: "res = Inr ()" and db: "w_db w' = (w_db w)\<lparr>db_obs := renamed_obs (w_db w) mp oldPath newPath stat,
      db_docs := renamed_docs (w_db w) mp newPath stat moved,
      db_outbox := db_outbox (w_db w) @ retired_jobs (w_db w) mp newPath moved @
        [request (IngestPathArgs mp newPath TriggerSettled) None]\<rparr>"
    by (simp_all add: ingest_request_def)
  have docs: "renamed_docs (w_db w) mp newPath stat moved = map (\<lambda>x.
      if d_id x = d_id moved
      then x\<lparr>d_path := newPath, d_dev := statDev stat, d_ino := statIno stat, d_updated_at := db_now (w_db w)\<rparr>
      else if doc_at mp newPath x then tombstone (db_now (w_db w)) x else x) (db_docs (w_db w))"
    by (auto simp: renamed_docs_def retired_docs_def update_where_def replaced_def relocated_def tombstone_def)
  have keys: "obs_key ` set (renamed_obs (w_db w) mp oldPath newPath stat) =
      insert (mp, newPath) (obs_key ` set (db_obs (w_db w)) - {(mp, oldPath)})"
    by (auto simp: renamed_obs_def keys_upsert_by)
  have jobs: "retired_jobs (w_db w) mp newPath moved =
      (case List.find (\<lambda>x. doc_at mp newPath x \<and> d_id x \<noteq> d_id moved) (db_docs (w_db w)) of
         None \<Rightarrow> [] | Some x \<Rightarrow> invalidation_of x)"
    by (simp add: retired_jobs_def replaced_def [abs_def])
  show ?thesis using res db docs keys jobs by simp
qed

lemma moveFile_keeps_identity_witness:
  "map (\<lambda>x. (d_id x, d_path x, d_current_cv x, live x)) (db_docs (w_db
      (snd (moveFile sample_rec 1 ''/d/a.pdf'' ''/d/s/b.pdf'' None (sample_world [Run]))))) =
   [(1, ''/d/s/b.pdf'', Some 1, True), (2, ''/d/s/b.pdf'', None, False)]"
proof -
  let ?run = "moveFile sample_rec 1 ''/d/a.pdf'' ''/d/s/b.pdf'' None (sample_world [Run])"
  have calm: "calm (sample_world [Run])" by (simp add: calm_def)
  have ok: "docs_ok (w_db (sample_world [Run])) (w_seqs (sample_world [Run]))"
    using sample_db_ok by (simp add: db_ok_def)
  have mp: "1 \<in> m_id ` set (db_mountpoints (w_db (sample_world [Run])))" by (simp add: sample_db_def)
  have fnd: "List.find (doc_at 1 ''/d/a.pdf'') (db_docs (w_db (sample_world [Run]))) =
      Some (sample_doc 1 ''/d/a.pdf'' 11 (Some 1))" by code_simp
  have allow: "AllowPath (rc_filter sample_rec) ''/d/s/b.pdf''" by code_simp
  have "fst ?run = Inr ()" by code_simp
  then have run: "?run = (Inr (), snd ?run)" by (metis prod.collapse)
  from moveFile_keeps_identity [THEN conjunct2, THEN conjunct1, OF calm sample_rec_fields(1) ok mp fnd allow run Inr_not_Inl]
  show ?thesis
    by (simp add: sample_db_def sample_row_defs doc_at_def live_def tombstone_def)
qed

text \<open>
  C2: Renaming a directory keeps every document beneath it: each live document takes the
  same path below the new name and keeps its id, inode and version; the documents that
  stood beneath the destination become tombstones and their versions are queued for
  invalidation; no other document changes, and nothing is queued for re-ingestion.  No
  unique index can refuse it, in whatever order the rows are visited, and the new
  directory is observed.
\<close>

theorem moveDirectory_keeps_identity:
  assumes "calm w" "eq_bound (rc_enqueuer r)" "db_ok (w_db w) (w_seqs w)"
    and "mp \<in> m_id ` set (db_mountpoints (w_db w))"
    and "moveDirectory r mp oldPath newPath stat w = (res, w')" "res \<noteq> Inl ErrConn"
  shows "res = Inr () \<and>
    db_docs (w_db w') = map (\<lambda>x.
      if doc_under mp (subtree_prefix newPath) x then tombstone (db_now (w_db w)) x
      else if doc_under mp (subtree_prefix oldPath) x
      then x\<lparr>d_path := subtree_prefix newPath @ drop (length (subtree_prefix oldPath)) (d_path x),
             d_updated_at := db_now (w_db w)\<rparr>
      else x) (db_docs (w_db w)) \<and>
    db_outbox (w_db w') = db_outbox (w_db w) @
      concat (map invalidation_of (filter (doc_under mp (subtree_prefix newPath)) (db_docs (w_db w)))) \<and>
    (mp, newPath) \<in> obs_key ` set (db_obs (w_db w')) \<and>
    (\<forall>x \<in> set (db_obs (w_db w)). obs_under mp (subtree_prefix oldPath) x \<and>
       \<not> (contains newPath (o_path x)) \<and>
       repath (subtree_prefix oldPath) (subtree_prefix newPath) (o_path x) \<noteq> oldPath \<longrightarrow>
       (mp, repath (subtree_prefix oldPath) (subtree_prefix newPath) (o_path x)) \<in> obs_key ` set (db_obs (w_db w')))"
proof -
  let ?q = "w\<lparr>w_script := []\<rparr>"
  let ?js = "concat (map invalidation_of (filter (doc_under mp (subtree_prefix newPath)) (db_docs (w_db w))))"
  have jobs: "invalidations (versions_of m rows) = concat (map invalidation_of rows)" for m rows
    by (induction rows) (simp_all add: versions_of_def invalidation_of_def subtree_document_def)
  have quiet: "moveDirectory r mp oldPath newPath stat ?q = (Inr (),
    put_jobs (put_docs (put_obs ?q (moved_tree_obs (w_db w) mp oldPath newPath stat)) (moved_tree_docs (w_db w) mp oldPath newPath)) ?js)"
    using moveDirectory_run [OF quiet_update(5), of r w mp oldPath newPath stat] assms by (simp add: jobs)
  from undisturbed [OF faithful_moves(2) assms(1,5,6) quiet]
  have res: "res = Inr ()" and db: "w_db w' = (w_db w)\<lparr>db_obs := moved_tree_obs (w_db w) mp oldPath newPath stat,
      db_docs := moved_tree_docs (w_db w) mp oldPath newPath, db_outbox := db_outbox (w_db w) @ ?js\<rparr>"
    by simp_all
  have docs: "moved_tree_docs (w_db w) mp oldPath newPath = map (\<lambda>x.
      if doc_under mp (subtree_prefix newPath) x then tombstone (db_now (w_db w)) x
      else if doc_under mp (subtree_prefix oldPath) x
      then x\<lparr>d_path := subtree_prefix newPath @ drop (length (subtree_prefix oldPath)) (d_path x),
             d_updated_at := db_now (w_db w)\<rparr>
      else x) (db_docs (w_db w))"
    by (simp add: moved_tree_docs_def cleared_docs_def update_where_def repathed_def repath_def)
  have obs: "(mp, repath (subtree_prefix oldPath) (subtree_prefix newPath) (o_path x))
      \<in> obs_key ` set (moved_tree_obs (w_db w) mp oldPath newPath stat)"
    if "x \<in> set (db_obs (w_db w))" "obs_under mp (subtree_prefix oldPath) x" "\<not> contains newPath (o_path x)"
      "repath (subtree_prefix oldPath) (subtree_prefix newPath) (o_path x) \<noteq> oldPath" for x
  proof -
    let ?y = "x\<lparr>o_path := repath (subtree_prefix oldPath) (subtree_prefix newPath) (o_path x), o_observed_at := db_now (w_db w)\<rparr>"
    have key: "obs_key ?y = (mp, repath (subtree_prefix oldPath) (subtree_prefix newPath) (o_path x))"
      using that by (simp add: obs_key_def obs_under_def)
    let ?rows = "update_where (obs_under mp (subtree_prefix oldPath))
        (\<lambda>r. r\<lparr>o_path := repath (subtree_prefix oldPath) (subtree_prefix newPath) (o_path r), o_observed_at := db_now (w_db w)\<rparr>)
        (filter (\<lambda>r. \<not> gone_obs mp newPath r) (db_obs (w_db w)))"
    have "?y \<in> set ?rows"
      unfolding set_update_where
      by (rule UnI1, rule image_eqI [where x = x]) (use that in \<open>simp_all add: gone_obs_def\<close>)
    moreover have "obs_key ?y \<noteq> (mp, oldPath)" unfolding key using that(4) by simp
    ultimately have "obs_key ?y \<in> obs_key ` set (filter (\<lambda>r. obs_key r \<noteq> (mp, oldPath)) ?rows)"
      by (intro imageI) simp
    then show ?thesis unfolding moved_tree_obs_def keys_upsert_by key by (rule insertI2)
  qed
  have new: "(mp, newPath) \<in> obs_key ` set (moved_tree_obs (w_db w) mp oldPath newPath stat)"
    by (simp add: moved_tree_obs_def keys_upsert_by)
  show ?thesis using res db docs obs new by simp
qed

lemma moveDirectory_keeps_identity_witness:
  "map (\<lambda>x. (d_id x, d_path x, d_current_cv x, live x)) (db_docs (w_db
      (snd (moveDirectory sample_rec 1 ''/d/s'' ''/d/t'' None (sample_world [Run]))))) =
   [(1, ''/d/a.pdf'', Some 1, True), (2, ''/d/t/b.pdf'', None, True)]"
proof -
  let ?run = "moveDirectory sample_rec 1 ''/d/s'' ''/d/t'' None (sample_world [Run])"
  have calm: "calm (sample_world [Run])" by (simp add: calm_def)
  have ok: "db_ok (w_db (sample_world [Run])) (w_seqs (sample_world [Run]))"
    using sample_db_ok by simp
  have mp: "1 \<in> m_id ` set (db_mountpoints (w_db (sample_world [Run])))" by (simp add: sample_db_def)
  have "fst ?run = Inr ()" by code_simp
  then have run: "?run = (Inr (), snd ?run)" by (metis prod.collapse)
  from moveDirectory_keeps_identity [THEN conjunct2, THEN conjunct1, OF calm sample_rec_fields(1) ok mp run Inr_not_Inl]
  show ?thesis
    by (simp add: sample_db_def sample_row_defs doc_under_def live_def subtree_prefix_def trim_suffix_def
        has_suffix_def has_prefix_def)
qed

end
