(* ===== verification/Indexer.thy ===== *)
theory Indexer
  imports Reconciler_Correct
begin

text \<open>
  How the indexer starts (\<open>internal/indexer/indexer.go\<close>): the configured roots become rows whose
  identifiers the reconciler resolves paths against.  Also the read-only statements no other
  modelled code runs.
\<close>

section \<open>Read-only statements\<close>

definition q_GetMountpointByRoot :: "string \<Rightarrow> mountpoint_row sql" where
  "q_GetMountpointByRoot root =
     select (\<lambda>d. row_or_none (List.find (\<lambda>m. m_root_path m = root) (db_mountpoints d)))"

definition q_ListMountpoints :: "mountpoint_row list sql" where
  "q_ListMountpoints = select (\<lambda>d. Inr (sort_key m_root_path (db_mountpoints d)))"

definition q_GetWatermark :: "int sql" where
  "q_GetWatermark = select (\<lambda>d. row_or_none (db_watermark d))"

definition q_GetExtraction :: "int \<Rightarrow> ex_row sql" where
  "q_GetExtraction cv = select (\<lambda>d. row_or_none (List.find (\<lambda>x. ex_cv_id x = cv) (db_extracted d)))"

definition q_GetDocumentText :: "int \<Rightarrow> string sql" where
  "q_GetDocumentText did = select (\<lambda>d.
     case List.find (\<lambda>r. d_id r = did) (db_docs d) of
       None \<Rightarrow> Inl ErrNoRows
     | Some r \<Rightarrow> row_or_none (map_option ex_text
         (List.find (\<lambda>x. d_current_cv r = Some (ex_cv_id x)) (db_extracted d))))"

section \<open>Registration\<close>

fun registerMountpoints :: "string list \<Rightarrow> Mountpoint list m" where
  "registerMountpoints [] = ret []"
| "registerMountpoints (root # names) =
     bind (stmt (q_UpsertMountpoint (path_clean root) True)) (\<lambda>row.
       bind (registerMountpoints names) (\<lambda>out.
         ret (\<lparr>mp_id = m_id row, mp_root = m_root_path row\<rparr> # out)))"

text \<open>The settings the composition derives: worker counts and the watcher's target.\<close>

definition riverWorkers :: "int \<Rightarrow> int \<Rightarrow> int" where
  "riverWorkers wanted numCPU = (if 0 < wanted then wanted else max numCPU 1)"

definition watchTarget :: "string \<Rightarrow> string \<Rightarrow> string" where
  "watchTarget target socket = (if target \<noteq> [] then target else socket)"

section \<open>Identifiers\<close>

definition root_id :: "database \<Rightarrow> string \<Rightarrow> int option" where
  "root_id d root = map_option m_id (List.find (\<lambda>m. m_root_path m = root) (db_mountpoints d))"

definition ids_kept :: "database \<Rightarrow> database \<Rightarrow> bool" where
  "ids_kept d d' \<longleftrightarrow> (\<forall>root i. root_id d root = Some i \<longrightarrow> root_id d' root = Some i)"

lemma find_append: "List.find P (xs @ ys) = (case List.find P xs of Some x \<Rightarrow> Some x | None \<Rightarrow> List.find P ys)"
  by (induction xs) auto

lemma upsert_mountpoint:
  assumes "q_UpsertMountpoint root enabled d q = (Inr m, d', q')"
  shows "m_root_path m = root \<and> root_id d' root = Some (m_id m) \<and> ids_kept d d'"
proof (cases "List.find (\<lambda>m. m_root_path m = root) (db_mountpoints d)")
  case None
  with assms show ?thesis
    by (auto simp: q_UpsertMountpoint_def Let_def root_id_def ids_kept_def find_append split: option.splits)
next
  case (Some m0)
  then have root: "m_root_path m0 = root" by (auto dest: find_SomeD)
  with Some assms show ?thesis
    using find_upsert_by [of m_root_path _ m "db_mountpoints d"]
    by (auto simp: q_UpsertMountpoint_def Let_def root_id_def ids_kept_def)
qed

lemma upsert_mountpoint_succeeds: "\<exists>m d' q'. q_UpsertMountpoint root enabled d q = (Inr m, d', q')"
  by (cases "List.find (\<lambda>m. m_root_path m = root) (db_mountpoints d)")
    (simp_all add: q_UpsertMountpoint_def Let_def)

lemma ids_kept_trans: "ids_kept a b \<Longrightarrow> ids_kept b c \<Longrightarrow> ids_kept a c"
  by (simp add: ids_kept_def)

lemma registered:
  assumes "registerMountpoints names w = (Inr out, w')" "calm w"
  shows "calm w' \<and> ids_kept (w_db w) (w_db w') \<and> map mp_root out = map path_clean names \<and>
    (\<forall>mp \<in> set out. root_id (w_db w') (mp_root mp) = Some (mp_id mp))"
  using assms
proof (induction names arbitrary: w out)
  case Nil
  then show ?case by (simp add: ret_def ids_kept_def)
next
  case (Cons root names)
  from Cons.prems(1) obtain row w1 rest where run: "stmt (q_UpsertMountpoint (path_clean root) True) w = (Inr row, w1)"
    "registerMountpoints names w1 = (Inr rest, w')" "out = \<lparr>mp_id = m_id row, mp_root = m_root_path row\<rparr> # rest"
    by (auto simp: m_inv)
  note row = upsert_mountpoint [OF stmt_calm(1) [OF run(1) Cons.prems(2)]]
  note tail = Cons.IH [OF run(2) stmt_calm(2) [OF run(1) Cons.prems(2)]]
  have "root_id (w_db w') (path_clean root) = Some (m_id row)" using row tail by (simp add: ids_kept_def)
  with row tail run(3) ids_kept_trans show ?case by auto
qed

lemma same_ids:
  assumes "map mp_root xs = map mp_root ys" "\<forall>mp \<in> set xs. f (mp_root mp) = Some (mp_id mp)"
    and "\<forall>mp \<in> set ys. f (mp_root mp) = Some (mp_id mp)"
  shows "xs = (ys :: Mountpoint list)"
  using assms
proof (induction xs arbitrary: ys)
  case (Cons x xs)
  then show ?case by (cases ys) (auto intro: Mountpoint.equality)
qed simp

text \<open>
  A restart watches under the same identifiers: registering the configured roots again, in
  any later database that kept the rows, returns the same mountpoints, so the observations and
  documents of earlier runs stay theirs.  Each mountpoint returned is the row of its cleaned
  root, and no registered root changes its identifier.
\<close>

theorem registration_survives_restart:
  assumes "registerMountpoints names w1 = (Inr out1, w1')" "calm w1"
    and "registerMountpoints names w2 = (Inr out2, w2')" "calm w2"
    and "ids_kept (w_db w1') (w_db w2)"
  shows "out2 = out1 \<and> map mp_root out1 = map path_clean names \<and>
    ids_kept (w_db w1) (w_db w2') \<and> mp_id ` set out1 \<subseteq> m_id ` set (db_mountpoints (w_db w2'))"
proof -
  note first = registered [OF assms(1,2)] and second = registered [OF assms(3,4)]
  have kept: "ids_kept (w_db w1') (w_db w2')" using assms(5) second by (blast intro: ids_kept_trans)
  then have "\<forall>mp \<in> set out1. root_id (w_db w2') (mp_root mp) = Some (mp_id mp)"
    using first by (auto simp: ids_kept_def)
  with first second have same: "out2 = out1" by (intro same_ids) auto
  have "mp_id mp \<in> m_id ` set (db_mountpoints (w_db w2'))" if "mp \<in> set out2" for mp
  proof -
    have "root_id (w_db w2') (mp_root mp) = Some (mp_id mp)" using second that by blast
    then obtain m where m: "List.find (\<lambda>m. m_root_path m = mp_root mp) (db_mountpoints (w_db w2')) = Some m" "m_id m = mp_id mp"
      by (auto simp: root_id_def)
    from find_SomeD [OF m(1)] m(2) show ?thesis by force
  qed
  with same first kept show ?thesis by (blast intro: ids_kept_trans)
qed

lemma registration_survives_restart_witness:
  "fst (registerMountpoints [''/d/'', ''/e/./f''] (sample_world [])) =
     fst (registerMountpoints [''/d/'', ''/e/./f'']
       (snd (registerMountpoints [''/d/'', ''/e/./f''] (sample_world []))))"
proof -
  let ?run = "registerMountpoints [''/d/'', ''/e/./f'']"
  have one: "case fst (?run (sample_world [])) of Inl e \<Rightarrow> False | Inr x \<Rightarrow> True" by code_simp
  have two: "case fst (?run (snd (?run (sample_world [])))) of Inl e \<Rightarrow> False | Inr x \<Rightarrow> True" by code_simp
  have calm: "calm (snd (?run (sample_world [])))"
  proof -
    have "w_script (snd (?run (sample_world []))) = []" by code_simp
    then show ?thesis by (simp add: calm_def)
  qed
  from one obtain x w1 where x: "?run (sample_world []) = (Inr x, w1)"
    by (metis (no_types, lifting) prod.collapse sum.case_eq_if sum.collapse(2))
  from two obtain y w2 where y: "?run w1 = (Inr y, w2)"
    by (metis (no_types, lifting) x snd_conv prod.collapse sum.case_eq_if sum.collapse(2))
  from registration_survives_restart [OF x sample_quiet(2) y] calm x y show ?thesis
    by (simp add: ids_kept_def)
qed

section \<open>The schema\<close>

lemma ok_UpsertMountpoint: "good db_ok e (q_UpsertMountpoint root enabled)"
proof (rule goodI)
  fix d q r d' q'
  assume run: "q_UpsertMountpoint root enabled d q = (r, d', q')" and ok: "db_ok d q"
  have bigger: "db_ok (d\<lparr>db_mountpoints := rows\<rparr>) (q\<lparr>sq_mountpoint := sq_mountpoint q + 1\<rparr>)"
    if "mountpoints_ok (d\<lparr>db_mountpoints := rows\<rparr>) (q\<lparr>sq_mountpoint := sq_mountpoint q + 1\<rparr>)"
      "m_id ` set (db_mountpoints d) \<subseteq> m_id ` set rows" for rows
    using ok that unfolding db_ok_defs by (auto intro: ids_ok_mono)
  have le: "seqs_le q (q\<lparr>sq_mountpoint := sq_mountpoint q + 1\<rparr>)" by (simp add: seqs_le_def)
  have mps: "ids_ok (sq_mountpoint q) (map m_id (db_mountpoints d))" "distinct (map m_root_path (db_mountpoints d))"
    "0 \<le> sq_mountpoint q"
    using ok by (simp_all add: db_ok_def mountpoints_ok_def seqs_ok_def)
  show "db_ok d' q' \<and> seqs_le q q'"
  proof (cases "List.find (\<lambda>m. m_root_path m = root) (db_mountpoints d)")
    case None
    let ?m = "\<lparr>m_id = sq_mountpoint q + 1, m_root_path = root, m_enabled = enabled,
      m_created_at = db_now d, m_updated_at = db_now d\<rparr>"
    have "root \<notin> m_root_path ` set (db_mountpoints d)" using None by (auto simp: find_None_iff)
    moreover have "ids_ok (sq_mountpoint q + 1) (map m_id (db_mountpoints d) @ [sq_mountpoint q + 1])"
      by (rule ids_ok_append_next [OF mps(1,3)])
    ultimately have "db_ok (d\<lparr>db_mountpoints := db_mountpoints d @ [?m]\<rparr>) (q\<lparr>sq_mountpoint := sq_mountpoint q + 1\<rparr>)"
      using mps(2) by (intro bigger) (auto simp: mountpoints_ok_def)
    with run None le show ?thesis by (auto simp: q_UpsertMountpoint_def Let_def)
  next
    case (Some m)
    let ?m = "m\<lparr>m_enabled := enabled, m_updated_at := db_now d\<rparr>"
    let ?rows = "upsert_by m_root_path ?m (db_mountpoints d)"
    have m: "m \<in> set (db_mountpoints d)" using Some by (auto dest: find_SomeD)
    have paths: "map m_root_path ?rows = map m_root_path (db_mountpoints d)"
      using m by (intro keys_upsert_by_present) auto
    have same: "x = m" if "x \<in> set (db_mountpoints d)" "m_root_path x = m_root_path m" for x
      using mps(2) m that by (auto simp: distinct_map inj_on_def)
    have ids: "map m_id ?rows = map m_id (db_mountpoints d)"
      using m same by (auto simp: upsert_by_def)
    have "m_id ` set ?rows = m_id ` set (db_mountpoints d)" using ids by (metis set_map)
    with mps ids paths have "db_ok (d\<lparr>db_mountpoints := ?rows\<rparr>) (q\<lparr>sq_mountpoint := sq_mountpoint q + 1\<rparr>)"
      by (intro bigger) (auto simp: mountpoints_ok_def intro: ids_ok_mono)
    with run Some le show ?thesis by (auto simp: q_UpsertMountpoint_def Let_def)
  qed
qed

end
