(* ===== verification/Whole_System.thy ===== *)
theory Whole_System
  imports Cache_System Extract_Correct Search_Correct Indexer
begin

text \<open>
  The program as a whole: the indexer's registration, its reconciler and the jobs of its queue,
  and the requests the API serves, taking turns on one database and one bucket.  A turn is one
  run of the modelled code over any script: its statements may fail, and transactions of
  the other components may commit between them.
\<close>

section \<open>Each component against the schema\<close>

lemma registration_holds:
  "registerMountpoints names w = (r, w') \<Longrightarrow> holds db_ok w \<Longrightarrow> holds db_ok w'"
proof (induction names arbitrary: w r w')
  case Nil
  then show ?case by (simp add: ret_def)
next
  case (Cons root names)
  obtain r1 w1 where up: "stmt (q_UpsertMountpoint (path_clean root) True) w = (r1, w1)" by fastforce
  have w1: "holds db_ok w1" by (rule stmt_holds [OF ok_UpsertMountpoint Cons.prems(2) up])
  obtain r2 w2 where rest: "registerMountpoints names w1 = (r2, w2)" by fastforce
  from Cons.IH [OF rest w1] Cons.prems(1) up rest w1 show ?case
    by (cases r1; cases r2) (auto simp: bind_def ret_def)
qed

lemma keeps_run:
  assumes "\<And>e. keeps db_ok e m" "m w = (r, w')" "holds db_ok w"
  shows "holds db_ok w'"
proof -
  have "holds_from db_ok (sq_epoch (w_seqs w)) w" using assms(3) by (simp add: holds_from_def)
  from keepsD [OF assms(1,2) this] show ?thesis by (simp add: holds_from_def)
qed

lemma reconciler_holds:
  "Run_reconciler r wts w = (x, w') \<Longrightarrow> holds db_ok w \<Longrightarrow> holds db_ok w'"
proof -
  assume run: "Run_reconciler r wts w = (x, w')" and h: "holds db_ok w"
  have "holds_from db_ok 0 w" using h by (simp add: holds_from_def holds_def db_ok_def seqs_ok_def)
  from keepsD [OF schema.keeps_Run run this] show ?thesis by (simp add: holds_from_def)
qed

lemma ingest_holds:
  assumes "ProcessPath p files mp path w = (x, w')" "holds db_ok w"
  shows "holds db_ok w'"
proof -
  have "holds_from db_ok (sq_epoch (w_seqs w)) w" using assms(2) by (simp add: holds_from_def)
  from keepsD [OF schema.keeps_ProcessPath assms(1) this] show ?thesis by (simp add: holds_from_def)
qed

lemma fail_job_holds:
  assumes "fail_job xw v cause w = (r, w')" "holds db_ok w"
  shows "holds db_ok w'"
proof -
  obtain r1 w1 where run: "stmt (q_MarkExtractionFailed v (Some (xw_message xw cause))) w = (r1, w1)"
    by fastforce
  from stmt_holds [OF ok_MarkExtractionFailed assms(2) run] run assms(1) show ?thesis
    by (auto simp: fail_job_def split: sum.splits)
qed

lemma extract_content_holds:
  assumes "extract_content xw files v path w = (r, w')" "holds db_ok w"
  shows "holds db_ok w'"
proof (cases "extraction xw files path")
  case (Inl e)
  with assms show ?thesis by (simp add: extract_content_def fail_def)
next
  case (Inr x)
  obtain t meta ct where x: "x = (t, meta, ct)" by (metis prod_cases3)
  obtain r1 w1 where run: "stmt (q_UpsertExtraction v ''succeeded'' t meta (Some ct) None) w = (r1, w1)"
    by fastforce
  from stmt_holds [OF ok_UpsertExtraction assms(2) run] run assms(1) Inr x show ?thesis
    by (auto simp: extract_content_def bind_def ret_def split: sum.splits)
qed

lemma extract_holds:
  assumes "Extract_Work xw files v w = (r, w')" "holds db_ok w"
  shows "holds db_ok w'"
proof -
  obtain r1 w1 where find: "stmt (q_FindPathForContentVersion (Some v)) w = (r1, w1)" by fastforce
  have w1: "holds db_ok w1"
    by (rule select_holds [OF assms(2) find [unfolded q_FindPathForContentVersion_def]])
  show ?thesis
  proof (cases r1)
    case (Inl e)
    with assms(1) find w1 show ?thesis by (simp add: Extract_Work_def)
  next
    case (Inr x)
    obtain did mp path sz where x: "x = (did, mp, path, sz)" by (metis prod_cases4)
    obtain r2 w2 where run: "extract_content xw files v path w1 = (r2, w2)" by fastforce
    note w2 = extract_content_holds [OF run w1]
    from assms(1) find Inr x run w2 show ?thesis
      by (auto simp: Extract_Work_def Let_def split: if_splits sum.splits
          intro: fail_job_holds [OF _ w1] fail_job_holds [OF _ w2])
  qed
qed

lemma render_holds:
  assumes "render ob env row key w g = (r, w', g')" "holds db_ok w"
  shows "holds db_ok w'"
proof -
  obtain s w1 where src: "sourcePath row w = (s, w1)" by fastforce
  have w1: "holds db_ok w1" by (rule reads_onlyD(3) [OF reads_only_sourcePath src assms(2)])
  consider "w' = w" | "w' = w1" | img where "publish ob key img w1 g = (r, w', g')"
    using assms(1) src
    by (auto simp: render_def eq_commute [of "Inl _" "render_bytes _ _ _"] split: option.splits sum.splits)
  then show ?thesis using assms(2) w1 publish_holds by cases blast+
qed

lemma load_holds:
  assumes "load ob env row key w g = (r, w', g')" "holds db_ok w"
  shows "holds db_ok w'"
proof -
  obtain r1 w1 g1 where first: "fromCache ob key w g = (r1, w1, g1)" by (metis prod_cases3)
  note w1 = fromCache_holds [OF first assms(2)]
  obtain r2 w2 g2 where second: "fromCache ob key w1 g1 = (r2, w2, g2)" by (metis prod_cases3)
  note w2 = fromCache_holds [OF second w1]
  have "w' = w1 \<or> w' = w2 \<or> render ob env row key w2 g2 = (r, w', g')"
    using assms(1) first second
    by (auto simp: load_def flight_def split: sum.splits option.splits)
  then show ?thesis using w1 w2 render_holds [of ob env row key w2 g2 r w' g'] by auto
qed

lemma thumbnail_holds:
  assumes "GetThumbnail ob env req w g = (r, w', g')" "holds db_ok w"
  shows "holds db_ok w'"
proof -
  obtain p w1 where pre: "thumbnail_prelude env req w = (p, w1)" by fastforce
  note w1 = reads_onlyD(3) [OF reads_only_thumbnail_prelude pre assms(2)]
  show ?thesis
  proof (cases p)
    case (Inl c)
    with assms(1) pre w1 show ?thesis by (simp add: GetThumbnail_def)
  next
    case (Inr x)
    obtain row format where x: "x = (row, format)" by fastforce
    obtain r2 w2 g2 where ld: "load ob env row (entry_of req row format) w1 g = (r2, w2, g2)" by (metis prod_cases3)
    from load_holds [OF ld w1] assms(1) pre Inr x ld show ?thesis
      by (auto simp: GetThumbnail_def split: sum.splits)
  qed
qed

lemma reads_only_GetDocument: "reads_only (GetDocument decode i)"
  unfolding GetDocument_def by (intro keeps_intros)

lemma search_holds:
  assumes "Search env req w = (r, w')" "holds db_ok w"
  shows "holds db_ok w'"
proof -
  let ?query = "se_normalize env (sr_query req)"
  consider "w' = w" | offset r1 w1 where "stmt (q_SearchDocuments (se_index env) ?query offset
        (narrow32 (narrow32 (resolvePageSize (sr_page_size req)) + 1))) w = (r1, w1)"
      "w' = w1 \<or> (\<exists>r2. stmt (q_CountSearchDocuments (se_index env) ?query) w1 = (r2, w'))"
    using assms(1) by (auto simp: Search_def Let_def split: if_splits sum.splits prod.splits)
  then show ?thesis
  proof cases
    case 2
    have "holds db_ok w1" by (rule select_holds [OF assms(2) 2(1) [unfolded q_SearchDocuments_def]])
    with 2(2) select_holds show ?thesis unfolding q_CountSearchDocuments_def by blast
  qed (use assms(2) in simp)
qed

lemma reads_only_render_prelude: "reads_only (render_prelude env req)"
  unfolding render_prelude_def by (intro keeps_intros)

lemma render_page_holds:
  assumes "RenderPage env req w s = (r, s', w')" "holds db_ok w"
  shows "holds db_ok w'"
proof -
  obtain p w1 where pre: "render_prelude env req w = (p, w1)" by fastforce
  have "w' = w1"
    using assms(1) pre by (auto simp: RenderPage_def Let_def split: sum.splits prod.splits option.splits)
  with reads_onlyD(3) [OF reads_only_render_prelude pre assms(2)] show ?thesis by simp
qed

section \<open>Turns\<close>

text \<open>
  Between two turns the environment hands the next component a script: what will fail, and which
  schema-keeping transactions will commit in between.
\<close>

inductive system_step :: "world \<times> 'g \<Rightarrow> world \<times> 'g \<Rightarrow> bool" where
  schedule: "rely db_ok (w\<lparr>w_script := script\<rparr>) \<Longrightarrow> system_step (w, g) (w\<lparr>w_script := script, w_clock := t\<rparr>, g)"
| register: "registerMountpoints names w = (r, w') \<Longrightarrow> system_step (w, g) (w', g)"
| reconcile: "Run_reconciler r wts w = (x, w') \<Longrightarrow> system_step (w, g) (w', g)"
| ingest: "ProcessPath p files mp path w = (x, w') \<Longrightarrow> system_step (w, g) (w', g)"
| extraction: "Extract_Work xw files v w = (j, w') \<Longrightarrow> system_step (w, g) (w', g)"
| cache_job: "cache_work ew st pages del args w g = Some (e, w', g') \<Longrightarrow> system_step (w, g) (w', g')"
| thumbnail: "GetThumbnail ob env req w g = (y, w', g') \<Longrightarrow> system_step (w, g) (w', g')"
| search: "Search senv sreq w = (z, w') \<Longrightarrow> system_step (w, g) (w', g)"
| document: "GetDocument decode i w = (u, w') \<Longrightarrow> system_step (w, g) (w', g)"
| page: "RenderPage env preq w s = (c, s', w') \<Longrightarrow> system_step (w, g) (w', g)"

inductive_cases system_stepE: "system_step (w, g) s'"

lemma system_step_holds:
  assumes "system_step s s'" "holds db_ok (fst s)"
  shows "holds db_ok (fst s')"
  using assms
proof (induction rule: system_step.induct)
  case (schedule w script g t)
  then show ?case by (simp add: holds_def rely_def)
next
  case (document decode i w u w' g)
  then show ?case using reads_onlyD(3) [OF reads_only_GetDocument] by simp
qed (auto dest: registration_holds reconciler_holds ingest_holds extract_holds cache_work_holds
    thumbnail_holds search_holds render_page_holds)



section \<open>From a hit to its document\<close>

lemma hit_of_row:
  assumes "quiet w" "Search env req w = (Inr resp, w')" "h \<in> set (ss_hits resp)"
  shows "\<exists>n query sr. h = searchHit n sr \<and> sr \<in> set (search_rows (se_index env) (w_db w) query)"
proof -
  have part: "r \<in> set (search_rows ix d query)"
    if "r \<in> set (take i (drop j (ranked ix d query)))" for r ix d query i j
    using in_set_dropD [OF in_set_takeD [OF that]] by (simp add: ranked_def)
  obtain rows offset totalHits k j where resp: "resp = search_response env req (se_normalize env (sr_query req)) offset rows totalHits"
    "rows = take k (drop j (ranked (se_index env) (w_db w) (se_normalize env (sr_query req))))"
    using assms(1,2)
    by (auto simp: Search_def Let_def stmt_quiet_select q_SearchDocuments_def q_CountSearchDocuments_def
        split: if_splits sum.splits)
  from resp(1) assms(3) obtain sr where "h = searchHit (sr_max_snippets req) sr" "sr \<in> set rows"
    by (auto simp: search_response_def Let_def split: if_splits dest: in_set_takeD)
  with part resp(2) show ?thesis by blast
qed

text \<open>
  C39: A search hit leads to its document: in the database the search ran on, the reference of
  every hit is accepted, and resolves to the live document of that path with that content as
  its current version, so a thumbnail or a page asked for from a result list is not refused
  as stale.
\<close>

theorem hits_resolve:
  assumes "quiet w" "db_ok (w_db w) (w_seqs w)" "Search env req w = (Inr resp, w')" "h \<in> set (ss_hits resp)"
    and "\<forall>r \<in> set (db_docs (w_db w)). d_id r < int64_bound"
    and "\<forall>c \<in> set (db_cvs (w_db w)). cv_content_hash c \<noteq> []"
  shows "\<exists>row. resolveRef (sh_ref h) w = (Inr row, w) \<and> gd_deleted_at row = None \<and>
    gd_content_hash row = Some (ref_content_version_id (sh_ref h)) \<and> path_base (gd_path row) = sh_file_name h"
proof -
  let ?d = "w_db w"
  obtain n query sr where sr: "h = searchHit n sr" "sr \<in> set (search_rows (se_index env) ?d query)"
    using hit_of_row [OF assms(1,3,4)] by blast
  then obtain x r c m where parts: "sr = search_row (se_index env) ?d query x r c m" "r \<in> set (db_docs ?d)"
    "searchable x r" "c \<in> set (db_cvs ?d)" "cv_id c = ex_cv_id x" "m \<in> set (db_mountpoints ?d)"
    "m_id m = d_mountpoint_id r"
    by (auto simp: search_rows_def split: if_splits)
  have docs: "distinct (map d_id (db_docs ?d))" "0 < d_id r" and cvs: "distinct (map cv_id (db_cvs ?d))"
    and mps: "distinct (map m_id (db_mountpoints ?d))"
    using assms(2) parts(2) by (auto simp: db_ok_def docs_ok_def cvs_ok_def mountpoints_ok_def ids_ok_def)
  have doc: "List.find (\<lambda>s. d_id s = d_id r) (db_docs ?d) = Some r"
    using docs(1) parts(2) find_unique_key [of d_id] by blast
  have mount: "List.find (\<lambda>k. m_id k = d_mountpoint_id r) (db_mountpoints ?d) = Some m"
    using mps parts(6,7) find_unique_key [of m_id "db_mountpoints ?d" m] by simp
  have version: "version_row ?d r = Some c"
    using cvs parts(3,4,5) find_unique_key [of cv_id "db_cvs ?d" c] by (simp add: version_row_def searchable_def)
  have id: "ParseInt (FormatInt (d_id r)) = Some (d_id r)"
    using docs(2) assms(5) parts(2) by (intro ParseInt_FormatInt) (auto simp: int64_bound_def)
  have load: "loadDocument (FormatInt (d_id r)) w = (Inr (detail_row ?d r m), w)"
    using assms(1) by (simp add: loadDocument_def id q_GetDocument_def stmt_quiet_select doc mount)
  have ref: "sh_ref h = \<lparr>ref_document_id = FormatInt (d_id r), ref_content_version_id = cv_content_hash c\<rparr>"
    "sh_file_name h = path_base (d_path r)"
    by (simp_all add: sr parts(1) searchHit_def search_row_def)
  have "FormatInt (d_id r) \<noteq> []" "cv_content_hash c \<noteq> []"
    using id assms(6) parts(4) by (auto simp: ParseInt_def parse_digits_def Let_def split: if_splits)
  then have "resolveRef (sh_ref h) w = (Inr (detail_row ?d r m), w)"
    using parts(3) version
    by (simp add: ref resolveRef_def hbind_def load hlift_def current_content_def)
      (simp add: detail_row_def searchable_def live_def)
  then show ?thesis
    using parts(3) version by (auto simp: ref detail_row_def searchable_def live_def)
qed

lemma hits_resolve_witness:
  "\<exists>row. resolveRef \<lparr>ref_document_id = ''1'', ref_content_version_id = ''aa''\<rparr> indexed_world = (Inr row, indexed_world) \<and>
     path_base (gd_path row) = ''a.pdf''"
proof -
  let ?run = "Search sample_search sample_query indexed_world"
  have "case fst ?run of Inl c \<Rightarrow> False | Inr resp \<Rightarrow> map sh_ref (ss_hits resp) =
      [\<lparr>ref_document_id = ''1'', ref_content_version_id = ''aa''\<rparr>] \<and> map sh_file_name (ss_hits resp) = [''a.pdf'']"
    by code_simp
  then obtain resp w' where run: "?run = (Inr resp, w')"
    and hits: "map sh_ref (ss_hits resp) = [\<lparr>ref_document_id = ''1'', ref_content_version_id = ''aa''\<rparr>]"
      "map sh_file_name (ss_hits resp) = [''a.pdf'']"
    by (cases ?run) (auto split: sum.splits)
  from hits obtain h where h: "h \<in> set (ss_hits resp)" "sh_file_name h = ''a.pdf''"
      "sh_ref h = \<lparr>ref_document_id = ''1'', ref_content_version_id = ''aa''\<rparr>"
    by (cases "ss_hits resp") auto
  have quiet: "quiet indexed_world" by (simp add: indexed_world_def)
  have ok: "db_ok (w_db indexed_world) (w_seqs indexed_world)" by (simp add: indexed_world_def indexed_db_ok)
  have ids: "\<forall>r \<in> set (db_docs (w_db indexed_world)). d_id r < int64_bound"
    "\<forall>c \<in> set (db_cvs (w_db indexed_world)). cv_content_hash c \<noteq> []"
    by (simp_all add: indexed_world_def indexed_db_def sample_db_def sample_row_defs int64_bound_def)
  from hits_resolve [OF quiet ok run h(1) ids] h show ?thesis by auto
qed

end
