(* ===== verification/Pipeline.thy ===== *)
theory Pipeline
  imports Whole_System
begin

text \<open>
  The indexer's queue at work: which worker each job kind runs (\<open>newRiverClient\<close> in
  \<open>internal/indexer/indexer.go\<close>), and the way of a file from the event that reports it to the
  search that finds it, through the two jobs in between.
\<close>

section \<open>The workers\<close>

record 'g workers =
  wk_processor :: Processor
  wk_opener :: "string \<Rightarrow> opened"
  wk_extractor :: ExtractWorker
  wk_files :: extract_files
  wk_eviction :: EvictionWorker
  wk_store :: Store
  wk_pages :: listing
  wk_objects :: "'g deleter"

text \<open>\<open>IngestPathWorker\<close>: an error is tried again.\<close>

definition retried :: "err option \<Rightarrow> job_result" where
  "retried e = (case e of None \<Rightarrow> JobDone | Some e \<Rightarrow> JobRetry e)"

definition IngestPath_Work :: "Processor \<Rightarrow> (string \<Rightarrow> opened) \<Rightarrow> int \<Rightarrow> string \<Rightarrow> world \<Rightarrow> job_result \<times> world" where
  "IngestPath_Work p opener mp path w =
     (case ProcessPath p opener mp path w of
        (Inl e, w') \<Rightarrow> (retried (Some e), w')
      | (Inr _, w') \<Rightarrow> (retried None, w'))"

text \<open>River picks the worker registered for the job's kind.\<close>

definition work :: "'g workers \<Rightarrow> job_args \<Rightarrow> world \<Rightarrow> 'g \<Rightarrow> job_result \<times> world \<times> 'g" where
  "work wk args w g = (case args of
      IngestPathArgs mp path _ \<Rightarrow>
        (case IngestPath_Work (wk_processor wk) (wk_opener wk) mp path w of (r, w') \<Rightarrow> (r, w', g))
    | ExtractArgs v \<Rightarrow> (case Extract_Work (wk_extractor wk) (wk_files wk) v w of (r, w') \<Rightarrow> (r, w', g))
    | InvalidateThumbnailsArgs _ v \<Rightarrow>
        (case InvalidateThumbnails_Work (wk_objects wk) v w g of (e, w', g') \<Rightarrow> (retried e, w', g'))
    | EvictionMaintenanceArgs \<Rightarrow>
        (case Eviction_Work (wk_eviction wk) (wk_objects wk) w g of (e, w', g') \<Rightarrow> (retried e, w', g'))
    | CacheSweepArgs \<Rightarrow>
        (case CacheSweep_Work (wk_store wk) (wk_pages wk) (wk_objects wk) w g of (e, w', g') \<Rightarrow> (retried e, w', g')))"

section \<open>The event\<close>

definition content_event :: "FileEvent \<Rightarrow> bool" where
  "content_event ev \<longleftrightarrow> ev_kind ev \<in> {EvCreate, EvModify, EvCloseWrite} \<and> \<not> ev_is_dir ev"

definition ingest_trigger :: "FileEvent \<Rightarrow> Trigger" where
  "ingest_trigger ev = (if ev_kind ev = EvCloseWrite then Settled else Debounced)"

text \<open>The database after the event.\<close>

definition noticed :: "Reconciler \<Rightarrow> world \<Rightarrow> Mountpoint \<Rightarrow> FileEvent \<Rightarrow> world" where
  "noticed r w mp ev =
     put_watermark (put_jobs (put_obs w (upsert_by obs_key
         (observed_row (w_db w) (observationOf (mp_id mp) (ev_path ev) (ev_stat ev) False 0)) (db_obs (w_db w))))
       [ingest_request (w_clock w) (rc_enqueuer r) (mp_id mp) (ev_path ev) (ingest_trigger ev)]) (event_seq ev)"

lemma known_base [simp]: "known r (w\<lparr>w_base := d\<rparr>) = known r w" "known r (w\<lparr>w_script := s\<rparr>) = known r w"
  by (simp_all add: known_def)

lemma event_noticed:
  assumes "quiet w" "known r w" "eq_bound (rc_enqueuer r)" "content_event ev"
    and "mountpointFor r (ev_path ev) = Some mp" "AllowPath (rc_filter r) (ev_path ev)"
    and "db_watermark (w_db w) = Some wm" "wm < event_seq ev"
  shows "\<exists>w'. ApplyEvent r ev w = (Inr (), w') \<and> w_db w' = w_db (noticed r w mp ev) \<and> w_seqs w' = w_seqs w"
proof -
  let ?b = "w\<lparr>w_base := w_db w\<rparr>"
  let ?fn = "bind tx_Watermark (\<lambda>watermark. if event_seq ev \<le> watermark then ret ()
     else andThen (applyKind r ev) (tx_SetWatermark (event_seq ev)))"
  have b: "quiet ?b" "known r ?b" using assms(1,2) by simp_all
  have kind: "applyKind r ev = observe r (ev_path ev) (ev_stat ev) False (ingest_trigger ev)"
    using assms(4) by (auto simp: applyKind_def content_event_def ingest_trigger_def)
  have "?fn ?b = andThen (applyKind r ev) (tx_SetWatermark (event_seq ev)) ?b"
    using assms(7,8) by (simp add: bind_run [where m = tx_Watermark, OF Watermark_run [OF b(1)]])
  also have "\<dots> = (Inr (), noticed r ?b mp ev)"
    unfolding kind noticed_def
    using assms(6) b(1) by (simp add: andThen_run [where m = "observe r (ev_path ev) (ev_stat ev) False (ingest_trigger ev)", OF observe_run [OF b assms(3,5)]] SetWatermark_run)
  finally have run: "?fn ?b = (Inr (), noticed r ?b mp ev)" .
  have "quiet (noticed r ?b mp ev)" using b(1) by (simp add: noticed_def)
  from InTx_quiet_commit [where fn = ?fn, OF assms(1) run this] have
    "ApplyEvent r ev w = (Inr (), (noticed r ?b mp ev)\<lparr>w_base := w_db (noticed r ?b mp ev)\<rparr>)"
    by (simp add: ApplyEvent_def)
  moreover have "w_db (noticed r ?b mp ev) = w_db (noticed r w mp ev)" "w_seqs (noticed r ?b mp ev) = w_seqs w"
    by (simp_all add: noticed_def put_obs_def put_jobs_def put_watermark_def)
  ultimately show ?thesis by simp
qed

section \<open>The ingest job\<close>

lemma faithful_ProcessPath: "faithful (ProcessPath p opener mp path)"
  unfolding ProcessPath_def
  by (intro keeps_intros) (auto intro!: keeps_intros split: sum.splits)

lemma ProcessPath_run:
  assumes "quiet w" "db_ok (w_db w) (w_seqs w)" "eq_bound (pr_enqueuer p)" "mp \<in> m_id ` set (db_mountpoints (w_db w))"
    and "List.find (\<lambda>r. obs_key r = (mp, path)) (db_obs (w_db w)) = Some o'" "\<not> o_is_dir o'"
    and "AllowPath (pr_filter p) path" "hash_file (pr_sha256 p) (opener path) = Inr (digest, n, head)"
    and "snd (ContentType (pr_sniff p) (pr_filter p) path head)"
  shows "\<exists>w1. promote_body p mp path (to_observation o') digest n (w\<lparr>w_base := w_db w\<rparr>) = (Inr (), w1) \<and>
    ProcessPath p opener mp path w = (Inr (), w1\<lparr>w_base := w_db w1\<rparr>) \<and>
    promoted (w_db w) (w_seqs w) mp path (to_observation o') digest n (w_db w1)"
proof -
  let ?b = "w\<lparr>w_base := w_db w\<rparr>"
  have b: "quiet ?b" using assms(1) by simp
  have read: "InTx (tx_GetObservation mp path) w = (Inr (Some (to_observation o')), ?b)"
    using InTx_quiet_commit [where fn = "tx_GetObservation mp path", OF assms(1) GetObservation_run [OF b] b] assms(5) by simp
  have same: "sameFile (to_observation o') (to_observation o')" by (simp add: sameFile_def)
  have mp: "mp \<in> m_id ` set (db_mountpoints (w_db ?b))" "db_ok (w_db ?b) (w_seqs ?b)"
    "List.find (\<lambda>r. obs_key r = (mp, path)) (db_obs (w_db ?b)) = Some o'"
    using assms by simp_all
  have bb: "?b\<lparr>w_base := w_db ?b\<rparr> = ?b" by simp
  obtain w1 where w1: "promote_body p mp path (to_observation o') digest n ?b = (Inr (), w1)" "quiet w1"
    "promoted (w_db w) (w_seqs w) mp path (to_observation o') digest n (w_db w1)"
    using promote_body_run [OF b mp(2) assms(3) mp(1,3) assms(6) same, of digest n] by auto
  have "promote p mp path (to_observation o') digest n ?b = (Inr True, w1\<lparr>w_base := w_db w1\<rparr>)"
    using promote_quiet [OF b] w1(1,2) unfolding bb by blast
  then have "promote_loop promoteAttempts (promote p mp path (to_observation o') digest n) ?b =
      (Inr (), w1\<lparr>w_base := w_db w1\<rparr>)"
    by (simp add: promoteAttempts_def numeral_3_eq_3 bind_run ret_def)
  then have "ProcessPath p opener mp path w = (Inr (), w1\<lparr>w_base := w_db w1\<rparr>)"
    using assms(6-9) by (simp add: ProcessPath_def bind_run [where m = "InTx (tx_GetObservation mp path)", OF read])
  with w1 show ?thesis by blast
qed

section \<open>The extraction job\<close>

lemma extraction_done:
  assumes "Extract_Work xw files v w = (JobDone, w')" "calm w"
    and "fst (q_FindPathForContentVersion (Some v) (w_db w) (w_seqs w)) = Inr place"
  shows "others_kept v (w_db w) (w_db w')" "\<exists>x \<in> set (db_extracted (w_db w')). ex_cv_id x = v \<and> ex_status x = status_succeeded"
proof -
  obtain r1 w1 where find: "stmt (q_FindPathForContentVersion (Some v)) w = (r1, w1)" by fastforce
  from find_path_run [OF find assms(2)] assms(3) have w1: "calm w1" "w_db w1 = w_db w"
    and r1: "r1 = Inl ErrConn \<or> r1 = Inr place" by auto
  obtain did mp path sz where place: "place = (did, mp, path, sz)" by (metis prod_cases4)
  have r1: "r1 = Inr (did, mp, path, sz)"
    using r1 place assms(1) find by (auto simp: Extract_Work_def)
  obtain r2 w2 where run: "extract_content xw files v path w1 = (r2, w2)" by fastforce
  have failed: "fail_job xw v e u \<noteq> (JobDone, w')" for e u
    by (auto simp: fail_job_def split: prod.splits sum.splits)
  have "r2 = Inr () \<and> w2 = w'"
    using assms(1) find r1 run failed by (auto simp: Extract_Work_def Let_def split: if_splits sum.splits)
  with extract_content_effect [OF run w1(1)] w1(2)
  show "others_kept v (w_db w) (w_db w')" "\<exists>x \<in> set (db_extracted (w_db w')). ex_cv_id x = v \<and> ex_status x = status_succeeded"
    by (auto simp: succeeded_row_def)
qed

text \<open>A live document whose file is observed has a place.\<close>

lemma observed_place:
  assumes "x \<in> set (db_docs d)" "d_current_cv x = Some v" "live x"
    and "observed d (d_mountpoint_id x) (d_path x)"
  shows "\<exists>place. fst (q_FindPathForContentVersion (Some v) d q) = Inr place"
proof -
  let ?P = "\<lambda>r. Some v \<noteq> None \<and> d_current_cv r = Some v \<and> live r \<and> observed d (d_mountpoint_id r) (d_path r)"
  obtain y where y: "first_by d_id ?P (db_docs d) = Some y"
    using assms first_by_None [of d_id ?P "db_docs d"] by (cases "first_by d_id ?P (db_docs d)") auto
  from first_by_Some [OF y] have "observed d (d_mountpoint_id y) (d_path y)" by blast
  then obtain o' where "List.find (\<lambda>o'. obs_key o' = (d_mountpoint_id y, d_path y)) (db_obs d) = Some o'"
    unfolding observed_def
    by (cases "List.find (\<lambda>o'. obs_key o' = (d_mountpoint_id y, d_path y)) (db_obs d)") (auto simp: find_None_set)
  with y show ?thesis by (auto simp: q_FindPathForContentVersion_def select_def doc_with_file_def)
qed

section \<open>From the event to the hit\<close>

text \<open>The next turn starts from what the last one committed, under any faults of its own.\<close>

definition resumes :: "world \<Rightarrow> world \<Rightarrow> bool" where
  "resumes w v \<longleftrightarrow> at_state v (w_db w) (w_seqs w)"

lemma resumesD:
  assumes "resumes w v"
  shows "calm v" "w_db v = w_db w" "w_base v = w_db w" "w_seqs v = w_seqs w"
  using assms by (simp_all add: resumes_def at_state_def)

text \<open>A document whose version has its text is among the results of a query that matches it.\<close>

lemma searchable_ranked:
  assumes "x \<in> set (db_extracted d)" "ex_cv_id x = v" "ex_status x = status_succeeded"
    and "ix_boosted ix d query x \<or> ix_ngram ix d query x"
    and "r \<in> set (db_docs d)" "d_current_cv r = Some v" "live r"
    and "c \<in> set (db_cvs d)" "cv_id c = v" "d_mountpoint_id r \<in> m_id ` set (db_mountpoints d)"
  shows "\<exists>m. search_row ix d query x r c m \<in> set (ranked ix d query)"
proof -
  from assms(10) obtain m where "m \<in> set (db_mountpoints d)" "m_id m = d_mountpoint_id r" by auto
  with assms have "search_row ix d query x r c m \<in> set (search_rows ix d query)"
    by (auto simp: search_rows_def searchable_def)
  then show ?thesis by (auto simp: ranked_def)
qed

text \<open>The event's turn: the job it leaves in the queue, and the observation.\<close>

lemma event_turn:
  assumes "at_state w d q" "db_ok d q" "known r w" "eq_bound (rc_enqueuer r)" "content_event ev"
    and "mountpointFor r (ev_path ev) = Some mp" "AllowPath (rc_filter r) (ev_path ev)"
    and "db_watermark d = Some wm" "wm < event_seq ev" "ApplyEvent r ev w = (Inr (), w1)"
  obtains o' where "db_ok (w_db w1) (w_seqs w1)" "mp_id mp \<in> m_id ` set (db_mountpoints (w_db w1))"
    "List.find (\<lambda>r. obs_key r = (mp_id mp, ev_path ev)) (db_obs (w_db w1)) = Some o'" "\<not> o_is_dir o'"
    "db_outbox (w_db w1) = db_outbox d @ [ingest_request (w_clock w) (rc_enqueuer r) (mp_id mp) (ev_path ev) (ingest_trigger ev)]"
proof -
  have w: "calm w" "w_db w = d" "w_seqs w = q" using assms(1) by (simp_all add: at_state_def)
  let ?q = "w\<lparr>w_script := []\<rparr>"
  obtain w0 where w0: "ApplyEvent r ev ?q = (Inr (), w0)" "w_db w0 = w_db (noticed r ?q mp ev)"
    using event_noticed [of ?q r ev mp wm] assms(3-9) w by auto
  from undisturbed(2) [OF faithful_ApplyEvent w(1) assms(10) _ w0(1)] w0(2)
  have db: "w_db w1 = w_db (noticed r ?q mp ev)" by simp
  have "holds_from db_ok 0 w" using at_state_holds [OF assms(1,2)] w assms(2) by (simp add: holds_from_def db_ok_def seqs_ok_def)
  from keepsD [OF schema.keeps_ApplyEvent assms(10) this] have ok: "db_ok (w_db w1) (w_seqs w1)"
    by (simp add: holds_from_def holds_def)
  have mp: "mp_id mp \<in> m_id ` set (db_mountpoints (w_db w1))"
    using known_mountpoint [OF assms(3,6)] by (simp add: db noticed_def)
  let ?o = "observed_row d (observationOf (mp_id mp) (ev_path ev) (ev_stat ev) False 0)"
  have "List.find (\<lambda>r. obs_key r = (mp_id mp, ev_path ev)) (db_obs (w_db w1)) = Some ?o"
    using w by (simp add: db noticed_def find_upsert_by)
  moreover have "\<not> o_is_dir ?o" by (simp add: observed_row_def obs_params_def)
  ultimately show ?thesis using that ok mp w by (simp add: db noticed_def)
qed

text \<open>The ingest job's turn.\<close>

lemma ingest_turn:
  assumes "at_state w d q" "db_ok d q" "eq_bound (pr_enqueuer p)" "mp \<in> m_id ` set (db_mountpoints d)"
    and "List.find (\<lambda>r. obs_key r = (mp, path)) (db_obs d) = Some o'" "\<not> o_is_dir o'"
    and "AllowPath (pr_filter p) path" "hash_file (pr_sha256 p) (opener path) = Inr (digest, n, head)"
    and "snd (ContentType (pr_sniff p) (pr_filter p) path head)"
    and "IngestPath_Work p opener mp path w = (JobDone, w2)"
  shows "promoted d q mp path (to_observation o') digest n (w_db w2) \<and> db_ok (w_db w2) (w_seqs w2) \<and>
    mp \<in> m_id ` set (db_mountpoints (w_db w2))"
proof -
  have w: "calm w" "w_db w = d" "w_seqs w = q" using assms(1) by (simp_all add: at_state_def)
  from assms(10) have run: "ProcessPath p opener mp path w = (Inr (), w2)"
    by (auto simp: IngestPath_Work_def retried_def split: prod.splits sum.splits)
  obtain w0 where w0: "ProcessPath p opener mp path (w\<lparr>w_script := []\<rparr>) = (Inr (), w0)"
    "promoted d q mp path (to_observation o') digest n (w_db w0)"
    using ProcessPath_run [of "w\<lparr>w_script := []\<rparr>" p mp path o' opener digest n head] assms(2-9) w by fastforce
  have "w_db w2 = w_db w0" by (rule undisturbed(2) [OF faithful_ProcessPath w(1) run _ w0(1)]) simp
  with w0(2) have promoted: "promoted d q mp path (to_observation o') digest n (w_db w2)" by simp
  have "holds_from db_ok (sq_epoch q) w" using at_state_holds [OF assms(1,2)] w by (simp add: holds_from_def)
  from keepsD [OF schema.keeps_ProcessPath run this] have ok: "db_ok (w_db w2) (w_seqs w2)"
    by (simp add: holds_from_def holds_def)
  from promoted obtain x where "x \<in> set (db_docs (w_db w2))" "d_mountpoint_id x = mp"
    by (auto simp: promoted_def Let_def doc_at_def)
  with ok have "mp \<in> m_id ` set (db_mountpoints (w_db w2))"
    by (auto simp: db_ok_def docs_ok_def)
  with promoted ok show ?thesis by blast
qed


text \<open>
  The sample deployment: new bytes are written to a document it knows.  What each turn
  commits is written out, so that the next one is evaluated from there.
\<close>

definition sample_workers :: "bucket workers" where
  "sample_workers = \<lparr>wk_processor = sample_proc, wk_opener = sample_bytes ''new'', wk_extractor = sample_extractor,
     wk_files = sample_files ''new'', wk_eviction = sample_eviction, wk_store = reference_store,
     wk_pages = sample_listing, wk_objects = ref_delete\<rparr>"

definition sample_change :: FileEvent where
  "sample_change = sample_event 6 EvCloseWrite ''/d/a.pdf'' [] False"

definition event_db :: database where
  "event_db = sample_db\<lparr>db_watermark := Some 6,
     db_obs := (sample_obs ''/d/a.pdf'' 11 False)\<lparr>o_mode := 420, o_seen_epoch := 0, o_observed_at := 100\<rparr> # tl (db_obs sample_db),
     db_outbox := [request (IngestPathArgs 1 ''/d/a.pdf'' TriggerSettled) None]\<rparr>"

definition ingest_db :: database where
  "ingest_db = event_db\<lparr>
     db_cvs := [sample_cv 1 ''aa'', \<lparr>cv_id = 2, cv_content_hash = ''6e65'', cv_size_bytes = 3, cv_created_at = 100\<rparr>],
     db_docs := (sample_doc 1 ''/d/a.pdf'' 11 (Some 2))\<lparr>d_updated_at := 100\<rparr> # tl (db_docs sample_db),
     db_extracted := [\<lparr>ex_cv_id = 2, ex_status = ''pending'', ex_text = [], ex_metadata = ''{}'',
       ex_content_type = None, ex_error = None, ex_extracted_at = None, ex_updated_at = 100\<rparr>],
     db_outbox := db_outbox event_db @ [request (ExtractArgs 2) None, request (InvalidateThumbnailsArgs 1 1) None]\<rparr>"

definition extracted_db :: database where
  "extracted_db = ingest_db\<lparr>
     db_extracted := [\<lparr>ex_cv_id = 2, ex_status = ''succeeded'', ex_text = ''new!'', ex_metadata = ''{}'',
       ex_content_type = Some ''text/x'', ex_error = None, ex_extracted_at = Some 100, ex_updated_at = 100\<rparr>]\<rparr>"

definition next_turn :: "database \<Rightarrow> int \<Rightarrow> world" where
  "next_turn d cvs = \<lparr>w_db = d, w_base = d, w_seqs = sample_seqs\<lparr>sq_cv := cvs\<rparr>, w_script = [], w_clock = 1000\<rparr>"

lemma next_turn_resumes: "w_db w = d \<Longrightarrow> w_seqs w = sample_seqs\<lparr>sq_cv := cvs\<rparr> \<Longrightarrow> resumes w (next_turn d cvs)"
  by (simp add: resumes_def next_turn_def at_state_def calm_def)

definition sample_find :: SearchRequest where
  "sample_find = \<lparr>sr_query = ''new'', sr_page_token = [], sr_page_size = 1, sr_max_snippets = 0\<rparr>"

lemma event_turn_sample:
  "\<exists>w1. ApplyEvent sample_rec sample_change (sample_world []) = (Inr (), w1) \<and> w_db w1 = event_db \<and>
     w_seqs w1 = sample_seqs\<lparr>sq_cv := 1\<rparr>"
proof -
  have "(case ApplyEvent sample_rec sample_change (sample_world []) of (r, w) \<Rightarrow>
      r = Inr () \<and> w_db w = event_db \<and> w_seqs w = sample_seqs\<lparr>sq_cv := 1\<rparr>)" by code_simp
  then show ?thesis by (auto split: prod.splits)
qed

lemma ingest_turn_sample:
  "\<exists>w2. work sample_workers (IngestPathArgs 1 ''/d/a.pdf'' TriggerSettled) (next_turn event_db 1) g = (JobDone, w2, g) \<and>
     w_db w2 = ingest_db \<and> w_seqs w2 = sample_seqs\<lparr>sq_cv := 2\<rparr>"
proof -
  have "(case IngestPath_Work (wk_processor sample_workers) (wk_opener sample_workers) 1 ''/d/a.pdf'' (next_turn event_db 1) of (r, w) \<Rightarrow>
      r = JobDone \<and> w_db w = ingest_db \<and> w_seqs w = sample_seqs\<lparr>sq_cv := 2\<rparr>)" by code_simp
  then show ?thesis by (auto simp: work_def split: prod.splits)
qed

lemma extraction_turn_sample:
  "\<exists>w3. work sample_workers (ExtractArgs 2) (next_turn ingest_db 2) g = (JobDone, w3, g) \<and>
     w_db w3 = extracted_db \<and> w_seqs w3 = sample_seqs\<lparr>sq_cv := 2\<rparr>"
proof -
  have "(case Extract_Work (wk_extractor sample_workers) (wk_files sample_workers) 2 (next_turn ingest_db 2) of (r, w) \<Rightarrow>
      r = JobDone \<and> w_db w = extracted_db \<and> w_seqs w = sample_seqs\<lparr>sq_cv := 2\<rparr>)" by code_simp
  then show ?thesis by (auto simp: work_def split: prod.splits)
qed


end
