(* ===== verification/Render_Party.thy ===== *)
theory Render_Party
  imports Thumbnail_Service
begin

text \<open>
  How the callers of one cache entry share a render (\<open>Thumbnail.load\<close>, \<open>Thumbnail.join\<close> and
  \<open>renderParty\<close> in \<open>internal/service/thumbnail.go\<close>).  A state is the parties ever formed, the one
  the map \<open>parties\<close> holds for the entry, the call \<open>singleflight\<close> has in flight for it, and where
  each caller is.  \<open>singleflight\<close> is used as documented: one call per key at a time, later callers
  attach to it, and it is forgotten when its function returns.  Steps of the callers, the end of
  the call and the render's time limit interleave freely.
\<close>

section \<open>State\<close>

record party =
  pt_waiting :: int
  pt_cancelled :: bool
  pt_expired :: bool      \<comment> \<open>\<open>renderLifetime\<close> is over\<close>

type_synonym answer = "code + string"

text \<open>A caller's place in \<open>load\<close>, with the party it joined.\<close>

datatype caller =
    Joined nat               \<comment> \<open>counted, about to call \<open>DoChan\<close>\<close>
  | Waiting nat              \<comment> \<open>in the \<open>select\<close>\<close>
  | Delivered nat answer     \<comment> \<open>its result is in the channel\<close>
  | Canceller nat answer     \<comment> \<open>the last to leave, about to call \<open>cancel\<close>\<close>
  | Returned answer

record flights =
  fl_parties :: "party list"
  fl_current :: "nat option"
  fl_call :: "(nat \<times> nat list) option"   \<comment> \<open>the party whose context it runs on, the callers attached\<close>
  fl_callers :: "caller list"

definition no_flights :: flights where
  "no_flights = \<lparr>fl_parties = [], fl_current = None, fl_call = None, fl_callers = []\<rparr>"

section \<open>The operations\<close>

definition fresh_party :: party where
  "fresh_party = \<lparr>pt_waiting = 0, pt_cancelled = False, pt_expired = False\<rparr>"

definition add_waiting :: "int \<Rightarrow> party \<Rightarrow> party" where
  "add_waiting n p = p\<lparr>pt_waiting := pt_waiting p + n\<rparr>"

text \<open>The first half of \<open>join\<close>: the party to wait in, formed if there is none.\<close>

definition join :: "flights \<Rightarrow> nat \<times> flights" where
  "join s =
     (let (p, ps) = (case fl_current s of
             Some p \<Rightarrow> (p, fl_parties s)
           | None \<Rightarrow> (length (fl_parties s), fl_parties s @ [fresh_party]))
      in (p, s\<lparr>fl_parties := ps[p := add_waiting 1 (ps ! p)], fl_current := Some p\<rparr>))"

text \<open>The function \<open>join\<close> returns, up to its unlock: whether this was the last caller.\<close>

definition leave :: "nat \<Rightarrow> flights \<Rightarrow> bool \<times> flights" where
  "leave p s =
     (let party = add_waiting (- 1) (fl_parties s ! p); final = (pt_waiting party = 0) in
      (final, s\<lparr>fl_parties := (fl_parties s)[p := party],
         fl_current := (if final \<and> fl_current s = Some p then None else fl_current s)\<rparr>))"

definition cancel :: "nat \<Rightarrow> flights \<Rightarrow> flights" where
  "cancel p s = s\<lparr>fl_parties := (fl_parties s)[p := (fl_parties s ! p)\<lparr>pt_cancelled := True\<rparr>]\<rparr>"

definition set_caller :: "nat \<Rightarrow> caller \<Rightarrow> flights \<Rightarrow> flights" where
  "set_caller c x s = s\<lparr>fl_callers := (fl_callers s)[c := x]\<rparr>"

definition arrive :: "flights \<Rightarrow> flights" where
  "arrive s = (case join s of (p, s') \<Rightarrow> s'\<lparr>fl_callers := fl_callers s' @ [Joined p]\<rparr>)"

text \<open>\<open>inflight.DoChan\<close>: lead a call on the own party's context, or attach to the one in flight.\<close>

definition do_chan :: "nat \<Rightarrow> nat \<Rightarrow> flights \<Rightarrow> flights" where
  "do_chan c p s =
     set_caller c (Waiting p) (s\<lparr>fl_call := Some (case fl_call s of
        None \<Rightarrow> (p, [c])
      | Some (q, cs) \<Rightarrow> (q, cs @ [c]))\<rparr>)"

fun delivered :: "answer \<Rightarrow> caller \<Rightarrow> caller" where
  "delivered r (Waiting p) = Delivered p r"
| "delivered r x = x"

definition finish :: "answer \<Rightarrow> nat list \<Rightarrow> flights \<Rightarrow> flights" where
  "finish r cs s = s\<lparr>fl_call := None,
     fl_callers := map (\<lambda>(c, x). if c \<in> set cs then delivered r x else x)
       (enumerate 0 (fl_callers s))\<rparr>"

definition depart :: "nat \<Rightarrow> nat \<Rightarrow> answer \<Rightarrow> flights \<Rightarrow> flights" where
  "depart c p r s = (case leave p s of (final, s') \<Rightarrow>
     set_caller c (if final then Canceller p r else Returned r) s')"

section \<open>Steps\<close>

text \<open>
  A caller whose request is over answers \<open>CodeCanceled\<close>, also when its result has arrived: the
  \<open>select\<close> takes either.
\<close>

inductive party_step :: "flights \<Rightarrow> flights \<Rightarrow> bool" where
  arrives: "party_step s (arrive s)"
| calls: "c < length (fl_callers s) \<Longrightarrow> fl_callers s ! c = Joined p \<Longrightarrow> party_step s (do_chan c p s)"
| finishes: "fl_call s = Some (p, cs) \<Longrightarrow> party_step s (finish r cs s)"
| answers: "c < length (fl_callers s) \<Longrightarrow> fl_callers s ! c = Delivered p r \<Longrightarrow> party_step s (depart c p r s)"
| gone: "c < length (fl_callers s) \<Longrightarrow> fl_callers s ! c = Waiting p \<or> fl_callers s ! c = Delivered p r \<Longrightarrow>
    party_step s (depart c p (Inl CodeCanceled) s)"
| cancels: "c < length (fl_callers s) \<Longrightarrow> fl_callers s ! c = Canceller p r \<Longrightarrow>
    party_step s (set_caller c (Returned r) (cancel p s))"
| expires: "p < length (fl_parties s) \<Longrightarrow>
    party_step s (s\<lparr>fl_parties := (fl_parties s)[p := (fl_parties s ! p)\<lparr>pt_expired := True\<rparr>]\<rparr>)"

inductive_cases party_stepE: "party_step s s'"

abbreviation party_reachable :: "flights \<Rightarrow> bool" where
  "party_reachable s \<equiv> party_step\<^sup>*\<^sup>* no_flights s"

section \<open>The invariant\<close>

text \<open>The party a caller is counted in.\<close>

fun counted :: "caller \<Rightarrow> nat option" where
  "counted (Joined p) = Some p"
| "counted (Waiting p) = Some p"
| "counted (Delivered p r) = Some p"
| "counted _ = None"

definition members :: "nat \<Rightarrow> flights \<Rightarrow> int" where
  "members p s = int (count_list (map counted (fl_callers s)) (Some p))"

definition cancelling :: "nat \<Rightarrow> flights \<Rightarrow> bool" where
  "cancelling p s \<longleftrightarrow> (\<exists>r. Canceller p r \<in> set (fl_callers s))"

definition party_ok :: "flights \<Rightarrow> nat \<Rightarrow> party \<Rightarrow> bool" where
  "party_ok s p party \<longleftrightarrow> pt_waiting party = members p s \<and>
     (0 < members p s \<longleftrightarrow> fl_current s = Some p) \<and>
     (members p s = 0 \<longleftrightarrow> pt_cancelled party \<or> cancelling p s)"

definition flights_ok :: "flights \<Rightarrow> bool" where
  "flights_ok s \<longleftrightarrow>
     (\<forall>p < length (fl_parties s). party_ok s p (fl_parties s ! p)) \<and>
     (\<forall>p. length (fl_parties s) \<le> p \<longrightarrow> members p s = 0 \<and> \<not> cancelling p s \<and> fl_current s \<noteq> Some p) \<and>
     (\<forall>p cs. fl_call s = Some (p, cs) \<longrightarrow> p < length (fl_parties s))"

lemma count_list_update:
  "c < length xs \<Longrightarrow> int (count_list (xs[c := y]) a) =
     int (count_list xs a) - (if xs ! c = a then 1 else 0) + (if y = a then 1 else 0)"
proof (induction xs arbitrary: c)
  case (Cons x xs)
  show ?case
  proof (cases c)
    case (Suc n)
    then have "int (count_list ((x # xs)[c := y]) a) = (if x = a then 1 else 0) + int (count_list (xs[n := y]) a)"
      "int (count_list (x # xs) a) = (if x = a then 1 else 0) + int (count_list xs a)" "(x # xs) ! c = xs ! n"
      by simp_all
    moreover have "n < length xs" using Cons.prems Suc by simp
    ultimately show ?thesis unfolding Cons.IH [OF \<open>n < length xs\<close>] by (simp only: algebra_simps)
  qed simp
qed simp

lemma members_set_caller:
  assumes "c < length (fl_callers s)"
  shows "members p (set_caller c x s) =
    members p s - (if counted (fl_callers s ! c) = Some p then 1 else 0) + (if counted x = Some p then 1 else 0)"
  using assms by (simp add: members_def set_caller_def map_update count_list_update)

lemma members_frame [simp]:
  "members p (s\<lparr>fl_parties := ps\<rparr>) = members p s" "members p (s\<lparr>fl_current := x\<rparr>) = members p s"
  "members p (s\<lparr>fl_call := y\<rparr>) = members p s"
  "cancelling p (s\<lparr>fl_parties := ps\<rparr>) = cancelling p s" "cancelling p (s\<lparr>fl_current := x\<rparr>) = cancelling p s"
  "cancelling p (s\<lparr>fl_call := y\<rparr>) = cancelling p s"
  by (simp_all add: members_def cancelling_def)

lemma members_nonneg [simp]: "0 \<le> members p s"
  by (simp add: members_def)

lemma members_append:
  "members p (s\<lparr>fl_callers := fl_callers s @ [x]\<rparr>) = members p s + (if counted x = Some p then 1 else 0)"
  by (simp add: members_def)

text \<open>A caller that is no canceller, before and after, cancels nothing.\<close>

lemma set_update_other: "c < length xs \<Longrightarrow> xs ! c \<noteq> z \<Longrightarrow> y \<noteq> z \<Longrightarrow> z \<in> set (xs[c := y]) \<longleftrightarrow> z \<in> set xs"
  by (metis in_set_conv_nth length_list_update nth_list_update_eq nth_list_update_neq)

lemma cancelling_set_caller:
  assumes "c < length (fl_callers s)" "\<And>r. fl_callers s ! c \<noteq> Canceller p r" "\<And>r. x \<noteq> Canceller p r"
  shows "cancelling p (set_caller c x s) = cancelling p s"
  using assms by (simp add: cancelling_def set_caller_def set_update_other)

lemma cancelling_new: "c < length (fl_callers s) \<Longrightarrow> cancelling p (set_caller c (Canceller p r) s)"
  by (auto simp: cancelling_def set_caller_def intro: set_update_memI)

lemma flights_okI:
  assumes "\<And>p. p < length (fl_parties s) \<Longrightarrow> party_ok s p (fl_parties s ! p)"
    and "\<And>p. length (fl_parties s) \<le> p \<Longrightarrow> members p s = 0 \<and> \<not> cancelling p s \<and> fl_current s \<noteq> Some p"
    and "\<And>p cs. fl_call s = Some (p, cs) \<Longrightarrow> p < length (fl_parties s)"
  shows "flights_ok s"
  using assms by (auto simp: flights_ok_def)

lemma flights_okD:
  assumes "flights_ok s"
  shows "p < length (fl_parties s) \<Longrightarrow> party_ok s p (fl_parties s ! p)"
    and "length (fl_parties s) \<le> p \<Longrightarrow> members p s = 0 \<and> \<not> cancelling p s \<and> fl_current s \<noteq> Some p"
    and "fl_call s = Some (p, cs) \<Longrightarrow> p < length (fl_parties s)"
  using assms by (auto simp: flights_ok_def)

text \<open>A counted caller's party exists.\<close>

lemma counted_member:
  assumes "flights_ok s" "c < length (fl_callers s)" "counted (fl_callers s ! c) = Some p"
  shows "0 < members p s" "p < length (fl_parties s)"
proof -
  have "Some p \<in> set (map counted (fl_callers s))" using assms(2,3) by (metis length_map nth_map nth_mem)
  then show m: "0 < members p s" by (simp add: members_def count_list_0_iff zero_less_iff_neq_zero)
  show "p < length (fl_parties s)"
    using flights_okD(2) [OF assms(1), of p] m by (cases "p < length (fl_parties s)") auto
qed

lemma arrive_ok:
  assumes ok: "flights_ok s"
  shows "flights_ok (arrive s)"
proof (cases "fl_current s")
  case (Some q)
  have q: "q < length (fl_parties s)" using flights_okD(2) [OF ok, of q] Some by (cases "q < length (fl_parties s)") auto
  have arr: "arrive s = s\<lparr>fl_parties := (fl_parties s)[q := add_waiting 1 (fl_parties s ! q)],
      fl_current := Some q, fl_callers := fl_callers s @ [Joined q]\<rparr>"
    using Some by (simp add: arrive_def join_def)
  have m: "members p (arrive s) = members p s + (if p = q then 1 else 0)" for p
    by (simp add: members_def arr)
  have c: "cancelling p (arrive s) = cancelling p s" for p by (simp add: cancelling_def arr)
  have cur: "members p s = 0" if "p \<noteq> q" for p
    using flights_okD(1,2) [OF ok, of p] Some that members_nonneg [of p s]
    by (cases "p < length (fl_parties s)") (auto simp: party_ok_def)
  show ?thesis
  proof (rule flights_okI)
    fix p assume "p < length (fl_parties (arrive s))"
    then have p: "p < length (fl_parties s)" by (simp add: arr)
    from flights_okD(1) [OF ok this] show "party_ok (arrive s) p (fl_parties (arrive s) ! p)"
      using p q cur Some flights_okD(1) [OF ok q]
      by (cases "p = q") (auto simp: party_ok_def m c, auto simp: arr add_waiting_def)
  qed (use flights_okD(2,3) [OF ok] q in \<open>auto simp: m c, auto simp: arr\<close>)
next
  case None
  let ?n = "length (fl_parties s)"
  have arr: "arrive s = s\<lparr>fl_parties := fl_parties s @ [add_waiting 1 fresh_party],
      fl_current := Some ?n, fl_callers := fl_callers s @ [Joined ?n]\<rparr>"
    using None by (simp add: arrive_def join_def)
  have m: "members p (arrive s) = members p s + (if p = ?n then 1 else 0)" for p
    by (simp add: members_def arr)
  have c: "cancelling p (arrive s) = cancelling p s" for p by (simp add: cancelling_def arr)
  show ?thesis
  proof (rule flights_okI)
    fix p assume "p < length (fl_parties (arrive s))"
    then have "p < ?n \<or> p = ?n" by (auto simp: arr)
    then show "party_ok (arrive s) p (fl_parties (arrive s) ! p)"
    proof
      assume p: "p < ?n"
      from flights_okD(1) [OF ok p] None p show ?thesis
        by (auto simp: party_ok_def m c, auto simp: arr nth_append)
    next
      assume p: "p = ?n"
      from flights_okD(2) [OF ok, of ?n] p show ?thesis
        by (auto simp: party_ok_def m c, auto simp: arr add_waiting_def fresh_party_def)
    qed
  qed (use flights_okD(2,3) [OF ok] in \<open>auto simp: m c, auto simp: arr less_Suc_eq\<close>)
qed

lemma do_chan_ok:
  assumes ok: "flights_ok s" and c: "c < length (fl_callers s)" "fl_callers s ! c = Joined p"
  shows "flights_ok (do_chan c p s)"
proof -
  have m: "members q (do_chan c p s) = members q s" for q
    using c by (simp add: do_chan_def members_set_caller)
  have k: "cancelling q (do_chan c p s) = cancelling q s" for q
    using c by (simp add: do_chan_def cancelling_set_caller)
  have p: "p < length (fl_parties s)" using counted_member(2) [OF ok c(1)] c(2) by simp
  have eqs: "fl_parties (do_chan c p s) = fl_parties s" "fl_current (do_chan c p s) = fl_current s"
    by (simp_all add: do_chan_def set_caller_def)
  show ?thesis
  proof (rule flights_okI)
    fix q cs assume "fl_call (do_chan c p s) = Some (q, cs)"
    then have "q = p \<or> (\<exists>ds. fl_call s = Some (q, ds))"
      by (auto simp: do_chan_def set_caller_def split: option.splits)
    with p flights_okD(3) [OF ok] show "q < length (fl_parties (do_chan c p s))" by (auto simp: eqs)
  qed (use flights_okD(1,2) [OF ok] in \<open>auto simp: party_ok_def m k eqs\<close>)
qed

lemma counted_delivered [simp]: "counted (delivered r x) = counted x"
  by (cases x) simp_all

lemma delivered_Canceller [simp]:
  "delivered r x = Canceller p a \<longleftrightarrow> x = Canceller p a" "Canceller p a = delivered r x \<longleftrightarrow> x = Canceller p a"
  by (cases x; auto)+

lemma finish_ok:
  assumes ok: "flights_ok s"
  shows "flights_ok (finish r cs s)"
proof -
  let ?f = "\<lambda>(c, x). if c \<in> set cs then delivered r x else x"
  have "map counted (map ?f (enumerate 0 (fl_callers s))) = map counted (fl_callers s)"
    by (rule nth_equalityI) (simp_all add: nth_enumerate_eq)
  then have m: "members q (finish r cs s) = members q s" for q by (simp add: members_def finish_def)
  have "map ?f (enumerate 0 (fl_callers s)) ! i = Canceller q a \<longleftrightarrow> fl_callers s ! i = Canceller q a"
    if "i < length (fl_callers s)" for i q a
    using that by (simp add: nth_enumerate_eq)
  then have "Canceller q a \<in> set (map ?f (enumerate 0 (fl_callers s))) \<longleftrightarrow> Canceller q a \<in> set (fl_callers s)" for q a
    unfolding in_set_conv_nth by auto
  then have k: "cancelling q (finish r cs s) = cancelling q s" for q by (simp add: cancelling_def finish_def)
  show ?thesis
    by (rule flights_okI) (use flights_okD(1,2) [OF ok] in \<open>auto simp: party_ok_def m k, auto simp: finish_def\<close>)
qed

text \<open>A departure: the caller is counted until it leaves, and the last one to leave cancels.\<close>

lemma depart_ok:
  assumes ok: "flights_ok s" and c: "c < length (fl_callers s)" "counted (fl_callers s ! c) = Some p"
  shows "flights_ok (depart c p r s)"
proof -
  let ?P = "fl_parties s ! p" and ?final = "members p s = 1"
  have p: "p < length (fl_parties s)" "0 < members p s" using counted_member [OF ok c] by simp_all
  note pok = flights_okD(1) [OF ok p(1)]
  have cur: "fl_current s = Some p" "pt_waiting ?P = members p s" using pok p(2) by (auto simp: party_ok_def)
  have dep: "depart c p r s = set_caller c (if ?final then Canceller p r else Returned r)
      (s\<lparr>fl_parties := (fl_parties s)[p := add_waiting (- 1) ?P], fl_current := (if ?final then None else Some p)\<rparr>)"
    using cur by (auto simp: depart_def leave_def Let_def add_waiting_def)
  have m: "members q (depart c p r s) = members q s - (if q = p then 1 else 0)" for q
    using c by (auto simp: dep members_set_caller)
  have only: "members q s = 0" if "q \<noteq> p" for q
    using flights_okD(1,2) [OF ok, of q] cur(1) that members_nonneg [of q s]
    by (cases "q < length (fl_parties s)") (auto simp: party_ok_def)
  have nc: "fl_callers s ! c \<noteq> Canceller q a" for q a using c(2) by auto
  have k: "cancelling q (depart c p r s) \<longleftrightarrow> cancelling q s \<or> q = p \<and> ?final" for q
  proof (cases "q = p \<and> ?final")
    case True
    then show ?thesis using c(1) by (auto simp: dep intro: cancelling_new)
  next
    case False
    then show ?thesis using c(1) nc by (auto simp: dep cancelling_set_caller)
  qed
  have eqs: "fl_parties (depart c p r s) = (fl_parties s)[p := add_waiting (- 1) ?P]"
    "fl_current (depart c p r s) = (if ?final then None else Some p)" "fl_call (depart c p r s) = fl_call s"
    by (simp_all add: dep set_caller_def)
  show ?thesis
  proof (rule flights_okI)
    fix q assume "q < length (fl_parties (depart c p r s))"
    then have q: "q < length (fl_parties s)" by (simp add: eqs)
    show "party_ok (depart c p r s) q (fl_parties (depart c p r s) ! q)"
    proof (cases "q = p")
      case True
      with pok p(1,2) cur show ?thesis by (auto simp: party_ok_def m k eqs add_waiting_def)
    next
      case False
      with flights_okD(1) [OF ok q] only [OF False] show ?thesis
        by (auto simp: party_ok_def m k eqs)
    qed
  next
    fix q assume "length (fl_parties (depart c p r s)) \<le> q"
    with flights_okD(2) [OF ok, of q] p(1)
    show "members q (depart c p r s) = 0 \<and> \<not> cancelling q (depart c p r s) \<and> fl_current (depart c p r s) \<noteq> Some q"
      by (auto simp: m k eqs)
  qed (use flights_okD(3) [OF ok] in \<open>auto simp: eqs\<close>)
qed

lemma cancel_ok:
  assumes ok: "flights_ok s" and c: "c < length (fl_callers s)" "fl_callers s ! c = Canceller p r"
  shows "flights_ok (set_caller c (Returned r) (cancel p s))"
proof -
  let ?s = "set_caller c (Returned r) (cancel p s)"
  have can: "cancelling p s" using c unfolding cancelling_def by (metis nth_mem)
  then have p: "p < length (fl_parties s)"
    using flights_okD(2) [OF ok, of p] by (cases "p < length (fl_parties s)") auto
  have m: "members q ?s = members q s" for q
    using c by (simp add: members_set_caller cancel_def)
  have k: "cancelling q ?s = cancelling q s" if "q \<noteq> p" for q
    using c that by (simp add: cancelling_set_caller cancel_def)
  have ksub: "cancelling q s" if "cancelling q ?s" for q
    using that set_update_subset_insert [of "fl_callers s" c "Returned r"]
    by (auto simp: cancelling_def set_caller_def cancel_def)
  have eqs: "fl_parties ?s = (fl_parties s)[p := (fl_parties s ! p)\<lparr>pt_cancelled := True\<rparr>]"
    "fl_current ?s = fl_current s" "fl_call ?s = fl_call s"
    by (simp_all add: set_caller_def cancel_def)
  have none: "members p s = 0" using flights_okD(1) [OF ok p] can by (auto simp: party_ok_def)
  show ?thesis
  proof (rule flights_okI)
    fix q assume "q < length (fl_parties ?s)"
    then have q: "q < length (fl_parties s)" by (simp add: eqs)
    from flights_okD(1) [OF ok this] show "party_ok ?s q (fl_parties ?s ! q)"
      using none p k by (cases "q = p") (auto simp: party_ok_def m eqs)
  next
    fix q assume "length (fl_parties ?s) \<le> q"
    with flights_okD(2) [OF ok, of q] ksub show "members q ?s = 0 \<and> \<not> cancelling q ?s \<and> fl_current ?s \<noteq> Some q"
      by (auto simp: m eqs)
  qed (use flights_okD(3) [OF ok] in \<open>auto simp: eqs\<close>)
qed

lemma expire_ok:
  assumes ok: "flights_ok s"
  shows "flights_ok (s\<lparr>fl_parties := (fl_parties s)[p := (fl_parties s ! p)\<lparr>pt_expired := True\<rparr>]\<rparr>)"
proof (rule flights_okI)
  let ?s = "s\<lparr>fl_parties := (fl_parties s)[p := (fl_parties s ! p)\<lparr>pt_expired := True\<rparr>]\<rparr>"
  fix q assume "q < length (fl_parties ?s)"
  then have q: "q < length (fl_parties s)" by simp
  from flights_okD(1) [OF ok q] show "party_ok ?s q (fl_parties ?s ! q)"
    using q by (cases "q = p") (auto simp: party_ok_def)
qed (use flights_okD(2,3) [OF ok] in auto)

lemma party_step_ok: "party_step s s' \<Longrightarrow> flights_ok s \<Longrightarrow> flights_ok s'"
proof (induction rule: party_step.induct)
  case (gone c s p r)
  then show ?case by (intro depart_ok) auto
next
  case (answers c s p r)
  then show ?case by (intro depart_ok) auto
qed (simp_all add: arrive_ok do_chan_ok finish_ok cancel_ok expire_ok)

lemma no_flights_ok: "flights_ok no_flights"
  by (simp add: flights_ok_def no_flights_def members_def cancelling_def)

lemma reachable_ok: "party_reachable s \<Longrightarrow> flights_ok s"
  by (induction rule: rtranclp_induct) (auto intro: no_flights_ok party_step_ok)

section \<open>A render lives as long as its waiters\<close>


text \<open>
  Two callers of one entry: the first leads a render and gives up; the second arrives before
  the call has ended.
\<close>

definition first_gone :: flights where
  "first_gone = set_caller 0 (Returned (Inl CodeCanceled))
     (cancel 0 (depart 0 0 (Inl CodeCanceled) (do_chan 0 0 (arrive no_flights))))"

definition second_waits :: flights where
  "second_waits = do_chan 1 1 (arrive first_gone)"

lemma second_waits_reachable: "party_reachable second_waits"
proof -
  let ?s1 = "arrive no_flights" and ?s2 = "do_chan 0 0 (arrive no_flights)"
  let ?s3 = "depart 0 0 (Inl CodeCanceled) ?s2"
  have "party_step no_flights ?s1" by (rule arrives)
  moreover have "party_step ?s1 ?s2" by (rule calls) code_simp+
  moreover have "party_step ?s2 ?s3" by (rule gone [where r = "Inl CodeCanceled"]) code_simp+
  moreover have "party_step ?s3 first_gone" unfolding first_gone_def by (rule cancels) code_simp+
  moreover have "party_step first_gone (arrive first_gone)" by (rule arrives)
  moreover have "party_step (arrive first_gone) second_waits" unfolding second_waits_def by (rule calls) code_simp+
  ultimately show ?thesis by (meson converse_rtranclp_into_rtranclp rtranclp.rtrancl_refl)
qed

text \<open>
  C32: A live caller can still be answered with another's cancellation: one that arrives after
  the last waiter has given up, but before the cancelled call has ended, forms a party of its
  own with a live context, yet attaches to the call that runs on the cancelled one, and when
  that call fails with the renderer's \<open>context.Canceled\<close> its request fails as cancelled.
\<close>

theorem live_caller_gets_cancelled:
  "party_reachable second_waits \<and>
   fl_callers second_waits ! 1 = Waiting 1 \<and> \<not> pt_cancelled (fl_parties second_waits ! 1) \<and>
   fl_call second_waits = Some (0, [0, 1]) \<and> pt_cancelled (fl_parties second_waits ! 0) \<and>
   (let s = finish (Inl (renderError ReContextCanceled)) [0, 1] second_waits;
        s' = depart 1 1 (Inl (renderError ReContextCanceled)) s
    in party_step second_waits s \<and> party_step s s' \<and> fl_callers s' ! 1 = Canceller 1 (Inl CodeCanceled))"
proof -
  let ?s = "finish (Inl (renderError ReContextCanceled)) [0, 1] second_waits"
  have facts: "fl_callers second_waits ! 1 = Waiting 1 \<and> \<not> pt_cancelled (fl_parties second_waits ! 1) \<and>
      fl_call second_waits = Some (0, [0, 1]) \<and> pt_cancelled (fl_parties second_waits ! 0)" by code_simp
  then have "party_step second_waits ?s" by (intro finishes) blast
  moreover have "party_step ?s (depart 1 1 (Inl (renderError ReContextCanceled)) ?s)"
    by (rule answers) code_simp+
  moreover have "fl_callers (depart 1 1 (Inl (renderError ReContextCanceled)) ?s) ! 1 = Canceller 1 (Inl CodeCanceled)"
    by code_simp
  ultimately show ?thesis using facts second_waits_reachable by (simp add: Let_def)
qed


end
