(* ===== verification/Render_Limit.thy ===== *)
theory Render_Limit
  imports Render_Party
begin

text \<open>
  The two caps on concurrent renders (\<open>RenderLimit\<close> in \<open>internal/service/render.go\<close>) and what
  holds their slots: the full-size renders of \<open>Render.RenderPage\<close>, and the calls in flight of
  \<open>Thumbnail.load\<close>, one per cache entry, with all their callers.  The counting semaphore is
  \<open>golang.org/x/sync/semaphore\<close>, a parameter: the locale states what its documentation promises
  of a weight of one.
\<close>

section \<open>The semaphore\<close>

text \<open>\<open>give\<close> answers \<open>None\<close> where \<open>Release\<close> panics.\<close>

locale weighted =
  fixes fresh :: "int \<Rightarrow> 's" and try_take :: "'s \<Rightarrow> 's option" and give :: "'s \<Rightarrow> 's option"
    and capacity :: "'s \<Rightarrow> int" and taken :: "'s \<Rightarrow> int"
  assumes fresh: "0 \<le> n \<Longrightarrow> capacity (fresh n) = n \<and> taken (fresh n) = 0"
    and take_some: "try_take s = Some s' \<Longrightarrow> taken s < capacity s \<and> capacity s' = capacity s \<and> taken s' = taken s + 1"
    and take_free: "taken s < capacity s \<Longrightarrow> try_take s \<noteq> None"
    and give_held: "0 < taken s \<Longrightarrow> \<exists>s'. give s = Some s' \<and> capacity s' = capacity s \<and> taken s' = taken s - 1"

record 's sem_ops =
  so_fresh :: "int \<Rightarrow> 's"
  so_take :: "'s \<Rightarrow> 's option"
  so_give :: "'s \<Rightarrow> 's option"

definition NewRenderLimit :: "'s sem_ops \<Rightarrow> int \<Rightarrow> 's" where
  "NewRenderLimit ops n = so_fresh ops (max n 1)"

section \<open>The service\<close>

text \<open>
  How far a render is: \<open>Rechecking\<close> the cache on behalf of the callers of its entry, \<open>Asking\<close> for
  a slot, \<open>Rendering\<close> with one (the source path, the renderer and, for a thumbnail, its
  publication), and \<open>Finished\<close> with the slot given back by the deferred \<open>release\<close>.
\<close>

datatype stage = Idle | Rechecking | Asking | Rendering | Finished answer

record 's renders =
  rn_flights :: "string \<Rightarrow> flights"      \<comment> \<open>per \<open>singleflightKey\<close>\<close>
  rn_calls :: "string \<Rightarrow> stage"
  rn_pages :: "nat \<Rightarrow> stage"             \<comment> \<open>per request of \<open>RenderPage\<close>\<close>
  rn_thumb_limit :: 's
  rn_page_limit :: 's
  rn_panicked :: bool

text \<open>\<open>NewThumbnail\<close> and \<open>NewRender\<close>, each with a limit of its own.\<close>

definition new_renders :: "'s sem_ops \<Rightarrow> int \<Rightarrow> int \<Rightarrow> 's renders" where
  "new_renders ops thumbnail page =
     \<lparr>rn_flights = (\<lambda>_. no_flights), rn_calls = (\<lambda>_. Idle), rn_pages = (\<lambda>_. Idle),
      rn_thumb_limit = NewRenderLimit ops thumbnail, rn_page_limit = NewRenderLimit ops page,
      rn_panicked = False\<rparr>"

text \<open>\<open>release\<close>: the limit afterwards, or the one before and a panic.\<close>

definition limit_release :: "'s sem_ops \<Rightarrow> 's \<Rightarrow> 's \<times> bool" where
  "limit_release ops l = (case so_give ops l of Some l' \<Rightarrow> (l', False) | None \<Rightarrow> (l, True))"

definition set_call :: "string \<Rightarrow> stage \<Rightarrow> 's renders \<Rightarrow> 's renders" where
  "set_call k x s = s\<lparr>rn_calls := (rn_calls s)(k := x)\<rparr>"

definition set_flights :: "string \<Rightarrow> flights \<Rightarrow> 's renders \<Rightarrow> 's renders" where
  "set_flights k f s = s\<lparr>rn_flights := (rn_flights s)(k := f)\<rparr>"

definition set_page :: "nat \<Rightarrow> stage \<Rightarrow> 's renders \<Rightarrow> 's renders" where
  "set_page i x s = s\<lparr>rn_pages := (rn_pages s)(i := x)\<rparr>"

text \<open>A call ends its render: publish or fail, then release.\<close>

definition end_call :: "'s sem_ops \<Rightarrow> string \<Rightarrow> answer \<Rightarrow> 's renders \<Rightarrow> 's renders" where
  "end_call ops k r s = (case limit_release ops (rn_thumb_limit s) of (l, p) \<Rightarrow>
     set_call k (Finished r) (s\<lparr>rn_thumb_limit := l, rn_panicked := rn_panicked s \<or> p\<rparr>))"

definition end_page :: "'s sem_ops \<Rightarrow> nat \<Rightarrow> answer \<Rightarrow> 's renders \<Rightarrow> 's renders" where
  "end_page ops i r s = (case limit_release ops (rn_page_limit s) of (l, p) \<Rightarrow>
     set_page i (Finished r) (s\<lparr>rn_page_limit := l, rn_panicked := rn_panicked s \<or> p\<rparr>))"

definition context_done :: "party \<Rightarrow> bool" where
  "context_done p \<longleftrightarrow> pt_cancelled p \<or> pt_expired p"

text \<open>
  Steps.  The callers of an entry move as in \<open>Render_Party\<close>; a call that starts rechecks the
  cache, one whose context is done may be refused a slot, and one that has finished delivers
  its answer.  A page request's context may be done at any time.
\<close>

inductive render_step :: "'s sem_ops \<Rightarrow> 's renders \<Rightarrow> 's renders \<Rightarrow> bool" for ops where
  callers: "party_step (rn_flights s k) f \<Longrightarrow> fl_call f = None \<longleftrightarrow> fl_call (rn_flights s k) = None \<Longrightarrow>
    render_step ops s (set_flights k f s)"
| leads: "party_step (rn_flights s k) f \<Longrightarrow> fl_call (rn_flights s k) = None \<Longrightarrow> fl_call f \<noteq> None \<Longrightarrow>
    render_step ops s (set_call k Rechecking (set_flights k f s))"
| cached: "rn_calls s k = Rechecking \<Longrightarrow> render_step ops s (set_call k (Finished r) s)"
| missed: "rn_calls s k = Rechecking \<Longrightarrow> render_step ops s (set_call k Asking s)"
| granted: "rn_calls s k = Asking \<Longrightarrow> so_take ops (rn_thumb_limit s) = Some l \<Longrightarrow>
    render_step ops s (set_call k Rendering (s\<lparr>rn_thumb_limit := l\<rparr>))"
| refused: "rn_calls s k = Asking \<Longrightarrow> fl_call (rn_flights s k) = Some (p, cs) \<Longrightarrow>
    context_done (fl_parties (rn_flights s k) ! p) \<Longrightarrow> limit_acquire False = Some c \<Longrightarrow>
    render_step ops s (set_call k (Finished (Inl c)) s)"
| rendered: "rn_calls s k = Rendering \<Longrightarrow> render_step ops s (end_call ops k r s)"
| delivers: "rn_calls s k = Finished r \<Longrightarrow> fl_call (rn_flights s k) = Some (p, cs) \<Longrightarrow>
    render_step ops s (set_call k Idle (set_flights k (finish r cs (rn_flights s k)) s))"
| page_asks: "rn_pages s i = Idle \<Longrightarrow> render_step ops s (set_page i Asking s)"
| page_granted: "rn_pages s i = Asking \<Longrightarrow> so_take ops (rn_page_limit s) = Some l \<Longrightarrow>
    render_step ops s (set_page i Rendering (s\<lparr>rn_page_limit := l\<rparr>))"
| page_refused: "rn_pages s i = Asking \<Longrightarrow> limit_acquire False = Some c \<Longrightarrow>
    render_step ops s (set_page i (Finished (Inl c)) s)"
| page_done: "rn_pages s i = Rendering \<Longrightarrow> render_step ops s (end_page ops i r s)"

inductive_cases render_stepE: "render_step ops s s'"

abbreviation render_reachable :: "'s sem_ops \<Rightarrow> int \<Rightarrow> int \<Rightarrow> 's renders \<Rightarrow> bool" where
  "render_reachable ops thumbnail page s \<equiv> (render_step ops)\<^sup>*\<^sup>* (new_renders ops thumbnail page) s"

section \<open>Slots are accounted for\<close>

definition holders :: "('k \<Rightarrow> stage) \<Rightarrow> 'k set" where
  "holders f = {k. f k = Rendering}"

lemma holders_update:
  "holders (f(k := x)) = (if x = Rendering then insert k (holders f) else holders f - {k})"
  by (auto simp: holders_def)

lemma holders_mem [simp]: "k \<in> holders f \<longleftrightarrow> f k = Rendering"
  by (simp add: holders_def)

text \<open>The accounting of one limit, and the whole invariant.\<close>

definition accounts :: "('s \<Rightarrow> int) \<Rightarrow> ('s \<Rightarrow> int) \<Rightarrow> int \<Rightarrow> 's \<Rightarrow> 'k set \<Rightarrow> bool" where
  "accounts capacity taken n l H \<longleftrightarrow> finite H \<and> capacity l = n \<and> taken l = int (card H) \<and> int (card H) \<le> n"

definition call_ok :: "flights \<Rightarrow> stage \<Rightarrow> bool" where
  "call_ok f x \<longleftrightarrow> flights_ok f \<and> (fl_call f = None \<longleftrightarrow> x = Idle)"

definition renders_ok :: "('s \<Rightarrow> int) \<Rightarrow> ('s \<Rightarrow> int) \<Rightarrow> int \<Rightarrow> int \<Rightarrow> 's renders \<Rightarrow> bool" where
  "renders_ok capacity taken thumbnail page s \<longleftrightarrow> \<not> rn_panicked s \<and>
     accounts capacity taken (max thumbnail 1) (rn_thumb_limit s) (holders (rn_calls s)) \<and>
     accounts capacity taken (max page 1) (rn_page_limit s) (holders (rn_pages s)) \<and>
     (\<forall>k. call_ok (rn_flights s k) (rn_calls s k))"

lemmas renders_update_defs = set_call_def set_flights_def set_page_def

context weighted
begin

lemma accounts_fresh: "accounts capacity taken (max n 1) (fresh (max n 1)) {}"
  using fresh [of "max n 1"] by (simp add: accounts_def)

lemma accounts_take:
  "accounts capacity taken n l H \<Longrightarrow> try_take l = Some l' \<Longrightarrow> k \<notin> H \<Longrightarrow> accounts capacity taken n l' (insert k H)"
  using take_some [of l l'] by (auto simp: accounts_def)

lemma accounts_give:
  assumes "accounts capacity taken n l H" "k \<in> H"
  shows "\<exists>l'. give l = Some l' \<and> accounts capacity taken n l' (H - {k})"
proof -
  have H: "finite H" "taken l = int (card H)" "int (card H) \<le> n" "capacity l = n"
    using assms(1) by (simp_all add: accounts_def)
  have "0 < card H" using H(1) assms(2) by (auto simp: card_gt_0_iff)
  with H assms(2) give_held [of l] show ?thesis by (auto simp: accounts_def of_nat_diff)
qed

text \<open>A slot nobody holds is there for the taking.\<close>

lemma accounts_free: "accounts capacity taken n l H \<Longrightarrow> int (card H) < n \<Longrightarrow> try_take l \<noteq> None"
  by (rule take_free) (simp add: accounts_def)

end

section \<open>The invariant\<close>

lemma limit_release_Some: "so_give ops l = Some l' \<Longrightarrow> limit_release ops l = (l', False)"
  by (simp add: limit_release_def)

lemma finish_call: "fl_call (finish r cs f) = None"
  by (simp add: finish_def)

lemma party_call_ok:
  "call_ok (rn_flights s k) x \<Longrightarrow> party_step (rn_flights s k) f \<Longrightarrow> (fl_call f = None \<longleftrightarrow> y = Idle) \<Longrightarrow> call_ok f y"
  by (auto simp: call_ok_def intro: party_step_ok)

lemma renders_okD:
  assumes "renders_ok capacity taken n m s"
  shows "\<not> rn_panicked s" "accounts capacity taken (max n 1) (rn_thumb_limit s) (holders (rn_calls s))"
    and "accounts capacity taken (max m 1) (rn_page_limit s) (holders (rn_pages s))"
    and "call_ok (rn_flights s k) (rn_calls s k)"
  using assms by (auto simp: renders_ok_def)

context weighted
begin

lemma new_renders_ok: "renders_ok capacity taken n m (new_renders \<lparr>so_fresh = fresh, so_take = try_take, so_give = give\<rparr> n m)"
  by (simp add: renders_ok_def new_renders_def NewRenderLimit_def holders_def call_ok_def no_flights_ok accounts_fresh)
    (simp add: no_flights_def)

lemma render_step_ok:
  assumes "render_step ops s s'" "ops = \<lparr>so_fresh = fresh, so_take = try_take, so_give = give\<rparr>"
    and "renders_ok capacity taken n m s"
  shows "renders_ok capacity taken n m s'"
  using assms
proof (induction rule: render_step.induct)
  case (callers s k f)
  note d = renders_okD [OF callers(4)]
  from d(4) [of k] callers(1,2) have "call_ok f (rn_calls s k)"
    by (intro party_call_ok [OF d(4)]) (auto simp: call_ok_def)
  with d show ?case by (simp add: renders_ok_def set_flights_def)
next
  case (leads s k f)
  note d = renders_okD [OF leads(5)]
  from d(4) [of k] leads(2) have idle: "rn_calls s k = Idle" by (simp add: call_ok_def)
  then have h: "holders ((rn_calls s)(k := Rechecking)) = holders (rn_calls s)" by (auto simp: holders_update)
  from leads(1,3) have "call_ok f Rechecking" by (intro party_call_ok [OF d(4)]) auto
  with d h show ?case by (simp add: renders_ok_def set_flights_def set_call_def)
next
  case (cached s k r)
  note d = renders_okD [OF cached(3)]
  have "holders ((rn_calls s)(k := Finished r)) = holders (rn_calls s)" using cached(1) by (auto simp: holders_update)
  moreover have "call_ok (rn_flights s k) (Finished r)" using d(4) [of k] cached(1) by (simp add: call_ok_def)
  ultimately show ?case using d by (simp add: renders_ok_def set_call_def)
next
  case (missed s k)
  note d = renders_okD [OF missed(3)]
  have "holders ((rn_calls s)(k := Asking)) = holders (rn_calls s)" using missed(1) by (auto simp: holders_update)
  moreover have "call_ok (rn_flights s k) Asking" using d(4) [of k] missed(1) by (simp add: call_ok_def)
  ultimately show ?case using d by (simp add: renders_ok_def set_call_def)
next
  case (granted s k l)
  note d = renders_okD [OF granted(4)]
  have "accounts capacity taken (max n 1) l (holders ((rn_calls s)(k := Rendering)))"
    using accounts_take [OF d(2), of l k] granted(1,2,3) by (simp add: holders_update)
  moreover have "call_ok (rn_flights s k) Rendering" using d(4) [of k] granted(1) by (simp add: call_ok_def)
  ultimately show ?case using d by (simp add: renders_ok_def set_call_def)
next
  case (refused s k p cs c)
  note d = renders_okD [OF refused(6)]
  have "holders ((rn_calls s)(k := Finished (Inl c))) = holders (rn_calls s)" using refused(1) by (auto simp: holders_update)
  moreover have "call_ok (rn_flights s k) (Finished (Inl c))" using d(4) [of k] refused(1) by (simp add: call_ok_def)
  ultimately show ?case using d by (simp add: renders_ok_def set_call_def)
next
  case (rendered s k r)
  note d = renders_okD [OF rendered(3)]
  from accounts_give [OF d(2), of k] rendered(1,2) obtain l where l: "so_give ops (rn_thumb_limit s) = Some l"
    "accounts capacity taken (max n 1) l (holders (rn_calls s) - {k})" by auto
  moreover have "call_ok (rn_flights s k) (Finished r)" using d(4) [of k] rendered(1) by (simp add: call_ok_def)
  ultimately show ?case using d
    by (simp add: end_call_def limit_release_Some renders_ok_def set_call_def holders_update)
next
  case (delivers s k r p cs)
  note d = renders_okD [OF delivers(4)]
  have "holders ((rn_calls s)(k := Idle)) = holders (rn_calls s)" using delivers(1) by (auto simp: holders_update)
  moreover have "call_ok (finish r cs (rn_flights s k)) Idle"
    using delivers(2) by (intro party_call_ok [OF d(4) [of k]] finishes) (auto simp: finish_call)
  ultimately show ?case using d by (simp add: renders_ok_def set_call_def set_flights_def)
next
  case (page_asks s i)
  note d = renders_okD [OF page_asks(3)]
  have "holders ((rn_pages s)(i := Asking)) = holders (rn_pages s)" using page_asks(1) by (auto simp: holders_update)
  with d show ?case by (simp add: renders_ok_def set_page_def)
next
  case (page_granted s i l)
  note d = renders_okD [OF page_granted(4)]
  have "accounts capacity taken (max m 1) l (holders ((rn_pages s)(i := Rendering)))"
    using accounts_take [OF d(3), of l i] page_granted(1,2,3) by (simp add: holders_update)
  with d show ?case by (simp add: renders_ok_def set_page_def)
next
  case (page_refused s i c)
  note d = renders_okD [OF page_refused(4)]
  have "holders ((rn_pages s)(i := Finished (Inl c))) = holders (rn_pages s)"
    using page_refused(1) by (auto simp: holders_update)
  with d show ?case by (simp add: renders_ok_def set_page_def)
next
  case (page_done s i r)
  note d = renders_okD [OF page_done(3)]
  from accounts_give [OF d(3), of i] page_done(1,2) obtain l where l: "so_give ops (rn_page_limit s) = Some l"
    "accounts capacity taken (max m 1) l (holders (rn_pages s) - {i})" by auto
  with d show ?case
    by (simp add: end_page_def limit_release_Some renders_ok_def set_page_def holders_update)
qed

lemma render_reachable_ok:
  assumes "(render_step ops)\<^sup>*\<^sup>* (new_renders ops n m) s"
    and "ops = \<lparr>so_fresh = fresh, so_take = try_take, so_give = give\<rparr>"
  shows "renders_ok capacity taken n m s"
  using assms by (induction rule: rtranclp_induct) (auto intro: new_renders_ok render_step_ok)

end

section \<open>What a slot is held for\<close>

text \<open>
  Why a call may hold a slot: a caller counted in its party waits for it, or its context is
  cancelled, or the last caller to leave is about to cancel it.
\<close>

definition held_for :: "flights \<Rightarrow> nat \<Rightarrow> bool" where
  "held_for f p \<longleftrightarrow> p < length (fl_parties f) \<and>
     ((\<exists>c < length (fl_callers f). counted (fl_callers f ! c) = Some p) \<or>
      pt_cancelled (fl_parties f ! p) \<or> cancelling p f)"

lemma call_held_for:
  assumes "flights_ok f" "fl_call f = Some (p, cs)"
  shows "held_for f p"
proof -
  have p: "p < length (fl_parties f)" by (rule flights_okD(3) [OF assms])
  note party = flights_okD(1) [OF assms(1) p]
  have "\<exists>c < length (fl_callers f). counted (fl_callers f ! c) = Some p" if "members p f \<noteq> 0"
  proof -
    from that have "Some p \<in> set (map counted (fl_callers f))" by (auto simp: members_def count_list_0_iff)
    then show ?thesis by (metis in_set_conv_nth length_map nth_map)
  qed
  with p party show ?thesis by (auto simp: held_for_def party_ok_def)
qed

text \<open>
  C16: The render caps hold.  However callers arrive, wait, give up and are answered, however
  renders end, and whatever the configured numbers (also zero and negative ones): at most
  \<open>max n 1\<close> thumbnail renders and at most \<open>max m 1\<close> page renders hold a slot at a time, exactly
  the slots taken are held, and no release panics; a call that holds a slot is in flight for
  its entry, and holds it for a caller that still waits in its party or on a context that is
  cancelled or about to be; and whoever asks while fewer than the cap hold a slot can be
  granted one, whatever the other limit is busy with.
\<close>

theorem render_caps_hold:
  assumes "weighted (so_fresh ops) (so_take ops) (so_give ops) capacity taken"
    and "render_reachable ops n m s"
  shows "\<not> rn_panicked s \<and>
    int (card (holders (rn_calls s))) = taken (rn_thumb_limit s) \<and> taken (rn_thumb_limit s) \<le> max n 1 \<and>
    int (card (holders (rn_pages s))) = taken (rn_page_limit s) \<and> taken (rn_page_limit s) \<le> max m 1 \<and>
    (\<forall>k. rn_calls s k = Rendering \<longrightarrow>
      (\<exists>p cs. fl_call (rn_flights s k) = Some (p, cs) \<and> held_for (rn_flights s k) p)) \<and>
    (\<forall>k. rn_calls s k = Asking \<and> int (card (holders (rn_calls s))) < max n 1 \<longrightarrow>
      (\<exists>l. render_step ops s (set_call k Rendering (s\<lparr>rn_thumb_limit := l\<rparr>)))) \<and>
    (\<forall>i. rn_pages s i = Asking \<and> int (card (holders (rn_pages s))) < max m 1 \<longrightarrow>
      (\<exists>l. render_step ops s (set_page i Rendering (s\<lparr>rn_page_limit := l\<rparr>))))"
proof -
  have "renders_ok capacity taken n m s"
    by (rule weighted.render_reachable_ok [OF assms]) simp
  note d = renders_okD [OF this]
  have held: "\<exists>p cs. fl_call (rn_flights s k) = Some (p, cs) \<and> held_for (rn_flights s k) p" if "rn_calls s k = Rendering" for k
    using d(4) [of k] that call_held_for by (fastforce simp: call_ok_def)
  note free = weighted.accounts_free [OF assms(1)]
  show ?thesis
    using d(1,2,3) held free [OF d(2)] free [OF d(3)]
    by (auto simp: accounts_def intro: granted page_granted)
qed

text \<open>A counter with its capacity does what the semaphore's documentation promises.\<close>

record slots =
  sl_capacity :: int
  sl_taken :: int

definition counter :: "slots sem_ops" where
  "counter = \<lparr>so_fresh = (\<lambda>n. \<lparr>sl_capacity = n, sl_taken = 0\<rparr>),
     so_take = (\<lambda>s. if sl_taken s < sl_capacity s then Some (s\<lparr>sl_taken := sl_taken s + 1\<rparr>) else None),
     so_give = (\<lambda>s. if 0 < sl_taken s then Some (s\<lparr>sl_taken := sl_taken s - 1\<rparr>) else None)\<rparr>"

interpretation counter: weighted "so_fresh counter" "so_take counter" "so_give counter" sl_capacity sl_taken
  by unfold_locales (auto simp: counter_def split: if_splits)

text \<open>One caller whose render has been granted the only slot of a limit configured as zero.\<close>

definition one_render :: "slots renders" where
  "one_render =
     (let s1 = set_flights ''k'' (arrive no_flights) (new_renders counter 0 0);
          s2 = set_call ''k'' Rechecking (set_flights ''k'' (do_chan 0 0 (arrive no_flights)) s1);
          s3 = set_call ''k'' Asking s2
      in set_call ''k'' Rendering (s3\<lparr>rn_thumb_limit := \<lparr>sl_capacity = 1, sl_taken = 1\<rparr>\<rparr>))"

lemma one_render_reachable: "render_reachable counter 0 0 one_render"
proof -
  let ?s0 = "new_renders counter 0 0"
  let ?s1 = "set_flights ''k'' (arrive no_flights) ?s0"
  let ?s2 = "set_call ''k'' Rechecking (set_flights ''k'' (do_chan 0 0 (arrive no_flights)) ?s1)"
  let ?s3 = "set_call ''k'' Asking ?s2"
  have flights: "rn_flights ?s0 ''k'' = no_flights" "rn_flights ?s1 ''k'' = arrive no_flights"
    by (simp_all add: new_renders_def set_flights_def)
  have "render_step counter ?s0 ?s1"
    by (rule callers, unfold flights, rule arrives) code_simp
  moreover have "render_step counter ?s1 ?s2"
    by (rule leads, unfold flights, rule calls) code_simp+
  moreover have "render_step counter ?s2 ?s3" by (rule missed) (simp add: set_call_def)
  moreover have "render_step counter ?s3 one_render" unfolding one_render_def Let_def
    by (rule granted) (simp_all add: renders_update_defs new_renders_def NewRenderLimit_def counter_def)
  ultimately show ?thesis by (meson converse_rtranclp_into_rtranclp rtranclp.rtrancl_refl)
qed

lemma render_caps_hold_witness:
  "card (holders (rn_calls one_render)) = 1 \<and> sl_taken (rn_thumb_limit one_render) = 1 \<and>
   (\<exists>p cs. fl_call (rn_flights one_render ''k'') = Some (p, cs) \<and> held_for (rn_flights one_render ''k'') p)"
proof -
  have "sl_taken (rn_thumb_limit one_render) = 1" "rn_calls one_render ''k'' = Rendering"
    by (simp_all add: one_render_def Let_def renders_update_defs)
  with render_caps_hold [OF counter.weighted_axioms one_render_reachable] show ?thesis by auto
qed

end
