(* ===== verification/Process_Run.thy ===== *)
theory Process_Run
  imports Clients Pipeline Render_Limit
begin

text \<open>
  The two processes from start to stop: \<open>Indexer.Run\<close> (\<open>internal/indexer/indexer.go\<close>) and \<open>API.Run\<close>
  with the HTTP server's \<open>Run\<close> (\<open>internal/api/api.go\<close>, \<open>internal/server/server.go\<close>).  A run is the list
  of what it does to the resources it owns, in order, and how it ends; \<open>defer\<close> closes in
  reverse.  River, pgx, gRPC, \<open>net/http\<close> and \<open>errgroup\<close> are used as documented: what they answer
  is data, and a group's error is the first one returned.
\<close>

section \<open>The job queue\<close>

record river_config =
  rv_default_workers :: int
  rv_extract_workers :: int
  rv_periodic :: "(int \<times> job_args \<times> bool) list"  \<comment> \<open>interval, job, \<open>RunOnStart\<close>\<close>

definition EvictionPeriodicJob :: "int \<Rightarrow> int \<times> job_args \<times> bool" where
  "EvictionPeriodicJob interval = (interval, EvictionMaintenanceArgs, True)"

definition CacheSweepPeriodicJob :: "int \<Rightarrow> int \<times> job_args \<times> bool" where
  "CacheSweepPeriodicJob interval = (interval, CacheSweepArgs, False)"

definition river_settings :: "Config \<Rightarrow> int \<Rightarrow> river_config" where
  "river_settings cfg numCPU =
     \<lparr>rv_default_workers = riverWorkers (cc_river_workers (cf_concurrency cfg)) numCPU,
      rv_extract_workers = max (cc_extract (cf_concurrency cfg)) 1,
      rv_periodic = [EvictionPeriodicJob (sc_eviction_interval (cf_storage cfg)),
        CacheSweepPeriodicJob (sc_sweep_interval (cf_storage cfg))]\<rparr>"

text \<open>Go durations are nanoseconds; the database and the clock of the model count microseconds.\<close>

definition micros :: "int \<Rightarrow> int" where "micros d = d div 1000"

definition NewEvictionMaintenanceWorker :: "int \<Rightarrow> int \<Rightarrow> EvictionWorker" where
  "NewEvictionMaintenanceWorker maxAge maxBytes = \<lparr>ew_max_age = maxAge, ew_max_bytes = maxBytes\<rparr>"

text \<open>\<open>jobs.ExtractWorker.Timeout\<close>: it covers both of an extraction's requests.\<close>

definition Extract_Timeout :: int where "Extract_Timeout = 30 * minute"

lemma Extract_Timeout_default: "2 * kc_timeout (cf_tika (default_config url)) < Extract_Timeout"
  by (simp add: Extract_Timeout_def default_config_def unit_defs)

text \<open>
  What the process brings besides its configuration: the functions of the standard library and
  of third parties, the filesystem as each job sees it and the object store.
\<close>

record 'g platform =
  pf_uni_lower :: "string \<Rightarrow> string"
  pf_sha256 :: "string \<Rightarrow> string"
  pf_sniff :: "string \<Rightarrow> string"
  pf_nfkc :: "string \<Rightarrow> string"
  pf_message :: "err \<Rightarrow> string"
  pf_opener :: "string \<Rightarrow> opened"
  pf_files :: extract_files
  pf_pages :: listing
  pf_objects :: "'g deleter"

definition NormalizeText :: "'g platform \<Rightarrow> string \<Rightarrow> string" where
  "NormalizeText pf s = pf_nfkc pf s"

definition NewProcessor :: "'g platform \<Rightarrow> enqueuer \<Rightarrow> doc_filter \<Rightarrow> Processor" where
  "NewProcessor pf enq flt = \<lparr>pr_enqueuer = enq, pr_filter = flt, pr_sha256 = pf_sha256 pf, pr_sniff = pf_sniff pf\<rparr>"

definition NewExtractWorker :: "'g platform \<Rightarrow> tika_client \<Rightarrow> doc_filter \<Rightarrow> ExtractWorker" where
  "NewExtractWorker pf tika flt = \<lparr>xw_tika = tika, xw_filter = flt, xw_sniff = pf_sniff pf,
     xw_normalize = NormalizeText pf, xw_message = pf_message pf\<rparr>"

definition newRiverClient :: "'g platform \<Rightarrow> Config \<Rightarrow> int \<Rightarrow> Processor \<Rightarrow> tika_client \<Rightarrow> Store \<Rightarrow> doc_filter \<Rightarrow>
    river_config \<times> 'g workers" where
  "newRiverClient pf cfg numCPU processor tika st flt =
     (river_settings cfg numCPU,
      \<lparr>wk_processor = processor, wk_opener = pf_opener pf, wk_extractor = NewExtractWorker pf tika flt,
       wk_files = pf_files pf,
       wk_eviction = NewEvictionMaintenanceWorker (micros (sc_max_object_age (cf_storage cfg)))
         (sc_max_cache_bytes (cf_storage cfg)),
       wk_store = st, wk_pages = pf_pages pf, wk_objects = pf_objects pf\<rparr>)"

section \<open>The indexer\<close>

datatype 'g act =
    PoolOpened | PoolClosed
  | EnqueuerBound
  | Registered "Mountpoint list"
  | WatcherOpened watch_target | WatcherClosed
  | RiverStarted river_config "'g workers" | RiverStopped
  | Reconciling Reconciler database
  | RendererOpened "string option" | RendererClosed
  | Listening string int int     \<comment> \<open>address, render cap, thumbnail cap\<close>
  | ServerDown

record 'g indexer_env =
  ie_pool :: pool_env
  ie_tika :: tika_services
  ie_dial :: "watch_target \<Rightarrow> bool"
  ie_river :: bool               \<comment> \<open>\<open>river.NewClient\<close> succeeds\<close>
  ie_start :: bool
  ie_stop :: bool
  ie_numCPU :: int
  ie_platform :: "'g platform"

text \<open>\<open>errgroup\<close>: the reconciler until the context is done, then the bounded stop of the queue.\<close>

definition indexer_group :: "'g indexer_env \<Rightarrow> Reconciler \<Rightarrow> watch list \<Rightarrow> world \<Rightarrow> start_error option \<times> world" where
  "indexer_group env r wts w =
     (case Run_reconciler r wts w of
        (Inl e, w') \<Rightarrow> (Some (ErrIngest e), w')
      | (Inr _, w') \<Rightarrow> (if ie_stop env then None else Some ErrRiverStop, w'))"

text \<open>
  What the composition wires together.  The processor's store and the reconciler's share one
  enqueuer by pointer, so binding it binds both: the parts are built over the bound one.
\<close>

record 'g parts =
  pt_enqueuer :: enqueuer
  pt_filter :: doc_filter
  pt_river :: river_config
  pt_workers :: "'g workers"

definition indexer_parts :: "'g indexer_env \<Rightarrow> Config \<Rightarrow> tika_client \<Rightarrow> Store \<Rightarrow> 'g parts" where
  "indexer_parts env cfg tika objects =
     (let flt = NewFilter (pf_uni_lower (ie_platform env)) (wc_include_extensions (cf_watch cfg));
          enq = Bind (NewEnqueuer (micros (wc_debounce_interval (cf_watch cfg))));
          (river, ws) = newRiverClient (ie_platform env) cfg (ie_numCPU env)
            (NewProcessor (ie_platform env) enq flt) tika objects flt
      in \<lparr>pt_enqueuer = enq, pt_filter = flt, pt_river = river, pt_workers = ws\<rparr>)"

text \<open>From the connected watcher on.\<close>

definition indexer_serve :: "'g indexer_env \<Rightarrow> Config \<Rightarrow> 'g parts \<Rightarrow> Mountpoint list \<Rightarrow> watch list \<Rightarrow> world \<Rightarrow>
    start_error option \<times> 'g act list \<times> world" where
  "indexer_serve env cfg p mps wts w =
     (let r = New (pt_enqueuer p) (pt_filter p) mps (wc_reconnect_backoff (cf_watch cfg)) in
      if \<not> ie_start env then (Some ErrRiverStart, [], w)
      else (case indexer_group env r wts w of
              (e, w') \<Rightarrow> (e, [RiverStarted (pt_river p) (pt_workers p), Reconciling r (w_db w), RiverStopped], w')))"

text \<open>From the built queue on: the enqueuer is bound before anything can run.\<close>

definition indexer_connect :: "'g indexer_env \<Rightarrow> Config \<Rightarrow> 'g parts \<Rightarrow> watch list \<Rightarrow> world \<Rightarrow>
    start_error option \<times> 'g act list \<times> world" where
  "indexer_connect env cfg p wts w =
     (case registerMountpoints (wc_mountpoints (cf_watch cfg)) w of
        (Inl e, w1) \<Rightarrow> (Some (ErrRegister e), [EnqueuerBound], w1)
      | (Inr mps, w1) \<Rightarrow>
          (case DialDaemon (ie_dial env) (wc_overwatch_target (cf_watch cfg)) (wc_overwatch_socket (cf_watch cfg)) of
             Inl e \<Rightarrow> (Some e, [EnqueuerBound, Registered mps], w1)
           | Inr t \<Rightarrow>
               (case indexer_serve env cfg p mps wts w1 of
                  (e, acts, w2) \<Rightarrow>
                    (e, [EnqueuerBound, Registered mps, WatcherOpened t] @ acts @ [WatcherClosed], w2))))"

definition Indexer_Run :: "'g indexer_env \<Rightarrow> Config \<Rightarrow> watch list \<Rightarrow> world \<Rightarrow> start_error option \<times> 'g act list \<times> world" where
  "Indexer_Run env cfg wts w =
     (case openPool (ie_pool env) (cf_database cfg) of
        Inl e \<Rightarrow> (Some e, [], w)
      | Inr _ \<Rightarrow>
          (let (e, acts, w') =
                 (case tika_New (ie_tika env) (cf_tika cfg) of
                    Inl e \<Rightarrow> (Some e, [], w)
                  | Inr tika \<Rightarrow>
                      (case storage_store (cf_storage cfg) of
                         Inl e \<Rightarrow> (Some e, [], w)
                       | Inr objects \<Rightarrow>
                           if \<not> ie_river env then (Some ErrRiverConfig, [], w)
                           else indexer_connect env cfg (indexer_parts env cfg tika objects) wts w))
           in (e, [PoolOpened] @ acts @ [PoolClosed], w')))"

section \<open>The API\<close>

record api_env =
  ae_pool :: pool_env
  ae_dial :: "string \<Rightarrow> bool"
  ae_listen :: bool       \<comment> \<open>whether the server listens until it is shut down\<close>
  ae_shutdown :: bool     \<comment> \<open>whether it drains within the time limit\<close>

text \<open>\<open>server.Run\<close>: the first error of the listener and the shutdown.\<close>

definition server_Run :: "bool \<Rightarrow> bool \<Rightarrow> start_error option" where
  "server_Run listens drains =
     (if \<not> listens then Some ErrListen else if \<not> drains then Some ErrShutdown else None)"

text \<open>The API's own copy of \<open>openPool\<close>.\<close>

definition API_openPool :: "pool_env \<Rightarrow> database_config \<Rightarrow> start_error + pool" where
  "API_openPool pe cfg =
     (case pe_parse pe (dc_url cfg) of
        None \<Rightarrow> Inl ErrDatabaseURL
      | Some n \<Rightarrow>
          if \<not> pe_connect pe then Inl ErrDatabaseConnect
          else Inr \<lparr>pl_max_conns = (if 0 < dc_max_conns cfg then dc_max_conns cfg else n)\<rparr>)"

definition API_Run :: "api_env \<Rightarrow> Config \<Rightarrow> start_error option \<times> 'g act list" where
  "API_Run env cfg =
     (case API_openPool (ae_pool env) (cf_database cfg) of
        Inl e \<Rightarrow> (Some e, [])
      | Inr _ \<Rightarrow>
          (let (e, acts) =
             (case storage_store (cf_storage cfg) of
                Inl e \<Rightarrow> (Some e, [])
              | Inr _ \<Rightarrow>
                  (case gahaku_New (ae_dial env) (cf_gahaku cfg) of
                     Inl e \<Rightarrow> (Some e, [])
                   | Inr gk \<Rightarrow>
                       (server_Run (ae_listen env) (ae_shutdown env),
                        [RendererOpened (gk_conn gk),
                         Listening (sv_listen_addr (cf_server cfg)) (max (cc_render (cf_concurrency cfg)) 1)
                           (max (cc_thumbnail (cf_concurrency cfg)) 1),
                         ServerDown, RendererClosed])))
           in (e, [PoolOpened] @ acts @ [PoolClosed])))"

section \<open>The commands\<close>

text \<open>\<open>main\<close>: the exit status of a run.\<close>

definition exit_status :: "start_error option \<Rightarrow> int" where
  "exit_status e = (if e = None then 0 else 1)"

definition indexer_main :: "env_parse \<Rightarrow> environment \<Rightarrow> 'g indexer_env \<Rightarrow> watch list \<Rightarrow> world \<Rightarrow> int \<times> 'g act list \<times> world" where
  "indexer_main parse process env wts w =
     (case Load parse process of
        Inl e \<Rightarrow> (exit_status (Some e), [], w)
      | Inr cfg \<Rightarrow> (case Indexer_Run env cfg wts w of (e, acts, w') \<Rightarrow> (exit_status e, acts, w')))"

definition api_main :: "env_parse \<Rightarrow> environment \<Rightarrow> api_env \<Rightarrow> int \<times> 'g act list" where
  "api_main parse process env =
     (case Load parse process of
        Inl e \<Rightarrow> (exit_status (Some e), [])
      | Inr cfg \<Rightarrow> (case API_Run env cfg of (e, acts) \<Rightarrow> (exit_status e, acts)))"

section \<open>Orderly runs\<close>

text \<open>
  What a process holds, and the acts that are in order: nothing is opened twice or closed
  without being open, the pool outlives everything that uses it, the queue runs only over a
  bound enqueuer and registered roots, and the reconciler only while the queue runs.
\<close>

record held =
  hd_pool :: bool
  hd_bound :: bool
  hd_roots :: "Mountpoint list option"
  hd_watcher :: bool
  hd_river :: bool
  hd_renderer :: bool
  hd_server :: bool

definition nothing_held :: held where
  "nothing_held = \<lparr>hd_pool = False, hd_bound = False, hd_roots = None, hd_watcher = False, hd_river = False,
     hd_renderer = False, hd_server = False\<rparr>"

fun allowed_act :: "held \<Rightarrow> 'g act \<Rightarrow> bool" where
  "allowed_act h PoolOpened = (\<not> hd_pool h)"
| "allowed_act h PoolClosed = (hd_pool h \<and> \<not> hd_watcher h \<and> \<not> hd_river h \<and> \<not> hd_renderer h \<and> \<not> hd_server h)"
| "allowed_act h EnqueuerBound = (hd_pool h \<and> \<not> hd_river h)"
| "allowed_act h (Registered _) = (hd_pool h \<and> hd_bound h \<and> hd_roots h = None)"
| "allowed_act h (WatcherOpened _) = (\<not> hd_watcher h)"
| "allowed_act h WatcherClosed = (hd_watcher h \<and> \<not> hd_river h)"
| "allowed_act h (RiverStarted _ _) = (hd_pool h \<and> hd_bound h \<and> hd_roots h \<noteq> None \<and> hd_watcher h \<and> \<not> hd_river h)"
| "allowed_act h RiverStopped = hd_river h"
| "allowed_act h (Reconciling r _) = (hd_river h \<and> hd_watcher h \<and> hd_roots h = Some (rc_mountpoints r))"
| "allowed_act h (RendererOpened _) = (hd_pool h \<and> \<not> hd_renderer h)"
| "allowed_act h RendererClosed = (hd_renderer h \<and> \<not> hd_server h)"
| "allowed_act h (Listening _ n m) = (hd_pool h \<and> hd_renderer h \<and> \<not> hd_server h \<and> 1 \<le> n \<and> 1 \<le> m)"
| "allowed_act h ServerDown = hd_server h"

fun after_act :: "held \<Rightarrow> 'g act \<Rightarrow> held" where
  "after_act h PoolOpened = h\<lparr>hd_pool := True\<rparr>"
| "after_act h PoolClosed = h\<lparr>hd_pool := False\<rparr>"
| "after_act h EnqueuerBound = h\<lparr>hd_bound := True\<rparr>"
| "after_act h (Registered mps) = h\<lparr>hd_roots := Some mps\<rparr>"
| "after_act h (WatcherOpened _) = h\<lparr>hd_watcher := True\<rparr>"
| "after_act h WatcherClosed = h\<lparr>hd_watcher := False\<rparr>"
| "after_act h (RiverStarted _ _) = h\<lparr>hd_river := True\<rparr>"
| "after_act h RiverStopped = h\<lparr>hd_river := False\<rparr>"
| "after_act h (Reconciling _ _) = h"
| "after_act h (RendererOpened _) = h\<lparr>hd_renderer := True\<rparr>"
| "after_act h RendererClosed = h\<lparr>hd_renderer := False\<rparr>"
| "after_act h (Listening _ _ _) = h\<lparr>hd_server := True\<rparr>"
| "after_act h ServerDown = h\<lparr>hd_server := False\<rparr>"

fun orderly :: "held \<Rightarrow> 'g act list \<Rightarrow> bool" where
  "orderly h [] \<longleftrightarrow> \<not> hd_pool h \<and> \<not> hd_watcher h \<and> \<not> hd_river h \<and> \<not> hd_renderer h \<and> \<not> hd_server h"
| "orderly h (a # acts) \<longleftrightarrow> allowed_act h a \<and> orderly (after_act h a) acts"

lemma New_roots [simp]: "rc_mountpoints (New enq flt mps backoff) = mps" "rc_enqueuer (New enq flt mps backoff) = enq"
  by (simp_all add: New_def)

lemma bound_after_Bind [simp]: "eq_bound (Bind e)"
  by (simp add: Bind_def)

text \<open>What the reconciler of a run is given.\<close>

lemma indexer_serve_acts:
  "indexer_serve env cfg p mps wts w = (e, acts, w') \<Longrightarrow>
     acts = [] \<and> e = Some ErrRiverStart \<or>
     acts = [RiverStarted (pt_river p) (pt_workers p),
       Reconciling (New (pt_enqueuer p) (pt_filter p) mps (wc_reconnect_backoff (cf_watch cfg))) (w_db w), RiverStopped]"
  by (auto simp: indexer_serve_def Let_def split: if_splits prod.splits)

text \<open>The six shapes of an indexer's run.\<close>

lemma Indexer_Run_acts:
  assumes "Indexer_Run env cfg wts w = (e, acts, w')"
  obtains "acts = []" "e \<noteq> None" | "acts = [PoolOpened, PoolClosed]" "e \<noteq> None"
  | "acts = [PoolOpened, EnqueuerBound, PoolClosed]" "e \<noteq> None"
  | mps where "acts = [PoolOpened, EnqueuerBound, Registered mps, PoolClosed]" "e \<noteq> None"
  | mps t where "acts = [PoolOpened, EnqueuerBound, Registered mps, WatcherOpened t, WatcherClosed, PoolClosed]" "e \<noteq> None"
  | mps t r w1 tika objects p where "acts = [PoolOpened, EnqueuerBound, Registered mps, WatcherOpened t,
      RiverStarted (pt_river p) (pt_workers p), Reconciling r (w_db w1), RiverStopped, WatcherClosed, PoolClosed]"
    "registerMountpoints (wc_mountpoints (cf_watch cfg)) w = (Inr mps, w1)"
    "p = indexer_parts env cfg tika objects"
    "r = New (pt_enqueuer p) (pt_filter p) mps (wc_reconnect_backoff (cf_watch cfg))"
    "(e, w') = indexer_group env r wts w1"
  using assms
  by (auto simp: Indexer_Run_def indexer_connect_def indexer_serve_def Let_def
      split: sum.splits prod.splits if_splits)

text \<open>The workers and the reconciler of one composition agree.\<close>

definition wired :: "Config \<Rightarrow> Reconciler \<Rightarrow> river_config \<Rightarrow> 'g workers \<Rightarrow> bool" where
  "wired cfg r rv ws \<longleftrightarrow>
     eq_bound (rc_enqueuer r) \<and> pr_enqueuer (wk_processor ws) = rc_enqueuer r \<and>
     pr_filter (wk_processor ws) = rc_filter r \<and> xw_filter (wk_extractor ws) = rc_filter r \<and>
     1 \<le> rv_default_workers rv \<and> 1 \<le> rv_extract_workers rv"

lemma New_filter [simp]: "rc_filter (New enq flt mps backoff) = flt"
  by (simp add: New_def)

lemma parts_wired:
  "wired cfg (New (pt_enqueuer (indexer_parts env cfg tika objects)) (pt_filter (indexer_parts env cfg tika objects)) mps b)
     (pt_river (indexer_parts env cfg tika objects)) (pt_workers (indexer_parts env cfg tika objects))"
  by (simp add: wired_def indexer_parts_def newRiverClient_def NewProcessor_def NewExtractWorker_def
      river_settings_def riverWorkers_def Let_def)

lemma API_Run_acts:
  assumes "API_Run env cfg = (e, acts)"
  obtains "acts = []" "e \<noteq> None" | "acts = [PoolOpened, PoolClosed]" "e \<noteq> None"
  | conn where "acts = [PoolOpened, RendererOpened conn,
      Listening (sv_listen_addr (cf_server cfg)) (max (cc_render (cf_concurrency cfg)) 1) (max (cc_thumbnail (cf_concurrency cfg)) 1),
      ServerDown, RendererClosed, PoolClosed]" "e = server_Run (ae_listen env) (ae_shutdown env)"
  using assms by (auto simp: API_Run_def Let_def split: sum.splits prod.splits if_splits)

text \<open>Registration leaves every mountpoint's row in the database.\<close>

lemma registered_known:
  assumes "registerMountpoints names w = (Inr mps, w1)" "calm w"
  shows "map mp_root mps = map path_clean names \<and> mp_id ` set mps \<subseteq> m_id ` set (db_mountpoints (w_db w1))"
proof -
  note reg = registered [OF assms]
  have "mp_id mp \<in> m_id ` set (db_mountpoints (w_db w1))" if "mp \<in> set mps" for mp
  proof -
    have "root_id (w_db w1) (mp_root mp) = Some (mp_id mp)" using reg that by blast
    then obtain m where "List.find (\<lambda>m. m_root_path m = mp_root mp) (db_mountpoints (w_db w1)) = Some m" "m_id m = mp_id mp"
      by (auto simp: root_id_def)
    from find_SomeD [OF this(1)] this(2) show ?thesis by force
  qed
  with reg show ?thesis by blast
qed


text \<open>A deployment with two roots, one with a trailing slash; the queue does not stop in time.\<close>

definition sample_services :: tika_services where
  "sample_services = \<lparr>ts_parse_url = (\<lambda>_. True), ts_transport = (\<lambda>_ _ _ _. HttpFailed False),
     ts_valid = (\<lambda>_. True), ts_decode = (\<lambda>_. None)\<rparr>"

definition sample_pool :: pool_env where
  "sample_pool = \<lparr>pe_parse = (\<lambda>_. Some 4), pe_connect = True\<rparr>"

definition sample_platform :: "unit platform" where
  "sample_platform = \<lparr>pf_uni_lower = (\<lambda>s. s), pf_sha256 = (\<lambda>s. s), pf_sniff = (\<lambda>_. []), pf_nfkc = (\<lambda>s. s),
     pf_message = (\<lambda>_. []), pf_opener = (\<lambda>_. OpenError), pf_files = sample_files [],
     pf_pages = [], pf_objects = (\<lambda>_ g. (None, g))\<rparr>"

definition sample_indexer :: "unit indexer_env" where
  "sample_indexer = \<lparr>ie_pool = sample_pool, ie_tika = sample_services, ie_dial = (\<lambda>_. True), ie_river = True,
     ie_start = True, ie_stop = False, ie_numCPU = 2, ie_platform = sample_platform\<rparr>"

definition sample_api :: api_env where
  "sample_api = \<lparr>ae_pool = sample_pool, ae_dial = (\<lambda>_. True), ae_listen = True, ae_shutdown = True\<rparr>"

definition sample_config :: Config where
  "sample_config = (default_config ''postgres:///h'')
     \<lparr>cf_watch := (cf_watch (default_config []))\<lparr>wc_mountpoints := [''/d/'', ''/e'']\<rparr>\<rparr>"


end
