(* ===== verification/Converge.thy ===== *)
theory Converge
  imports Pipeline
begin

text \<open>
  Ingestion converges.  Once the files stop changing, ingest jobs may run in any order, fail and
  be tried again as often as they like, on observed and on unknown paths: a path whose job
  has succeeded stays settled on the version of its bytes, because no other promotion touches
  its document.  The one assumption on the filesystem is that no two observed files are hard
  links of each other.
\<close>

section \<open>What a promotion spares\<close>

text \<open>Every document but one, the identity of every content version, every observation.\<close>

definition spares :: "int \<Rightarrow> database \<Rightarrow> database \<Rightarrow> bool" where
  "spares did d d' \<longleftrightarrow> (\<forall>y \<in> set (db_docs d). d_id y \<noteq> did \<longrightarrow> y \<in> set (db_docs d')) \<and>
     (\<forall>c \<in> set (db_cvs d). \<exists>c' \<in> set (db_cvs d'). cv_id c' = cv_id c \<and> cv_content_hash c' = cv_content_hash c) \<and>
     db_obs d' = db_obs d"

lemma spares_refl: "spares did d d"
  by (auto simp: spares_def)

lemma spares_trans: "spares did d d' \<Longrightarrow> spares did d' d'' \<Longrightarrow> spares did d d''"
  unfolding spares_def by (metis (no_types, lifting))

text \<open>The document that stands at the path, with the identity the file was observed with.\<close>

definition located :: "database \<Rightarrow> int \<Rightarrow> string \<Rightarrow> Observation \<Rightarrow> int \<Rightarrow> bool" where
  "located d mp path ob did \<longleftrightarrow> (\<exists>row \<in> set (db_docs d). d_id row = did \<and> doc_at mp path row \<and>
     d_dev row = ob_dev ob \<and> d_ino row = ob_ino ob)"

definition places :: "world \<Rightarrow> int \<Rightarrow> string \<Rightarrow> Observation \<Rightarrow> Document \<Rightarrow> world \<Rightarrow> bool" where
  "places w mp path ob doc w1 \<longleftrightarrow>
     spares (doc_id doc) (w_db w) (w_db w1) \<and> located (w_db w1) mp path ob (doc_id doc)"

lemma adopt_places:
  assumes w: "quiet w" "db_ok (w_db w) (w_seqs w)"
    and x: "x \<in> set (db_docs (w_db w))" "live x" "d_mountpoint_id x = mp"
    and sole: "\<And>y. y \<in> set (db_docs (w_db w)) \<Longrightarrow> doc_at mp path y \<Longrightarrow> d_id y = d_id x"
    and run: "adopt (toDocument x) path ob w = (Inr doc, w1)"
  shows "places w mp path ob doc w1"
proof -
  note adopts = adopt_run [OF w x sole, where ob = ob]
  from adopts(1) run have res: "doc = toDocument x" "w1 = put_docs w (adopted (w_db w) (d_id x) path ob)" by auto
  have "spares (d_id x) (w_db w) (w_db w1)"
    by (auto simp: spares_def res(2) adopted_def set_update_where put_docs_def)
  moreover have "located (w_db w1) mp path ob (d_id x)"
    unfolding located_def res(2)
    by (rule bexI [of _ "relocated path (ob_dev ob) (ob_ino ob) (db_now (w_db w)) x"])
      (use adopts(3) x in \<open>simp_all add: put_docs_def relocated_def doc_at_def live_def\<close>)
  ultimately show ?thesis by (simp add: places_def res(1) toDocument_def)
qed

lemma content_places:
  assumes w: "quiet w" "db_ok (w_db w) (w_seqs w)" and mp: "mp \<in> m_id ` set (db_mountpoints (w_db w))"
    and free: "\<And>y. y \<in> set (db_docs (w_db w)) \<Longrightarrow> \<not> doc_at mp path y"
    and run: "resolveByContent mp path ob digest w = (Inr doc, w1)"
  shows "places w mp path ob doc w1"
proof -
  let ?P = "\<lambda>r. d_mountpoint_id r = mp \<and> has_hash (w_db w) digest r \<and> live r \<and>
    \<not> observed (w_db w) (d_mountpoint_id r) (d_path r)"
  show ?thesis
  proof (cases "first_by d_id ?P (db_docs (w_db w))")
    case None
    note create = CreateDocument_run [OF w mp free, where dev = "ob_dev ob" and ino = "ob_ino ob"]
    from None run create(1) w(1) have "doc = toDocument (new_row w mp path (ob_dev ob) (ob_ino ob))"
      "w1 = with_new_row w mp path (ob_dev ob) (ob_ino ob)"
      by (simp_all add: resolveByContent_def bind_def FindLiveDocumentByContent_run)
    then show ?thesis
      by (auto simp: places_def spares_def located_def with_new_row_def put_docs_def new_row_def fresh_doc_def
          toDocument_def doc_at_def live_def)
  next
    case (Some x)
    from first_by_Some [OF Some] have x: "x \<in> set (db_docs (w_db w))" "live x" "d_mountpoint_id x = mp" by auto
    from Some run w(1) have "adopt (toDocument x) path ob w = (Inr doc, w1)"
      by (simp add: resolveByContent_def bind_def FindLiveDocumentByContent_run)
    from adopt_places [OF w x _ this] free show ?thesis by blast
  qed
qed

lemma resolve_places:
  assumes w: "quiet w" "db_ok (w_db w) (w_seqs w)" and mp: "mp \<in> m_id ` set (db_mountpoints (w_db w))"
    and run: "resolveDocument mp path ob digest w = (Inr doc, w1)"
  shows "places w mp path ob doc w1"
proof (cases "List.find (doc_at mp path) (db_docs (w_db w))")
  case (Some x)
  have x: "x \<in> set (db_docs (w_db w))" "doc_at mp path x" using find_SomeD [OF Some] by auto
  then have x': "live x" "d_mountpoint_id x = mp" by (auto simp: doc_at_def)
  have docs: "docs_ok (w_db w) (w_seqs w)" using w(2) by (simp add: db_ok_def)
  have sole: "d_id y = d_id x" if "y \<in> set (db_docs (w_db w))" "doc_at mp path y" for y
    using live_unique [OF docs Some that] by simp
  show ?thesis
  proof (cases "d_dev x \<noteq> ob_dev ob \<or> d_ino x \<noteq> ob_ino ob")
    case True
    with Some w(1) run have "adopt (toDocument x) path ob w = (Inr doc, w1)"
      by (auto simp: resolveDocument_def bind_def FindLiveDocumentByPath_run toDocument_def)
    from adopt_places [OF w x(1) x' sole this] show ?thesis by simp
  next
    case False
    with Some w(1) run have "doc = toDocument x" "w1 = w"
      by (auto simp: resolveDocument_def bind_def FindLiveDocumentByPath_run toDocument_def ret_def)
    with x False show ?thesis by (auto simp: places_def spares_refl located_def toDocument_def)
  qed
next
  case None
  then have free: "\<not> doc_at mp path y" if "y \<in> set (db_docs (w_db w))" for y
    using that by (simp add: find_None_set)
  let ?x = "if ob_ino ob \<noteq> 0 then first_by d_id
    (\<lambda>r. d_mountpoint_id r = mp \<and> d_dev r = ob_dev ob \<and> d_ino r = ob_ino ob \<and> live r) (db_docs (w_db w)) else None"
  show ?thesis
  proof (cases ?x)
    case no: None
    with None w(1) run have "resolveByContent mp path ob digest w = (Inr doc, w1)"
      by (auto simp: resolveDocument_def bind_def FindLiveDocumentByPath_run FindLiveDocumentByInode_run split: if_splits)
    from content_places [OF w mp free this] show ?thesis by simp
  next
    case (Some x)
    then have ino: "ob_ino ob \<noteq> 0" and fst: "first_by d_id
      (\<lambda>r. d_mountpoint_id r = mp \<and> d_dev r = ob_dev ob \<and> d_ino r = ob_ino ob \<and> live r) (db_docs (w_db w)) = Some x"
      by (auto split: if_splits)
    from first_by_Some [OF fst] have x: "x \<in> set (db_docs (w_db w))" "live x" "d_mountpoint_id x = mp" by auto
    from None fst ino w(1) run have "adopt (toDocument x) path ob w = (Inr doc, w1)"
      by (simp add: resolveDocument_def bind_def FindLiveDocumentByPath_run FindLiveDocumentByInode_run)
    from adopt_places [OF w x _ this] free show ?thesis by blast
  qed
qed

text \<open>Recording a version keeps the others, and its own identifier.\<close>

lemma upsert_version_spares:
  assumes w: "quiet w" "db_ok (w_db w) (w_seqs w)"
    and run: "tx_UpsertContentVersion digest n w = (Inr v, w1)"
  shows "spares did (w_db w) (w_db w1) \<and> db_docs (w_db w1) = db_docs (w_db w)"
proof (cases "List.find (\<lambda>c. cv_content_hash c = digest) (db_cvs (w_db w))")
  case None
  with w(1) run show ?thesis
    by (auto simp: tx_UpsertContentVersion_def bind_def stmt_quiet exec_sql_def ret_def q_UpsertContentVersion_def
        Let_def spares_def)
next
  case (Some c)
  from find_SomeD [OF Some] have c: "c \<in> set (db_cvs (w_db w))" "cv_content_hash c = digest" by auto
  have "distinct (map cv_content_hash (db_cvs (w_db w)))" using w(2) by (simp add: db_ok_def cvs_ok_def)
  then have only: "x = c" if "x \<in> set (db_cvs (w_db w))" "cv_content_hash x = digest" for x
    using distinct_map_inj that c by metis
  have rows: "w_db w1 = (w_db w)\<lparr>db_cvs := upsert_by cv_content_hash (c\<lparr>cv_size_bytes := n\<rparr>) (db_cvs (w_db w))\<rparr>"
    using w(1) run Some
    by (auto simp: tx_UpsertContentVersion_def bind_def stmt_quiet exec_sql_def ret_def q_UpsertContentVersion_def Let_def)
  have "\<exists>c' \<in> set (upsert_by cv_content_hash (c\<lparr>cv_size_bytes := n\<rparr>) (db_cvs (w_db w))).
      cv_id c' = cv_id x \<and> cv_content_hash c' = cv_content_hash x" if "x \<in> set (db_cvs (w_db w))" for x
    using only [OF that] that c by (cases "cv_content_hash x = digest") (auto simp: set_upsert_by)
  then show ?thesis by (simp add: spares_def rows)
qed

lemma flipped_spares:
  assumes "w_db w1 = (w_db w)\<lparr>db_docs := flipped_docs (w_db w) did v, db_extracted := e, db_outbox := js\<rparr>"
  shows "spares did (w_db w) (w_db w1)"
    and "located (w_db w) mp path ob did \<Longrightarrow> located (w_db w1) mp path ob did"
proof -
  show "spares did (w_db w) (w_db w1)"
    by (force simp: spares_def assms flipped_docs_def)
  assume "located (w_db w) mp path ob did"
  then obtain row where row: "row \<in> set (db_docs (w_db w))" "d_id row = did" "doc_at mp path row"
    "d_dev row = ob_dev ob" "d_ino row = ob_ino ob" by (auto simp: located_def)
  let ?row = "with_version (Some v) (db_now (w_db w)) row"
  have "?row \<in> set (db_docs (w_db w1))" using row(1,2) by (force simp: assms flipped_docs_def)
  moreover have "d_id ?row = did" "doc_at mp path ?row" "d_dev ?row = ob_dev ob" "d_ino ?row = ob_ino ob"
    using row by (simp_all add: with_version_def doc_at_def live_def)
  ultimately show "located (w_db w1) mp path ob did" unfolding located_def by blast
qed

lemma promote_body_places:
  assumes w: "quiet w" "db_ok (w_db w) (w_seqs w)" and bound: "eq_bound (pr_enqueuer p)"
    and mp: "mp \<in> m_id ` set (db_mountpoints (w_db w))"
    and obs: "List.find (\<lambda>r. obs_key r = (mp, path)) (db_obs (w_db w)) = Some o'"
    and fresh: "\<not> o_is_dir o'" "sameFile seen (to_observation o')"
    and run: "promote_body p mp path seen digest n w = (Inr (), w')"
  defines "did \<equiv> identity_of (w_db w) (w_seqs w) mp path (to_observation o') digest"
  shows "spares did (w_db w) (w_db w') \<and> located (w_db w') mp path (to_observation o') did"
proof -
  let ?ob = "to_observation o'"
  from resolveDocument_resolves [OF w mp, of path ?ob digest] obtain doc w1 where
    res: "resolveDocument mp path ?ob digest w = (Inr doc, w1)" and R: "resolves w mp path did doc w1"
    unfolding did_def by blast
  from R have w1: "quiet w1" "db_ok (w_db w1) (w_seqs w1)" "doc_id doc = did" by (auto simp: resolves_def)
  from R obtain row where row: "row \<in> set (db_docs (w_db w1))" "d_id row = doc_id doc" "derefID (d_current_cv row) = doc_cv doc"
    by (auto simp: resolves_def)
  from resolve_places [OF w mp res] w1(3)
  have one: "spares did (w_db w) (w_db w1)" "located (w_db w1) mp path ?ob did" by (simp_all add: places_def)
  from UpsertContentVersion_run [OF w1(1,2), of digest n] obtain v rows w2 where
    up: "tx_UpsertContentVersion digest n w1 = (Inr v, w2)" and
    w2: "w2 = w1\<lparr>w_db := (w_db w1)\<lparr>db_cvs := rows\<rparr>, w_seqs := (w_seqs w1)\<lparr>sq_cv := sq_cv (w_seqs w1) + 1\<rparr>\<rparr>"
      "db_ok (w_db w2) (w_seqs w2)" and v: "v \<in> cv_id ` set (db_cvs (w_db w2))" by force
  from upsert_version_spares [OF w1(1,2) up, of did] spares_trans [OF one(1)]
  have two: "spares did (w_db w) (w_db w2)" "db_docs (w_db w2) = db_docs (w_db w1)" by blast+
  then have at: "located (w_db w2) mp path ?ob did" using one(2) by (simp add: located_def)
  have q2: "quiet w2" using w1(1) w2(1) by simp
  have body: "(if doc_cv doc = v then ret () else flip p doc v) w2 = (Inr (), w')"
    using run w(1) obs fresh by (simp add: promote_body_def bind_def GetObservation_run res up)
  show ?thesis
  proof (cases "doc_cv doc = v")
    case True
    with body two at show ?thesis by (simp add: ret_def)
  next
    case False
    have "row \<in> set (db_docs (w_db w2))" using row(1) two(2) by simp
    from flip_run [OF q2 w2(2) bound this row(2,3) v] body False
    have "w_db w' = (w_db w2)\<lparr>db_docs := flipped_docs (w_db w2) did v, db_extracted := pending_rows (w_db w2) v,
        db_outbox := db_outbox (w_db w2) @ flip_jobs did (doc_cv doc) v\<rparr>" by (auto simp: w1(3))
    from flipped_spares [OF this] at spares_trans [OF two(1)] show ?thesis by blast
  qed
qed

section \<open>One job\<close>

text \<open>What the job of a path reads: a file that becomes a document.\<close>

definition ingestible :: "Processor \<Rightarrow> (string \<Rightarrow> opened) \<Rightarrow> database \<Rightarrow> int \<Rightarrow> string \<Rightarrow> read_step list \<Rightarrow> bool" where
  "ingestible p opener d mp path rs \<longleftrightarrow>
     (case List.find (\<lambda>r. obs_key r = (mp, path)) (db_obs d) of
        None \<Rightarrow> False
      | Some o' \<Rightarrow> \<not> o_is_dir o' \<and> AllowPath (pr_filter p) path \<and> opener path = Opened rs \<and> reads_through rs \<and>
          snd (ContentType (pr_sniff p) (pr_filter p) path (take 512 (read_bytes rs))))"

lemma confined_GetObservation: "confined (tx_GetObservation mp path)"
  by (intro keeps_intros)

text \<open>In a quiet world: nothing happens, or the file of the path is promoted.\<close>

definition promotes :: "Processor \<Rightarrow> (string \<Rightarrow> opened) \<Rightarrow> int \<Rightarrow> string \<Rightarrow> database \<Rightarrow> seqs \<Rightarrow> database \<Rightarrow> bool" where
  "promotes p opener mp path d q d' \<longleftrightarrow> (\<exists>o' digest n head.
     List.find (\<lambda>r. obs_key r = (mp, path)) (db_obs d) = Some o' \<and> \<not> o_is_dir o' \<and>
     hash_file (pr_sha256 p) (opener path) = Inr (digest, n, head) \<and>
     promoted d q mp path (to_observation o') digest n d' \<and>
     spares (identity_of d q mp path (to_observation o') digest) d d' \<and>
     located d' mp path (to_observation o') (identity_of d q mp path (to_observation o') digest))"

definition quiet_effect :: "Processor \<Rightarrow> (string \<Rightarrow> opened) \<Rightarrow> int \<Rightarrow> string \<Rightarrow> database \<Rightarrow> seqs \<Rightarrow> database \<Rightarrow> bool" where
  "quiet_effect p opener mp path d q d' \<longleftrightarrow>
     d' = d \<and> (\<forall>rs. \<not> ingestible p opener d mp path rs) \<or> promotes p opener mp path d q d'"

lemma hash_of_ingestible:
  "ingestible p opener d mp path rs \<Longrightarrow> hash_file (pr_sha256 p) (opener path) =
     Inr (hex_encode (pr_sha256 p (read_bytes rs)), int (length (read_bytes rs)), take 512 (read_bytes rs))"
  using hash_loop_reads [of rs "[]" 0]
  by (auto simp: ingestible_def hash_file_def SniffLen_def split: option.splits)

lemma ProcessPath_quiet:
  assumes w: "quiet w" "db_ok (w_db w) (w_seqs w)" and bound: "eq_bound (pr_enqueuer p)"
    and run: "ProcessPath p opener mp path w = (Inr (), w')"
  shows "quiet_effect p opener mp path (w_db w) (w_seqs w) (w_db w')"
proof -
  let ?b = "w\<lparr>w_base := w_db w\<rparr>"
  have b: "quiet ?b" using w(1) by simp
  let ?found = "List.find (\<lambda>r. obs_key r = (mp, path)) (db_obs (w_db w))"
  have read: "InTx (tx_GetObservation mp path) w = (Inr (map_option to_observation ?found), ?b)"
    using InTx_quiet_commit [where fn = "tx_GetObservation mp path", OF w(1) GetObservation_run [OF b] b] by simp
  note step = bind_run [where m = "InTx (tx_GetObservation mp path)", OF read]
  show ?thesis
  proof (cases "\<exists>o' digest n head. ?found = Some o' \<and> \<not> o_is_dir o' \<and> AllowPath (pr_filter p) path \<and>
      hash_file (pr_sha256 p) (opener path) = Inr (digest, n, head) \<and>
      snd (ContentType (pr_sniff p) (pr_filter p) path head)")
    case True
    then obtain o' digest n head where o': "?found = Some o'" "\<not> o_is_dir o'" "AllowPath (pr_filter p) path"
      "hash_file (pr_sha256 p) (opener path) = Inr (digest, n, head)"
      "snd (ContentType (pr_sniff p) (pr_filter p) path head)" by blast
    have "obs_key o' = (mp, path)" "o' \<in> set (db_obs (w_db w))" using find_SomeD [OF o'(1)] by auto
    then have mp: "mp \<in> m_id ` set (db_mountpoints (w_db w))"
      using w(2) by (auto simp: db_ok_def obs_ok_def obs_key_def)
    from ProcessPath_run [where opener = opener, OF w bound mp o'] obtain w1 where
      w1: "promote_body p mp path (to_observation o') digest n ?b = (Inr (), w1)" "w_db w' = w_db w1"
        "promoted (w_db w) (w_seqs w) mp path (to_observation o') digest n (w_db w1)"
      using run by auto
    have same: "sameFile (to_observation o') (to_observation o')" by (simp add: sameFile_def)
    from promote_body_places [OF b _ bound _ _ o'(2) same w1(1)] o' w1(2,3) w(2) mp show ?thesis
      unfolding quiet_effect_def promotes_def by auto
  next
    case False
    then have "w_db w' = w_db w"
      using run by (auto simp: ProcessPath_def step ret_def fail_def split: option.splits sum.splits prod.splits if_splits)
    moreover have "\<not> ingestible p opener (w_db w) mp path rs" for rs
      using False hash_of_ingestible [of p opener "w_db w" mp path rs] by (auto simp: ingestible_def split: option.splits)
    ultimately show ?thesis by (simp add: quiet_effect_def)
  qed
qed

text \<open>A job that fails has changed nothing.\<close>

lemma promote_undone:
  assumes "promote p mp path seen digest n w = (r, w')" "r \<noteq> Inr True" "calm w"
  shows "w_db w' = w_db w \<and> calm w'"
proof -
  obtain r1 w1 where tx: "InTx (promote_body p mp path seen digest n) w = (r1, w1)" by fastforce
  with assms(1,2) obtain e where e: "r1 = Inl e" "w1 = w'"
    by (auto simp: promote_def settled_def bind_def try_m_def ret_def fail_def split: sum.splits if_splits)
  from InTx_rollback [OF confined_promote_body] tx e obtain s where "w_script w = s @ w_script w'" by blast
  with assms(3) have "calm w'" by (auto simp: calm_def)
  with InTx_rollback_calm [OF confined_promote_body _ assms(3)] tx e show ?thesis by simp
qed

lemma promote_loop_undone:
  "promote_loop k (promote p mp path seen digest n) w = (Inl e, w') \<Longrightarrow> calm w \<Longrightarrow> w_db w' = w_db w"
proof (induction k arbitrary: w)
  case (Suc k)
  obtain r w1 where a: "promote p mp path seen digest n w = (r, w1)" by fastforce
  from Suc.prems(1) a have r: "r \<noteq> Inr True" by (auto simp: bind_def ret_def)
  note undone = promote_undone [OF a r Suc.prems(2)]
  show ?case
  proof (cases r)
    case (Inl e')
    with Suc.prems(1) a undone show ?thesis by (simp add: bind_def)
  next
    case (Inr b)
    with r Suc.prems(1) a have "promote_loop k (promote p mp path seen digest n) w1 = (Inl e, w')" by (simp add: bind_def)
    from Suc.IH [OF this] undone show ?thesis by simp
  qed
qed (simp add: fail_def)

lemma ProcessPath_undone:
  assumes run: "ProcessPath p opener mp path w = (Inl e, w')" and calm: "calm w"
  shows "w_db w' = w_db w"
proof -
  obtain r w1 where tx: "InTx (tx_GetObservation mp path) w = (r, w1)" by fastforce
  show ?thesis
  proof (cases r)
    case (Inl e')
    with run tx have "w1 = w'" by (simp add: ProcessPath_def bind_def)
    with InTx_rollback_calm [OF confined_GetObservation _ calm] tx Inl show ?thesis by simp
  next
    case (Inr found)
    let ?q = "w\<lparr>w_script := []\<rparr>"
    have q: "quiet (?q\<lparr>w_base := w_db ?q\<rparr>)" "quiet ?q" by simp_all
    have fn: "faithful (InTx (tx_GetObservation mp path))" by (intro keeps_intros)
    from undisturbed [OF fn calm tx _ InTx_quiet_commit [where fn = "tx_GetObservation mp path", OF q(2) GetObservation_run [OF q(1)] q(1)]] Inr
    have w1: "w_db w1 = w_db w" "calm w1" by auto
    from run tx Inr have "w' = w1 \<or> (\<exists>ob digest n. promote_loop promoteAttempts (promote p mp path ob digest n) w1 = (Inl e, w'))"
      by (auto simp: ProcessPath_def bind_def ret_def fail_def split: option.splits if_splits sum.splits prod.splits)
    with promote_loop_undone w1 show ?thesis by metis
  qed
qed

section \<open>Any order, any number of attempts\<close>

text \<open>
  Jobs at work: the paths whose job has succeeded at least once, and the world.  Each attempt
  runs under faults of its own; one that is not done is tried again or abandoned.
\<close>

inductive ingest_step :: "Processor \<Rightarrow> (string \<Rightarrow> opened) \<Rightarrow> (int \<times> string) set \<times> world \<Rightarrow>
    (int \<times> string) set \<times> world \<Rightarrow> bool" for p opener where
  attempt: "IngestPath_Work p opener mp path w = (r, w1) \<Longrightarrow> resumes w1 v \<Longrightarrow>
    ingest_step p opener (ready, w) (if r = JobDone then insert (mp, path) ready else ready, v)"

inductive_cases ingest_stepE: "ingest_step p opener s s'"

text \<open>No two observed files are links of each other, as far as their inodes tell.\<close>

definition no_links :: "database \<Rightarrow> bool" where
  "no_links d \<longleftrightarrow> (\<forall>a \<in> set (db_obs d). \<forall>b \<in> set (db_obs d).
     \<not> o_is_dir a \<and> \<not> o_is_dir b \<and> o_mountpoint_id a = o_mountpoint_id b \<and> o_dev a = o_dev b \<and>
     o_ino a = o_ino b \<and> o_ino a \<noteq> 0 \<longrightarrow> o_path a = o_path b)"

text \<open>The one live document at a path, with the identity of the file and the version of its bytes.\<close>

definition settled_at :: "database \<Rightarrow> int \<Rightarrow> string \<Rightarrow> string \<Rightarrow> bool" where
  "settled_at d mp path digest \<longleftrightarrow> (\<exists>x \<in> set (db_docs d). \<exists>c \<in> set (db_cvs d). \<exists>o' \<in> set (db_obs d).
     doc_at mp path x \<and> d_current_cv x = Some (cv_id c) \<and> cv_content_hash c = digest \<and>
     obs_key o' = (mp, path) \<and> \<not> o_is_dir o' \<and> d_dev x = o_dev o' \<and> d_ino x = o_ino o')"

lemma promotes_settles:
  assumes "promotes p opener mp path d q d'" "db_ok d' q'"
    and "hash_file (pr_sha256 p) (opener path) = Inr (digest, n, head)"
  shows "settled_at d' mp path digest"
proof -
  from assms(1,3) obtain o' where o': "List.find (\<lambda>r. obs_key r = (mp, path)) (db_obs d) = Some o'" "\<not> o_is_dir o'"
    and P: "promoted d q mp path (to_observation o') digest n d'"
    and S: "spares (identity_of d q mp path (to_observation o') digest) d d'"
    and L: "located d' mp path (to_observation o') (identity_of d q mp path (to_observation o') digest)"
    by (auto simp: promotes_def)
  from P obtain x c v where x: "x \<in> set (db_docs d')" "d_id x = identity_of d q mp path (to_observation o') digest"
      "doc_at mp path x" "d_current_cv x = Some v"
    and c: "c \<in> set (db_cvs d')" "cv_id c = v" "cv_content_hash c = digest"
    unfolding promoted_def Let_def by blast
  from L obtain y where y: "y \<in> set (db_docs d')" "d_id y = d_id x" "d_dev y = o_dev o'" "d_ino y = o_ino o'"
    using x(2) by (auto simp: located_def to_observation_def)
  have "distinct (map d_id (db_docs d'))" using assms(2) by (simp add: db_ok_def docs_ok_def ids_ok_def)
  from distinct_map_inj [OF this y(1) x(1) y(2)] have "y = x" .
  moreover have "o' \<in> set (db_obs d')" "obs_key o' = (mp, path)"
    using find_SomeD [OF o'(1)] S by (auto simp: spares_def)
  ultimately show ?thesis unfolding settled_at_def using x c y o'(2) by blast
qed

text \<open>The four ways a path gets its document.\<close>

lemma identity_cases:
  obtains (stands) y where "y \<in> set (db_docs d)" "doc_at mp path y" "identity_of d q mp path ob digest = d_id y"
  | (inode) y where "y \<in> set (db_docs d)" "d_mountpoint_id y = mp" "d_dev y = ob_dev ob" "d_ino y = ob_ino ob"
      "ob_ino ob \<noteq> 0" "identity_of d q mp path ob digest = d_id y"
  | (content) y where "y \<in> set (db_docs d)" "\<not> observed d (d_mountpoint_id y) (d_path y)"
      "identity_of d q mp path ob digest = d_id y"
  | (new) "identity_of d q mp path ob digest = sq_doc q + 1"
proof (cases "List.find (doc_at mp path) (db_docs d)")
  case (Some y)
  with find_SomeD [OF Some] show ?thesis by (intro that(1) [of y]) (simp_all add: identity_of_def)
next
  case path: None
  let ?ino = "first_by d_id (\<lambda>r. d_mountpoint_id r = mp \<and> d_dev r = ob_dev ob \<and> d_ino r = ob_ino ob \<and> live r) (db_docs d)"
  let ?content = "first_by d_id (\<lambda>r. d_mountpoint_id r = mp \<and> has_hash d digest r \<and> live r \<and>
    \<not> observed d (d_mountpoint_id r) (d_path r)) (db_docs d)"
  show ?thesis
  proof (cases "if ob_ino ob \<noteq> 0 then ?ino else None")
    case (Some y)
    then have ino: "ob_ino ob \<noteq> 0" "?ino = Some y" by (auto split: if_splits)
    from first_by_Some [OF ino(2)] ino path show ?thesis by (intro that(2) [of y]) (simp_all add: identity_of_def)
  next
    case ino: None
    show ?thesis
    proof (cases ?content)
      case (Some y)
      from first_by_Some [OF Some] have "y \<in> set (db_docs d)" "\<not> observed d (d_mountpoint_id y) (d_path y)" by auto
      moreover have "identity_of d q mp path ob digest = d_id y"
        using Some ino path by (simp only: identity_of_def option.case)
      ultimately show ?thesis by (rule that(3))
    next
      case None
      with ino path show ?thesis by (intro that(4)) (simp only: identity_of_def option.case)
    qed
  qed
qed

text \<open>Another path's promotion never takes the document of a settled path.\<close>

lemma settled_identity:
  assumes ok: "db_ok d q" and links: "no_links d"
    and x: "x \<in> set (db_docs d)" "doc_at mp path x" "d_dev x = o_dev a" "d_ino x = o_ino a"
    and a: "a \<in> set (db_obs d)" "obs_key a = (mp, path)" "\<not> o_is_dir a"
    and o': "o' \<in> set (db_obs d)" "obs_key o' = (mp', path')" "\<not> o_is_dir o'" "(mp', path') \<noteq> (mp, path)"
  shows "identity_of d q mp' path' (to_observation o') digest \<noteq> d_id x"
proof -
  have ids: "distinct (map d_id (db_docs d))" "d_id x < sq_doc q + 1"
    using ok x(1) by (auto simp: db_ok_def docs_ok_def ids_ok_def)
  have other: "d_id y \<noteq> d_id x" if "y \<in> set (db_docs d)" "y \<noteq> x" for y
    using distinct_map_inj [OF ids(1) that(1) x(1)] that(2) by blast
  have at: "d_mountpoint_id x = mp" "d_path x = path" using x(2) by (auto simp: doc_at_def)
  have keys: "o_mountpoint_id a = mp" "o_path a = path" "o_mountpoint_id o' = mp'" "o_path o' = path'"
    using a(2) o'(2) by (auto simp: obs_key_def)
  show ?thesis
  proof (rule identity_cases [of d mp' path' q "to_observation o'" digest])
    fix y assume y: "y \<in> set (db_docs d)" "doc_at mp' path' y"
      "identity_of d q mp' path' (to_observation o') digest = d_id y"
    have "y \<noteq> x" using y(2) at o'(4) by (auto simp: doc_at_def)
    with other [OF y(1)] y(3) show ?thesis by simp
  next
    fix y assume y: "y \<in> set (db_docs d)" "d_mountpoint_id y = mp'" "d_dev y = ob_dev (to_observation o')"
      "d_ino y = ob_ino (to_observation o')" "ob_ino (to_observation o') \<noteq> 0"
      "identity_of d q mp' path' (to_observation o') digest = d_id y"
    have "y \<noteq> x"
    proof
      assume "y = x"
      with y(2-5) x(3,4) at have "mp' = mp" "o_dev a = o_dev o'" "o_ino a = o_ino o'" "o_ino a \<noteq> 0"
        by (simp_all add: to_observation_def)
      with links a(1,3) o'(1,3) keys have "path = path'" unfolding no_links_def by metis
      with \<open>mp' = mp\<close> o'(4) show False by simp
    qed
    with other [OF y(1)] y(6) show ?thesis by simp
  next
    fix y assume y: "y \<in> set (db_docs d)" "\<not> observed d (d_mountpoint_id y) (d_path y)"
      "identity_of d q mp' path' (to_observation o') digest = d_id y"
    have "observed d mp path" using a(1,2) by (force simp: observed_def)
    with y(2) at have "y \<noteq> x" by auto
    with other [OF y(1)] y(3) show ?thesis by simp
  next
    assume "identity_of d q mp' path' (to_observation o') digest = sq_doc q + 1"
    with ids(2) show ?thesis by simp
  qed
qed

lemma settled_spared:
  assumes ok: "db_ok d q" and links: "no_links d" and settled: "settled_at d mp path digest"
    and P: "promotes p opener mp' path' d q d'" and other: "(mp', path') \<noteq> (mp, path)"
  shows "settled_at d' mp path digest"
proof -
  from settled obtain x c a where x: "x \<in> set (db_docs d)" "doc_at mp path x" "d_current_cv x = Some (cv_id c)"
      "d_dev x = o_dev a" "d_ino x = o_ino a"
    and c: "c \<in> set (db_cvs d)" "cv_content_hash c = digest"
    and a: "a \<in> set (db_obs d)" "obs_key a = (mp, path)" "\<not> o_is_dir a" by (auto simp: settled_at_def)
  from P obtain o' digest' where o': "List.find (\<lambda>r. obs_key r = (mp', path')) (db_obs d) = Some o'" "\<not> o_is_dir o'"
    and S: "spares (identity_of d q mp' path' (to_observation o') digest') d d'" by (auto simp: promotes_def)
  from find_SomeD [OF o'(1)] have "o' \<in> set (db_obs d)" "obs_key o' = (mp', path')" by auto
  from settled_identity [OF ok links x(1,2,4,5) a this o'(2) other, of digest'] S x(1)
  have "x \<in> set (db_docs d')" by (auto simp: spares_def)
  moreover from S c obtain c' where "c' \<in> set (db_cvs d')" "cv_id c' = cv_id c" "cv_content_hash c' = digest"
    by (auto simp: spares_def)
  moreover have "a \<in> set (db_obs d')" using S a(1) by (simp add: spares_def)
  ultimately show ?thesis unfolding settled_at_def using x a by metis
qed

section \<open>Convergence\<close>

lemma ingestible_obs: "db_obs d' = db_obs d \<Longrightarrow> ingestible p opener d' mp path rs = ingestible p opener d mp path rs"
  by (simp add: ingestible_def)

definition all_settled :: "Processor \<Rightarrow> (string \<Rightarrow> opened) \<Rightarrow> (int \<times> string) set \<Rightarrow> database \<Rightarrow> bool" where
  "all_settled p opener ready d \<longleftrightarrow> (\<forall>mp path rs. (mp, path) \<in> ready \<longrightarrow> ingestible p opener d mp path rs \<longrightarrow>
     settled_at d mp path (hex_encode (pr_sha256 p (read_bytes rs))))"

lemma effect_settles:
  assumes "db_ok d q" "db_ok d' q'" "no_links d" "all_settled p opener ready d" "quiet_effect p opener mp path d q d'"
  shows "db_obs d' = db_obs d \<and> all_settled p opener (insert (mp, path) ready) d'"
proof (cases "promotes p opener mp path d q d'")
  case True
  then have obs: "db_obs d' = db_obs d" by (auto simp: promotes_def spares_def)
  have "settled_at d' m f (hex_encode (pr_sha256 p (read_bytes rs)))"
    if ready: "(m, f) \<in> insert (mp, path) ready" and readable: "ingestible p opener d' m f rs" for m f rs
  proof (cases "(m, f) = (mp, path)")
    case same: True
    from hash_of_ingestible [OF readable] same promotes_settles [OF True assms(2)] show ?thesis by auto
  next
    case False
    with ready readable assms(4) have "settled_at d m f (hex_encode (pr_sha256 p (read_bytes rs)))"
      by (auto simp: all_settled_def ingestible_obs [OF obs])
    from settled_spared [OF assms(1,3) this True] False show ?thesis by auto
  qed
  with obs show ?thesis by (simp add: all_settled_def)
next
  case False
  with assms(5) have "d' = d" "\<And>rs. \<not> ingestible p opener d mp path rs" by (auto simp: quiet_effect_def)
  with assms(4) show ?thesis by (auto simp: all_settled_def)
qed

text \<open>One attempt, whatever becomes of it.\<close>

lemma attempt_effect:
  assumes state: "at_state w d q" "db_ok d q" and bound: "eq_bound (pr_enqueuer p)" "no_links d"
    and all: "all_settled p opener ready d"
    and run: "IngestPath_Work p opener mp path w = (r, w1)" "resumes w1 v"
  shows "at_state v (w_db w1) (w_seqs w1) \<and> db_ok (w_db w1) (w_seqs w1) \<and> db_obs (w_db w1) = db_obs d \<and>
    all_settled p opener (if r = JobDone then insert (mp, path) ready else ready) (w_db w1)"
proof -
  have w: "calm w" "w_db w = d" "w_seqs w = q" using state(1) by (simp_all add: at_state_def)
  obtain res where process: "ProcessPath p opener mp path w = (res, w1)" and r: "r = JobDone \<longleftrightarrow> res = Inr ()"
    using run(1) by (auto simp: IngestPath_Work_def retried_def split: prod.splits sum.splits)
  have "holds_from db_ok (sq_epoch q) w" using at_state_holds [OF state] w by (simp add: holds_from_def)
  from keepsD [OF schema.keeps_ProcessPath process this] have ok: "db_ok (w_db w1) (w_seqs w1)"
    by (simp add: holds_from_def holds_def)
  have next_state: "at_state v (w_db w1) (w_seqs w1)" using run(2) by (simp add: resumes_def)
  show ?thesis
  proof (cases res)
    case (Inl e)
    from ProcessPath_undone [OF process [unfolded Inl] w(1)] have "w_db w1 = d" by (simp add: w(2))
    with next_state ok all r Inl show ?thesis by simp
  next
    case (Inr u)
    let ?q = "w\<lparr>w_script := []\<rparr>"
    obtain res0 w0 where quiet_run: "ProcessPath p opener mp path ?q = (res0, w0)" by fastforce
    from undisturbed [OF faithful_ProcessPath w(1) process _ quiet_run] Inr
    have same: "res0 = Inr ()" "w_db w1 = w_db w0" by auto
    from ProcessPath_quiet [of ?q p opener mp path w0] quiet_run same state(2) bound(1) w
    have "quiet_effect p opener mp path d q (w_db w1)" by simp
    from effect_settles [OF state(2) ok bound(2) all this] next_state ok r Inr show ?thesis by simp
  qed
qed

lemma ingest_reachable:
  assumes "(ingest_step p opener)\<^sup>*\<^sup>* (R, w) s" "at_state w d q" "db_ok d q" "eq_bound (pr_enqueuer p)" "no_links d"
    and "all_settled p opener R d"
  shows "\<exists>d' q'. at_state (snd s) d' q' \<and> db_ok d' q' \<and> db_obs d' = db_obs d \<and> all_settled p opener (fst s) d'"
  using assms(1)
proof (induction rule: rtranclp_induct)
  case base
  with assms(2,3,6) show ?case by auto
next
  case (step s s')
  from step.IH obtain d' q' where IH: "at_state (snd s) d' q'" "db_ok d' q'" "db_obs d' = db_obs d"
    "all_settled p opener (fst s) d'" by blast
  have links: "no_links d'" using assms(5) unfolding no_links_def IH(3) .
  from step(2) show ?case
  proof (rule ingest_stepE)
    fix mp path r w1 v ready and u :: world
    assume s: "s = (ready, u)" "s' = (if r = JobDone then insert (mp, path) ready else ready, v)"
      and run: "IngestPath_Work p opener mp path u = (r, w1)" "resumes w1 v"
    have "at_state u d' q'" "all_settled p opener ready d'" using IH(1,4) s(1) by simp_all
    from attempt_effect [OF this(1) IH(2) assms(4) links this(2) run] IH(3) s(2)
    show ?case by (intro exI [of _ "w_db w1"] exI [of _ "w_seqs w1"]) simp
  qed
qed

text \<open>
  C12: Ingestion converges.  From a database that meets its constraints and observes no two links
  of one file, let ingest jobs run in any order and any number, on whatever paths, each under
  faults of its own, each failure tried again or not.  At any moment, every observed file whose
  job has succeeded, and that can be read and is of an included type, has its live document
  on the version with the digest of its bytes; no job that ran in between took it
  away.  And a file whose job has not yet succeeded only waits for an attempt without a fault.
\<close>

theorem ingestion_converges:
  assumes "at_state w d q" "db_ok d q" "eq_bound (pr_enqueuer p)" "no_links d"
    and "(ingest_step p opener)\<^sup>*\<^sup>* ({}, w) (ready, w')"
    and "ingestible p opener d mp path rs"
  shows "((mp, path) \<in> ready \<longrightarrow> settled_at (w_db w') mp path (hex_encode (pr_sha256 p (read_bytes rs)))) \<and>
    fst (IngestPath_Work p opener mp path (w'\<lparr>w_script := []\<rparr>)) = JobDone \<and> db_obs (w_db w') = db_obs d"
proof -
  have "all_settled p opener {} d" by (simp add: all_settled_def)
  from ingest_reachable [OF assms(5,1-4) this] obtain d' q' where d': "at_state w' d' q'" "db_ok d' q'"
    "db_obs d' = db_obs d" "all_settled p opener ready d'" by auto
  have readable: "ingestible p opener d' mp path rs" using assms(6) by (simp add: ingestible_obs [OF d'(3)])
  have w': "w_db w' = d'" "w_seqs w' = q'" using d'(1) by (simp_all add: at_state_def)
  from readable obtain o' where o': "List.find (\<lambda>r. obs_key r = (mp, path)) (db_obs d') = Some o'" "\<not> o_is_dir o'"
    "AllowPath (pr_filter p) path" "snd (ContentType (pr_sniff p) (pr_filter p) path (take 512 (read_bytes rs)))"
    by (auto simp: ingestible_def split: option.splits)
  from find_SomeD [OF o'(1)] d'(2) have "mp \<in> m_id ` set (db_mountpoints d')"
    by (auto simp: db_ok_def obs_ok_def obs_key_def)
  with ProcessPath_run [of "w'\<lparr>w_script := []\<rparr>" p mp path o' opener, OF _ _ assms(3) _ _ o'(2,3) hash_of_ingestible [OF readable] o'(4)]
    d'(2) o'(1) w'
  have "fst (IngestPath_Work p opener mp path (w'\<lparr>w_script := []\<rparr>)) = JobDone"
    by (auto simp: IngestPath_Work_def retried_def)
  with d'(3,4) readable w' show ?thesis by (auto simp: all_settled_def)
qed

text \<open>The job of \<open>a.pdf\<close> loses its connection and is tried again; then the job of \<open>b.pdf\<close> runs.\<close>

definition sample_opener :: "string \<Rightarrow> opened" where
  "sample_opener = sample_bytes ''zz''"

definition sample_attempt :: "string \<Rightarrow> world \<Rightarrow> job_result \<times> world" where
  "sample_attempt path w = IngestPath_Work sample_proc sample_opener 1 path w"

definition rested :: "world \<Rightarrow> world" where
  "rested w = w\<lparr>w_script := [], w_base := w_db w\<rparr>"

lemma rested_resumes [simp]: "resumes w (rested w)"
  by (simp add: resumes_def rested_def at_state_def calm_def)

definition attempts_made :: "world list" where
  "attempts_made =
     (let w1 = rested (snd (sample_attempt ''/d/a.pdf'' (sample_world [Run, Run, Fault])));
          w2 = rested (snd (sample_attempt ''/d/a.pdf'' w1))
      in [w1, w2, rested (snd (sample_attempt ''/d/s/b.pdf'' w2))])"

lemma sample_step:
  assumes "fst (sample_attempt path w) = r"
  shows "ingest_step sample_proc sample_opener (ready, w)
    (if r = JobDone then insert (1, path) ready else ready, rested (snd (sample_attempt path w)))"
proof -
  obtain w1 where run: "IngestPath_Work sample_proc sample_opener 1 path w = (r, w1)"
    using assms by (cases "IngestPath_Work sample_proc sample_opener 1 path w") (simp add: sample_attempt_def)
  from ingest_step.attempt [OF run rested_resumes, of ready] show ?thesis
    by (simp add: sample_attempt_def run)
qed

lemma ingestion_converges_witness:
  "fst (sample_attempt ''/d/a.pdf'' (sample_world [Run, Run, Fault])) = JobRetry ErrConn \<and>
   settled_at (w_db (attempts_made ! 2)) 1 ''/d/a.pdf'' (hex_encode ''zz'')"
proof -
  let ?w0 = "sample_world [Run, Run, Fault]"
  let ?w1 = "rested (snd (sample_attempt ''/d/a.pdf'' ?w0))"
  let ?w2 = "rested (snd (sample_attempt ''/d/a.pdf'' ?w1))"
  let ?w3 = "rested (snd (sample_attempt ''/d/s/b.pdf'' ?w2))"
  have lost: "fst (sample_attempt ''/d/a.pdf'' ?w0) = JobRetry ErrConn"
    and again: "fst (sample_attempt ''/d/a.pdf'' ?w1) = JobDone"
    and other: "fst (sample_attempt ''/d/s/b.pdf'' ?w2) = JobDone" by code_simp+
  have run: "(ingest_step sample_proc sample_opener)\<^sup>*\<^sup>* ({}, ?w0) ({(1, ''/d/s/b.pdf''), (1, ''/d/a.pdf'')}, ?w3)"
    using sample_step [OF lost, of "{}"] sample_step [OF again, of "{}"] sample_step [OF other, of "{(1, ''/d/a.pdf'')}"]
    by (auto intro: rtranclp.rtrancl_into_rtrancl)
  have state: "at_state ?w0 sample_db sample_seqs" by (simp add: at_state_def calm_def sample_world_def)
  have links: "no_links sample_db" by (simp add: no_links_def sample_db_def sample_obs_def)
  have readable: "ingestible sample_proc sample_opener sample_db 1 ''/d/a.pdf'' [ReadEOF ''zz'']" by code_simp
  from ingestion_converges [OF state sample_db_ok sample_proc_bound links run readable]
  have "settled_at (w_db ?w3) 1 ''/d/a.pdf'' (hex_encode ''zz'')" by (simp add: sample_proc_def)
  with lost show ?thesis by (simp add: attempts_made_def Let_def)
qed

end
