(* ===== verification/Rescan_Correct.thy ===== *)
theory Rescan_Correct
  imports Reconciler_Correct
begin

text \<open>
  The properties of the rescan: what a walk leaves of a root, what it queues, when the
  watermark moves; and two behaviours of the reconciler that its comments do not promise.
\<close>

section \<open>Mark and sweep\<close>

lemma scan_loop_error: "ScanError \<in> set items \<Longrightarrow> fst (scan_loop r epoch items counts w) \<noteq> Inr c"
proof (induction r epoch items counts arbitrary: w rule: scan_loop.induct)
  case (4 r epoch obs items counts)
  then have "ScanError \<in> set items" by simp
  with "4.IH" show ?case by (auto simp: bind_def split: prod.splits sum.splits)
qed (auto simp: ret_def fail_def)

lemma reconcileRoot_Inr:
  assumes "reconcileRoot r scans mp w = (Inr c, w')"
  obtains items where "scans (mp_root mp) = Some items" "ScanError \<notin> set items"
proof (cases "scans (mp_root mp)")
  case None
  with assms show thesis by (simp add: reconcileRoot_def fail_def)
next
  case (Some items)
  have "ScanError \<notin> set items"
  proof
    assume err: "ScanError \<in> set items"
    let ?fn = "bind tx_NextScanEpoch (\<lambda>epoch. bind (scan_loop r epoch items (0, 0)) (\<lambda>(seen, queued).
      bind (tx_SweepScanEpoch (mp_id mp) (mp_root mp) epoch) (\<lambda>gone.
      andThen (for_each gone (tombstone_gone r (mp_id mp))) (ret (seen, queued, length gone)))))"
    from assms Some have "InTx ?fn w = (Inr c, w')" by (simp add: reconcileRoot_def)
    then obtain v v' where "?fn v = (Inr c, v')"
      by (auto simp: InTx_def split: prod.splits sum.splits)
    then obtain epoch u k u' where "scan_loop r epoch items (0, 0) u = (Inr k, u')" by (auto simp: bind_Inr)
    with scan_loop_error [OF err, of r epoch "(0, 0)" u k] show False by simp
  qed
  with Some show thesis by (rule that)
qed

text \<open>
  C4: A rescan that commits leaves, under its root, exactly the paths the walk reported (as
  far as this root is the one they resolve to); observations elsewhere only gain the
  scanned paths; and the live documents at the observed paths the walk did not find, and
  no others, become tombstones.  Nothing but observations, documents and job requests
  changes, so the watermark is still where it was.
\<close>

theorem reconcileRoot_mark_and_sweep:
  assumes "calm w" "db_ok (w_db w) (w_seqs w)" "known r w" "eq_bound (rc_enqueuer r)"
    and "reconcileRoot r scans mp w = (Inr c, w')" "scans (mp_root mp) = Some items"
  shows "(\<forall>m p. (m, p) \<in> obs_key ` set (db_obs (w_db w')) \<longleftrightarrow>
       (m, p) \<in> set (marked r (scan_paths items)) \<or>
       (m, p) \<in> obs_key ` set (db_obs (w_db w)) \<and> \<not> (m = mp_id mp \<and> contains (mp_root mp) p)) \<and>
    db_docs (w_db w') = map (\<lambda>x.
       if live x \<and> d_mountpoint_id x = mp_id mp \<and> contains (mp_root mp) (d_path x) \<and>
          (mp_id mp, d_path x) \<in> obs_key ` set (db_obs (w_db w)) \<and>
          (mp_id mp, d_path x) \<notin> set (marked r (scan_paths items))
       then tombstone (db_now (w_db w)) x else x) (db_docs (w_db w)) \<and>
    db_watermark (w_db w') = db_watermark (w_db w) \<and> db_cvs (w_db w') = db_cvs (w_db w)"
proof -
  have no_error: "ScanError \<notin> set items"
    using reconcileRoot_Inr [OF assms(5)] assms(6) by auto
  let ?q = "w\<lparr>w_script := []\<rparr>"
  have "known r ?q" using assms(3) by (simp add: known_def)
  from reconcileRoot_run [OF quiet_update(5) this assms(4), of scans mp items, OF assms(6) no_error]
  obtain c0 w0 js where run: "reconcileRoot r scans mp ?q = (Inr c0, w0)" and
    db0: "w_db w0 = (w_db w)\<lparr>db_obs := filter (\<lambda>x. \<not> sweeps mp ?q x) (scan_rows r ?q items),
      db_docs := update_where (stood_at (mp_id mp) (map o_path (filter (sweeps mp ?q) (scan_rows r ?q items))))
        (tombstone (db_now (w_db w))) (db_docs (w_db w)),
      db_outbox := db_outbox (w_db w) @ scan_jobs r ?q items @ js\<rparr>"
    by auto
  from undisturbed [OF faithful_reconcileRoot assms(1,5) _ run]
  have db: "w_db w' = w_db w0" by simp
  let ?rows = "scan_rows r ?q items" and ?M = "set (marked r (scan_paths items))"
  let ?K = "obs_key ` set (db_obs (w_db w))"
  have keys: "obs_key ` set ?rows = ?K \<union> ?M" by (simp add: scan_rows_def scan_effect_keys)
  have fresh: "o_seen_epoch x < sq_epoch (w_seqs w) + 1" if "x \<in> set (db_obs (w_db w))" for x
    using assms(2) that by (auto simp: db_ok_def obs_ok_def)
  have sweep: "sweeps mp ?q x \<longleftrightarrow> o_mountpoint_id x = mp_id mp \<and> contains (mp_root mp) (o_path x) \<and> obs_key x \<notin> ?M"
    if "x \<in> set ?rows" for x
    unfolding sweeps_def using swept_after_scan [OF fresh] that by (simp add: scan_rows_def)
  have obs: "(m, p) \<in> obs_key ` set (filter (\<lambda>x. \<not> sweeps mp ?q x) ?rows) \<longleftrightarrow>
      (m, p) \<in> ?M \<or> (m, p) \<in> ?K \<and> \<not> (m = mp_id mp \<and> contains (mp_root mp) p)" for m p
  proof
    assume "(m, p) \<in> obs_key ` set (filter (\<lambda>x. \<not> sweeps mp ?q x) ?rows)"
    then obtain x where x: "x \<in> set ?rows" "\<not> sweeps mp ?q x" "obs_key x = (m, p)" by auto
    with keys have "(m, p) \<in> ?K \<union> ?M" by (metis imageI)
    with x sweep [OF x(1)] show "(m, p) \<in> ?M \<or> (m, p) \<in> ?K \<and> \<not> (m = mp_id mp \<and> contains (mp_root mp) p)"
      by (auto simp: obs_key_def)
  next
    assume rhs: "(m, p) \<in> ?M \<or> (m, p) \<in> ?K \<and> \<not> (m = mp_id mp \<and> contains (mp_root mp) p)"
    then have "(m, p) \<in> obs_key ` set ?rows" unfolding keys by blast
    then obtain x where x: "x \<in> set ?rows" "obs_key x = (m, p)" by force
    with rhs sweep [OF x(1)] have "\<not> sweeps mp ?q x" by (auto simp: obs_key_def)
    with x show "(m, p) \<in> obs_key ` set (filter (\<lambda>x. \<not> sweeps mp ?q x) ?rows)" by force
  qed
  have gone: "p \<in> set (map o_path (filter (sweeps mp ?q) ?rows)) \<longleftrightarrow>
      contains (mp_root mp) p \<and> (mp_id mp, p) \<in> ?K \<and> (mp_id mp, p) \<notin> ?M" for p
  proof
    assume "p \<in> set (map o_path (filter (sweeps mp ?q) ?rows))"
    then obtain x where x: "x \<in> set ?rows" "sweeps mp ?q x" "o_path x = p" by auto
    with sweep [OF x(1)] have "obs_key x = (mp_id mp, p)" "contains (mp_root mp) p" "(mp_id mp, p) \<notin> ?M"
      by (auto simp: obs_key_def)
    moreover have "obs_key x \<in> ?K \<union> ?M" using x(1) keys by (metis imageI)
    ultimately show "contains (mp_root mp) p \<and> (mp_id mp, p) \<in> ?K \<and> (mp_id mp, p) \<notin> ?M" by auto
  next
    assume rhs: "contains (mp_root mp) p \<and> (mp_id mp, p) \<in> ?K \<and> (mp_id mp, p) \<notin> ?M"
    then have "(mp_id mp, p) \<in> obs_key ` set ?rows" unfolding keys by blast
    then obtain x where x: "x \<in> set ?rows" "obs_key x = (mp_id mp, p)" by force
    with rhs sweep [OF x(1)] have "sweeps mp ?q x" "o_path x = p" by (auto simp: obs_key_def)
    with x show "p \<in> set (map o_path (filter (sweeps mp ?q) ?rows))" by force
  qed
  have docs: "stood_at (mp_id mp) (map o_path (filter (sweeps mp ?q) ?rows)) x \<longleftrightarrow>
      live x \<and> d_mountpoint_id x = mp_id mp \<and> contains (mp_root mp) (d_path x) \<and>
      (mp_id mp, d_path x) \<in> ?K \<and> (mp_id mp, d_path x) \<notin> ?M" for x
    unfolding stood_at_def gone by blast
  show ?thesis
    unfolding db db0 using obs docs by (simp add: update_where_def)
qed

definition sample_scans :: scans where
  "sample_scans root = Some [ScanOther, ScanBatch [(''/d/a.pdf'', None), (''/d/n.txt'', None)]]"

lemma reconcileRoot_mark_and_sweep_witness:
  "map live (db_docs (w_db (snd (reconcileRoot sample_rec sample_scans sample_mp (sample_world [Run]))))) = [True, False]"
proof -
  let ?run = "reconcileRoot sample_rec sample_scans sample_mp (sample_world [Run])"
  have "case fst ?run of Inl e \<Rightarrow> False | Inr c \<Rightarrow> c = (2, 2, 2)" by code_simp
  then have "fst ?run = Inr (2, 2, 2)" by (auto split: sum.splits)
  then have run: "?run = (Inr (2, 2, 2), snd ?run)" by (metis prod.collapse)
  have calm: "calm (sample_world [Run])" by (simp add: calm_def)
  have ok: "db_ok (w_db (sample_world [Run])) (w_seqs (sample_world [Run]))" using sample_db_ok by simp
  have items: "sample_scans (mp_root sample_mp) = Some [ScanOther, ScanBatch [(''/d/a.pdf'', None), (''/d/n.txt'', None)]]"
    by (simp add: sample_scans_def)
  have mps: "mountpointFor sample_rec ''/d/a.pdf'' = Some sample_mp" "mountpointFor sample_rec ''/d/n.txt'' = Some sample_mp"
    by code_simp+
  from reconcileRoot_mark_and_sweep [THEN conjunct2, THEN conjunct1, OF calm ok sample_known sample_rec_fields(1) run items]
  show ?thesis
    by (simp add: sample_db_def sample_row_defs mps live_def contains_def subtree_prefix_def
        trim_suffix_def has_suffix_def has_prefix_def obs_key_def tombstone_def)
qed

section \<open>What a walk queues\<close>

text \<open>
  A scanned path is queued exactly when its stored state does not account for it: it is
  a file this system indexes, and nothing was recorded for it, or its size or modification
  time moved, or no live document stands at its path.  Its observation is written either
  way, with the epoch, and no document changes.
\<close>

theorem observeScanned_queues:
  assumes "calm w" "known r w" "eq_bound (rc_enqueuer r)" "mountpointFor r path = Some mp"
    and "observeScanned r (path, stat) epoch w = (res, w')" "res \<noteq> Inl ErrConn"
  shows "let next = scannedObservation (mp_id mp) (path, stat) epoch;
       prior = List.find (\<lambda>x. obs_key x = (mp_id mp, path)) (db_obs (w_db w));
       queue = (\<not> ob_is_dir next \<and> AllowPath (rc_filter r) path \<and>
         ((case prior of None \<Rightarrow> True
           | Some x \<Rightarrow> o_size x \<noteq> ob_size next \<or>
               (case o_mtime x of None \<Rightarrow> zero_time | Some u \<Rightarrow> from_micros u) \<noteq> ob_mtime next) \<or>
          (\<forall>x \<in> set (db_docs (w_db w)). \<not> doc_at (mp_id mp) path x)))
     in res = Inr queue \<and>
        db_outbox (w_db w') = db_outbox (w_db w) @
          (if queue then [request (IngestPathArgs (mp_id mp) path TriggerSettled) None] else []) \<and>
        List.find (\<lambda>x. obs_key x = (mp_id mp, path)) (db_obs (w_db w')) = Some (observed_row (w_db w) next) \<and>
        db_docs (w_db w') = db_docs (w_db w)"
proof -
  let ?q = "w\<lparr>w_script := []\<rparr>"
  have "known r ?q" using assms(2) by (simp add: known_def)
  note quiet = observeScanned_run [OF quiet_update(5) this assms(3)]
  from undisturbed [OF faithful_observeScanned assms(1,5,6) quiet]
  have eq: "res = Inr (queues r epoch (w_db w) (path, stat) (db_obs (w_db w)) \<noteq> [])"
    "w_db w' = (w_db w)\<lparr>db_obs := marks r epoch (w_db w) (path, stat) (db_obs (w_db w)),
       db_outbox := db_outbox (w_db w) @ queues r epoch (w_db w) (path, stat) (db_obs (w_db w))\<rparr>"
    by simp_all
  have key: "(mp_id mp, path) = obs_key (observed_row (w_db w) (scannedObservation (mp_id mp) (path, stat) epoch))"
    by simp
  have found: "List.find (\<lambda>x. obs_key x = (mp_id mp, path)) (upsert_by obs_key
      (observed_row (w_db w) (scannedObservation (mp_id mp) (path, stat) epoch)) (db_obs (w_db w))) =
      Some (observed_row (w_db w) (scannedObservation (mp_id mp) (path, stat) epoch))"
    unfolding key by (simp only: find_upsert_by if_True simp_thms)
  show ?thesis
    unfolding eq Let_def
    using assms(4) found
    by (auto simp: queues_def marks_def needs_ingest_def Let_def scan_changed_def to_observation_def
        find_None_set [of "doc_at (mp_id mp) path"] split: option.splits)
qed

lemma observeScanned_queues_witness:
  "db_outbox (w_db (snd (observeScanned sample_rec (''/d/a.pdf'', None) 2 (sample_world [Run])))) =
     [request (IngestPathArgs 1 ''/d/a.pdf'' TriggerSettled) None]"
proof -
  let ?run = "observeScanned sample_rec (''/d/a.pdf'', None) 2 (sample_world [Run])"
  have "case fst ?run of Inl e \<Rightarrow> False | Inr c \<Rightarrow> c" by code_simp
  then have "fst ?run = Inr True" by (auto split: sum.splits)
  then have run: "?run = (Inr True, snd ?run)" by (metis prod.collapse)
  have calm: "calm (sample_world [Run])" by (simp add: calm_def)
  have mp: "mountpointFor sample_rec ''/d/a.pdf'' = Some sample_mp" by code_simp
  from observeScanned_queues [OF calm sample_known sample_rec_fields(1) mp run Inr_not_Inl]
  show ?thesis by (auto simp: Let_def sample_db_def split: if_splits)
qed

section \<open>When the watermark moves\<close>

lemma for_each_Inr: "for_each xs f w = (Inr u, w') \<Longrightarrow> x \<in> set xs \<Longrightarrow> \<exists>v v' y. f x v = (Inr y, v')"
  by (induction xs arbitrary: w) (auto simp: andThen_Inr)

text \<open>
  C23: A rescan of all roots commits the watermark once, after every root has landed: if any
  scan, stream or statement fails the watermark is still where it was, so the bootstrap is
  tried again, and if it succeeds every root was walked to its end and the watermark is at
  least the ring head read before the walks.
\<close>

theorem reconcileAll_watermark_last:
  assumes "calm w" "w_base w = w_db w" "reconcileAll r scans head w = (res, w')"
  shows "case res of
      Inl e \<Rightarrow> db_watermark (w_db w') = db_watermark (w_db w)
    | Inr _ \<Rightarrow> (\<forall>mp \<in> set (rc_mountpoints r). \<exists>items. scans (mp_root mp) = Some items \<and> ScanError \<notin> set items) \<and>
        db_watermark (w_db w') = map_option (\<lambda>v. max v head) (db_watermark (w_db w))"
proof -
  let ?all = "for_each (rc_mountpoints r) (\<lambda>mp. bind (reconcileRoot r scans mp) (\<lambda>_. ret ()))"
  let ?v = "db_watermark (w_db w)" and ?e = "sq_epoch (w_seqs w)"
  obtain r1 w1 where all: "?all w = (r1, w1)" by (cases "?all w")
  have start: "holds_from (watermark_is ?v) ?e w"
    using assms(1,2) calm_rely by (simp add: holds_from_def holds_def watermark_is_def)
  have "keeps (watermark_is ?v) ?e ?all" by (intro keeps_intros still.keeps_reconcileRoot)
  from keepsD [where m = ?all, OF this all start] have wm: "db_watermark (w_db w1) = ?v"
    by (simp add: holds_from_def holds_def watermark_is_def)
  show ?thesis
  proof (cases r1)
    case (Inl e)
    with assms(3) all wm show ?thesis by (auto simp: reconcileAll_def andThen_def bind_def)
  next
    case (Inr u)
    have "faithful ?all" by (intro keeps_intros)
    from faithfulD [OF this assms(1) all] Inr have calm1: "calm w1" by simp
    from assms(3) all Inr have run: "InTx (tx_SetWatermark head) w1 = (res, w')"
      by (simp add: reconcileAll_def andThen_def bind_def)
    show ?thesis
    proof (cases res)
      case (Inl e)
      have "confined (tx_SetWatermark head)" by (intro keeps_intros)
      from InTx_rollback_calm [OF this run [unfolded Inl] calm1] Inl wm show ?thesis by simp
    next
      case (Inr x)
      from InTx_commit_calm [OF run [unfolded Inr] calm1] obtain t t' where
        t: "tx_SetWatermark head t = (Inr x, t')" "w_db t = w_db w1" "calm t" and
        commit: "calm t' \<Longrightarrow> w_db w' = w_db t'" by metis
      note run_t = stmt_calm [OF t(1) [unfolded tx_SetWatermark_def] t(3)]
      have "w_db t' = (w_db t)\<lparr>db_watermark := map_option (\<lambda>v. max v head) (db_watermark (w_db t))\<rparr>"
        using run_t(1) by (simp add: q_SetWatermark_def)
      then have "db_watermark (w_db w') = map_option (\<lambda>v. max v head) ?v"
        using run_t(2) t(2) commit wm by simp
      moreover have "\<exists>items. scans (mp_root mp) = Some items \<and> ScanError \<notin> set items"
        if "mp \<in> set (rc_mountpoints r)" for mp
      proof -
        from for_each_Inr [OF all [unfolded \<open>r1 = Inr u\<close>] that] obtain v c v' where
          "reconcileRoot r scans mp v = (Inr c, v')" by (auto simp: bind_Inr)
        then show ?thesis by (rule reconcileRoot_Inr) blast
      qed
      ultimately show ?thesis using Inr by simp
    qed
  qed
qed

lemma reconcileAll_watermark_last_witness:
  "db_watermark (w_db (snd (reconcileAll sample_rec (\<lambda>_. Some [ScanError]) 9 (sample_world [Run])))) = Some 5"
proof -
  let ?run = "reconcileAll sample_rec (\<lambda>_. Some [ScanError]) 9 (sample_world [Run])"
  have "fst ?run = Inl ErrRecv" by code_simp
  then have run: "?run = (Inl ErrRecv, snd ?run)" by (metis prod.collapse)
  have calm: "calm (sample_world [Run])" by (simp add: calm_def)
  have idle: "w_base (sample_world [Run]) = w_db (sample_world [Run])" by simp
  from reconcileAll_watermark_last [OF calm idle run] show ?thesis by (simp add: sample_db_def)
qed

section \<open>Two behaviours worth knowing\<close>

text \<open>
  A file whose modification time has a part below the microsecond is queued again by
  every rescan, however little has changed: the walk reports nanoseconds and the stored
  observation keeps microseconds, so the two never compare equal.
\<close>

theorem rescan_requeues_submicrosecond_mtime:
  assumes "calm w" "known r w" "eq_bound (rc_enqueuer r)" "mountpointFor r path = Some mp"
    and "AllowPath (rc_filter r) path" "si_mtime st = Some t" "t mod 1000 \<noteq> 0"
    and "\<not> is_mode_dir (uint (si_mode st))"
    and "observeScanned r (path, Some st) epoch w = (Inr q1, w1)"
    and "calm w2" "w_db w2 = w_db w1" "observeScanned r (path, Some st) epoch2 w2 = (Inr q2, w3)"
  shows "q2"
proof -
  let ?next = "scannedObservation (mp_id mp) (path, Some st) epoch"
  let ?next2 = "scannedObservation (mp_id mp) (path, Some st) epoch2"
  have mt: "ob_mtime ?next = t" "ob_mtime ?next2 = t" "\<not> ob_is_dir ?next2"
    using assms(6,8) by (simp_all add: scannedObservation_def observationOf_def Let_def)
  from undisturbed [OF faithful_observeScanned assms(1,9) _ observeScanned_run [OF quiet_update(5) _ assms(3)]]
  have db1: "w_db w1 = (w_db w)\<lparr>db_obs := marks r epoch (w_db w) (path, Some st) (db_obs (w_db w)),
       db_outbox := db_outbox (w_db w) @ queues r epoch (w_db w) (path, Some st) (db_obs (w_db w))\<rparr>"
    using assms(2) by (simp add: known_def)
  have known2: "known r w2" using assms(2,11) db1 by (simp add: known_def)
  have key: "(mp_id mp, path) = obs_key (observed_row (w_db w) ?next)" by simp
  have prior: "List.find (\<lambda>x. obs_key x = (mp_id mp, path)) (db_obs (w_db w2)) = Some (observed_row (w_db w) ?next)"
    unfolding assms(11) db1 marks_def using assms(4) key by (simp add: find_upsert_by)
  have "o_mtime (observed_row (w_db w) ?next) = (if t = zero_time then None else Some (to_micros t))"
    using mt(1) by (simp add: observed_row_def obs_params_def)
  moreover have "t \<noteq> zero_time" using assms(7) by (auto simp: zero_time_def)
  ultimately have stored: "o_mtime (observed_row (w_db w) ?next) = Some (to_micros t)" by simp
  have "from_micros (to_micros t) \<noteq> t" using assms(7) unfolding from_micros_def to_micros_def by (metis mod_mult_self2_is_0)
  with stored mt(2) have moved: "(case o_mtime (observed_row (w_db w) ?next) of None \<Rightarrow> zero_time | Some u \<Rightarrow> from_micros u) \<noteq> ob_mtime ?next2"
    by simp
  note q = observeScanned_queues [OF assms(10) known2 assms(3,4,12) Inr_not_Inl, unfolded Let_def prior, THEN conjunct1]
  show ?thesis
    using q unfolding option.case sum.inject by (simp only: moved mt(3) assms(5) simp_thms)
qed

definition odd_stat :: StatInfo where
  "odd_stat = \<lparr>si_size = 10, si_mode = 420, si_ino = 11, si_dev = 1, si_mtime = Some 7001\<rparr>"

lemma rescan_requeues_submicrosecond_mtime_witness:
  "fst (observeScanned sample_rec (''/d/a.pdf'', Some odd_stat) 3
     (snd (observeScanned sample_rec (''/d/a.pdf'', Some odd_stat) 2 (sample_world [Run])))) = Inr True"
proof -
  let ?run = "observeScanned sample_rec (''/d/a.pdf'', Some odd_stat) 2 (sample_world [Run])"
  let ?again = "observeScanned sample_rec (''/d/a.pdf'', Some odd_stat) 3 (snd ?run)"
  have calm: "calm (sample_world [Run])" by (simp add: calm_def)
  have mp: "mountpointFor sample_rec ''/d/a.pdf'' = Some sample_mp" by code_simp
  have allow: "AllowPath (rc_filter sample_rec) ''/d/a.pdf''" by code_simp
  have dir: "\<not> is_mode_dir (uint (si_mode odd_stat))" by code_simp
  have "case fst ?run of Inl e \<Rightarrow> False | Inr c \<Rightarrow> c" by code_simp
  then have "fst ?run = Inr True" by (auto split: sum.splits)
  then have run: "?run = (Inr True, snd ?run)" by (metis prod.collapse)
  have calm2: "calm (snd ?run)" using faithfulD [OF faithful_observeScanned calm run] by simp
  have "case fst ?again of Inl e \<Rightarrow> False | Inr c \<Rightarrow> True" by code_simp
  then obtain q2 where "fst ?again = Inr q2" by (auto split: sum.splits)
  then have again: "?again = (Inr q2, snd ?again)" by (metis prod.collapse)
  have "q2"
    by (rule rescan_requeues_submicrosecond_mtime [where t = 7001,
          OF calm sample_known sample_rec_fields(1) mp allow _ _ dir run calm2 refl again])
      (simp_all add: odd_stat_def)
  with again show ?thesis by (metis fst_conv)
qed

text \<open>
  A directory moved into a watched root from outside is observed by itself alone: nothing
  beneath it is observed and nothing is queued, because the daemon reports only the
  directory; its documents stay unknown until a rescan.
\<close>

theorem directory_moved_in_is_not_walked:
  assumes "calm w" "known r w" "eq_bound (rc_enqueuer r)" "ev_is_dir ev"
    and "mountpointFor r (ev_old_path ev) = None" "mountpointFor r (ev_path ev) = Some mp"
    and "applyMove r ev w = (res, w')" "res \<noteq> Inl ErrConn"
  shows "db_outbox (w_db w') = db_outbox (w_db w) \<and> db_docs (w_db w') = db_docs (w_db w) \<and>
    obs_key ` set (db_obs (w_db w')) = insert (mp_id mp, ev_path ev) (obs_key ` set (db_obs (w_db w)))"
proof -
  let ?q = "w\<lparr>w_script := []\<rparr>"
  have known: "known r ?q" using assms(2) by (simp add: known_def)
  have "applyMove r ev ?q = observe r (ev_path ev) (ev_stat ev) True Settled ?q"
    using assms(4-6) by (simp add: applyMove_def)
  then have quiet: "applyMove r ev ?q = (Inr (), put_obs ?q (upsert_by obs_key
      (observed_row (w_db w) (observationOf (mp_id mp) (ev_path ev) (ev_stat ev) True 0)) (db_obs (w_db w))))"
    using observe_run [OF quiet_update(5) known assms(3,6)] by simp
  from undisturbed [OF faithful_applyMove assms(1,7,8) quiet]
  show ?thesis by (simp add: keys_upsert_by)
qed

lemma directory_moved_in_is_not_walked_witness:
  "db_outbox (w_db (snd (applyMove sample_rec (sample_event 6 EvMove ''/d/in'' ''/x/in'' True) (sample_world [])))) = []"
proof -
  let ?ev = "sample_event 6 EvMove ''/d/in'' ''/x/in'' True"
  let ?run = "applyMove sample_rec ?ev (sample_world [])"
  have old: "mountpointFor sample_rec (ev_old_path ?ev) = None" by code_simp
  have new: "mountpointFor sample_rec (ev_path ?ev) = Some sample_mp" by code_simp
  have dir: "ev_is_dir ?ev" by (simp add: sample_event_def)
  have "fst ?run = Inr ()" by code_simp
  then have run: "?run = (Inr (), snd ?run)" by (metis prod.collapse)
  from directory_moved_in_is_not_walked [THEN conjunct1, OF sample_quiet(2) sample_known sample_rec_fields(1) dir old new run Inr_not_Inl]
  show ?thesis by (simp add: sample_db_def)
qed

end
