(* ===== verification/Catch_Up.thy ===== *)
theory Catch_Up
  imports Converge Rescan_Correct
begin

text \<open>
  The rescan and the ingest jobs together: what a walk finds moved is queued, what it leaves
  alone is settled already, and once the queued jobs have succeeded every file the walk
  reported is settled on its bytes.
\<close>

section \<open>One path of a walk\<close>

lemma marks_find_other:
  "fst ob \<noteq> path \<Longrightarrow> List.find (\<lambda>x. obs_key x = (m, path)) (marks r e d ob rows) =
     List.find (\<lambda>x. obs_key x = (m, path)) rows"
  by (simp add: marks_def find_upsert_by split: option.splits)

lemma scan_effect_Cons:
  "fst (scan_effect r e d (ob # obs) rows) = fst (scan_effect r e d obs (marks r e d ob rows))"
  "snd (scan_effect r e d (ob # obs) rows) = queues r e d ob rows @ snd (scan_effect r e d obs (marks r e d ob rows))"
  by (simp_all split: prod.splits)

lemma scan_effect_find_other:
  "path \<notin> fst ` set obs \<Longrightarrow> List.find (\<lambda>x. obs_key x = (m, path)) (fst (scan_effect r e d obs rows)) =
     List.find (\<lambda>x. obs_key x = (m, path)) rows"
  by (induction obs arbitrary: rows) (auto simp: scan_effect_Cons marks_find_other simp del: scan_effect.simps(2))

lemma marks_find:
  "mountpointFor r (fst ob) = Some mp \<Longrightarrow> List.find (\<lambda>x. obs_key x = (mp_id mp, fst ob)) (marks r e d ob rows) =
     Some (observed_row d (scannedObservation (mp_id mp) ob e))"
  using find_upsert_by [of obs_key "(mp_id mp, fst ob)" "observed_row d (scannedObservation (mp_id mp) ob e)" rows]
  by (simp add: marks_def)

text \<open>When no path is reported twice, the walk leaves of each the row it reported.\<close>

lemma scan_effect_row:
  assumes "distinct (map fst obs)" "ob \<in> set obs" "mountpointFor r (fst ob) = Some mp"
  shows "List.find (\<lambda>x. obs_key x = (mp_id mp, fst ob)) (fst (scan_effect r e d obs rows)) =
    Some (observed_row d (scannedObservation (mp_id mp) ob e))"
  using assms
proof (induction obs arbitrary: rows)
  case (Cons a obs)
  show ?case
  proof (cases "ob = a")
    case True
    with Cons.prems(1) have "fst ob \<notin> fst ` set obs" by simp
    then have "List.find (\<lambda>x. obs_key x = (mp_id mp, fst ob)) (fst (scan_effect r e d (a # obs) rows)) =
        List.find (\<lambda>x. obs_key x = (mp_id mp, fst ob)) (marks r e d a rows)"
      unfolding scan_effect_Cons by (rule scan_effect_find_other)
    with marks_find [OF Cons.prems(3)] True show ?thesis by simp
  next
    case False
    with Cons show ?thesis by (simp add: scan_effect_Cons del: scan_effect.simps(2))
  qed
qed simp

lemma needs_ingest_other:
  "fst a \<noteq> fst ob \<Longrightarrow> needs_ingest r e d ob mp (marks r e d a rows) = needs_ingest r e d ob mp rows"
  by (simp add: needs_ingest_def marks_find_other)

lemma scan_effect_queued:
  assumes "distinct (map fst obs)" "ob \<in> set obs" "mountpointFor r (fst ob) = Some mp" "needs_ingest r e d ob mp rows"
  shows "request (IngestPathArgs (mp_id mp) (fst ob) TriggerSettled) None \<in> set (snd (scan_effect r e d obs rows))"
  using assms
proof (induction obs arbitrary: rows)
  case (Cons a obs)
  show ?case
  proof (cases "ob = a")
    case True
    with Cons.prems show ?thesis by (simp add: scan_effect_Cons queues_def del: scan_effect.simps(2))
  next
    case False
    with Cons.prems(1,2) have "ob \<in> set obs" "fst a \<noteq> fst ob" by force+
    with Cons show ?thesis by (simp add: scan_effect_Cons needs_ingest_other del: scan_effect.simps(2))
  qed
qed simp

text \<open>Whether a path needs its job does not depend on the epoch of the walk.\<close>

lemma scannedObservation_epoch:
  "ob_dev (scannedObservation m ob e) = ob_dev (scannedObservation m ob 0)"
  "ob_ino (scannedObservation m ob e) = ob_ino (scannedObservation m ob 0)"
  "scan_changed prior (scannedObservation m ob e) = scan_changed prior (scannedObservation m ob 0)"
  by (cases "snd ob"; cases prior; simp add: scan_changed_def scannedObservation_def observationOf_def Let_def)+

section \<open>What a committed walk leaves\<close>

text \<open>The file the walk reports, as the observation of its root has it.\<close>

definition left_by_walk :: "Reconciler \<Rightarrow> int \<Rightarrow> database \<Rightarrow> scanned list \<Rightarrow> database \<Rightarrow> bool" where
  "left_by_walk r e d obs d' \<longleftrightarrow> (\<forall>ob \<in> set obs. \<forall>mp. mountpointFor r (fst ob) = Some mp \<longrightarrow>
     observed_row d (scannedObservation (mp_id mp) ob e) \<in> set (db_obs d') \<and>
     (\<forall>x \<in> set (db_docs d). doc_at (mp_id mp) (fst ob) x \<longrightarrow> x \<in> set (db_docs d')) \<and>
     (needs_ingest r e d ob mp (db_obs d) \<longrightarrow>
        request (IngestPathArgs (mp_id mp) (fst ob) TriggerSettled) None \<in> set (drop (length (db_outbox d)) (db_outbox d'))))"

lemma reconcileRoot_leaves:
  assumes w: "at_state w d q" "db_ok d q" and known: "known r w" "eq_bound (rc_enqueuer r)"
    and run: "reconcileRoot r scans mp w = (Inr c, w1)" and items: "scans (mp_root mp) = Some items"
    and walk: "distinct (map fst (scan_paths items))"
  shows "left_by_walk r (sq_epoch q + 1) d (scan_paths items) (w_db w1) \<and> db_cvs (w_db w1) = db_cvs d \<and>
    db_ok (w_db w1) (w_seqs w1)"
proof -
  let ?q = "w\<lparr>w_script := []\<rparr>" and ?e = "sq_epoch q + 1" and ?obs = "scan_paths items"
  have at: "calm w" "w_db w = d" "w_seqs w = q" using w(1) by (simp_all add: at_state_def)
  have no_error: "ScanError \<notin> set items" using reconcileRoot_Inr [OF run] items by auto
  have "known r ?q" using known(1) by (simp add: known_def)
  from reconcileRoot_run [OF quiet_update(5) this known(2), of scans mp items, OF items no_error]
  obtain c0 w0 js where quiet_run: "reconcileRoot r scans mp ?q = (Inr c0, w0)" and
    db0: "w_db w0 = d\<lparr>db_obs := filter (\<lambda>x. \<not> sweeps mp ?q x) (scan_rows r ?q items),
      db_docs := update_where (stood_at (mp_id mp) (map o_path (filter (sweeps mp ?q) (scan_rows r ?q items))))
        (tombstone (db_now d)) (db_docs d),
      db_outbox := db_outbox d @ scan_jobs r ?q items @ js\<rparr>"
    by (auto simp: at(2))
  from undisturbed [OF faithful_reconcileRoot at(1) run _ quiet_run] have db: "w_db w1 = w_db w0" by simp
  have rows: "scan_rows r ?q items = fst (scan_effect r ?e d ?obs (db_obs d))"
    "scan_jobs r ?q items = snd (scan_effect r ?e d ?obs (db_obs d))"
    by (simp_all add: scan_rows_def scan_jobs_def at)
  have stays: "\<not> sweeps mp ?q x" if "x \<in> set (scan_rows r ?q items)" "obs_key x \<in> set (marked r ?obs)" for x
    using scan_effect_rows that by (force simp: sweeps_def swept_iff rows at)
  have "left_by_walk r ?e d ?obs (w_db w1)"
    unfolding left_by_walk_def
  proof (intro ballI allI impI conjI)
    fix ob m assume ob: "ob \<in> set ?obs" "mountpointFor r (fst ob) = Some m"
    let ?row = "observed_row d (scannedObservation (mp_id m) ob ?e)"
    have key: "(mp_id m, fst ob) \<in> set (marked r ?obs)" unfolding marked_iff using ob by blast
    have row: "?row \<in> set (scan_rows r ?q items)"
      using find_SomeD [OF scan_effect_row [OF walk ob]] unfolding rows by blast
    with stays [OF row] key show "?row \<in> set (db_obs (w_db w1))" by (simp add: db db0)
    show "x \<in> set (db_docs (w_db w1))" if x: "x \<in> set (db_docs d)" "doc_at (mp_id m) (fst ob) x" for x
    proof -
      have "\<not> stood_at (mp_id mp) (map o_path (filter (sweeps mp ?q) (scan_rows r ?q items))) x"
      proof
        assume "stood_at (mp_id mp) (map o_path (filter (sweeps mp ?q) (scan_rows r ?q items))) x"
        then obtain y where y: "y \<in> set (scan_rows r ?q items)" "sweeps mp ?q y" "o_path y = d_path x"
          "d_mountpoint_id x = mp_id mp" by (auto simp: stood_at_def)
        then have "obs_key y = (mp_id m, fst ob)" using x(2) by (simp add: sweeps_def swept_iff obs_key_def doc_at_def)
        with stays [OF y(1)] y(2) key show False by simp
      qed
      with x(1) show ?thesis by (force simp: db db0 update_where_def)
    qed
    show "request (IngestPathArgs (mp_id m) (fst ob) TriggerSettled) None \<in>
        set (drop (length (db_outbox d)) (db_outbox (w_db w1)))" if "needs_ingest r ?e d ob m (db_obs d)"
      using scan_effect_queued [OF walk ob that] by (simp add: db db0 rows)
  qed
  moreover have "holds_from db_ok (sq_epoch q) w" using at_state_holds [OF w] at by (simp add: holds_from_def)
  from keepsD [OF schema.keeps_reconcileRoot run this] have "db_ok (w_db w1) (w_seqs w1)"
    by (simp add: holds_from_def holds_def)
  ultimately show ?thesis by (simp add: db db0)
qed

section \<open>Jobs that start from what is settled already\<close>

lemma ingest_steps_more:
  "(ingest_step p opener)\<^sup>*\<^sup>* s s' \<Longrightarrow> (ingest_step p opener)\<^sup>*\<^sup>* (R \<union> fst s, snd s) (R \<union> fst s', snd s')"
proof (induction rule: rtranclp_induct)
  case (step s1 s2)
  from step(2) have "ingest_step p opener (R \<union> fst s1, snd s1) (R \<union> fst s2, snd s2)"
  proof (rule ingest_stepE)
    fix mp path r w1 v ready and u :: world
    assume s: "s1 = (ready, u)" "s2 = (if r = JobDone then insert (mp, path) ready else ready, v)"
      and run: "IngestPath_Work p opener mp path u = (r, w1)" "resumes w1 v"
    from ingest_step.attempt [OF run, of "R \<union> ready"] s show ?thesis by (simp split: if_splits)
  qed
  with step(3) show ?case by (rule rtranclp.rtrancl_into_rtrancl)
qed simp

lemma settled_reachable:
  assumes "(ingest_step p opener)\<^sup>*\<^sup>* ({}, w) (ready, w')" "at_state w d q" "db_ok d q"
    and "eq_bound (pr_enqueuer p)" "no_links d" "all_settled p opener R d"
  shows "all_settled p opener (R \<union> ready) (w_db w') \<and> db_obs (w_db w') = db_obs d"
proof -
  from ingest_steps_more [OF assms(1), of R]
  have run: "(ingest_step p opener)\<^sup>*\<^sup>* (R, w) (R \<union> ready, w')" by simp
  from ingest_reachable [OF run assms(2-6)] show ?thesis by (auto simp: at_state_def)
qed

text \<open>
  What the stored size and modification time are taken to tell: a reported file whose size and
  modification time are the stored ones, and which has a live document, has that document on
  the version of its bytes, with the identity the walk reports.
\<close>

definition holds_bytes :: "database \<Rightarrow> int \<Rightarrow> scanned \<Rightarrow> string \<Rightarrow> bool" where
  "holds_bytes d m ob digest \<longleftrightarrow> (\<exists>x \<in> set (db_docs d). \<exists>c \<in> set (db_cvs d).
     doc_at m (fst ob) x \<and> d_current_cv x = Some (cv_id c) \<and> cv_content_hash c = digest \<and>
     d_dev x = ob_dev (scannedObservation m ob 0) \<and> d_ino x = ob_ino (scannedObservation m ob 0))"

definition stats_tell :: "Processor \<Rightarrow> (string \<Rightarrow> opened) \<Rightarrow> Reconciler \<Rightarrow> database \<Rightarrow> scanned list \<Rightarrow> bool" where
  "stats_tell p opener r d obs \<longleftrightarrow> (\<forall>ob \<in> set obs.
     case mountpointFor r (fst ob) of None \<Rightarrow> True | Some mp \<Rightarrow>
       (case opener (fst ob) of Opened rs \<Rightarrow>
          scan_changed (map_option to_observation (List.find (\<lambda>x. obs_key x = (mp_id mp, fst ob)) (db_obs d)))
            (scannedObservation (mp_id mp) ob 0) \<or>
          List.find (doc_at (mp_id mp) (fst ob)) (db_docs d) = None \<or>
          holds_bytes d (mp_id mp) ob (hex_encode (pr_sha256 p (read_bytes rs)))
        | _ \<Rightarrow> True))"

text \<open>The paths a walk reports and leaves alone.\<close>

definition left_alone :: "Reconciler \<Rightarrow> int \<Rightarrow> database \<Rightarrow> scanned list \<Rightarrow> (int \<times> string) set" where
  "left_alone r e d obs = {(mp_id mp, fst ob) |mp ob. ob \<in> set obs \<and> mountpointFor r (fst ob) = Some mp \<and>
     \<not> needs_ingest r e d ob mp (db_obs d)}"

lemma left_alone_settled:
  assumes left: "left_by_walk r e d obs d'" and ok: "db_ok d' q'" and cvs: "db_cvs d' = db_cvs d"
    and filter: "pr_filter p = rc_filter r" and tell: "stats_tell p opener r d obs"
  shows "all_settled p opener (left_alone r e d obs) d'"
  unfolding all_settled_def
proof (intro allI impI)
  fix m path rs assume ready: "(m, path) \<in> left_alone r e d obs" and readable: "ingestible p opener d' m path rs"
  then obtain mp ob where ob: "ob \<in> set obs" "mountpointFor r path = Some mp" "path = fst ob" "m = mp_id mp"
    and idle: "\<not> needs_ingest r e d ob mp (db_obs d)" by (auto simp: left_alone_def)
  let ?row = "observed_row d (scannedObservation m ob e)"
  from left ob have row: "?row \<in> set (db_obs d')"
    and stays: "\<And>x. x \<in> set (db_docs d) \<Longrightarrow> doc_at m path x \<Longrightarrow> x \<in> set (db_docs d')"
    unfolding left_by_walk_def by blast+
  have key: "obs_key ?row = (m, path)" by (simp add: ob)
  have "distinct (map obs_key (db_obs d'))" using ok by (simp add: db_ok_def obs_ok_def)
  from find_unique_key [OF this row] key
  have found: "List.find (\<lambda>x. obs_key x = (m, path)) (db_obs d') = Some ?row" by simp
  with readable have is_file: "\<not> o_is_dir ?row" "AllowPath (rc_filter r) path" "opener path = Opened rs"
    by (simp_all add: ingestible_def filter)
  have epoch: "scan_changed prior (scannedObservation m ob e) = scan_changed prior (scannedObservation m ob 0)"
    "ob_is_dir (scannedObservation m ob e) = o_is_dir ?row"
    "o_dev ?row = ob_dev (scannedObservation m ob 0)" "o_ino ?row = ob_ino (scannedObservation m ob 0)" for prior
    by (simp_all add: observed_row_def obs_params_def scannedObservation_epoch [where e = e])
  from idle is_file(1,2) have same: "\<not> scan_changed (map_option to_observation
      (List.find (\<lambda>x. obs_key x = (m, path)) (db_obs d))) (scannedObservation m ob 0)"
    "List.find (doc_at m path) (db_docs d) \<noteq> None"
    unfolding needs_ingest_def Let_def ob(3,4) epoch(1) [unfolded ob(4)] epoch(2) [unfolded ob(4)] by blast+
  have "case mountpointFor r path of None \<Rightarrow> True | Some mp \<Rightarrow>
      (case opener path of Opened rs \<Rightarrow>
          scan_changed (map_option to_observation (List.find (\<lambda>x. obs_key x = (mp_id mp, path)) (db_obs d)))
            (scannedObservation (mp_id mp) ob 0) \<or>
          List.find (doc_at (mp_id mp) path) (db_docs d) = None \<or>
          holds_bytes d (mp_id mp) ob (hex_encode (pr_sha256 p (read_bytes rs)))
        | _ \<Rightarrow> True)"
    using tell ob(1) unfolding stats_tell_def ob(3) by blast
  with same ob(2,4) is_file(3) have "holds_bytes d m ob (hex_encode (pr_sha256 p (read_bytes rs)))" by auto
  then obtain x c where "x \<in> set (db_docs d)" "c \<in> set (db_cvs d)" "doc_at m path x" "d_current_cv x = Some (cv_id c)"
    "cv_content_hash c = hex_encode (pr_sha256 p (read_bytes rs))" "d_dev x = o_dev ?row" "d_ino x = o_ino ?row"
    by (auto simp: holds_bytes_def ob(3) epoch)
  then show "settled_at d' m path (hex_encode (pr_sha256 p (read_bytes rs)))"
    unfolding settled_at_def cvs using stays row key is_file(1) by blast
qed

section \<open>After a rescan\<close>

text \<open>The paths a committed rescan queued: the ingest requests that are new in the outbox.\<close>

definition newly_queued :: "database \<Rightarrow> database \<Rightarrow> (int \<times> string) list" where
  "newly_queued d d' = concat (map (\<lambda>j. case ji_args j of IngestPathArgs m path _ \<Rightarrow> [(m, path)] | _ \<Rightarrow> [])
     (drop (length (db_outbox d)) (db_outbox d')))"

lemma newly_queued_mem:
  "request (IngestPathArgs m path t) sched \<in> set (drop (length (db_outbox d)) (db_outbox d')) \<Longrightarrow>
     (m, path) \<in> set (newly_queued d d')"
  by (force simp: newly_queued_def request_def)


text \<open>
  While nothing watched, \<open>a.pdf\<close> was left as it was and \<open>b.pdf\<close> was rewritten: the rescan
  queues \<open>b.pdf\<close> alone, and after its job both files are settled.
\<close>

definition rewritten_stat :: "64 word \<Rightarrow> 64 word \<Rightarrow> StatInfo" where
  "rewritten_stat n ino = \<lparr>si_size = n, si_mode = 420, si_ino = ino, si_dev = 1, si_mtime = Some 7000\<rparr>"

definition later_items :: "scan_item list" where
  "later_items = [ScanBatch [(''/d/a.pdf'', Some (rewritten_stat 10 11)), (''/d/s/b.pdf'', Some (rewritten_stat 20 13))]]"

definition later_disk :: "string \<Rightarrow> opened" where
  "later_disk path = sample_bytes (if path = ''/d/a.pdf'' then [CHR 0xAA] else ''zz'') path"

definition rescanned :: world where
  "rescanned = snd (reconcileRoot sample_rec (\<lambda>_. Some later_items) sample_mp (sample_world []))"

definition later_world :: world where
  "later_world = rested (snd (IngestPath_Work sample_proc later_disk 1 ''/d/s/b.pdf'' (rested rescanned)))"

lemma rescanned_links: "no_links (w_db rescanned)"
proof -
  have "map (\<lambda>x. (o_path x, o_ino x)) (db_obs (w_db rescanned)) = [(''/d/a.pdf'', 11), (''/d/s/b.pdf'', 13)]" by code_simp
  then obtain x y where "db_obs (w_db rescanned) = [x, y]" "o_ino x = 11" "o_ino y = 13" by (auto simp: map_eq_Cons_conv)
  then show ?thesis unfolding no_links_def by simp
qed


end
