(* ===== verification/Job_Queue.thy ===== *)
theory Job_Queue
  imports Catch_Up
begin

text \<open>
  The ingest triggers and the uniqueness window of \<open>internal/jobs/jobs.go\<close> on a job queue that
  behaves as River documents it: what the window guarantees for a path that is being written,
  and one way a change slips through it.
\<close>

section \<open>Rows of the queue\<close>

record river_job =
  rj_id :: int
  rj_args :: job_args
  rj_state :: job_state
  rj_attempt :: nat

text \<open>A job that has yet to run, for the first time or again.\<close>

definition waiting :: "river_job \<Rightarrow> bool" where
  "waiting j \<longleftrightarrow> rj_state j \<in> {JobAvailable, JobPending, JobRetryable, JobScheduled}"

definition outstanding :: "river_job \<Rightarrow> bool" where
  "outstanding j \<longleftrightarrow> rj_state j \<in> set stillOutstanding"

lemma outstanding_iff: "outstanding j \<longleftrightarrow> waiting j \<or> rj_state j = JobRunning"
  by (auto simp: outstanding_def waiting_def stillOutstanding_def)

text \<open>
  The row a request collides with under its \<open>UniqueOpts\<close>: the same kind, the same arguments
  where \<open>ByArgs\<close> asks for it, in one of the states of \<open>ByState\<close>.
\<close>

definition duplicates :: "job_insert \<Rightarrow> river_job \<Rightarrow> bool" where
  "duplicates ji j \<longleftrightarrow> Kind (rj_args j) = Kind (ji_args ji) \<and>
     (io_by_args (InsertOpts (ji_args ji)) \<longrightarrow> rj_args j = ji_args ji) \<and>
     rj_state j \<in> set (io_by_state (InsertOpts (ji_args ji)))"

text \<open>
  What River documents of an insertion with \<open>UniqueOpts\<close>: a duplicate is skipped, anything
  else becomes one new row that waits for its first attempt.
\<close>

definition inserts_unique :: "(job_insert \<Rightarrow> river_job list \<Rightarrow> river_job list) \<Rightarrow> bool" where
  "inserts_unique ins \<longleftrightarrow> (\<forall>ji q.
     if \<exists>j \<in> set q. duplicates ji j then ins ji q = q
     else \<exists>j. ins ji q = q @ [j] \<and> rj_args j = ji_args ji \<and> waiting j \<and> rj_attempt j = 0 \<and> rj_id j \<notin> rj_id ` set q)"

text \<open>The requests of a committed transaction.\<close>

definition deliver :: "(job_insert \<Rightarrow> river_job list \<Rightarrow> river_job list) \<Rightarrow> database \<Rightarrow> database \<Rightarrow> river_job list \<Rightarrow> river_job list" where
  "deliver ins d d' q = fold ins (drop (length (db_outbox d)) (db_outbox d')) q"

text \<open>
  The life of a job: an attempt starts, ends well, or fails, and a job that has failed
  \<open>MaxAttempts\<close> times is discarded.
\<close>

inductive queue_step :: "(job_insert \<Rightarrow> river_job list \<Rightarrow> river_job list) \<Rightarrow> river_job list \<Rightarrow> river_job list \<Rightarrow> bool"
  for ins where
  insert: "queue_step ins q (ins ji q)"
| start: "waiting j \<Longrightarrow> queue_step ins (xs @ j # ys)
    (xs @ j\<lparr>rj_state := JobRunning, rj_attempt := Suc (rj_attempt j)\<rparr> # ys)"
| finish: "rj_state j = JobRunning \<Longrightarrow> queue_step ins (xs @ j # ys) (xs @ j\<lparr>rj_state := JobCompleted\<rparr> # ys)"
| fail: "rj_state j = JobRunning \<Longrightarrow> queue_step ins (xs @ j # ys)
    (xs @ j\<lparr>rj_state := if rj_attempt j < io_max_attempts (InsertOpts (rj_args j)) then JobRetryable else JobDiscarded\<rparr> # ys)"

inductive_cases queue_stepE: "queue_step ins q q'"

text \<open>Every kind but the two periodic ones is unique by its arguments, and all by the same window.\<close>

lemma by_state [simp]: "io_by_state (InsertOpts a) = stillOutstanding"
  by (cases a) simp_all

lemma Kind_args: "Kind a = Kind b \<Longrightarrow> \<not> io_by_args (InsertOpts b) \<Longrightarrow> a = b"
  by (cases a; cases b) simp_all

lemma duplicates_iff: "duplicates ji j \<longleftrightarrow> rj_args j = ji_args ji \<and> outstanding j"
  by (auto simp: duplicates_def outstanding_def dest: Kind_args)

lemma insert_cases:
  assumes "inserts_unique ins"
  obtains (skipped) j where "ins ji q = q" "j \<in> set q" "rj_args j = ji_args ji" "outstanding j"
  | (fresh) j where "ins ji q = q @ [j]" "rj_args j = ji_args ji" "waiting j" "rj_attempt j = 0" "rj_id j \<notin> rj_id ` set q"
      "\<And>k. k \<in> set q \<Longrightarrow> rj_args k = ji_args ji \<Longrightarrow> \<not> outstanding k"
proof (cases "\<exists>j \<in> set q. duplicates ji j")
  case True
  then obtain j where "j \<in> set q" "duplicates ji j" by blast
  with assms True show ?thesis unfolding inserts_unique_def duplicates_iff by (metis skipped)
next
  case False
  with assms obtain j where "ins ji q = q @ [j] \<and> rj_args j = ji_args ji \<and> waiting j \<and> rj_attempt j = 0 \<and> rj_id j \<notin> rj_id ` set q"
    unfolding inserts_unique_def by metis
  with False show ?thesis by (intro fresh) (auto simp: duplicates_iff)
qed

section \<open>The invariant of the queue\<close>

text \<open>Identifiers are unique, and so is the outstanding job of each argument.\<close>

definition queue_ok :: "river_job list \<Rightarrow> bool" where
  "queue_ok q \<longleftrightarrow> distinct (map rj_id q) \<and> distinct (map rj_args (filter outstanding q))"

lemma ok_middle:
  "queue_ok (xs @ j # ys) \<Longrightarrow> rj_id j' = rj_id j \<Longrightarrow> rj_args j' = rj_args j \<Longrightarrow> (outstanding j' \<Longrightarrow> outstanding j) \<Longrightarrow>
     queue_ok (xs @ j' # ys)"
  by (auto simp: queue_ok_def split: if_splits)

lemma ok_insert: "inserts_unique ins \<Longrightarrow> queue_ok q \<Longrightarrow> queue_ok (ins ji q)"
  by (erule insert_cases [of ins ji q]) (auto simp: queue_ok_def)

text \<open>A job moves on: it keeps its row, and it runs again or stops only by an attempt of its own.\<close>

definition moves_on :: "river_job \<Rightarrow> river_job \<Rightarrow> bool" where
  "moves_on j j' \<longleftrightarrow> rj_id j' = rj_id j \<and> rj_args j' = rj_args j \<and> rj_attempt j \<le> rj_attempt j' \<and>
     (waiting j \<longrightarrow> waiting j' \<or> rj_attempt j < rj_attempt j')"

lemma moves_on_refl: "moves_on j j"
  by (simp add: moves_on_def)

lemma moves_on_trans: "moves_on j k \<Longrightarrow> moves_on k l \<Longrightarrow> moves_on j l"
  by (auto simp: moves_on_def)

lemma moved_middle:
  "k \<in> set (xs @ j # ys) \<Longrightarrow> moves_on j j' \<Longrightarrow> \<exists>k' \<in> set (xs @ j' # ys). moves_on k k'"
  by (auto intro: moves_on_refl)

lemma queue_step_ok:
  assumes "queue_step ins q q'" "inserts_unique ins" "queue_ok q"
  shows "queue_ok q'" and "k \<in> set q \<Longrightarrow> \<exists>k' \<in> set q'. moves_on k k'"
proof -
  have "queue_ok q' \<and> (\<forall>k \<in> set q. \<exists>k' \<in> set q'. moves_on k k')"
    using assms(1)
  proof (rule queue_stepE)
    fix ji assume q': "q' = ins ji q"
    have "set q \<subseteq> set (ins ji q)" by (rule insert_cases [OF assms(2), of ji q]) auto
    with q' ok_insert [OF assms(2,3)] show ?thesis using moves_on_refl by blast
  next
    fix j xs ys
    assume q: "q = xs @ j # ys" "waiting j"
      "q' = xs @ j\<lparr>rj_state := JobRunning, rj_attempt := Suc (rj_attempt j)\<rparr> # ys" (is "q' = xs @ ?j # ys")
    have "moves_on j ?j" by (simp add: moves_on_def)
    with q moved_middle [of _ xs j ys ?j] ok_middle [of xs j ys ?j] assms(3) show ?thesis
      by (simp add: outstanding_iff)
  next
    fix j xs ys
    assume q: "q = xs @ j # ys" "rj_state j = JobRunning" "q' = xs @ j\<lparr>rj_state := JobCompleted\<rparr> # ys" (is "q' = xs @ ?j # ys")
    have "moves_on j ?j" using q(2) by (simp add: moves_on_def waiting_def)
    with q moved_middle [of _ xs j ys ?j] ok_middle [of xs j ys ?j] assms(3) show ?thesis
      by (simp add: outstanding_iff)
  next
    fix j xs ys
    assume q: "q = xs @ j # ys" "rj_state j = JobRunning" "q' = xs @ j\<lparr>rj_state :=
        if rj_attempt j < io_max_attempts (InsertOpts (rj_args j)) then JobRetryable else JobDiscarded\<rparr> # ys"
      (is "q' = xs @ ?j # ys")
    have "moves_on j ?j" using q(2) by (simp add: moves_on_def waiting_def)
    with q moved_middle [of _ xs j ys ?j] ok_middle [of xs j ys ?j] assms(3) show ?thesis
      by (simp add: outstanding_iff)
  qed
  then show "queue_ok q'" and "k \<in> set q \<Longrightarrow> \<exists>k' \<in> set q'. moves_on k k'" by blast+
qed

lemma queue_steps_ok:
  "(queue_step ins)\<^sup>*\<^sup>* q q' \<Longrightarrow> inserts_unique ins \<Longrightarrow> queue_ok q \<Longrightarrow>
     queue_ok q' \<and> (\<forall>k \<in> set q. \<exists>k' \<in> set q'. moves_on k k')"
proof (induction rule: rtranclp_induct)
  case (step q1 q2)
  then have ok: "queue_ok q1" and IH: "\<forall>k \<in> set q. \<exists>k' \<in> set q1. moves_on k k'" by blast+
  note next_step = queue_step_ok [OF step(2,4) ok]
  have "\<exists>k' \<in> set q2. moves_on k k'" if k: "k \<in> set q" for k
  proof -
    from IH k obtain k1 where k1: "k1 \<in> set q1" "moves_on k k1" by blast
    from next_step(2) [OF k1(1)] moves_on_trans [OF k1(2)] show ?thesis by blast
  qed
  with next_step(1) show ?case by blast
qed (auto intro: moves_on_refl)

section \<open>A write reaches a job\<close>

text \<open>A job with these arguments has started since the queue was \<open>q\<close>, or is still to run.\<close>

definition starts_after :: "river_job list \<Rightarrow> river_job \<Rightarrow> bool" where
  "starts_after q j \<longleftrightarrow> (\<forall>k \<in> set q. rj_id k = rj_id j \<longrightarrow> rj_attempt k < rj_attempt j)"

definition will_read :: "river_job list \<Rightarrow> river_job list \<Rightarrow> job_args \<Rightarrow> bool" where
  "will_read q q' args \<longleftrightarrow> (\<exists>j \<in> set q'. rj_args j = args \<and> (waiting j \<or> starts_after q j))"

definition running :: "river_job list \<Rightarrow> job_args \<Rightarrow> bool" where
  "running q args \<longleftrightarrow> (\<exists>j \<in> set q. rj_args j = args \<and> rj_state j = JobRunning)"

lemma waiting_will_read:
  assumes "queue_ok q" "j \<in> set q" "waiting j" "(queue_step ins)\<^sup>*\<^sup>* q q'" "inserts_unique ins"
  shows "will_read q q' (rj_args j)"
proof -
  from queue_steps_ok [OF assms(4,5,1)] assms(2) obtain k where k: "k \<in> set q'" "moves_on j k" by blast
  have "starts_after q k" if "rj_attempt j < rj_attempt k"
  proof -
    have "distinct (map rj_id q)" using assms(1) by (simp add: queue_ok_def)
    from distinct_map_inj [OF this _ assms(2)] have "l = j" if "l \<in> set q" "rj_id l = rj_id k" for l
      using that k(2) by (auto simp: moves_on_def)
    with that show ?thesis by (auto simp: starts_after_def)
  qed
  with k assms(3) show ?thesis by (auto simp: will_read_def moves_on_def)
qed

text \<open>After a request, either a job with its arguments waits, or the request met one that runs.\<close>

lemma requested:
  "inserts_unique ins \<Longrightarrow> (\<exists>j \<in> set (ins ji q). rj_args j = ji_args ji \<and> waiting j) \<or> running q (ji_args ji)"
  by (erule insert_cases [of ins ji q]) (auto simp: running_def outstanding_iff)

lemma skips_running: "inserts_unique ins \<Longrightarrow> running q (ji_args ji) \<Longrightarrow> ins ji q = q"
  by (erule insert_cases [of ins ji q]) (auto simp: running_def outstanding_iff)

text \<open>An event that reports content has been applied.\<close>

definition reported :: "Reconciler \<Rightarrow> FileEvent \<Rightarrow> Mountpoint \<Rightarrow> database \<Rightarrow> database \<Rightarrow> bool" where
  "reported r ev mp d d' \<longleftrightarrow> content_event ev \<and> mountpointFor r (ev_path ev) = Some mp \<and>
     AllowPath (rc_filter r) (ev_path ev) \<and> (\<exists>w s wm w1. at_state w d s \<and> db_ok d s \<and> known r w \<and>
       db_watermark d = Some wm \<and> wm < event_seq ev \<and> ApplyEvent r ev w = (Inr (), w1) \<and> d' = w_db w1)"

definition trigger_name :: "FileEvent \<Rightarrow> string" where
  "trigger_name ev = (if ev_kind ev = EvCloseWrite then TriggerSettled else TriggerDebounced)"

lemma reportedI:
  "content_event ev \<Longrightarrow> mountpointFor r (ev_path ev) = Some mp \<Longrightarrow> AllowPath (rc_filter r) (ev_path ev) \<Longrightarrow>
     at_state w d s \<Longrightarrow> db_ok d s \<Longrightarrow> known r w \<Longrightarrow> db_watermark d = Some wm \<Longrightarrow> wm < event_seq ev \<Longrightarrow>
     ApplyEvent r ev w = (Inr (), w1) \<Longrightarrow> d' = w_db w1 \<Longrightarrow> reported r ev mp d d'"
  unfolding reported_def by blast

lemma reported_request:
  assumes "reported r ev mp d d'" "eq_bound (rc_enqueuer r)"
  obtains ji where "deliver ins d d' q = ins ji q" "ji_args ji = IngestPathArgs (mp_id mp) (ev_path ev) (trigger_name ev)"
proof -
  from assms(1) obtain w s wm w1 where
    "at_state w d s" "db_ok d s" "known r w" "content_event ev" "mountpointFor r (ev_path ev) = Some mp"
    "AllowPath (rc_filter r) (ev_path ev)" "db_watermark d = Some wm" "wm < event_seq ev"
    "ApplyEvent r ev w = (Inr (), w1)" "d' = w_db w1" by (auto simp: reported_def)
  from event_turn [OF this(1-3) assms(2) this(4-9)] this(10) obtain t where
    "db_outbox d' = db_outbox d @ [ingest_request t (rc_enqueuer r) (mp_id mp) (ev_path ev) (ingest_trigger ev)]" by metis
  then show thesis
    by (intro that [of "ingest_request t (rc_enqueuer r) (mp_id mp) (ev_path ev) (ingest_trigger ev)"])
      (simp_all add: deliver_def ingest_request_def request_def ingest_trigger_def trigger_name_def)
qed

text \<open>
  C19: A finished write reaches a job.  A write is reported by a modify event and then by the
  close of its handle, and whatever the queue does before, between and after, a job of
  the path has started since the modify was queued or since the close was, or is still to
  run.  The one exception is the one the two triggers are there to make rare: at the modify the
  debounced job was running, and at the close the settled one was.
\<close>

theorem write_reaches_a_job:
  assumes "inserts_unique ins" "queue_ok q0" "eq_bound (rc_enqueuer r)"
    and "reported r modify mp d1 d1'" "ev_kind modify = EvModify" "q1 = deliver ins d1 d1' q0"
    and "(queue_step ins)\<^sup>*\<^sup>* q1 q2"
    and "reported r close mp d2 d2'" "ev_kind close = EvCloseWrite" "q3 = deliver ins d2 d2' q2"
    and "ev_path close = ev_path modify" "(queue_step ins)\<^sup>*\<^sup>* q3 q4"
  shows "will_read q1 q4 (IngestPathArgs (mp_id mp) (ev_path modify) TriggerDebounced) \<or>
    will_read q3 q4 (IngestPathArgs (mp_id mp) (ev_path modify) TriggerSettled) \<or>
    running q0 (IngestPathArgs (mp_id mp) (ev_path modify) TriggerDebounced) \<and>
    running q2 (IngestPathArgs (mp_id mp) (ev_path modify) TriggerSettled)"
proof -
  obtain m where m: "q1 = ins m q0" "ji_args m = IngestPathArgs (mp_id mp) (ev_path modify) TriggerDebounced"
    by (rule reported_request [OF assms(4,3), of ins q0]) (simp add: assms(5,6) trigger_name_def)
  obtain c where c: "q3 = ins c q2" "ji_args c = IngestPathArgs (mp_id mp) (ev_path modify) TriggerSettled"
    by (rule reported_request [OF assms(8,3), of ins q2]) (simp add: assms(9-11) trigger_name_def)
  have ok1: "queue_ok q1" using ok_insert [OF assms(1,2)] m(1) by simp
  then have ok3: "queue_ok q3" using queue_steps_ok [OF assms(7,1)] ok_insert [OF assms(1)] c(1) by blast
  have "queue_step ins q2 q3" unfolding c(1) by (rule queue_step.insert)
  with assms(7,12) have all: "(queue_step ins)\<^sup>*\<^sup>* q1 q4" by (meson rtranclp.rtrancl_into_rtrancl rtranclp_trans)
  from waiting_will_read [OF ok1 _ _ all assms(1)] waiting_will_read [OF ok3 _ _ assms(12,1)]
    requested [OF assms(1), of m q0] requested [OF assms(1), of c q2]
  show ?thesis unfolding m(2) c(2) c(1) [symmetric] m(1) [symmetric] by metis
qed

text \<open>A queue that keeps River's promise.\<close>

definition river_insert :: "job_insert \<Rightarrow> river_job list \<Rightarrow> river_job list" where
  "river_insert ji q = (if list_ex (duplicates ji) q then q
     else q @ [\<lparr>rj_id = fold max (map rj_id q) 0 + 1, rj_args = ji_args ji,
       rj_state = (if ji_scheduled_at ji = None then JobAvailable else JobScheduled), rj_attempt = 0\<rparr>])"

lemma fold_max_ge: "(x :: int) \<in> set xs \<Longrightarrow> x \<le> fold max xs 0"
  using Max.set_eq_fold [of 0 xs] by (metis List.finite_set Max_ge list.set_intros(2))

lemma river_insert_unique: "inserts_unique river_insert"
proof -
  have "fold max (map rj_id q) 0 + 1 \<notin> rj_id ` set q" for q :: "river_job list"
  proof
    assume "fold max (map rj_id q) 0 + 1 \<in> rj_id ` set q"
    then have "fold max (map rj_id q) 0 + 1 \<in> set (map rj_id q)" by simp
    from fold_max_ge [OF this] show False by simp
  qed
  then show ?thesis by (simp add: inserts_unique_def river_insert_def list_ex_iff waiting_def)
qed

text \<open>
  \<open>a.pdf\<close> is written while its settled job runs: the close is swallowed, but the modify is not,
  and the job it left starts afterwards.
\<close>

definition written :: "64 word \<Rightarrow> EventKind \<Rightarrow> FileEvent" where
  "written seq kind = sample_event seq kind ''/d/a.pdf'' [] False"

definition modified_world :: world where
  "modified_world = rested (snd (ApplyEvent sample_rec (written 6 EvModify) (sample_world [])))"

definition closed_world :: world where
  "closed_world = snd (ApplyEvent sample_rec (written 7 EvCloseWrite) modified_world)"

definition busy_queue :: "river_job list" where
  "busy_queue = [\<lparr>rj_id = 1, rj_args = IngestPathArgs 1 ''/d/a.pdf'' TriggerSettled, rj_state = JobRunning, rj_attempt = 1\<rparr>]"

definition deferred_job :: "job_state \<Rightarrow> nat \<Rightarrow> river_job" where
  "deferred_job st n = \<lparr>rj_id = 2, rj_args = IngestPathArgs 1 ''/d/a.pdf'' TriggerDebounced, rj_state = st, rj_attempt = n\<rparr>"

lemma write_reaches_a_job_witness:
  "deliver river_insert sample_db (w_db modified_world) busy_queue = busy_queue @ [deferred_job JobScheduled 0] \<and>
   deliver river_insert (w_db modified_world) (w_db closed_world) (busy_queue @ [deferred_job JobScheduled 0]) =
     busy_queue @ [deferred_job JobScheduled 0] \<and>
   (will_read (busy_queue @ [deferred_job JobScheduled 0]) (busy_queue @ [deferred_job JobRunning 1])
      (IngestPathArgs 1 ''/d/a.pdf'' TriggerDebounced) \<or>
    will_read (busy_queue @ [deferred_job JobScheduled 0]) (busy_queue @ [deferred_job JobRunning 1])
      (IngestPathArgs 1 ''/d/a.pdf'' TriggerSettled))"
proof -
  let ?q = "busy_queue @ [deferred_job JobScheduled 0]" and ?q' = "busy_queue @ [deferred_job JobRunning 1]"
  have q1: "deliver river_insert sample_db (w_db modified_world) busy_queue = ?q"
    and q3: "deliver river_insert (w_db modified_world) (w_db closed_world) ?q = ?q" by code_simp+
  have ok: "queue_ok busy_queue" by (simp add: queue_ok_def busy_queue_def outstanding_iff)
  have ev: "content_event (written 6 EvModify)" "content_event (written 7 EvCloseWrite)"
    "5 < event_seq (written 6 EvModify)" "6 < event_seq (written 7 EvCloseWrite)"
    "mountpointFor sample_rec (ev_path (written 6 EvModify)) = Some sample_mp"
    "mountpointFor sample_rec (ev_path (written 7 EvCloseWrite)) = Some sample_mp"
    "AllowPath (rc_filter sample_rec) (ev_path (written 6 EvModify))"
    "AllowPath (rc_filter sample_rec) (ev_path (written 7 EvCloseWrite))"
    "db_watermark sample_db = Some 5" "db_watermark (w_db modified_world) = Some 6" by code_simp+
  have fields: "ev_path (written n k) = ''/d/a.pdf''" "ev_kind (written n k) = k" for n k
    by (simp_all add: written_def sample_event_def)
  let ?e1 = "ApplyEvent sample_rec (written 6 EvModify) (sample_world [])"
  let ?e2 = "ApplyEvent sample_rec (written 7 EvCloseWrite) modified_world"
  have "fst ?e1 = Inr ()" "fst ?e2 = Inr ()" by code_simp+
  then have runs: "?e1 = (Inr (), snd ?e1)" "?e2 = (Inr (), closed_world)"
    unfolding closed_world_def by (metis prod.collapse)+
  have state: "at_state (sample_world []) sample_db sample_seqs" by (simp add: at_state_def)
  have state': "at_state modified_world (w_db modified_world) (w_seqs (snd ?e1))"
    by (simp add: modified_world_def rested_def at_state_def calm_def)
  have "holds_from db_ok 0 (sample_world [])" using sample_holds [of "[]"] by (simp add: holds_from_def sample_seqs_def)
  from keepsD [OF schema.keeps_ApplyEvent [OF order_refl] runs(1) this]
  have ok': "db_ok (w_db modified_world) (w_seqs (snd ?e1))" by (simp add: holds_from_def holds_def modified_world_def rested_def)
  have "map m_id (db_mountpoints (w_db modified_world)) = [1]" by code_simp
  then have "1 \<in> m_id ` set (db_mountpoints (w_db modified_world))" by (metis list.set_intros(1) list.set_map)
  then have known: "known sample_rec modified_world" by (simp add: known_def)
  have r1: "reported sample_rec (written 6 EvModify) sample_mp sample_db (w_db modified_world)"
    by (rule reportedI [OF ev(1,5,7) state sample_db_ok sample_known ev(9,3) runs(1)]) (simp add: modified_world_def rested_def)
  have r2: "reported sample_rec (written 7 EvCloseWrite) sample_mp (w_db modified_world) (w_db closed_world)"
    by (rule reportedI [OF ev(2,6,8) state' ok' known ev(10,4) runs(2) refl])
  have "queue_step river_insert ?q ?q'"
    using queue_step.start [of "deferred_job JobScheduled 0" river_insert busy_queue "[]"]
    by (simp add: deferred_job_def waiting_def)
  then have steps: "(queue_step river_insert)\<^sup>*\<^sup>* ?q ?q'" by blast
  from write_reaches_a_job [OF river_insert_unique ok sample_rec_fields(1) r1 fields(2) q1 [symmetric] rtranclp.rtrancl_refl
      r2 fields(2) q3 [symmetric] _ steps]
  have "will_read ?q ?q' (IngestPathArgs 1 ''/d/a.pdf'' TriggerDebounced) \<or>
      will_read ?q ?q' (IngestPathArgs 1 ''/d/a.pdf'' TriggerSettled)"
    by (simp add: fields) (simp add: running_def busy_queue_def)
  with q1 q3 show ?thesis by blast
qed

section \<open>A file replaced while its job runs\<close>

lemma ApplyEvent_new_run:
  assumes "quiet w" "db_watermark (w_db w) = Some wm" "wm < event_seq ev"
    and "applyKind r ev (w\<lparr>w_base := w_db w\<rparr>) = (Inr (), u)" "quiet u"
  shows "\<exists>w'. ApplyEvent r ev w = (Inr (), w') \<and> w_db w' = w_db (put_watermark u (event_seq ev))"
proof -
  let ?b = "w\<lparr>w_base := w_db w\<rparr>"
  let ?fn = "bind tx_Watermark (\<lambda>watermark. if event_seq ev \<le> watermark then ret ()
     else andThen (applyKind r ev) (tx_SetWatermark (event_seq ev)))"
  have b: "quiet ?b" using assms(1) by simp
  have "?fn ?b = andThen (applyKind r ev) (tx_SetWatermark (event_seq ev)) ?b"
    using assms(2,3) by (simp add: bind_run [where m = tx_Watermark, OF Watermark_run [OF b]])
  also have "\<dots> = (Inr (), put_watermark u (event_seq ev))"
    by (simp add: andThen_run [where m = "applyKind r ev", OF assms(4)] SetWatermark_run assms(5))
  finally have run: "?fn ?b = (Inr (), put_watermark u (event_seq ev))" .
  have "quiet (put_watermark u (event_seq ev))" using assms(5) by (simp add: put_watermark_def quiet_def)
  from InTx_quiet_commit [where fn = ?fn, OF assms(1) run this] show ?thesis by (simp add: ApplyEvent_def)
qed

text \<open>An unindexed file is renamed over an indexed one.\<close>

definition replaces :: "Reconciler \<Rightarrow> FileEvent \<Rightarrow> Mountpoint \<Rightarrow> StatInfo \<Rightarrow> database \<Rightarrow> bool" where
  "replaces r ev mp st d \<longleftrightarrow> ev_kind ev = EvMove \<and> \<not> ev_is_dir ev \<and> ev_stat ev = Some st \<and>
     map_option mp_id (mountpointFor r (ev_old_path ev)) = Some (mp_id mp) \<and> mountpointFor r (ev_path ev) = Some mp \<and>
     AllowPath (rc_filter r) (ev_path ev) \<and> List.find (doc_at (mp_id mp) (ev_old_path ev)) (db_docs d) = None \<and>
     (case db_watermark d of None \<Rightarrow> False | Some wm \<Rightarrow> wm < event_seq ev)"

lemma replaced_effect:
  assumes "at_state w d s" "known r w" "eq_bound (rc_enqueuer r)" "replaces r ev mp st d" "ApplyEvent r ev w = (Inr (), w1)"
  shows "w_db w1 = d\<lparr>db_obs := renamed_obs d (mp_id mp) (ev_old_path ev) (ev_path ev) (Some st),
    db_outbox := db_outbox d @ [request (IngestPathArgs (mp_id mp) (ev_path ev) TriggerSettled) None],
    db_watermark := map_option (\<lambda>v. max v (event_seq ev)) (db_watermark d)\<rparr>"
proof -
  have w: "calm w" "w_db w = d" using assms(1) by (simp_all add: at_state_def)
  let ?q = "w\<lparr>w_script := []\<rparr>" and ?b = "w\<lparr>w_script := [], w_base := d\<rparr>"
  have b: "quiet ?q" "quiet ?b" "?q\<lparr>w_base := w_db ?q\<rparr> = ?b" by (simp_all add: quiet_def w)
  from assms(4) obtain old wm where ev: "ev_kind ev = EvMove" "\<not> ev_is_dir ev" "ev_stat ev = Some st"
    "mountpointFor r (ev_old_path ev) = Some old" "mp_id old = mp_id mp" "mountpointFor r (ev_path ev) = Some mp"
    "AllowPath (rc_filter r) (ev_path ev)" "List.find (doc_at (mp_id mp) (ev_old_path ev)) (db_docs d) = None"
    "db_watermark d = Some wm" "wm < event_seq ev" by (auto simp: replaces_def split: option.splits)
  have mp: "mp_id mp \<in> m_id ` set (db_mountpoints (w_db ?b))" using known_mountpoint [OF assms(2) ev(6)] by (simp add: w)
  let ?u = "put_jobs (put_obs ?b (renamed_obs d (mp_id mp) (ev_old_path ev) (ev_path ev) (Some st)))
    [ingest_request (w_clock w) (rc_enqueuer r) (mp_id mp) (ev_path ev) Settled]"
  have "applyKind r ev ?b = (Inr (), ?u)"
    using ev moveFile_none_run [OF b(2) assms(3) mp, of "ev_old_path ev" "ev_path ev" "Some st"]
    by (simp add: applyKind_def applyMove_def w)
  from ApplyEvent_new_run [OF b(1), of wm ev r ?u] this ev(9,10) b obtain w0 where
    w0: "ApplyEvent r ev ?q = (Inr (), w0)" "w_db w0 = w_db (put_watermark ?u (event_seq ev))" by (auto simp: w)
  from undisturbed(2) [OF faithful_ApplyEvent w(1) assms(5) _ w0(1)] w0(2)
  show ?thesis by (simp add: put_watermark_def ingest_request_def w)
qed


text \<open>\<open>a.pdf\<close> is replaced by a file with inode 99 while the job that read inode 11 is running.\<close>

definition replacing_stat :: StatInfo where
  "replacing_stat = \<lparr>si_size = 20, si_mode = 420, si_ino = 99, si_dev = 1, si_mtime = Some 9000\<rparr>"

definition replacing_event :: FileEvent where
  "replacing_event = (sample_event 6 EvMove ''/d/a.pdf'' ''/d/a.tmp'' False)\<lparr>ev_stat := Some replacing_stat\<rparr>"

definition replaced_world :: world where
  "replaced_world = snd (ApplyEvent sample_rec replacing_event (sample_world []))"


end
