(* ===== verification/Watcher.thy ===== *)
theory Watcher
  imports Clients Reconciler_Correct
begin

text \<open>
  The adapter between the watcher daemon's client and the reconciler (\<open>internal/ingest/watcher.go\<close>).
  The client is a third-party package, here the answers it gives: the stream from a sequence
  number, the walk of a root, the daemon's status.
\<close>

record daemon_status =
  ds_roots :: "string list"
  ds_ring_head :: "64 word"

record daemon_client =
  dc_subscribe :: "64 word \<Rightarrow> stream_item list option"
  dc_scan :: "string \<Rightarrow> scan_item list option"
  dc_status :: "daemon_status option"
  dc_close :: bool

record DaemonWatcher =
  dw_client :: daemon_client

definition Watcher_Close :: "DaemonWatcher \<Rightarrow> bool" where
  "Watcher_Close w = dc_close (dw_client w)"

definition Watcher_Subscribe :: "DaemonWatcher \<Rightarrow> 64 word \<Rightarrow> stream_item list option" where
  "Watcher_Subscribe w fromSeq = dc_subscribe (dw_client w) fromSeq"

definition Watcher_Scan :: "DaemonWatcher \<Rightarrow> string \<Rightarrow> scan_item list option" where
  "Watcher_Scan w dir = dc_scan (dw_client w) dir"

definition Watcher_Status :: "DaemonWatcher \<Rightarrow> daemon_status option" where
  "Watcher_Status w = dc_status (dw_client w)"

text \<open>What one round of the reconciler sees of the daemon through the adapter.\<close>

definition watched :: "DaemonWatcher \<Rightarrow> watch" where
  "watched w = \<lparr>wt_roots = map_option ds_roots (Watcher_Status w), wt_head = map_option ds_ring_head (Watcher_Status w),
     wt_scans = Watcher_Scan w, wt_stream = Watcher_Subscribe w\<rparr>"

text \<open>
  The dial is lazy: a daemon that is not up yet is noticed by the first call, which ends the
  round with an error and leaves the database as it was, so the next round starts over.
\<close>

definition unreachable :: "DaemonWatcher \<Rightarrow> bool" where
  "unreachable w \<longleftrightarrow> dc_status (dw_client w) = None \<and> (\<forall>n. dc_subscribe (dw_client w) n = None)"

lemma round_without_daemon:
  assumes "calm w" "unreachable dw" "runOnce r (watched dw) w = (res, w')"
  shows "(\<exists>e. res = Inl e) \<and> w_db w' = w_db w"
proof -
  obtain r1 w1 where read: "InTx tx_Watermark w = (r1, w1)" by fastforce
  have "w_db w1 = w_db w"
  proof (cases r1)
    case (Inl e)
    have "confined tx_Watermark" by (intro keeps_intros)
    from InTx_rollback_calm [OF this read [unfolded Inl] assms(1)] show ?thesis .
  next
    case (Inr v)
    from InTx_commit_calm [OF read [unfolded Inr] assms(1)] obtain u u' where
      u: "tx_Watermark u = (Inr v, u')" "w_db u = w_db w" "calm u" and
      commit: "calm u' \<Longrightarrow> w_db w1 = w_db u'" by metis
    from tx_Watermark_calm [OF u(1,3)] u(2) commit show ?thesis by simp
  qed
  with assms(2,3) read show ?thesis
    by (cases r1) (auto simp: runOnce_def bind_def watched_def unreachable_def Watcher_Status_def Watcher_Subscribe_def
        ringHead_def subscribe_def fail_def split: if_splits)
qed

end
