(* ===== verification/Commands.thy ===== *)
theory Commands
  imports Clients Migrate_Correct
begin

text \<open>
  The migration command from its arguments to its exit status: \<open>cmd/migrate/main.go\<close> with the
  standard library's \<open>flag\<close>, and the pool \<open>migratecli.Run\<close> opens.  Its dry run is the readiness
  check of a deployment.
\<close>

section \<open>The flags\<close>

definition no_options :: Options where
  "no_options = \<lparr>opt_dry_run = False, opt_status = False\<rparr>"

text \<open>\<open>strconv.ParseBool\<close>.\<close>

definition ParseBool :: "string \<Rightarrow> bool option" where
  "ParseBool s =
     (if s \<in> {''1'', ''t'', ''T'', ''true'', ''TRUE'', ''True''} then Some True
      else if s \<in> {''0'', ''f'', ''F'', ''false'', ''FALSE'', ''False''} then Some False
      else None)"

text \<open>A flag's name and, after an equals sign that is not its first character, its value.\<close>

definition split_flag :: "string \<Rightarrow> string \<times> string option" where
  "split_flag s =
     (let n = takeWhile (\<lambda>c. c \<noteq> CHR ''='') (tl s) in
      (take 1 s @ n, if length (tl s) = length n then None else Some (drop (length n + 1) (tl s))))"

text \<open>\<open>flag.ExitOnError\<close>: 0 after asking for help, 2 after anything that cannot be parsed.\<close>

definition set_flag :: "string \<Rightarrow> string option \<Rightarrow> Options \<Rightarrow> int + Options" where
  "set_flag name v opts =
     (if name = ''dry-run'' \<or> name = ''status'' then
        (case (case v of None \<Rightarrow> Some True | Some s \<Rightarrow> ParseBool s) of
           None \<Rightarrow> Inl 2
         | Some b \<Rightarrow> Inr (if name = ''status'' then opts\<lparr>opt_status := b\<rparr> else opts\<lparr>opt_dry_run := b\<rparr>))
      else if name = ''help'' \<or> name = ''h'' then Inl 0 else Inl 2)"

fun flag_parse :: "string list \<Rightarrow> Options \<Rightarrow> int + Options" where
  "flag_parse [] opts = Inr opts"
| "flag_parse (s # args) opts =
     (if length s < 2 \<or> hd s \<noteq> CHR ''-'' \<or> s = ''--'' then Inr opts
      else let name = drop (if s ! 1 = CHR ''-'' then 2 else 1) s in
        if name = [] \<or> hd name = CHR ''-'' \<or> hd name = CHR ''='' then Inl 2
        else case split_flag name of (n, v) \<Rightarrow>
          (case set_flag n v opts of Inl st \<Rightarrow> Inl st | Inr opts' \<Rightarrow> flag_parse args opts'))"

section \<open>The command\<close>

text \<open>The pool of the command, which pings the server before it is used.\<close>

definition migrate_openPool :: "pool_env \<Rightarrow> database_config \<Rightarrow> 's mig_db \<Rightarrow> (start_error + pool) \<times> 's mig_db" where
  "migrate_openPool pe cfg w =
     (case openPool pe cfg of
        Inl e \<Rightarrow> (Inl e, w)
      | Inr pool \<Rightarrow> (case next_call w of (ok, w) \<Rightarrow> (if ok then Inr pool else Inl ErrDatabasePing, w)))"

definition migrate_main :: "env_parse \<Rightarrow> environment \<Rightarrow> pool_env \<Rightarrow> 's sql_engine \<Rightarrow> (string \<Rightarrow> string) \<Rightarrow>
    dir_entry list \<Rightarrow> string list \<Rightarrow> 's mig_db \<Rightarrow> int \<times> string list \<times> 's mig_db" where
  "migrate_main parse process pe eng sha entries args w =
     (case flag_parse args no_options of
        Inl st \<Rightarrow> (st, [], w)
      | Inr opts \<Rightarrow>
          (case Load parse process of
             Inl e \<Rightarrow> (1, [], w)
           | Inr cfg \<Rightarrow>
               (case migrate_openPool pe (cf_database cfg) w of
                  (Inl e, w) \<Rightarrow> (1, [], w)
                | (Inr _, w) \<Rightarrow>
                    (case migrate_run eng sha entries opts w of
                       ((lines, e), w) \<Rightarrow> (if e = None then 0 else 1, lines, w)))))"

section \<open>A migrated database\<close>

lemma loaded_distinct:
  assumes "loadMigrations sha entries = Inr ms"
  shows "distinct (map mg_version ms)"
proof -
  obtain ns where "load_entries sha entries [] = Inr ns" "ms = sort_key mg_version ns"
    using assms by (auto simp: loadMigrations_def split: sum.splits)
  moreover from load_entries_result [OF this(1)] have "distinct (map mg_version ns)" by blast
  ultimately show ?thesis by (simp add: distinct_map)
qed

text \<open>What a successful run leaves: nothing pending, nothing edited, River's schema current.\<close>

definition current :: "'s sql_engine \<Rightarrow> Migration list \<Rightarrow> 's mig_db \<Rightarrow> bool" where
  "current eng migs w \<longleftrightarrow> pending (recorded (rows_of w)) migs = [] \<and>
     \<not> list_ex (drifted (recorded (rows_of w))) migs \<and> sq_river_ok eng (md_schema w)"

lemma recorded_own:
  assumes "distinct (map mg_version migs)" "pending (recorded rows) migs = done" "m \<in> set migs"
    and "\<not> drifted (recorded rows) m"
  shows "\<not> drifted (recorded (rows @ map row_of done)) m"
proof (cases "recorded rows (mg_version m)")
  case None
  with assms(2,3) have "m \<in> set done" by (auto simp: pending_def)
  moreover have "distinct (map fst (map (\<lambda>m. (mg_version m, mg_checksum m)) done))"
    using assms(1,2) by (auto simp: comp_def pending_def intro: distinct_map_filter)
  ultimately have "map_of (map (\<lambda>m. (mg_version m, mg_checksum m)) done) (mg_version m) = Some (mg_checksum m)"
    by (intro map_of_is_SomeI) auto
  with None show ?thesis by (simp add: drifted_def recorded_append)
next
  case (Some c)
  with assms(4) show ?thesis by (simp add: drifted_def recorded_append)
qed

lemma Up_current:
  assumes "river_laws eng" "distinct (map mg_version migs)" "Up eng migs w = ((run, None), w')"
  shows "current eng migs w'"
proof -
  from Up_effect [OF assms(3)] obtain s where s: "sq_river_up eng (md_schema w) = Some s"
    "advanced eng migs (rows_of w) s w' run None" by blast
  from s(2) obtain new where new: "pending (recorded (rows_of w)) migs = new"
    "rows_of w' = rows_of w @ map row_of new" "exec_all eng s new = Some (md_schema w')"
    "\<not> list_ex (drifted (recorded (rows_of w))) migs" by (auto simp: advanced_def)
  have "pending (recorded (rows_of w')) migs = []"
    using pending_after [of migs "rows_of w" new "[]"] assms(2) new(1,2) by simp
  moreover have "\<not> list_ex (drifted (recorded (rows_of w'))) migs"
    using recorded_own [OF assms(2) new(1)] new(2,4) by (auto simp: list_ex_iff)
  moreover have "sq_river_ok eng (md_schema w')"
    using exec_all_river [OF assms(1) new(3)] assms(1) s(1) by (auto simp: river_laws_def)
  ultimately show ?thesis by (simp add: current_def)
qed

lemma current_faults [simp]: "current eng migs (w\<lparr>md_faults := fs\<rparr>) = current eng migs w"
  by (simp add: current_def rows_of_def)

lemma report_current:
  assumes "current eng migs w" "md_faults w = []"
  shows "\<exists>lines. report eng migs True w = ((lines, None), w)"
  using report_free [OF assms(2), of eng migs] assms(1) by (auto simp: current_def)

lemma Up_again:
  assumes "river_laws eng" "distinct (map mg_version migs)" "current eng migs w" "md_faults w = []"
  shows "\<exists>w'. Up eng migs w = (([], None), w') \<and> rows_of w' = rows_of w \<and> md_schema w' = md_schema w"
proof -
  have ok: "sq_river_up eng (md_schema w) = Some (md_schema w)"
    using assms(1,3) by (auto simp: current_def river_laws_def)
  have "find (drifted (recorded (rows_of w))) migs = None"
    using assms(3) by (auto simp: current_def list_ex_iff find_None_iff)
  with Up_free [OF assms(4) ok _ assms(2), of "md_schema w"] assms(3)
  obtain w' where up: "Up eng migs w = (([], None), w')"
    by (cases "Up eng migs w") (auto simp: current_def)
  from Up_effect [OF up] ok assms(3) show ?thesis
    by (auto simp: up advanced_def current_def)
qed

lemma openPool_again:
  "migrate_openPool pe cfg w = (Inr p, w1) \<Longrightarrow> md_faults w2 = [] \<Longrightarrow> migrate_openPool pe cfg w2 = (Inr p, w2)"
  by (auto simp: migrate_openPool_def next_call_free split: sum.splits prod.splits if_splits)

text \<open>
  C17: A database the migration command left with exit status zero is ready: whatever failed in
  earlier runs, the readiness check (\<open>-dry-run\<close>, however it is spelled) then exits with zero and
  writes nothing, and running the command again reports that the schema is up to date and changes
  neither the schema nor the record.
\<close>

theorem migrated_database_is_ready:
  assumes "river_laws eng"
    and "flag_parse args no_options = Inr opts" "\<not> opt_dry_run opts" "\<not> opt_status opts"
    and "flag_parse dry_args no_options = Inr dry" "opt_dry_run dry"
    and "migrate_main parse process pe eng sha entries args w = (0, lines, w1)"
    and "w2 = w1\<lparr>md_faults := []\<rparr>"
  shows "\<exists>plan w3. migrate_main parse process pe eng sha entries dry_args w2 = (0, plan, w2) \<and>
    migrate_main parse process pe eng sha entries args w2 = (0, [''schema up to date''], w3) \<and>
    rows_of w3 = rows_of w2 \<and> md_schema w3 = md_schema w2"
proof -
  from assms(2,7) obtain cfg p w0 e where run: "Load parse process = Inr cfg"
    "migrate_openPool pe (cf_database cfg) w = (Inr p, w0)" "migrate_run eng sha entries opts w0 = ((lines, None), w1)"
    by (auto simp: migrate_main_def split: sum.splits prod.splits if_splits)
  from run(3) assms(3,4) obtain migs versions where migs: "loadMigrations sha entries = Inr migs"
    "Up eng migs w0 = ((versions, None), w1)"
    by (auto simp: migrate_run_def NewMigrator_def split: sum.splits prod.splits option.splits if_splits)
  note distinct = loaded_distinct [OF migs(1)]
  have current: "current eng migs w2" "md_faults w2 = []"
    using Up_current [OF assms(1) distinct migs(2)] by (simp_all add: assms(8))
  note pool = openPool_again [OF run(2) current(2)]
  from report_current [OF current] obtain plan where "report eng migs True w2 = ((plan, None), w2)" by blast
  moreover from Up_again [OF assms(1) distinct current] obtain w3 where "Up eng migs w2 = (([], None), w3)"
    "rows_of w3 = rows_of w2" "md_schema w3 = md_schema w2" by blast
  ultimately show ?thesis
    using assms(2-6) run(1) pool migs(1)
    by (simp add: migrate_main_def migrate_run_def NewMigrator_def)
qed

text \<open>A run that a dropped connection interrupted, resumed: then the check passes.\<close>

definition migrate_sample :: "string list \<Rightarrow> (bool \<times> string list) mig_db \<Rightarrow> int \<times> string list \<times> (bool \<times> string list) mig_db" where
  "migrate_sample = migrate_main plain_parse [''DATABASE_URL'' \<mapsto> ''postgres:///h'']
     \<lparr>pe_parse = (\<lambda>_. Some 4), pe_connect = True\<rparr> sample_engine (take 1) sample_entries"

definition resumed_db :: "(bool \<times> string list) mig_db" where
  "resumed_db = \<lparr>md_schema = (True, [''A'', ''B'']), md_versions = Some [(9, ''a_a'', ''41''), (10, ''b'', ''42'')],
     md_locked = False, md_faults = []\<rparr>"

lemma migrated_database_is_ready_witness:
  "fst (migrate_sample [] (fresh_mig_db dropped_commit)) = 1 \<and>
   migrate_sample [] ((snd (snd (migrate_sample [] (fresh_mig_db dropped_commit))))\<lparr>md_faults := []\<rparr>) =
     (0, [''applied 10''], resumed_db) \<and>
   fst (migrate_sample [''--dry-run=1'', ''x''] resumed_db) = 0"
proof -
  let ?w0 = "(snd (snd (migrate_sample [] (fresh_mig_db dropped_commit))))\<lparr>md_faults := []\<rparr>"
  have first: "fst (migrate_sample [] (fresh_mig_db dropped_commit)) = 1" by code_simp
  have second: "migrate_sample [] ?w0 = (0, [''applied 10''], resumed_db)" by code_simp
  have flags: "flag_parse [] no_options = Inr no_options" "\<not> opt_dry_run no_options" "\<not> opt_status no_options"
    "flag_parse [''--dry-run=1'', ''x''] no_options = Inr \<lparr>opt_dry_run = True, opt_status = False\<rparr>"
    by code_simp+
  have "resumed_db = resumed_db\<lparr>md_faults := []\<rparr>" by (simp add: resumed_db_def)
  from migrated_database_is_ready [OF sample_engine_river flags _ second [unfolded migrate_sample_def] this]
  show ?thesis using first second by (auto simp: migrate_sample_def)
qed

end
