(* ===== verification/Routing.thy ===== *)
theory Routing
  imports Service_Refs Config
begin

text \<open>
  How a request finds its handler (\<open>NewHandler\<close> in \<open>internal/server/server.go\<close> and the generated
  \<open>hiramev1connect\<close> handlers and clients), and the line that is logged for it
  (\<open>internal/server/logging.go\<close>).  \<open>http.ServeMux\<close> is modelled as far as literal patterns use it;
  a path has no escapes.  What Connect does with a request once a procedure's handler has it
  is the business of the handlers' own theories.
\<close>

section \<open>http.ServeMux\<close>

definition cleanPath :: "string \<Rightarrow> string" where
  "cleanPath p =
     (if p = [] then ''/''
      else let p = (if has_prefix p ''/'' then p else CHR ''/'' # p); np = path_clean p in
           if has_suffix p ''/'' \<and> np \<noteq> ''/'' then np @ ''/'' else np)"

record 'h mux_pattern =
  mx_method :: "string option"
  mx_path :: string
  mx_handler :: 'h

definition method_matches :: "string option \<Rightarrow> string \<Rightarrow> bool" where
  "method_matches m method = (case m of None \<Rightarrow> True | Some x \<Rightarrow> x = method \<or> x = ''GET'' \<and> method = ''HEAD'')"

text \<open>A pattern that ends in a slash matches the subtree.\<close>

definition path_matches :: "string \<Rightarrow> string \<Rightarrow> bool" where
  "path_matches pat path = (if has_suffix pat ''/'' then has_prefix path pat else path = pat)"

text \<open>The most specific match: the longest.\<close>

definition mux_match :: "'h mux_pattern list \<Rightarrow> string \<Rightarrow> string \<Rightarrow> 'h mux_pattern option" where
  "mux_match pats method path =
     first_by (\<lambda>x. - int (length (mx_path x)))
       (\<lambda>x. path_matches (mx_path x) path \<and> method_matches (mx_method x) method) pats"

definition exact_match :: "'h mux_pattern option \<Rightarrow> string \<Rightarrow> bool" where
  "exact_match n path = (case n of None \<Rightarrow> False | Some x \<Rightarrow> mx_path x = path)"

datatype 'h mux_result = MuxHandler 'h | MuxRedirect string | MuxNotFound | MuxMethodNotAllowed

text \<open>\<open>findHandler\<close>, for any method but \<open>CONNECT\<close>.\<close>

definition mux_find :: "'h mux_pattern list \<Rightarrow> string \<Rightarrow> string \<Rightarrow> 'h mux_result" where
  "mux_find pats method raw =
     (let path = cleanPath raw; n = mux_match pats method path in
      if \<not> exact_match n path \<and> \<not> has_suffix path ''/'' \<and>
         exact_match (mux_match pats method (path @ ''/'')) (path @ ''/'')
      then MuxRedirect (path @ ''/'')
      else if path \<noteq> raw then MuxRedirect path
      else case n of
             Some x \<Rightarrow> MuxHandler (mx_handler x)
           | None \<Rightarrow> if list_ex (\<lambda>x. path_matches (mx_path x) path) pats then MuxMethodNotAllowed else MuxNotFound)"

section \<open>The services\<close>

text \<open>The fully qualified procedures.\<close>

datatype procedure = SearchProcedure | GetDocumentProcedure | RenderPageProcedure | GetThumbnailProcedure

definition SearchServiceSearchProcedure :: string where
  "SearchServiceSearchProcedure = ''/hirame.v1.SearchService/Search''"

definition DocumentServiceGetDocumentProcedure :: string where
  "DocumentServiceGetDocumentProcedure = ''/hirame.v1.DocumentService/GetDocument''"

definition RenderServiceRenderPageProcedure :: string where
  "RenderServiceRenderPageProcedure = ''/hirame.v1.RenderService/RenderPage''"

definition ThumbnailServiceGetThumbnailProcedure :: string where
  "ThumbnailServiceGetThumbnailProcedure = ''/hirame.v1.ThumbnailService/GetThumbnail''"

fun procedure_path :: "procedure \<Rightarrow> string" where
  "procedure_path SearchProcedure = SearchServiceSearchProcedure"
| "procedure_path GetDocumentProcedure = DocumentServiceGetDocumentProcedure"
| "procedure_path RenderPageProcedure = RenderServiceRenderPageProcedure"
| "procedure_path GetThumbnailProcedure = ThumbnailServiceGetThumbnailProcedure"

lemmas procedure_defs = SearchServiceSearchProcedure_def DocumentServiceGetDocumentProcedure_def
  RenderServiceRenderPageProcedure_def ThumbnailServiceGetThumbnailProcedure_def

text \<open>A generated handler: where it is mounted and what it makes of a path there.\<close>

type_synonym service_handler = "string \<Rightarrow> procedure option"

definition NewSearchServiceHandler :: "string \<times> service_handler" where
  "NewSearchServiceHandler = (''/hirame.v1.SearchService/'',
     \<lambda>path. if path = SearchServiceSearchProcedure then Some SearchProcedure else None)"

definition NewDocumentServiceHandler :: "string \<times> service_handler" where
  "NewDocumentServiceHandler = (''/hirame.v1.DocumentService/'',
     \<lambda>path. if path = DocumentServiceGetDocumentProcedure then Some GetDocumentProcedure else None)"

definition NewRenderServiceHandler :: "string \<times> service_handler" where
  "NewRenderServiceHandler = (''/hirame.v1.RenderService/'',
     \<lambda>path. if path = RenderServiceRenderPageProcedure then Some RenderPageProcedure else None)"

definition NewThumbnailServiceHandler :: "string \<times> service_handler" where
  "NewThumbnailServiceHandler = (''/hirame.v1.ThumbnailService/'',
     \<lambda>path. if path = ThumbnailServiceGetThumbnailProcedure then Some GetThumbnailProcedure else None)"

lemmas handler_defs = NewSearchServiceHandler_def NewDocumentServiceHandler_def
  NewRenderServiceHandler_def NewThumbnailServiceHandler_def

text \<open>A generated client: the URL its one procedure is called at.\<close>

fun trim_right_slash :: "string \<Rightarrow> string" where
  "trim_right_slash s = rev (dropWhile (\<lambda>c. c = CHR ''/'') (rev s))"

definition NewSearchServiceClient :: "string \<Rightarrow> string" where
  "NewSearchServiceClient baseURL = trim_right_slash baseURL @ SearchServiceSearchProcedure"

definition NewDocumentServiceClient :: "string \<Rightarrow> string" where
  "NewDocumentServiceClient baseURL = trim_right_slash baseURL @ DocumentServiceGetDocumentProcedure"

definition NewRenderServiceClient :: "string \<Rightarrow> string" where
  "NewRenderServiceClient baseURL = trim_right_slash baseURL @ RenderServiceRenderPageProcedure"

definition NewThumbnailServiceClient :: "string \<Rightarrow> string" where
  "NewThumbnailServiceClient baseURL = trim_right_slash baseURL @ ThumbnailServiceGetThumbnailProcedure"

lemmas client_defs = NewSearchServiceClient_def NewDocumentServiceClient_def
  NewRenderServiceClient_def NewThumbnailServiceClient_def

fun client_url :: "procedure \<Rightarrow> string \<Rightarrow> string" where
  "client_url SearchProcedure = NewSearchServiceClient"
| "client_url GetDocumentProcedure = NewDocumentServiceClient"
| "client_url RenderPageProcedure = NewRenderServiceClient"
| "client_url GetThumbnailProcedure = NewThumbnailServiceClient"

section \<open>The root handler\<close>

definition APIPrefix :: string where "APIPrefix = ''/api''"
definition HealthPath :: string where "HealthPath = ''/healthz''"

datatype answer_kind = Rpc procedure | Health | NotFound | MethodNotAllowed | Redirect string

definition handle_pattern :: "string \<Rightarrow> 'h \<Rightarrow> 'h mux_pattern" where
  "handle_pattern path h = \<lparr>mx_method = None, mx_path = path, mx_handler = h\<rparr>"

text \<open>What is mounted, by name: the generated handlers on the inner mux, the two of the root.\<close>

datatype service = SearchService | DocumentService | RenderService | ThumbnailService

fun service_of :: "service \<Rightarrow> string \<times> service_handler" where
  "service_of SearchService = NewSearchServiceHandler"
| "service_of DocumentService = NewDocumentServiceHandler"
| "service_of RenderService = NewRenderServiceHandler"
| "service_of ThumbnailService = NewThumbnailServiceHandler"

definition api_mux :: "service mux_pattern list" where
  "api_mux = map (\<lambda>s. handle_pattern (fst (service_of s)) s)
     [SearchService, DocumentService, RenderService, ThumbnailService]"

definition serve_api :: "string \<Rightarrow> string \<Rightarrow> answer_kind" where
  "serve_api method path = (case mux_find api_mux method path of
      MuxHandler s \<Rightarrow> (case snd (service_of s) path of Some p \<Rightarrow> Rpc p | None \<Rightarrow> NotFound)
    | MuxRedirect u \<Rightarrow> Redirect u
    | MuxNotFound \<Rightarrow> NotFound
    | MuxMethodNotAllowed \<Rightarrow> MethodNotAllowed)"

text \<open>\<open>http.StripPrefix\<close>.\<close>

definition strip_prefix :: "string \<Rightarrow> (string \<Rightarrow> answer_kind) \<Rightarrow> string \<Rightarrow> answer_kind" where
  "strip_prefix pre h path = (if has_prefix path pre then h (drop (length pre) path) else NotFound)"

definition handleHealth :: answer_kind where
  "handleHealth = Health"

datatype root_entry = ApiEntry | HealthEntry

definition root_mux :: "root_entry mux_pattern list" where
  "root_mux = [handle_pattern (APIPrefix @ ''/'') ApiEntry,
     \<lparr>mx_method = Some ''GET'', mx_path = HealthPath, mx_handler = HealthEntry\<rparr>]"

definition NewHandler :: "string \<Rightarrow> string \<Rightarrow> answer_kind" where
  "NewHandler method path = (case mux_find root_mux method path of
      MuxHandler ApiEntry \<Rightarrow> strip_prefix APIPrefix (serve_api method) path
    | MuxHandler HealthEntry \<Rightarrow> handleHealth
    | MuxRedirect u \<Rightarrow> Redirect u
    | MuxNotFound \<Rightarrow> NotFound
    | MuxMethodNotAllowed \<Rightarrow> MethodNotAllowed)"

section \<open>Facts\<close>

lemma mux_find_handler:
  "mux_find pats method raw = MuxHandler h \<Longrightarrow>
     cleanPath raw = raw \<and> (\<exists>x \<in> set pats. mx_handler x = h \<and> method_matches (mx_method x) method \<and> path_matches (mx_path x) raw)"
  by (fastforce simp: mux_find_def Let_def mux_match_def split: if_splits option.splits dest: first_by_Some)

lemma serve_api_Rpc:
  assumes "serve_api method path = Rpc p"
  shows "path = procedure_path p"
proof -
  from assms obtain s where "snd (service_of s) path = Some p"
    by (auto simp: serve_api_def split: mux_result.splits option.splits)
  then show ?thesis by (cases s) (auto simp: handler_defs split: if_splits)
qed

lemma has_prefix_drop: "has_prefix s p \<Longrightarrow> p @ drop (length p) s = s"
  unfolding has_prefix_def by (metis append_take_drop_id)

lemma NewHandler_Rpc:
  assumes "NewHandler method path = Rpc p"
  shows "path = APIPrefix @ procedure_path p"
proof -
  from assms have "has_prefix path APIPrefix" "serve_api method (drop (length APIPrefix) path) = Rpc p"
    by (auto simp: NewHandler_def strip_prefix_def handleHealth_def split: mux_result.splits root_entry.splits if_splits)
  with serve_api_Rpc has_prefix_drop show ?thesis by metis
qed

lemma NewHandler_Health:
  assumes "NewHandler method path = Health"
  shows "path = HealthPath \<and> method \<in> {''GET'', ''HEAD''}"
proof -
  have "serve_api m x \<noteq> Health" for m x
    by (auto simp: serve_api_def split: mux_result.splits option.splits)
  with assms have "mux_find root_mux method path = MuxHandler HealthEntry"
    by (auto simp: NewHandler_def strip_prefix_def split: mux_result.splits root_entry.splits if_splits)
  from mux_find_handler [OF this] show ?thesis
    by (auto simp: root_mux_def handle_pattern_def method_matches_def path_matches_def HealthPath_def has_suffix_def)
qed

lemma routes_forward: "NewHandler method (APIPrefix @ procedure_path p) = Rpc p"
  by (cases p; hypsubst; code_simp)

lemma health_routes:
  "NewHandler ''GET'' HealthPath = Health" "NewHandler ''HEAD'' HealthPath = Health"
  by code_simp+

lemma dropWhile_replicate: "dropWhile (\<lambda>c. c = x) (replicate n x @ ys) = dropWhile (\<lambda>c. c = x) ys"
  by (induction n) simp_all

lemma trim_right_slash_api: "trim_right_slash (APIPrefix @ replicate n (CHR ''/'')) = APIPrefix"
  by (simp add: APIPrefix_def dropWhile_replicate)

lemma client_reaches: "client_url p (APIPrefix @ replicate n (CHR ''/'')) = APIPrefix @ procedure_path p"
  by (cases p) (simp_all add: client_defs trim_right_slash_api del: trim_right_slash.simps)

text \<open>
  C40: A client reaches the procedure it calls, and nothing else is one.  The URL a generated
  client builds from the API's prefix, with or without trailing slashes, is served by the
  handler of the same procedure, whatever the method; no other path of the server is; and the
  health answer is given for \<open>GET\<close> and \<open>HEAD\<close> of \<open>/healthz\<close> alone, outside the prefix.
\<close>

theorem client_reaches_procedure:
  "NewHandler method (client_url p (APIPrefix @ replicate n (CHR ''/''))) = Rpc p \<and>
   {path. NewHandler method path = Rpc p} = {APIPrefix @ procedure_path p} \<and>
   {(m, path). NewHandler m path = Health} = {(''GET'', HealthPath), (''HEAD'', HealthPath)}"
  using NewHandler_Rpc [of _ _ p] NewHandler_Health health_routes
  by (auto simp: client_reaches routes_forward)

text \<open>
  The root of a mounted service without its slash is redirected out of the API: the inner
  mux sees the path without the prefix and redirects to it without the prefix, where nothing is
  mounted.
\<close>

theorem service_root_redirect_loses_prefix:
  "NewHandler method ''/api/hirame.v1.SearchService'' = Redirect ''/hirame.v1.SearchService/'' \<and>
   NewHandler method ''/hirame.v1.SearchService/'' = NotFound"
  by code_simp

section \<open>Logging\<close>

datatype log_level = LogInfo | LogWarn

record log_line =
  lg_level :: log_level
  lg_procedure :: procedure
  lg_code :: string

fun code_string :: "code \<Rightarrow> string" where
  "code_string CodeInvalidArgument = ''invalid_argument''"
| "code_string CodeNotFound = ''not_found''"
| "code_string CodeFailedPrecondition = ''failed_precondition''"
| "code_string CodeOutOfRange = ''out_of_range''"
| "code_string CodeResourceExhausted = ''resource_exhausted''"
| "code_string CodeUnavailable = ''unavailable''"
| "code_string CodeDeadlineExceeded = ''deadline_exceeded''"
| "code_string CodeCanceled = ''canceled''"
| "code_string CodeInternal = ''internal''"

text \<open>\<open>connect.CodeOf\<close>: the code of a Connect error, and \<open>unknown\<close> for anything else, \<open>nil\<close> included.\<close>

definition CodeOf :: "code option \<Rightarrow> string" where
  "CodeOf e = (case e of None \<Rightarrow> ''unknown'' | Some c \<Rightarrow> code_string c)"

definition log_call :: "procedure \<Rightarrow> code option \<Rightarrow> log_line" where
  "log_call p e = \<lparr>lg_level = (if e = None then LogInfo else LogWarn), lg_procedure = p, lg_code = CodeOf e\<rparr>"

text \<open>The two interceptors: the result of the call, untouched, and its line.\<close>

definition WrapUnary :: "procedure \<Rightarrow> 'a handler \<Rightarrow> world \<Rightarrow> ((code + 'a) \<times> world) \<times> log_line" where
  "WrapUnary p next w = (case next w of (r, w') \<Rightarrow>
     ((r, w'), log_call p (case r of Inl c \<Rightarrow> Some c | Inr _ \<Rightarrow> None)))"

definition WrapStreamingHandler :: "procedure \<Rightarrow> ('s \<Rightarrow> code option \<times> 's) \<Rightarrow> 's \<Rightarrow> (code option \<times> 's) \<times> log_line" where
  "WrapStreamingHandler p next s = (case next s of (e, s') \<Rightarrow> ((e, s'), log_call p e))"

definition WrapStreamingClient :: "'f \<Rightarrow> 'f" where
  "WrapStreamingClient next = next"

text \<open>Whatever is logged, the caller sees the call as it went; and a call that succeeded is logged as \<open>unknown\<close>.\<close>

theorem interceptors_transparent:
  "fst (WrapUnary p h w) = h w \<and> fst (WrapStreamingHandler p k s) = k s \<and>
   (fst (k s) = None \<longrightarrow> lg_code (snd (WrapStreamingHandler p k s)) = ''unknown'' \<and>
      lg_level (snd (WrapStreamingHandler p k s)) = LogInfo)"
  by (auto simp: WrapUnary_def WrapStreamingHandler_def log_call_def CodeOf_def split: prod.splits)

end
