(* ===== verification/Spec2Isabelle.thy ===== *)
theory Spec2Isabelle
  imports Migrate_Correct Process_Run Job_Queue Watcher Commands Routing
begin

text \<open>
  Verification of the search API of hirame (\<open>apps/search-api/internal\<close>), a document search
  system over PostgreSQL: the indexer that turns a watcher daemon's event stream into documents
  and their content, the jobs of its queue, the API that searches and shows documents, the
  migrations both rely on, and the three commands that run them.

  How the parts interact.  \<open>ingest/reconciler.go\<close> applies each event of the stream to the
  observations and documents in one transaction, and rescans whole roots; with the rows it
  commits requests for ingest jobs.  \<open>ingest/processor.go\<close> hashes an observed file and promotes
  its document to the content version of its bytes, requesting extraction and the invalidation of
  the version it left.  \<open>jobs/workers.go\<close> extracts text through \<open>tika/tika.go\<close>;
  \<open>jobs/cache_workers.go\<close> withdraws thumbnails and deletes their objects through
  \<open>objstore/objstore.go\<close>.  \<open>service\<close> answers searches, documents, pages and thumbnails, the last
  two through the renderer behind \<open>gahakuclient\<close>.  All share the tables of \<open>store/sqlcgen\<close>,
  whose constraints \<open>store/migrations\<close> declares and \<open>store/migrate.go\<close> installs.

  Foundations.
  \<^item> \<open>Prelude\<close>: keyed tables as lists of rows, partial unique indexes, row-by-row key updates.
  \<^item> \<open>GoText\<close>, \<open>GoNumbers\<close>, \<open>Doctype\<close>: the Go string, path and number functions the code uses,
    decoded JSON; the filter of \<open>doctype/doctype.go\<close>.
  \<^item> \<open>Database\<close>: one record per table row, the database as a record of tables, the
    constraints of the migrations (\<open>db_ok\<close>).
  \<^item> \<open>World\<close>: statements and transactions over a script of faults and concurrent commits.
  \<^item> \<open>Contract\<close>: invariants under such scripts (\<open>keeps\<close>), atomicity, and runs that no fault
    reaches (\<open>faithful\<close>).

  Ingestion.
  \<^item> \<open>Filesystem_Queries\<close>, \<open>Document_Queries\<close>: the SQL statements; \<open>Schema_Invariant\<close>: each
    keeps the constraints.
  \<^item> \<open>Jobs\<close>, \<open>PgStore\<close>: the enqueuer and the methods of \<open>pgTx\<close>.
  \<^item> \<open>Tx_Contract\<close>: the contract of the \<open>Tx\<close> interface as locales; \<open>Tx_Invariants\<close>: their
    interpretations on the statements of this program.
  \<^item> \<open>Reconciler\<close>: the handlers, the rescan and the retry loop; \<open>Reconciler_Contract\<close>: what
    they keep; \<open>Tx_Run\<close>, \<open>Reconciler_Effects\<close>, \<open>Rescan\<close>: what they do to the tables;
    \<open>Sample\<close>: a small deployment for the witnesses; \<open>Reconciler_Correct\<close>,
    \<open>Rescan_Correct\<close>: replay, renames, mark and sweep, the watermark.
  \<^item> \<open>Processor\<close>: hashing and promotion; \<open>Processor_Effects\<close>: what each step of a promotion does
    to the tables; \<open>Processor_Correct\<close>: a promotion settles or leaves no trace.
  \<^item> \<open>Indexer\<close>: registering the configured roots (\<open>indexer/indexer.go\<close>), and their identifiers
    across restarts.
  \<^item> \<open>Extract_Worker\<close>: the Tika client and the extraction job; \<open>Extract_Correct\<close>: nothing
    truncated is taken for a document, every end is recorded, and whose text is stored.

  The thumbnail cache.
  \<^item> \<open>Thumbnail_Queries\<close>, \<open>Object_Store\<close>, \<open>Cache_Workers\<close>: the accounting statements, the object
    store client and the four workers; the object store a worker deletes from is a locale,
    interpreted on the client over a bucket.
  \<^item> \<open>Cache_Effects\<close>, \<open>Cache_Limits\<close>: what a drain and an eviction leave; \<open>Cache_Correct\<close>,
    \<open>Cache_Policy\<close>: no row goes before its object, limits, orphans.
  \<^item> \<open>Thumbnail_Service\<close>: the read-through handler; \<open>Thumbnail_Effects\<close>, \<open>Thumbnail_Correct\<close>: what
    was rendered once is served from then on; stale references are refused.
  \<^item> \<open>Cache_System\<close>: requests and jobs taking turns, as a step relation with its invariant.
  \<^item> \<open>Render_Party\<close>: callers sharing one render, as a step relation: joining, leaving, the
    cancellation and the shared call.
  \<^item> \<open>Render_Limit\<close>: the two caps on concurrent renders, over the documented semaphore as a
    locale: both kinds of render as one step relation, and the accounting of their slots.

  The API.
  \<^item> \<open>Image_Spec\<close>, \<open>Service_Refs\<close>: image sizes and cache keys, references and messages;
    \<open>Gahaku_Client\<close>, \<open>Render_Service\<close>: full-size pages and their frames.
  \<^item> \<open>Search_Service\<close>: page tokens, the search statements, the handler, snippets;
    \<open>Search_Correct\<close>: round trips, paging, the count, what splitting does to an excerpt.
  \<^item> \<open>Routing\<close>: the two muxes of \<open>server/server.go\<close>, where the generated handlers and clients
    put each procedure, the logging interceptor; each call reaches its procedure.
  \<^item> \<open>Whole_System\<close>: all components taking turns keep the schema; a hit leads to its document.
  \<^item> \<open>Pipeline\<close>: which worker runs which job, and the way of a file from the event that reports it
    through both jobs to the search that finds it; \<open>Converge\<close>: ingest jobs in any order, with
    failures and retries, settle every observed file, and keep it settled.
  \<^item> \<open>Catch_Up\<close>: a rescan and the jobs it queued settle every file the walk reported.
  \<^item> \<open>Job_Queue\<close>: the two ingest triggers and the uniqueness window (\<open>jobs/jobs.go\<close>) on a
    queue that behaves as River documents it, as a step relation with its invariant; a write
    reaches a job, and the replaced file that none reads.

  Processes.
  \<^item> \<open>Config\<close>: the settings with their variables, defaults and requirements
    (\<open>config/config.go\<close>); what the tag-reading library documents is a locale.
  \<^item> \<open>Clients\<close>: how Tika, the renderer, the object store, the watcher and the pool are built
    from their settings; presigned URLs.  \<open>Watcher\<close>: the adapter through which the reconciler sees
    the daemon's client (\<open>ingest/watcher.go\<close>), and a round that finds no daemon.
  \<^item> \<open>Process_Run\<close>: \<open>Indexer.Run\<close>, \<open>API.Run\<close> and the HTTP server as the list of what they do to
    the resources they own; every run is orderly, and its parts are wired together.

  Migrations.
  \<^item> \<open>Migrate\<close>: the embedded files, the runner and its report; \<open>Migrate_Correct\<close>: a well-formed
    list, runs that are interrupted and resumed, the dry run.
  \<^item> \<open>Commands\<close>: the migration command from its flags to its exit status, and the readiness
    check it gives a deployment.

  Bounds and fuel.  Go's \<open>uint32\<close> and \<open>uint64\<close> are words where the code computes with them; an
  \<open>int64\<close> that is only stored and compared is an \<open>int\<close>, and a narrowing conversion is written
  out.  Loops over rows, reads, events and reconnections recurse on what is left to process, so
  they need no fuel; the batch loops of the cache workers recurse while a batch made progress,
  and their termination is proved.  \<open>promoteAttempts\<close> is the code's own bound.  The client
  \<open>follow\<close> of the paging property takes a number of requests, which the property shows to be
  enough when it exceeds the number of results.

  Parameters.  SHA-256, NFKC, content sniffing, Unicode case tables, JSON decoding, the operators
  of pg_search, the SQL of migrations, River's migrations, the S3 gateway and its signer, the
  Tika server, the renderer, the watcher daemon, the reader of struct tags, the semaphore and the
  answers of the services a process starts with are arguments of the definitions that use them.
  What the properties rely on of them is stated as a hypothesis each (\<open>reads_tokens\<close>,
  \<open>river_laws\<close>, \<open>inserts_unique\<close>, \<open>env_library\<close>, \<open>weighted\<close>, the laws of the object store) and met by a concrete
  instance in the witness.

  Not modelled.  What log lines say beyond the level and code of a request's; the passing of
  time (time-outs and back-off delays are events a script decides); the bodies of third-party
  packages (River, pgx, gRPC, Connect's encoding, \<open>net/http\<close> beyond its mux); the handle of
  the generated statements (\<open>store/sqlcgen/db.go\<close>), which holds nothing to get wrong; the
  generated message descriptors (\<open>gen/hirame/v1/*.pb.go\<close>) and the \<open>Unimplemented\<close> handlers, which nothing uses;
  the fake daemon of the deployment tests; the web front end, in another language.
\<close>

end
